(* ===== verification/Prelude.thy ===== *)
theory Prelude
  imports Complex_Main "HOL-Library.Word" "HOL-Library.List_Lexorder" "HOL-Library.Char_ord"
begin

text \<open>
  Shared vocabulary: Rust's integer types as words, the casts between them and the database's
  \<open>BIGINT\<close>, the results of fallible code, the list idioms of the sources (\<open>retain\<close>, \<open>dedup\<close>,
  SQL's \<open>COALESCE(MAX(..), 0)\<close>) with their lemmas, and the fact collections the components use.
  Rust strings are their UTF-8 bytes, so \<open>len()\<close> is the length of the list and string
  comparison is the lexicographic order of \<open>HOL-Library.List_Lexorder\<close>.
\<close>

unbundle bit_operations_syntax

type_synonym u8 = "8 word"
type_synonym u16 = "16 word"
type_synonym u32 = "32 word"
type_synonym u64 = "64 word"

text \<open>Rust's \<open>?\<close> on a \<open>Result\<close>: stop at the first error.\<close>

fun bindr :: "'e + 'a \<Rightarrow> ('a \<Rightarrow> 'e + 'b) \<Rightarrow> 'e + 'b" where
  "bindr (Inl e) f = Inl e"
| "bindr (Inr a) f = f a"

lemma bindr_Inr_iff: "bindr r f = Inr y \<longleftrightarrow> (\<exists>a. r = Inr a \<and> f a = Inr y)"
  by (cases r) auto

lemma bindr_cong [fundef_cong]: "r = r' \<Longrightarrow> (\<And>a. r' = Inr a \<Longrightarrow> f a = g a) \<Longrightarrow> bindr r f = bindr r' g"
  by (cases r') auto

named_theorems results_simps \<open>case distinctions on option and sum results\<close>
named_theorems ink_simps \<open>tombstones and surviving strokes\<close>
named_theorems hub_simps \<open>what the hub's operations send and leave alone\<close>
named_theorems server_simps \<open>what a handler leaves alone\<close>
named_theorems store_simps \<open>table lookups and updates\<close>

declare bindr_Inr_iff [results_simps]

lemma map_option_Some_iff [results_simps]: "map_option f x = Some y \<longleftrightarrow> (\<exists>z. x = Some z \<and> y = f z)"
  by (cases x) auto

lemma case_sum_Inr_iff [results_simps]: "(case x of Inl e \<Rightarrow> Inl e | Inr a \<Rightarrow> f a) = Inr y \<longleftrightarrow>
    (\<exists>a. x = Inr a \<and> f a = Inr y)"
  by (cases x) auto

lemma case_option_Some_iff [results_simps]: "(case x of None \<Rightarrow> None | Some a \<Rightarrow> f a) = Some y \<longleftrightarrow>
    (\<exists>a. x = Some a \<and> f a = Some y)"
  by (cases x) auto

subsection \<open>Casts\<close>

text \<open>Rust's \<open>as u64\<close> and \<open>as i64\<close>: two's complement, and the range of \<open>BIGINT\<close>.\<close>

definition as_u64 :: "int \<Rightarrow> u64" where
  "as_u64 n = word_of_int n"

definition as_i64 :: "u64 \<Rightarrow> int" where
  "as_i64 w = sint w"

definition i64_max :: int where
  "i64_max = 9223372036854775807"

text \<open>Addition on \<open>i64\<close> in a release build wraps.\<close>

definition wrap_i64 :: "int \<Rightarrow> int" where
  "wrap_i64 n = (n + 2 ^ 63) mod 2 ^ 64 - 2 ^ 63"

lemma wrap_i64_id: "- (2 ^ 63) \<le> n \<Longrightarrow> n \<le> i64_max \<Longrightarrow> wrap_i64 n = n"
  by (simp add: wrap_i64_def i64_max_def)

lemma uint_as_u64: "0 \<le> n \<Longrightarrow> n \<le> i64_max \<Longrightarrow> uint (as_u64 n) = n"
  by (simp add: as_u64_def uint_word_of_int i64_max_def)

lemma as_u64_inject:
  "0 \<le> m \<Longrightarrow> m \<le> i64_max \<Longrightarrow> 0 \<le> n \<Longrightarrow> n \<le> i64_max \<Longrightarrow> as_u64 m = as_u64 n \<longleftrightarrow> m = n"
  by (metis uint_as_u64)

lemma as_u64_less_iff:
  "0 \<le> m \<Longrightarrow> m \<le> i64_max \<Longrightarrow> 0 \<le> n \<Longrightarrow> n \<le> i64_max \<Longrightarrow> as_u64 m < as_u64 n \<longleftrightarrow> m < n"
  by (simp add: word_less_def uint_as_u64)

lemma as_u64_le_iff:
  "0 \<le> m \<Longrightarrow> m \<le> i64_max \<Longrightarrow> 0 \<le> n \<Longrightarrow> n \<le> i64_max \<Longrightarrow> as_u64 m \<le> as_u64 n \<longleftrightarrow> m \<le> n"
  by (simp add: word_le_def uint_as_u64)

lemma as_i64_as_u64: "0 \<le> n \<Longrightarrow> n \<le> i64_max \<Longrightarrow> as_i64 (as_u64 n) = n"
  by (simp add: as_i64_def as_u64_def i64_max_def sint_word_ariths signed_take_bit_eq_if_positive
      take_bit_eq_mod sint_sbintrunc' signed_take_bit_int_eq_self)

lemma as_i64_bounds: "- (2 ^ 63) \<le> as_i64 w" "as_i64 w \<le> i64_max"
  using sint_ge [of w] sint_lt [of w] by (simp_all add: as_i64_def i64_max_def)

lemma as_i64_uint: "uint w \<le> i64_max \<Longrightarrow> as_i64 w = uint w"
  using as_i64_as_u64 [of "uint w"] by (simp add: as_u64_def)

subsection \<open>Lists\<close>

text \<open>SQL's \<open>COALESCE(MAX(..), 0)\<close>.\<close>

definition max_or_0 :: "int list \<Rightarrow> int" where
  "max_or_0 xs = (if xs = [] then 0 else Max (set xs))"

lemma max_or_0_Nil [simp]: "max_or_0 [] = 0"
  by (simp add: max_or_0_def)

lemma max_or_0_ge: "x \<in> set xs \<Longrightarrow> x \<le> max_or_0 xs"
  by (auto simp: max_or_0_def)

lemma max_or_0_in: "xs \<noteq> [] \<Longrightarrow> max_or_0 xs \<in> set xs"
  using Max_in [of "set xs"] by (simp add: max_or_0_def)

lemma max_or_0_nonneg: "(\<And>x. x \<in> set xs \<Longrightarrow> 0 \<le> x) \<Longrightarrow> 0 \<le> max_or_0 xs"
  using max_or_0_in [of xs] by (cases "xs = []") auto

lemma max_or_0_snoc:
  "(\<And>x. x \<in> set xs \<Longrightarrow> x \<le> m) \<Longrightarrow> max_or_0 (xs @ [m]) = m"
  by (auto simp: max_or_0_def intro!: Max_eqI)

text \<open>Rust's \<open>sort\<close> then \<open>dedup\<close>: strictly ascending, the same elements.\<close>

lemma sort_dedup_set [simp]: "set (remdups_adj (sort xs)) = set xs"
  by simp

lemma sort_dedup_distinct [simp]: "distinct (remdups_adj (sort (xs :: 'a::linorder list)))"
proof -
  have "sorted_wrt (<) (remdups_adj ys)" if "sorted ys" for ys :: "'a list"
    using that
    by (induction ys rule: remdups_adj.induct) (auto simp: less_le)
  then show ?thesis using strict_sorted_iff [of "remdups_adj (sort xs)"] by simp
qed

lemma find_append: "List.find P (xs @ ys) = (case List.find P xs of None \<Rightarrow> List.find P ys | Some x \<Rightarrow> Some x)"
  by (induction xs) auto

end
