(* ===== verification/Floats.thy ===== *)
theory Floats
  imports Complex_Main
begin

text \<open>
  IEEE 754 binary arithmetic for Rust's \<open>f64\<close> and \<open>f32\<close>: finite values are the rationals they
  denote, every operation rounds to the nearest representable value (ties to even), overflow is
  an infinity, and the comparisons are false on NaN. The sign of a zero is not kept: the only
  operation of the sources it could change is a division by zero, and they divide by none.
\<close>

datatype fp = Fin rat | PInf | NInf | NaN

record fpformat =
  fmt_prec :: nat
  fmt_emin :: int
  fmt_emax :: int

definition f64 :: fpformat where
  "f64 = \<lparr>fmt_prec = 53, fmt_emin = -1074, fmt_emax = 1024\<rparr>"

definition f32 :: fpformat where
  "f32 = \<lparr>fmt_prec = 24, fmt_emin = -149, fmt_emax = 128\<rparr>"

subsection \<open>Rounding a rational\<close>

fun bit_count :: "nat \<Rightarrow> nat" where
  "bit_count n = (if n = 0 then 0 else Suc (bit_count (n div 2)))"

declare bit_count.simps [simp del]

lemma bit_count_0 [simp]: "bit_count 0 = 0"
  by (simp add: bit_count.simps)

lemma bit_count_bounds: "0 < n \<Longrightarrow> 2 ^ bit_count n \<le> 2 * n \<and> n < 2 ^ bit_count n"
proof (induction n rule: bit_count.induct)
  case (1 n)
  show ?case
  proof (cases "n div 2 = 0")
    case True
    with "1.prems" have "n = Suc 0" by auto
    then show ?thesis by (simp add: bit_count.simps [of "Suc 0"])
  next
    case False
    with 1 have "2 ^ bit_count (n div 2) \<le> 2 * (n div 2) \<and> n div 2 < 2 ^ bit_count (n div 2)"
      by auto
    with "1.prems" show ?thesis by (auto simp: bit_count.simps [of n])
  qed
qed

definition pow2 :: "int \<Rightarrow> rat" where
  "pow2 e = (if 0 \<le> e then 2 ^ nat e else 1 / 2 ^ nat (- e))"

lemma pow2_powi: "pow2 e = 2 powi e"
  by (simp add: pow2_def power_int_def field_simps)

lemma pow2_pos [simp]: "0 < pow2 e"
  by (simp add: pow2_def)

lemma pow2_nonzero [simp]: "pow2 e \<noteq> 0"
  using pow2_pos [of e] by linarith

lemma pow2_0 [simp]: "pow2 0 = 1"
  by (simp add: pow2_def)

lemma pow2_1: "pow2 1 = 2"
  by (simp add: pow2_def)

lemma pow2_add: "pow2 (a + b) = pow2 a * pow2 b"
  by (simp add: pow2_powi power_int_add)

lemma pow2_diff: "pow2 (a - b) = pow2 a / pow2 b"
  by (simp add: pow2_powi power_int_diff)

lemma pow2_Suc: "pow2 (a + 1) = 2 * pow2 a"
  by (simp add: pow2_add pow2_1)

lemma pow2_nat: "pow2 (int n) = 2 ^ n"
  by (simp add: pow2_def)

lemma pow2_mono: "a \<le> b \<Longrightarrow> pow2 a \<le> pow2 b"
  by (simp add: pow2_powi power_int_increasing)

lemma pow2_less_imp: "pow2 a < pow2 b \<Longrightarrow> a < b"
  using pow2_mono [of b a] by linarith

text \<open>The exponent of a positive rational: the \<open>e\<close> with \<open>2 ^ e \<le> x < 2 ^ (e + 1)\<close>.\<close>

definition ilog2 :: "rat \<Rightarrow> int" where
  "ilog2 x = (case quotient_of x of (p, q) \<Rightarrow>
     let e = int (bit_count (nat p)) - int (bit_count (nat q))
     in if pow2 e \<le> x then e else e - 1)"

lemma ilog2_bounds:
  assumes "0 < x"
  shows "pow2 (ilog2 x) \<le> x" and "x < pow2 (ilog2 x + 1)"
proof -
  obtain p q where pq: "quotient_of x = (p, q)" by fastforce
  then have q: "0 < q" by (rule quotient_of_denom_pos)
  from pq have x: "x = of_int p / of_int q" by (rule quotient_of_div)
  with assms q have p: "0 < p" by (simp add: zero_less_divide_iff)
  define bp bq where "bp = bit_count (nat p)" and "bq = bit_count (nat q)"
  have P: "2 ^ bp \<le> 2 * p" "p < 2 ^ bp" and Q: "2 ^ bq \<le> 2 * q" "q < 2 ^ bq"
    using bit_count_bounds [of "nat p"] bit_count_bounds [of "nat q"] p q
    unfolding bp_def bq_def by (auto simp: nat_le_iff zle_int [symmetric] zless_nat_eq_int_zless)
  have P': "(2::rat) ^ bp \<le> 2 * of_int p" "of_int p < (2::rat) ^ bp"
    using P by (metis (mono_tags) of_int_le_iff of_int_less_iff of_int_mult of_int_numeral of_int_power)+
  have Q': "(2::rat) ^ bq \<le> 2 * of_int q" "of_int q < (2::rat) ^ bq"
    using Q by (metis (mono_tags) of_int_le_iff of_int_less_iff of_int_mult of_int_numeral of_int_power)+
  define e where "e = int bp - int bq"
  have pe: "pow2 e = 2 ^ bp / 2 ^ bq"
    by (simp add: e_def pow2_diff pow2_nat)
  have hi: "x < pow2 (e + 1)"
  proof -
    have "of_int p * (2::rat) ^ bq < 2 ^ bp * (2 * of_int q)"
      by (rule mult_less_le_imp_less) (use P' Q' p q in auto)
    then show ?thesis using q unfolding x pow2_Suc pe by (simp add: field_simps)
  qed
  have lo: "pow2 (e - 1) \<le> x"
  proof -
    have "(2::rat) ^ bp * of_int q \<le> 2 * of_int p * 2 ^ bq"
      by (rule mult_mono) (use P' Q' p q in auto)
    then show ?thesis using q unfolding x pow2_diff [of e 1] pe pow2_1 by (simp add: field_simps)
  qed
  have il: "ilog2 x = (if pow2 e \<le> x then e else e - 1)"
    by (simp add: ilog2_def pq e_def bp_def bq_def)
  show "pow2 (ilog2 x) \<le> x" using il lo by auto
  show "x < pow2 (ilog2 x + 1)" using il hi by (auto split: if_splits)
qed

lemma ilog2_mono: "0 < x \<Longrightarrow> x \<le> y \<Longrightarrow> ilog2 x \<le> ilog2 y"
proof -
  assume "0 < x" "x \<le> y"
  then have "pow2 (ilog2 x) < pow2 (ilog2 y + 1)"
    using ilog2_bounds [of x] ilog2_bounds [of y] by linarith
  then show ?thesis using pow2_less_imp by fastforce
qed

text \<open>Rounding to the nearest integer, ties to even.\<close>

definition round_even :: "rat \<Rightarrow> int" where
  "round_even x = (let n = \<lfloor>x\<rfloor>; d = x - of_int n in
     if d < 1 / 2 then n else if 1 / 2 < d then n + 1 else if even n then n else n + 1)"

lemma round_even_of_int [simp]: "round_even (of_int n) = n"
  by (simp add: round_even_def)

lemma round_even_bounds: "\<lfloor>x\<rfloor> \<le> round_even x" "round_even x \<le> \<lfloor>x\<rfloor> + 1"
  by (auto simp: round_even_def Let_def)

lemma round_even_mono:
  assumes "x \<le> y" shows "round_even x \<le> round_even y"
proof (cases "\<lfloor>x\<rfloor> = \<lfloor>y\<rfloor>")
  case True
  with assms show ?thesis by (auto simp: round_even_def Let_def)
next
  case False
  from assms have "\<lfloor>x\<rfloor> \<le> \<lfloor>y\<rfloor>" by (rule floor_mono)
  with False have "\<lfloor>x\<rfloor> + 1 \<le> \<lfloor>y\<rfloor>" by linarith
  with round_even_bounds [of x] round_even_bounds [of y] show ?thesis by linarith
qed

text \<open>The spacing of the representable values around \<open>x\<close>, and rounding to it.\<close>

definition ulp :: "fpformat \<Rightarrow> rat \<Rightarrow> rat" where
  "ulp F x = pow2 (max (ilog2 \<bar>x\<bar> - int (fmt_prec F) + 1) (fmt_emin F))"

definition round_abs :: "fpformat \<Rightarrow> rat \<Rightarrow> rat" where
  "round_abs F x = (if x = 0 then 0 else of_int (round_even (x / ulp F x)) * ulp F x)"

definition round_rat :: "fpformat \<Rightarrow> rat \<Rightarrow> rat" where
  "round_rat F x = (if x < 0 then - round_abs F (- x) else round_abs F x)"

definition fround :: "fpformat \<Rightarrow> rat \<Rightarrow> fp" where
  "fround F x = (let y = round_rat F x in
     if pow2 (fmt_emax F) \<le> y then PInf else if y \<le> - pow2 (fmt_emax F) then NInf else Fin y)"

definition representable :: "fpformat \<Rightarrow> rat \<Rightarrow> bool" where
  "representable F x \<longleftrightarrow> (\<exists>m k. x = of_int m * pow2 k \<and> \<bar>m\<bar> < 2 ^ fmt_prec F \<and> fmt_emin F \<le> k)"


lemma ulp_pos [simp]: "0 < ulp F x"
  by (simp add: ulp_def)

lemma round_abs_0 [simp]: "round_abs F 0 = 0"
  by (simp add: round_abs_def)

lemma round_rat_0 [simp]: "round_rat F 0 = 0"
  by (simp add: round_rat_def)


lemma ulp_multiple:
  assumes x: "0 < x" "x = of_int m * pow2 k" "\<bar>m\<bar> < 2 ^ fmt_prec F" "fmt_emin F \<le> k"
  shows "\<exists>n. x = of_int n * ulp F x"
proof -
  define e where "e = max (ilog2 x - int (fmt_prec F) + 1) (fmt_emin F)"
  have ulp: "ulp F x = pow2 e" using x(1) by (simp add: ulp_def e_def)
  have "(of_int m :: rat) < of_int (2 ^ fmt_prec F)"
    using x(3) by (subst of_int_less_iff) auto
  then have m: "of_int m < (2::rat) ^ fmt_prec F" by simp
  have "pow2 (ilog2 x) \<le> of_int m * pow2 k" using ilog2_bounds [OF x(1)] x(2) by simp
  also have "\<dots> < pow2 (int (fmt_prec F) + k)"
    using m by (simp add: pow2_add pow2_nat mult_strict_right_mono)
  finally have "ilog2 x < int (fmt_prec F) + k" by (rule pow2_less_imp)
  with x(4) have ek: "e \<le> k" by (simp add: e_def)
  have "x = of_int (m * 2 ^ nat (k - e)) * pow2 e"
    using ek by (simp add: x(2) pow2_nat [symmetric] pow2_add [symmetric] mult.assoc)
  with ulp show ?thesis by metis
qed

text \<open>A representable value is its own rounding.\<close>

lemma representable_minus: "representable F x \<Longrightarrow> representable F (- x)"
  unfolding representable_def by (metis abs_minus_cancel minus_mult_left of_int_minus)

lemma round_abs_exact:
  assumes "0 \<le> x" and "representable F x"
  shows "round_abs F x = x"
proof (cases "x = 0")
  case False
  with assms obtain n where n: "x = of_int n * ulp F x"
    using ulp_multiple unfolding representable_def by (metis less_eq_rat_def)
  then have "x / ulp F x = of_int n" using ulp_pos [of F x] by (metis less_irrefl nonzero_mult_div_cancel_right)
  then have "round_abs F x = of_int n * ulp F x" by (simp add: round_abs_def False)
  with n show ?thesis by simp
qed simp

lemma round_rat_exact: "representable F x \<Longrightarrow> round_rat F x = x"
  using round_abs_exact [of x F] round_abs_exact [of "- x" F] representable_minus [of F x]
  by (simp add: round_rat_def)

text \<open>Rounding is monotone.\<close>

lemma ulp_mono: "0 < x \<Longrightarrow> x \<le> y \<Longrightarrow> ulp F x \<le> ulp F y"
  using ilog2_mono [of x y] by (auto simp: ulp_def intro!: pow2_mono)

lemma round_abs_nonneg: "0 \<le> x \<Longrightarrow> 0 \<le> round_abs F x"
proof -
  assume "0 \<le> x"
  then have "0 \<le> x / ulp F x" using ulp_pos [of F x] by (simp add: less_imp_le)
  then have "round_even 0 \<le> round_even (x / ulp F x)" by (rule round_even_mono)
  then have "0 \<le> round_even (x / ulp F x)" using round_even_of_int [of 0] by simp
  then show ?thesis using ulp_pos [of F x] by (simp add: round_abs_def less_imp_le)
qed

lemma round_abs_mono:
  assumes "0 \<le> x" "x \<le> y" and P: "0 < fmt_prec F"
  shows "round_abs F x \<le> round_abs F y"
proof (cases "x = 0")
  case True
  with round_abs_nonneg [of y F] assms show ?thesis by simp
next
  case False
  with assms have x: "0 < x" and y: "0 < y" by auto
  have ra: "round_abs F z = of_int (round_even (z / ulp F z)) * ulp F z" if "0 < z" for z
    using that by (simp add: round_abs_def)
  show ?thesis
  proof (cases "ulp F x = ulp F y")
    case True
    have "x / ulp F y \<le> y / ulp F y" using assms(2) by (simp add: divide_right_mono less_imp_le)
    then have "round_even (x / ulp F y) \<le> round_even (y / ulp F y)" by (rule round_even_mono)
    with True show ?thesis
      by (simp add: ra [OF x] ra [OF y] mult_right_mono less_imp_le)
  next
    case False
    with ulp_mono [OF x assms(2), of F] have less: "ulp F x < ulp F y" by linarith
    define p where "p = int (fmt_prec F)"
    from less have "max (ilog2 x - p + 1) (fmt_emin F) < max (ilog2 y - p + 1) (fmt_emin F)"
      using x y by (auto simp: ulp_def p_def dest!: pow2_less_imp)
    then have uy: "ilog2 x < ilog2 y" "fmt_emin F < ilog2 y - p + 1" "ulp F y = pow2 (ilog2 y - p + 1)"
      using y by (auto simp: ulp_def p_def)
    define mid where "mid = pow2 (ilog2 y)"
    have "representable F mid"
    proof -
      have "mid = of_int (2 ^ (fmt_prec F - 1)) * pow2 (ilog2 y - p + 1)"
        using P by (simp add: mid_def p_def pow2_nat [symmetric] pow2_add [symmetric] of_nat_diff)
      moreover have "\<bar>2 ^ (fmt_prec F - 1)\<bar> < (2::int) ^ fmt_prec F" using P by simp
      ultimately show ?thesis using uy(2) unfolding representable_def by (metis less_imp_le)
    qed
    have "x < mid"
      using ilog2_bounds(2) [OF x] pow2_mono [of "ilog2 x + 1" "ilog2 y"] uy(1) by (simp add: mid_def)
    have "mid \<le> y" using ilog2_bounds(1) [OF y] by (simp add: mid_def)
    have lo: "mid \<le> round_abs F y"
    proof -
      have "mid / ulp F y = of_int (2 ^ (fmt_prec F - 1))"
        using P by (simp add: mid_def uy(3) pow2_diff [symmetric] p_def pow2_nat [symmetric] of_nat_diff)
      moreover have "mid / ulp F y \<le> y / ulp F y"
        using \<open>mid \<le> y\<close> by (simp add: divide_right_mono less_imp_le)
      ultimately have "(2 ^ (fmt_prec F - 1) :: int) \<le> round_even (y / ulp F y)"
        using round_even_mono [of "mid / ulp F y" "y / ulp F y"] by (metis round_even_of_int)
      then have "mid / ulp F y \<le> of_int (round_even (y / ulp F y))"
        using \<open>mid / ulp F y = _\<close> by (metis of_int_le_iff)
      then show ?thesis by (simp add: ra [OF y] pos_divide_le_eq)
    qed
    have hi: "round_abs F x \<le> mid"
    proof -
      define k where "k = ilog2 y - max (ilog2 x - p + 1) (fmt_emin F)"
      have k: "0 \<le> k" using uy P by (auto simp: k_def p_def)
      have "mid / ulp F x = of_int (2 ^ nat k)"
        using x k by (simp add: mid_def ulp_def p_def k_def pow2_diff [symmetric] pow2_nat [symmetric])
      moreover have "x / ulp F x \<le> mid / ulp F x"
        using \<open>x < mid\<close> by (simp add: divide_right_mono less_imp_le)
      ultimately have "round_even (x / ulp F x) \<le> 2 ^ nat k"
        using round_even_mono [of "x / ulp F x" "mid / ulp F x"] by (metis round_even_of_int)
      then have "of_int (round_even (x / ulp F x)) \<le> mid / ulp F x"
        using \<open>mid / ulp F x = _\<close> by (metis of_int_le_iff)
      then show ?thesis by (simp add: ra [OF x] pos_le_divide_eq)
    qed
    from hi lo show ?thesis by simp
  qed
qed

lemma round_rat_mono:
  assumes "x \<le> y" "0 < fmt_prec F"
  shows "round_rat F x \<le> round_rat F y"
  using assms round_abs_mono [of x y F] round_abs_mono [of "- y" "- x" F]
    round_abs_nonneg [of y F] round_abs_nonneg [of "- x" F]
  by (auto simp: round_rat_def)

subsection \<open>Operations\<close>

text \<open>
  The names are Rust's: \<open>is_finite\<close>, \<open>min\<close> and \<open>max\<close> (which ignore a NaN operand),
  \<open>clamp\<close>, \<open>ceil\<close>, \<open>floor\<close>, \<open>round\<close> (half away from zero), \<open>abs\<close>.
\<close>

fun fp_finite :: "fp \<Rightarrow> bool" where
  "fp_finite (Fin _) = True"
| "fp_finite _ = False"

fun fp_neg :: "fp \<Rightarrow> fp" where
  "fp_neg (Fin x) = Fin (- x)"
| "fp_neg PInf = NInf"
| "fp_neg NInf = PInf"
| "fp_neg NaN = NaN"

fun fp_add :: "fpformat \<Rightarrow> fp \<Rightarrow> fp \<Rightarrow> fp" where
  "fp_add F (Fin x) (Fin y) = fround F (x + y)"
| "fp_add F NaN _ = NaN"
| "fp_add F _ NaN = NaN"
| "fp_add F PInf NInf = NaN"
| "fp_add F NInf PInf = NaN"
| "fp_add F PInf _ = PInf"
| "fp_add F _ PInf = PInf"
| "fp_add F NInf _ = NInf"
| "fp_add F _ NInf = NInf"

definition fp_sub :: "fpformat \<Rightarrow> fp \<Rightarrow> fp \<Rightarrow> fp" where
  "fp_sub F a b = fp_add F a (fp_neg b)"

fun fp_signed_inf :: "rat \<Rightarrow> fp" where
  "fp_signed_inf x = (if x = 0 then NaN else if 0 < x then PInf else NInf)"

fun fp_mul :: "fpformat \<Rightarrow> fp \<Rightarrow> fp \<Rightarrow> fp" where
  "fp_mul F (Fin x) (Fin y) = fround F (x * y)"
| "fp_mul F NaN _ = NaN"
| "fp_mul F _ NaN = NaN"
| "fp_mul F PInf (Fin y) = fp_signed_inf y"
| "fp_mul F NInf (Fin y) = fp_signed_inf (- y)"
| "fp_mul F (Fin x) PInf = fp_signed_inf x"
| "fp_mul F (Fin x) NInf = fp_signed_inf (- x)"
| "fp_mul F PInf PInf = PInf"
| "fp_mul F PInf NInf = NInf"
| "fp_mul F NInf PInf = NInf"
| "fp_mul F NInf NInf = PInf"

fun fp_div :: "fpformat \<Rightarrow> fp \<Rightarrow> fp \<Rightarrow> fp" where
  "fp_div F (Fin x) (Fin y) = (if y = 0 then fp_signed_inf x else fround F (x / y))"
| "fp_div F NaN _ = NaN"
| "fp_div F _ NaN = NaN"
| "fp_div F PInf (Fin y) = (if y < 0 then NInf else PInf)"
| "fp_div F NInf (Fin y) = (if y < 0 then PInf else NInf)"
| "fp_div F (Fin x) _ = Fin 0"
| "fp_div F _ _ = NaN"

fun fp_lt :: "fp \<Rightarrow> fp \<Rightarrow> bool" where
  "fp_lt (Fin x) (Fin y) = (x < y)"
| "fp_lt NaN _ = False"
| "fp_lt _ NaN = False"
| "fp_lt PInf _ = False"
| "fp_lt _ NInf = False"
| "fp_lt _ _ = True"

fun fp_eq :: "fp \<Rightarrow> fp \<Rightarrow> bool" where
  "fp_eq NaN _ = False"
| "fp_eq a b = (a = b)"

definition fp_le :: "fp \<Rightarrow> fp \<Rightarrow> bool" where
  "fp_le a b \<longleftrightarrow> fp_lt a b \<or> fp_eq a b"

definition fp_min :: "fp \<Rightarrow> fp \<Rightarrow> fp" where
  "fp_min a b = (if a = NaN then b else if b = NaN then a else if fp_lt b a then b else a)"

definition fp_max :: "fp \<Rightarrow> fp \<Rightarrow> fp" where
  "fp_max a b = (if a = NaN then b else if b = NaN then a else if fp_lt a b then b else a)"

definition fp_clamp :: "fp \<Rightarrow> fp \<Rightarrow> fp \<Rightarrow> fp" where
  "fp_clamp lo hi x = (if fp_lt x lo then lo else if fp_lt hi x then hi else x)"

fun fp_abs :: "fp \<Rightarrow> fp" where
  "fp_abs (Fin x) = Fin \<bar>x\<bar>"
| "fp_abs NInf = PInf"
| "fp_abs a = a"

fun fp_ceil :: "fp \<Rightarrow> fp" where
  "fp_ceil (Fin x) = Fin (of_int \<lceil>x\<rceil>)"
| "fp_ceil a = a"

fun fp_floor :: "fp \<Rightarrow> fp" where
  "fp_floor (Fin x) = Fin (of_int \<lfloor>x\<rfloor>)"
| "fp_floor a = a"

fun fp_round :: "fp \<Rightarrow> fp" where
  "fp_round (Fin x) = Fin (if x < 0 then - of_int \<lfloor>- x + 1 / 2\<rfloor> else of_int \<lfloor>x + 1 / 2\<rfloor>)"
| "fp_round a = a"

text \<open>The saturating cast of a float to an unsigned integer of at most \<open>hi\<close> (\<open>as u64\<close>).\<close>

fun fp_as_nat :: "nat \<Rightarrow> fp \<Rightarrow> nat" where
  "fp_as_nat hi (Fin x) = (if x < 0 then 0 else min hi (nat \<lfloor>x\<rfloor>))"
| "fp_as_nat hi PInf = hi"
| "fp_as_nat hi _ = 0"

subsection \<open>Laws\<close>

text \<open>In range means: below the overflow threshold after rounding.\<close>

definition in_range :: "fpformat \<Rightarrow> rat \<Rightarrow> bool" where
  "in_range F x \<longleftrightarrow> \<bar>round_rat F x\<bar> < pow2 (fmt_emax F)"

lemma fround_in_range: "in_range F x \<Longrightarrow> fround F x = Fin (round_rat F x)"
  by (auto simp: in_range_def fround_def Let_def)

lemma fround_exact:
  "representable F x \<Longrightarrow> \<bar>x\<bar> < pow2 (fmt_emax F) \<Longrightarrow> fround F x = Fin x"
  by (auto simp: fround_def Let_def round_rat_exact)

text \<open>Integers and halves of moderate size are exact in both formats.\<close>

lemma f64_simps [simp]: "fmt_prec f64 = 53" "fmt_emin f64 = -1074" "fmt_emax f64 = 1024"
  by (simp_all add: f64_def)

lemma f32_simps [simp]: "fmt_prec f32 = 24" "fmt_emin f32 = -149" "fmt_emax f32 = 128"
  by (simp_all add: f32_def)

lemma f64_dyadic:
  assumes "\<bar>m\<bar> < 2 ^ 53" and "-1074 \<le> k" and "k \<le> 900"
  shows "fround f64 (of_int m * pow2 k) = Fin (of_int m * pow2 k)"
proof (rule fround_exact)
  show "representable f64 (of_int m * pow2 k)"
    using assms unfolding representable_def by auto
  have "(of_int \<bar>m\<bar> :: rat) < of_int (2 ^ 53)"
    using assms(1) by (subst of_int_less_iff)
  then have m: "of_int \<bar>m\<bar> < (2::rat) ^ 53" by simp
  have "\<bar>of_int m * pow2 k\<bar> = of_int \<bar>m\<bar> * pow2 k"
    by (simp add: abs_mult less_imp_le)
  also have "\<dots> < pow2 (int 53) * pow2 k"
    unfolding pow2_nat by (rule mult_strict_right_mono) (use m in simp_all)
  also have "\<dots> = pow2 (53 + k)" by (simp add: pow2_add)
  also have "\<dots> \<le> pow2 1024" by (rule pow2_mono) (use assms in simp)
  finally show "\<bar>of_int m * pow2 k\<bar> < pow2 (fmt_emax f64)" by simp
qed

lemma f64_int: "\<bar>m\<bar> < 2 ^ 53 \<Longrightarrow> fround f64 (of_int m) = Fin (of_int m)"
  using f64_dyadic [of m 0] by simp

lemma f64_half: "\<bar>m\<bar> < 2 ^ 53 \<Longrightarrow> fround f64 (of_int m / 2) = Fin (of_int m / 2)"
  using f64_dyadic [of m "-1"] by (simp add: pow2_def)

lemma fp_lt_irrefl [simp]: "\<not> fp_lt a a"
  by (cases a) auto

lemma fp_lt_trans: "fp_lt a b \<Longrightarrow> fp_lt b c \<Longrightarrow> fp_lt a c"
  by (cases a; cases b; cases c) auto

lemma fp_le_Fin [simp]: "fp_le (Fin x) (Fin y) \<longleftrightarrow> x \<le> y"
  by (auto simp: fp_le_def)

lemma fp_le_refl: "a \<noteq> NaN \<Longrightarrow> fp_le a a"
  by (cases a) (auto simp: fp_le_def)

lemma fp_clamp_bounds:
  "fp_le lo hi \<Longrightarrow> x \<noteq> NaN \<Longrightarrow> fp_le lo (fp_clamp lo hi x) \<and> fp_le (fp_clamp lo hi x) hi"
  by (cases lo; cases hi; cases x) (auto simp: fp_clamp_def fp_le_def)

lemma fp_max_Fin [simp]: "fp_max (Fin x) (Fin y) = Fin (max x y)"
  by (auto simp: fp_max_def)

lemma fp_min_Fin [simp]: "fp_min (Fin x) (Fin y) = Fin (min x y)"
  by (auto simp: fp_min_def)

lemma fp_sub_Fin [simp]: "fp_sub F (Fin x) (Fin y) = fround F (x - y)"
  by (simp add: fp_sub_def)

lemma fround_not_NaN [simp]: "fround F x \<noteq> NaN"
  by (simp add: fround_def Let_def)

lemma fround_mono:
  assumes "x \<le> y" "0 < fmt_prec F"
  shows "fp_le (fround F x) (fround F y)"
proof -
  have "- pow2 (fmt_emax F) < pow2 (fmt_emax F)" by (rule less_trans [of _ 0]) simp_all
  with round_rat_mono [OF assms] show ?thesis
    by (auto simp: fround_def Let_def fp_le_def)
qed

lemma fp_between: "fp_le (Fin a) x \<Longrightarrow> fp_le x (Fin b) \<Longrightarrow> \<exists>y. x = Fin y \<and> a \<le> y \<and> y \<le> b"
  by (cases x) (auto simp: fp_le_def)

lemma fround_between:
  assumes "a \<le> x" "x \<le> b" "fround F a = Fin a" "fround F b = Fin b" "0 < fmt_prec F"
  shows "\<exists>y. fround F x = Fin y \<and> a \<le> y \<and> y \<le> b"
  using fround_mono [OF assms(1,5)] fround_mono [OF assms(2,5)]
  by (intro fp_between) (simp_all add: assms(3,4))

end
