(* ===== verification/Paper.thy ===== *)
theory Paper
  imports Prelude Floats
begin

text \<open>
  The paper (rule lines) of a page: \<open>crates/protocol/src/paper.rs\<close>. The palette and its wire
  values, the geometry every renderer enumerates (marks on integer multiples of a pitch, a
  density cull per family, the margin line), the preview viewport and the grain texture.
  A visitor callback is modelled by the list of the marks it is given, in order.
\<close>

section \<open>The spec constants\<close>

definition RULE_SPACING_NARROW :: fp where "RULE_SPACING_NARROW = Fin 96"
definition RULE_SPACING_WIDE :: fp where "RULE_SPACING_WIDE = Fin 144"
definition GRID_SPACING_SMALL :: fp where "GRID_SPACING_SMALL = RULE_SPACING_NARROW"
definition GRID_SPACING_LARGE :: fp where "GRID_SPACING_LARGE = RULE_SPACING_WIDE"
definition MARGIN_X :: fp where "MARGIN_X = Fin 288"
definition RULE_LINE_WIDTH :: fp where "RULE_LINE_WIDTH = Fin (3 / 2)"
definition MARGIN_LINE_WIDTH :: fp where "MARGIN_LINE_WIDTH = Fin 2"
definition RULE_COLOR :: string where "RULE_COLOR = ''#B0C4DE''"
definition RULE_COLOR_RGB :: "u8 \<times> u8 \<times> u8" where "RULE_COLOR_RGB = (0xB0, 0xC4, 0xDE)"
definition MARGIN_COLOR :: string where "MARGIN_COLOR = ''#E06C6C''"
definition MARGIN_COLOR_RGB :: "u8 \<times> u8 \<times> u8" where "MARGIN_COLOR_RGB = (0xE0, 0x6C, 0x6C)"
definition MIN_PAPER_MARK_DEVICE_PITCH :: fp where "MIN_PAPER_MARK_DEVICE_PITCH = Fin 4"
definition MIN_PAPER_MARK_DEVICE_WIDTH :: fp where "MIN_PAPER_MARK_DEVICE_WIDTH = Fin 1"
definition MAX_PAPER_MARKS_PER_AXIS :: nat where "MAX_PAPER_MARKS_PER_AXIS = 4096"
definition PAPER_TEXTURE_TILE_SIZE :: nat where "PAPER_TEXTURE_TILE_SIZE = 64"
definition PAPER_TEXTURE_COLOR_RGB :: "u8 \<times> u8 \<times> u8" where
  "PAPER_TEXTURE_COLOR_RGB = (0x8C, 0x8C, 0x8C)"
definition PAPER_TEXTURE_MAX_ALPHA :: u8 where "PAPER_TEXTURE_MAX_ALPHA = 20"
definition PAPER_TEXTURE_COVERAGE_PERCENT :: u32 where "PAPER_TEXTURE_COVERAGE_PERCENT = 26"
definition PREVIEW_ROWS :: fp where "PREVIEW_ROWS = Fin 4"
definition PREVIEW_CULL_HEADROOM :: fp where "PREVIEW_CULL_HEADROOM = Fin (5 / 4)"

lemmas paper_constants =
  RULE_SPACING_NARROW_def RULE_SPACING_WIDE_def GRID_SPACING_SMALL_def GRID_SPACING_LARGE_def
  MARGIN_X_def RULE_LINE_WIDTH_def MARGIN_LINE_WIDTH_def MIN_PAPER_MARK_DEVICE_PITCH_def
  MIN_PAPER_MARK_DEVICE_WIDTH_def MAX_PAPER_MARKS_PER_AXIS_def PREVIEW_ROWS_def
  PREVIEW_CULL_HEADROOM_def

section \<open>The paper choice\<close>

datatype Paper =
    Paper_None
  | RuledMarginNarrow
  | RuledMarginWide
  | RuledNarrow
  | RuledWide
  | SquaredSmall
  | SquaredLarge

definition paper_ALL :: "Paper list" where
  "paper_ALL = [Paper_None, RuledMarginNarrow, RuledMarginWide, RuledNarrow, RuledWide,
     SquaredSmall, SquaredLarge]"

text \<open>\<open>#[default]\<close> of the enum.\<close>

definition paper_default :: Paper where
  "paper_default = Paper_None"

fun wire_value :: "Paper \<Rightarrow> string" where
  "wire_value Paper_None = ''none''"
| "wire_value RuledMarginNarrow = ''ruled-margin-narrow''"
| "wire_value RuledMarginWide = ''ruled-margin-wide''"
| "wire_value RuledNarrow = ''ruled-narrow''"
| "wire_value RuledWide = ''ruled-wide''"
| "wire_value SquaredSmall = ''squared-small''"
| "wire_value SquaredLarge = ''squared-large''"

definition from_wire :: "string \<Rightarrow> Paper option" where
  "from_wire value = List.find (\<lambda>paper. wire_value paper = value) paper_ALL"

fun paper_label :: "Paper \<Rightarrow> string" where
  "paper_label Paper_None = ''None''"
| "paper_label RuledMarginNarrow = ''Ruled, margin, narrow''"
| "paper_label RuledMarginWide = ''Ruled, margin, wide''"
| "paper_label RuledNarrow = ''Ruled, narrow''"
| "paper_label RuledWide = ''Ruled, wide''"
| "paper_label SquaredSmall = ''Squared, small''"
| "paper_label SquaredLarge = ''Squared, large''"

fun rule_spacing :: "Paper \<Rightarrow> fp option" where
  "rule_spacing Paper_None = None"
| "rule_spacing RuledMarginNarrow = Some RULE_SPACING_NARROW"
| "rule_spacing RuledNarrow = Some RULE_SPACING_NARROW"
| "rule_spacing RuledMarginWide = Some RULE_SPACING_WIDE"
| "rule_spacing RuledWide = Some RULE_SPACING_WIDE"
| "rule_spacing SquaredSmall = Some GRID_SPACING_SMALL"
| "rule_spacing SquaredLarge = Some GRID_SPACING_LARGE"

fun column_spacing :: "Paper \<Rightarrow> fp option" where
  "column_spacing SquaredSmall = Some GRID_SPACING_SMALL"
| "column_spacing SquaredLarge = Some GRID_SPACING_LARGE"
| "column_spacing _ = None"

fun has_margin :: "Paper \<Rightarrow> bool" where
  "has_margin RuledMarginNarrow = True"
| "has_margin RuledMarginWide = True"
| "has_margin _ = False"

lemma from_wire_wire_value [simp]: "from_wire (wire_value p) = Some p"
  by (cases p) (simp_all add: from_wire_def paper_ALL_def)

lemma from_wire_Some: "from_wire v = Some p \<Longrightarrow> wire_value p = v"
  by (auto simp: from_wire_def find_Some_iff)

lemma wire_value_inject [simp]: "wire_value p = wire_value q \<longleftrightarrow> p = q"
  by (metis from_wire_wire_value option.inject)

section \<open>Marks and viewports\<close>

datatype PaperMarkKind = Rule | Column | Margin

fun is_horizontal :: "PaperMarkKind \<Rightarrow> bool" where
  "is_horizontal Rule = True"
| "is_horizontal _ = False"

fun kind_world_width :: "PaperMarkKind \<Rightarrow> fp" where
  "kind_world_width Margin = MARGIN_LINE_WIDTH"
| "kind_world_width _ = RULE_LINE_WIDTH"

fun kind_color :: "PaperMarkKind \<Rightarrow> string" where
  "kind_color Margin = MARGIN_COLOR"
| "kind_color _ = RULE_COLOR"

fun kind_color_rgb :: "PaperMarkKind \<Rightarrow> u8 \<times> u8 \<times> u8" where
  "kind_color_rgb Margin = MARGIN_COLOR_RGB"
| "kind_color_rgb _ = RULE_COLOR_RGB"

record PaperMark =
  mark_kind :: PaperMarkKind
  mark_position :: fp

definition mark_world_width :: "PaperMark \<Rightarrow> fp" where
  "mark_world_width m = kind_world_width (mark_kind m)"

record WorldViewport =
  vp_min_x :: fp
  vp_min_y :: fp
  vp_max_x :: fp
  vp_max_y :: fp
  vp_scale :: fp

definition viewport_new :: "fp \<Rightarrow> fp \<Rightarrow> fp \<Rightarrow> fp \<Rightarrow> fp \<Rightarrow> WorldViewport" where
  "viewport_new min_x min_y max_x max_y scale =
     \<lparr>vp_min_x = min_x, vp_min_y = min_y, vp_max_x = max_x, vp_max_y = max_y, vp_scale = scale\<rparr>"

definition is_drawable :: "WorldViewport \<Rightarrow> bool" where
  "is_drawable v \<longleftrightarrow>
     fp_finite (vp_min_x v) \<and> fp_finite (vp_min_y v) \<and> fp_finite (vp_max_x v) \<and>
     fp_finite (vp_max_y v) \<and> fp_finite (vp_scale v) \<and> fp_lt (Fin 0) (vp_scale v) \<and>
     fp_le (vp_min_x v) (vp_max_x v) \<and> fp_le (vp_min_y v) (vp_max_y v)"

definition paper_family_visible :: "fp \<Rightarrow> fp \<Rightarrow> bool" where
  "paper_family_visible pitch_world scale \<longleftrightarrow>
     fp_finite pitch_world \<and> fp_finite scale \<and> fp_lt (Fin 0) pitch_world \<and> fp_lt (Fin 0) scale \<and>
     fp_le MIN_PAPER_MARK_DEVICE_PITCH (fp_mul f64 pitch_world scale)"

definition paper_mark_device_width :: "fp \<Rightarrow> fp \<Rightarrow> fp" where
  "paper_mark_device_width world_width scale =
     fp_max (fp_mul f64 world_width scale) MIN_PAPER_MARK_DEVICE_WIDTH"

text \<open>Every integer multiple of the pitch within the bounds, ascending, at most 4096 of them.
  \<open>step as f64\<close> is exact: a step is below 4096.\<close>

definition visit_multiples :: "fp \<Rightarrow> fp \<Rightarrow> fp \<Rightarrow> fp list" where
  "visit_multiples pitch lo hi =
     (if \<not> fp_finite pitch \<or> fp_le pitch (Fin 0) \<or> \<not> fp_finite lo \<or> \<not> fp_finite hi \<or> fp_lt hi lo
      then []
      else let first = fp_ceil (fp_div f64 lo pitch);
               last = fp_floor (fp_div f64 hi pitch)
           in if \<not> fp_finite first \<or> \<not> fp_finite last \<or> fp_lt last first then []
              else let span = fp_min (fp_sub f64 last first)
                         (fp_sub f64 (Fin (of_nat MAX_PAPER_MARKS_PER_AXIS)) (Fin 1));
                       count = fp_as_nat (2 ^ 64 - 1) span + 1
                   in map (\<lambda>step. fp_mul f64 (fp_add f64 first (Fin (of_nat step))) pitch) [0..<count])"

definition family_marks :: "PaperMarkKind \<Rightarrow> fp option \<Rightarrow> fp \<Rightarrow> fp \<Rightarrow> fp \<Rightarrow> PaperMark list" where
  "family_marks kind spacing lo hi scale =
     (case spacing of
        None \<Rightarrow> []
      | Some pitch \<Rightarrow>
          if paper_family_visible pitch scale
          then map (\<lambda>position. \<lparr>mark_kind = kind, mark_position = position\<rparr>) (visit_multiples pitch lo hi)
          else [])"

definition visit_paper_marks :: "Paper \<Rightarrow> WorldViewport \<Rightarrow> PaperMark list" where
  "visit_paper_marks paper v =
     (if paper = Paper_None \<or> \<not> is_drawable v then []
      else family_marks Rule (rule_spacing paper) (vp_min_y v) (vp_max_y v) (vp_scale v)
         @ family_marks Column (column_spacing paper) (vp_min_x v) (vp_max_x v) (vp_scale v)
         @ (if has_margin paper \<and> fp_le (vp_min_x v) MARGIN_X \<and> fp_le MARGIN_X (vp_max_x v)
            then [\<lparr>mark_kind = Margin, mark_position = MARGIN_X\<rparr>] else []))"

definition paper_marks :: "Paper \<Rightarrow> WorldViewport \<Rightarrow> PaperMark list" where
  "paper_marks paper v = fold (\<lambda>mark marks. marks @ [mark]) (visit_paper_marks paper v) []"

definition preview_viewport :: "Paper \<Rightarrow> fp \<Rightarrow> fp \<Rightarrow> WorldViewport" where
  "preview_viewport paper width_px0 height_px0 =
     (let width_px = (if fp_finite width_px0 \<and> fp_lt (Fin 0) width_px0 then width_px0 else Fin 0);
          height_px = (if fp_finite height_px0 \<and> fp_lt (Fin 0) height_px0 then height_px0 else Fin 0);
          pitch = (case rule_spacing paper of None \<Rightarrow> RULE_SPACING_NARROW | Some p \<Rightarrow> p);
          natural = fp_div f64 height_px (fp_mul f64 pitch PREVIEW_ROWS);
          cull_floor = fp_div f64 (fp_mul f64 MIN_PAPER_MARK_DEVICE_PITCH PREVIEW_CULL_HEADROOM) pitch;
          scale = fp_max natural cull_floor;
          min_y = fp_div f64 (fp_neg pitch) (Fin 2)
      in \<lparr>vp_min_x = Fin 0, vp_min_y = min_y, vp_max_x = fp_div f64 width_px scale,
          vp_max_y = fp_add f64 min_y (fp_div f64 height_px scale), vp_scale = scale\<rparr>)"

section \<open>The grain texture\<close>

definition paper_texture_hash :: "u32 \<Rightarrow> u32 \<Rightarrow> u32" where
  "paper_texture_hash x y =
     (let h = (x * 0x27d4eb2d) XOR (y * 0x165667b1);
          h = h XOR drop_bit 15 h;
          h = h * 0x2545f491;
          h = h XOR drop_bit 13 h
      in h)"

definition paper_texture_alpha :: "u32 \<Rightarrow> u32 \<Rightarrow> u8" where
  "paper_texture_alpha x y =
     (let h = paper_texture_hash x y
      in if PAPER_TEXTURE_COVERAGE_PERCENT \<le> h mod 100 then 0
         else let span = (ucast PAPER_TEXTURE_MAX_ALPHA :: u32)
              in ucast (1 + (drop_bit 8 h) mod span))"

definition paper_texture_tile :: "u8 list" where
  "paper_texture_tile =
     concat (map (\<lambda>y. map (\<lambda>x. paper_texture_alpha (of_nat x) (of_nat y)) [0..<PAPER_TEXTURE_TILE_SIZE])
       [0..<PAPER_TEXTURE_TILE_SIZE])"

definition paper_has_texture :: "Paper \<Rightarrow> bool" where
  "paper_has_texture paper \<longleftrightarrow> paper \<noteq> Paper_None"

definition is_ink_classified :: "u8 \<times> u8 \<times> u8 \<Rightarrow> bool" where
  "is_ink_classified rgb = (case rgb of (red, green, blue) \<Rightarrow>
     let green_dominant = red < green \<and> blue < green;
         dark_green_band = red < 20 \<and> 70 < green \<and> green < 130 \<and> blue < 20
     in green_dominant \<or> dark_green_band)"

end
