(* ===== verification/Protocol.thy ===== *)
theory Protocol
  imports Paper
begin

text \<open>
  The wire types of \<open>crates/protocol/src/lib.rs\<close>: response bodies, library events, stroke
  geometry with its validation and the pressure curve, and the messages of the page channel with
  their metric labels. Strings are byte lists, \<open>u64\<close> is a 64-bit word, \<open>f64\<close> is \<open>fp\<close>.
\<close>

definition PROTOCOL_VERSION :: u32 where "PROTOCOL_VERSION = 7"
definition REQUEST_ID_HEADER :: string where "REQUEST_ID_HEADER = ''x-request-id''"

section \<open>Responses and library events\<close>

record MeResponse =
  me_sub :: string
  me_email :: "string option"

record TelemetryConfigResponse =
  tc_endpoint :: string
  tc_access_token :: string
  tc_expires_at :: u64

datatype ThumbnailMetadata =
    Thumb_Empty
  | Thumb_Generating (gen_source_seq: u64)
  | Thumb_Available (avail_source_seq: u64) (avail_url: string)
  | Thumb_Failed (failed_source_seq: u64)

record PageSummary =
  ps_id :: string
  ps_title :: string
  ps_created_at :: string
  ps_updated_at :: string
  ps_thumbnail :: ThumbnailMetadata
  ps_paper :: Paper

record CreatePageRequest =
  cp_title :: "string option"
  cp_paper :: Paper

record RealtimeTicketResponse =
  rt_ticket :: string
  rt_expires_at :: string

datatype LibraryEvent =
    PageCreated PageSummary
  | PageDeleted string
  | PageThumbnailUpdated string ThumbnailMetadata
  | PageUpdated string string

fun library_message_type :: "LibraryEvent \<Rightarrow> string" where
  "library_message_type (PageCreated _) = ''page-created''"
| "library_message_type (PageDeleted _) = ''page-deleted''"
| "library_message_type (PageThumbnailUpdated _ _) = ''page-thumbnail-updated''"
| "library_message_type (PageUpdated _ _) = ''page-updated''"

section \<open>Strokes\<close>

definition SOLID_ROUND_TOOL :: string where "SOLID_ROUND_TOOL = ''solid_round''"
definition SOLID_ROUND_PRESSURE_STYLE_VERSION :: u32 where "SOLID_ROUND_PRESSURE_STYLE_VERSION = 2"
definition DEFAULT_PEN_COLOR :: string where "DEFAULT_PEN_COLOR = ''#006400''"
definition DEFAULT_PEN_WIDTH :: fp where "DEFAULT_PEN_WIDTH = Fin 4"
definition MIN_PEN_WIDTH :: fp where "MIN_PEN_WIDTH = Fin 1"
definition MAX_PEN_WIDTH :: fp where "MAX_PEN_WIDTH = Fin 32"
definition MIN_PRESSURE_WIDTH :: fp where "MIN_PRESSURE_WIDTH = Fin (3 / 2)"

text \<open>\<open>f64::EPSILON\<close> of Rust's standard library.\<close>

definition F64_EPSILON :: fp where "F64_EPSILON = Fin (1 / 2 ^ 52)"

record SolidRoundParameters =
  srp_color :: string
  srp_width :: fp
  srp_cap_style :: string
  srp_join_style :: string

record StrokeStyle =
  sty_tool_kind :: string
  sty_style_version :: u32
  sty_parameters :: SolidRoundParameters

record StrokePoint =
  pt_x :: fp
  pt_y :: fp
  pt_t :: int
  pt_pressure :: "fp option"

record Stroke =
  stroke_id :: string
  stroke_style :: StrokeStyle
  stroke_points :: "StrokePoint list"

definition default_solid_round_pressure :: StrokeStyle where
  "default_solid_round_pressure =
     \<lparr>sty_tool_kind = SOLID_ROUND_TOOL,
      sty_style_version = SOLID_ROUND_PRESSURE_STYLE_VERSION,
      sty_parameters =
        \<lparr>srp_color = DEFAULT_PEN_COLOR, srp_width = DEFAULT_PEN_WIDTH,
         srp_cap_style = ''round'', srp_join_style = ''round''\<rparr>\<rparr>"

definition rendered_width :: "StrokeStyle \<Rightarrow> fp option \<Rightarrow> fp" where
  "rendered_width style pressure =
     (let p = fp_clamp (Fin 0) (Fin 1) (case pressure of None \<Rightarrow> Fin 1 | Some q \<Rightarrow> q);
          preset = srp_width (sty_parameters style);
          floor = fp_min MIN_PRESSURE_WIDTH preset
      in fp_add f64 floor (fp_mul f64 (fp_sub f64 preset floor) p))"

fun starts_with_hash :: "string \<Rightarrow> bool" where
  "starts_with_hash [] = False"
| "starts_with_hash (c # _) = (c = CHR 0x23)"

definition is_upper_hex_byte :: "char \<Rightarrow> bool" where
  "is_upper_hex_byte c \<longleftrightarrow>
     (CHR ''0'' \<le> c \<and> c \<le> CHR ''9'') \<or> (CHR ''A'' \<le> c \<and> c \<le> CHR ''F'')"

definition style_validate :: "StrokeStyle \<Rightarrow> string + unit" where
  "style_validate style =
     (if sty_tool_kind style \<noteq> SOLID_ROUND_TOOL
         \<or> sty_style_version style \<noteq> SOLID_ROUND_PRESSURE_STYLE_VERSION
      then Inl ''unsupported style''
      else let parameters = sty_parameters style in
        if srp_cap_style parameters \<noteq> ''round'' \<or> srp_join_style parameters \<noteq> ''round''
        then Inl ''solid_round requires round cap and join''
        else let color = srp_color parameters in
          if length color \<noteq> 7 \<or> \<not> starts_with_hash color
             \<or> \<not> list_all is_upper_hex_byte (drop 1 color)
          then Inl ''color must be uppercase #RRGGBB''
          else let width = srp_width parameters in
            if \<not> fp_finite width
               \<or> \<not> (fp_le MIN_PEN_WIDTH width \<and> fp_le width MAX_PEN_WIDTH)
               \<or> fp_lt F64_EPSILON
                    (fp_abs (fp_sub f64 (fp_round (fp_mul f64 width (Fin 2))) (fp_mul f64 width (Fin 2))))
            then Inl ''width must be 1.0..32.0 in 0.5 increments''
            else Inr ())"

definition pressure_ok :: "StrokePoint \<Rightarrow> bool" where
  "pressure_ok point \<longleftrightarrow>
     (case pt_pressure point of
        None \<Rightarrow> True
      | Some pressure \<Rightarrow>
          \<not> (\<not> fp_finite pressure \<or> \<not> (fp_le (Fin 0) pressure \<and> fp_le pressure (Fin 1))))"

definition stroke_validate :: "Stroke \<Rightarrow> string + unit" where
  "stroke_validate stroke =
     (case style_validate (stroke_style stroke) of
        Inl e \<Rightarrow> Inl e
      | Inr _ \<Rightarrow>
          if list_all pressure_ok (stroke_points stroke) then Inr ()
          else Inl ''pressure must be finite in 0.0..=1.0'')"

section \<open>Batches and the page channel\<close>

record StrokeBatch =
  sb_seq :: u64
  sb_client_batch_id :: string
  sb_strokes :: "Stroke list"

record TombstoneBatch =
  tb_revision :: u64
  tb_client_mutation_id :: string
  tb_stroke_ids :: "string list"

record PageReplay =
  pr_page_id :: string
  pr_last_seq :: u64
  pr_batches :: "StrokeBatch list"
  pr_tombstones :: "TombstoneBatch list"

datatype PageClientMessage =
    Subscribe u64
  | AcquireLease
  | RenewLease
  | ReleaseLease
  | CommitBatch string "Stroke list"
  | CommitTombstones string "string list"
  | SetPaper string Paper

fun client_message_type :: "PageClientMessage \<Rightarrow> string" where
  "client_message_type (Subscribe _) = ''subscribe''"
| "client_message_type AcquireLease = ''acquire-lease''"
| "client_message_type RenewLease = ''renew-lease''"
| "client_message_type ReleaseLease = ''release-lease''"
| "client_message_type (CommitBatch _ _) = ''commit-batch''"
| "client_message_type (CommitTombstones _ _) = ''commit-tombstones''"
| "client_message_type (SetPaper _ _) = ''set-paper''"

datatype PageServerMessage =
    Welcome (welcome_session_id: string) (welcome_last_seq: u64)
      (welcome_lease_holder: "string option") (welcome_paper: Paper)
  | Msg_StrokeBatch StrokeBatch
  | Msg_PageReplay PageReplay
  | Msg_TombstoneBatch TombstoneBatch
  | Synced u64
  | LeaseGranted
  | LeaseDenied string
  | PaperChanged Paper u64
  | LeaseChanged "string option"
  | Msg_Error string string "string option"

fun server_message_type :: "PageServerMessage \<Rightarrow> string" where
  "server_message_type (Welcome _ _ _ _) = ''welcome''"
| "server_message_type (Msg_StrokeBatch _) = ''stroke-batch''"
| "server_message_type (Msg_PageReplay _) = ''page-replay''"
| "server_message_type (Msg_TombstoneBatch _) = ''tombstone-batch''"
| "server_message_type (Synced _) = ''synced''"
| "server_message_type LeaseGranted = ''lease-granted''"
| "server_message_type (LeaseDenied _) = ''lease-denied''"
| "server_message_type (PaperChanged _ _) = ''paper-changed''"
| "server_message_type (LeaseChanged _) = ''lease-changed''"
| "server_message_type (Msg_Error _ _ _) = ''error''"


section \<open>Properties\<close>

text \<open>Every \<open>f64\<close> between 1 and 32 doubles without rounding, and is a multiple of \<open>2 ^ -52\<close>.\<close>

lemma representable_ge_1:
  assumes "representable f64 x" "1 \<le> x"
  obtains n where "x = of_int n / 2 ^ 52"
proof -
  obtain m k where mk: "x = of_int m * pow2 k" "\<bar>m\<bar> < 2 ^ 53"
    using assms(1) by (auto simp: representable_def)
  have "-53 < k"
  proof (rule ccontr)
    assume "\<not> -53 < k"
    then have "pow2 k \<le> pow2 (-53)" by (intro pow2_mono) simp
    then have p: "pow2 k \<le> 1 / 2 ^ 53" by (simp add: pow2_def)
    have "(of_int m :: rat) \<le> of_int (2 ^ 53 - 1)" using mk(2) by (subst of_int_le_iff) linarith
    then have "x \<le> of_int (2 ^ 53 - 1) * pow2 k"
      unfolding mk(1) by (rule mult_right_mono) (simp add: less_imp_le)
    also have "\<dots> \<le> of_int (2 ^ 53 - 1) * (1 / 2 ^ 53)" by (rule mult_left_mono [OF p]) simp
    also have "\<dots> < 1" by simp
    finally show False using assms(2) by simp
  qed
  then have "pow2 k = 2 ^ nat (k + 52) / 2 ^ 52"
    using pow2_diff [of "k + 52" 52] by (simp add: pow2_def)
  then have "x = of_int (m * 2 ^ nat (k + 52)) / 2 ^ 52" by (simp add: mk(1))
  then show thesis by (rule that)
qed

lemma double_width:
  assumes n: "x = of_int n / 2 ^ 52" and x: "1 \<le> x" "x \<le> 32" and r: "representable f64 x"
  shows "fround f64 (x * 2) = Fin (x * 2)"
proof (rule fround_exact)
  obtain m k where mk: "x = of_int m * pow2 k" "\<bar>m\<bar> < 2 ^ 53" "-1074 \<le> k"
    using r by (auto simp: representable_def)
  then show "representable f64 (x * 2)"
    unfolding representable_def
    by (intro exI [of _ m] exI [of _ "k + 1"]) (simp add: pow2_Suc)
  have "(64::rat) < pow2 (fmt_emax f64)" by (simp add: pow2_def)
  then show "\<bar>x * 2\<bar> < pow2 (fmt_emax f64)" using x by linarith
qed

text \<open>The distance of a non-integer multiple of \<open>2 ^ -51\<close> to any integer is at least \<open>2 ^ -51\<close>.\<close>

lemma dyadic_gap:
  assumes "y = (of_int n :: rat) / 2 ^ 51" "\<bar>of_int i - y\<bar> \<le> 1 / 2 ^ 52"
  shows "y = of_int i"
proof -
  have "of_int i - y = of_int (i * 2 ^ 51 - n) / 2 ^ 51" by (simp add: assms(1) field_simps)
  then have "\<bar>(of_int (i * 2 ^ 51 - n) :: rat)\<bar> \<le> 1 / 2"
    using assms(2) by (simp add: abs_if field_simps split: if_splits)
  then have "\<bar>(of_int (i * 2 ^ 51 - n) :: rat)\<bar> < 1" by linarith
  then have "i * 2 ^ 51 - n = 0" by linarith
  then show ?thesis using \<open>of_int i - y = of_int (i * 2 ^ 51 - n) / 2 ^ 51\<close> by simp
qed

definition half_step_width :: "fp \<Rightarrow> bool" where
  "half_step_width w \<longleftrightarrow> (\<exists>k \<in> {2..64::int}. w = Fin (of_int k / 2))"

lemma width_check:
  assumes r: "\<And>x. w = Fin x \<Longrightarrow> representable f64 x"
  shows "\<not> (\<not> fp_finite w \<or> \<not> (fp_le MIN_PEN_WIDTH w \<and> fp_le w MAX_PEN_WIDTH)
      \<or> fp_lt F64_EPSILON
           (fp_abs (fp_sub f64 (fp_round (fp_mul f64 w (Fin 2))) (fp_mul f64 w (Fin 2))))) \<longleftrightarrow>
    half_step_width w"
proof (cases "\<exists>x. w = Fin x \<and> 1 \<le> x \<and> x \<le> 32")
  case False
  have "\<not> half_step_width w"
  proof
    assume "half_step_width w"
    then obtain k :: int where k: "2 \<le> k" "k \<le> 64" "w = Fin (of_int k / 2)"
      by (auto simp: half_step_width_def)
    then have "(2::rat) \<le> of_int k" "(of_int k::rat) \<le> 64" by simp_all
    moreover have "\<not> (w = Fin (of_int k / 2) \<and> 1 \<le> (of_int k :: rat) / 2 \<and> of_int k / 2 \<le> (32 :: rat))"
      using False by blast
    ultimately show False using k(3) by simp
  qed
  with False show ?thesis
    by (cases w) (auto simp: MIN_PEN_WIDTH_def MAX_PEN_WIDTH_def fp_le_def)
next
  case True
  then obtain x where w: "w = Fin x" and x: "1 \<le> x" "x \<le> 32" by blast
  obtain n where n: "x = of_int n / 2 ^ 52" by (rule representable_ge_1 [OF r [OF w] x(1)])
  note dbl = double_width [OF n x r [OF w]]
  define i where "i = \<lfloor>x * 2 + 1 / 2\<rfloor>"
  have rnd: "fp_round (Fin (x * 2)) = Fin (of_int i)" using x by (simp add: i_def)
  have x2: "x * 2 = of_int n / 2 ^ 51" by (simp add: n)
  show ?thesis
  proof (cases "x * 2 = of_int i")
    case True
    then have "half_step_width w"
      unfolding half_step_width_def using x by (intro bexI [of _ i]) (auto simp: w)
    moreover have "\<lfloor>1 / 2 :: rat\<rfloor> = 0" by (simp add: floor_eq_iff)
    ultimately show ?thesis using True x
      by (simp add: w dbl [unfolded True] rnd [unfolded True] MIN_PEN_WIDTH_def MAX_PEN_WIDTH_def F64_EPSILON_def f64_int [of 0, simplified])
  next
    case False
    have gap: "1 / 2 ^ 52 < \<bar>of_int i - x * 2\<bar>"
      using dyadic_gap [OF x2, of i] False by (meson not_le)
    have ni: "of_int i - x * 2 = of_int (i * 2 ^ 51 - n) * pow2 (-51)"
      by (simp add: x2 pow2_def field_simps)
    have "\<bar>of_int i - x * 2\<bar> \<le> 1 / 2" unfolding i_def by linarith
    then have "\<bar>(of_int (i * 2 ^ 51 - n) :: rat)\<bar> \<le> 2 ^ 50"
      unfolding ni by (simp add: abs_mult pow2_def field_simps)
    then have "\<bar>i * 2 ^ 51 - n\<bar> \<le> 2 ^ 50"
      by (metis of_int_abs of_int_le_iff of_int_numeral of_int_power)
    then have "\<bar>i * 2 ^ 51 - n\<bar> < 2 ^ 53" by simp
    then have ex: "fround f64 (of_int i - x * 2) = Fin (of_int i - x * 2)"
      unfolding ni by (rule f64_dyadic) simp_all
    have "\<not> half_step_width w"
    proof
      assume "half_step_width w"
      then obtain k where "x * 2 = of_int k" by (auto simp: half_step_width_def w)
      then have "i = k" by (simp add: i_def) linarith
      then show False using False \<open>x * 2 = of_int k\<close> by simp
    qed
    then show ?thesis using gap
      by (simp add: w dbl rnd ex F64_EPSILON_def del: fp_round.simps)
  qed
qed


text \<open>A stroke style is accepted exactly when it is the current pressure style of the solid round
  tool with round cap and join, its color is \<open>#\<close> and six upper-case hexadecimal digits, and its
  width is one of the 63 half steps from 1 to 32: the epsilon in the check lets no other \<open>f64\<close>
  through.\<close>

theorem style_validate_iff:
  assumes "\<And>x. srp_width (sty_parameters style) = Fin x \<Longrightarrow> representable f64 x"
  shows "style_validate style = Inr () \<longleftrightarrow>
    sty_tool_kind style = ''solid_round'' \<and> sty_style_version style = 2 \<and>
    srp_cap_style (sty_parameters style) = ''round'' \<and> srp_join_style (sty_parameters style) = ''round'' \<and>
    (\<exists>digits. srp_color (sty_parameters style) = CHR 0x23 # digits \<and> length digits = 6 \<and>
       list_all is_upper_hex_byte digits) \<and>
    half_step_width (srp_width (sty_parameters style))"
proof -
  have color: "\<not> (length c \<noteq> 7 \<or> \<not> starts_with_hash c \<or> \<not> list_all is_upper_hex_byte (drop 1 c)) \<longleftrightarrow>
      (\<exists>digits. c = CHR 0x23 # digits \<and> length digits = 6 \<and> list_all is_upper_hex_byte digits)" for c
    by (cases c) auto
  show ?thesis
    using width_check [OF assms] color [of "srp_color (sty_parameters style)"]
    unfolding style_validate_def Let_def SOLID_ROUND_TOOL_def SOLID_ROUND_PRESSURE_STYLE_VERSION_def
    by (simp split: if_splits) blast
qed

lemma default_style_valid: "style_validate default_solid_round_pressure = Inr ()"
proof -
  have "fround f64 8 = Fin 8" using f64_int [of 8] by simp
  moreover have "\<lfloor>17 / 2 :: rat\<rfloor> = 8" by (simp add: floor_eq_iff)
  ultimately show ?thesis
    by (simp add: style_validate_def default_solid_round_pressure_def DEFAULT_PEN_COLOR_def
        DEFAULT_PEN_WIDTH_def MIN_PEN_WIDTH_def MAX_PEN_WIDTH_def F64_EPSILON_def Let_def
        is_upper_hex_byte_def less_eq_char_def f64_int [of 0, simplified])
qed

lemma style_validate_iff_witness: "half_step_width (srp_width (sty_parameters default_solid_round_pressure))"
proof -
  have "representable f64 4"
    unfolding representable_def by (intro exI [of _ 4] exI [of _ 0]) simp
  then show ?thesis
    using style_validate_iff [of default_solid_round_pressure] default_style_valid
    by (simp add: default_solid_round_pressure_def DEFAULT_PEN_WIDTH_def)
qed

lemma half_diff: "2 \<le> k \<Longrightarrow> k \<le> 64 \<Longrightarrow> fround f64 (of_int k / 2 - min (3 / 2) (of_int k / 2)) =
    Fin (of_int k / 2 - min (3 / 2) (of_int k / 2))"
proof -
  assume k: "2 \<le> k" "k \<le> 64"
  show ?thesis
  proof (cases "(3::rat) / 2 \<le> of_int k / 2")
    case True
    have "fround f64 (of_int (k - 3) / 2) = Fin (of_int (k - 3) / 2)"
      by (rule f64_half) (use k in auto)
    then show ?thesis using True by (simp add: min_def diff_divide_distrib)
  next
    case False
    then show ?thesis using f64_int [of 0] by (simp add: min_def)
  qed
qed

text \<open>The pressure curve of an accepted style never leaves the pen: the width drawn for any
  pressure in range lies between the floor (1.5, or the preset where that is smaller) and the
  preset, it never shrinks as pressure grows, and a point without pressure gets exactly the
  preset.\<close>

theorem rendered_width_bounds:
  assumes w: "half_step_width (srp_width (sty_parameters style))"
    and pressure: "0 \<le> p" "p \<le> q" "q \<le> 1"
  shows "fp_le (fp_min MIN_PRESSURE_WIDTH (srp_width (sty_parameters style))) (rendered_width style (Some (Fin p))) \<and>
    fp_le (rendered_width style (Some (Fin p))) (rendered_width style (Some (Fin q))) \<and>
    fp_le (rendered_width style (Some (Fin q))) (srp_width (sty_parameters style)) \<and>
    rendered_width style None = srp_width (sty_parameters style)"
proof -
  obtain k :: int where k: "2 \<le> k" "k \<le> 64" and wk: "srp_width (sty_parameters style) = Fin (of_int k / 2)"
    using w by (auto simp: half_step_width_def)
  define x :: rat where "x = of_int k / 2"
  define f where "f = min (3 / 2) x"
  define g where "g = x - f"
  have wx: "srp_width (sty_parameters style) = Fin x" by (simp add: wk x_def)
  have g: "fround f64 g = Fin g" using half_diff [OF k] by (simp add: g_def f_def x_def)
  have x: "fround f64 x = Fin x" unfolding x_def by (rule f64_half) (use k in auto)
  have f: "fround f64 f = Fin f"
    using f64_half [of 3] x by (auto simp: f_def min_def)
  have g0: "0 \<le> g" by (simp add: g_def f_def)
  have curve: "rendered_width style (Some (Fin r)) = fp_add f64 (Fin f) (fround f64 (g * r))"
    if "0 \<le> r" "r \<le> 1" for r
    using that by (simp add: rendered_width_def wx fp_clamp_def MIN_PRESSURE_WIDTH_def f_def [symmetric]
        g_def [symmetric] Let_def g)
  have mul: "\<exists>y. fround f64 (g * r) = Fin y \<and> 0 \<le> y \<and> y \<le> g" if "0 \<le> r" "r \<le> 1" for r
  proof -
    have "fp_le (fround f64 0) (fround f64 (g * r))" by (rule fround_mono) (use that g0 in auto)
    moreover have "fp_le (fround f64 (g * r)) (fround f64 g)"
      by (rule fround_mono) (use that g0 in \<open>auto intro: mult_left_le\<close>)
    ultimately show ?thesis using f64_int [of 0] g by (cases "fround f64 (g * r)") (auto simp: fp_le_def)
  qed
  obtain y z where y: "fround f64 (g * p) = Fin y" "0 \<le> y" "y \<le> g"
    and z: "fround f64 (g * q) = Fin z" "0 \<le> z" "z \<le> g"
    using mul [of p] mul [of q] pressure by auto
  have "fp_le (fround f64 (g * p)) (fround f64 (g * q))"
    by (rule fround_mono) (use pressure g0 in \<open>auto intro: mult_left_mono\<close>)
  then have yz: "y \<le> z" by (simp add: y z)
  have 1: "fp_le (Fin f) (fround f64 (f + y))"
    using fround_mono [of f "f + y" f64] y(2) by (simp add: f)
  have 2: "fp_le (fround f64 (f + y)) (fround f64 (f + z))"
    by (rule fround_mono) (use yz in auto)
  have 3: "fp_le (fround f64 (f + z)) (Fin x)"
    using fround_mono [of "f + z" x f64] z(3) by (simp add: x g_def)
  have 4: "rendered_width style None = Fin x"
    using curve [of 1] g x by (simp add: rendered_width_def g_def)
  show ?thesis
    using 1 2 3 4 curve [of p] curve [of q] pressure y z
    by (simp add: wx MIN_PRESSURE_WIDTH_def f_def)
qed

lemma rendered_width_bounds_witness:
  "fp_le (rendered_width default_solid_round_pressure (Some (Fin (1 / 2)))) (Fin 4)"
proof -
  have "half_step_width (srp_width (sty_parameters default_solid_round_pressure))"
    unfolding half_step_width_def
    by (intro bexI [of _ 8]) (simp_all add: default_solid_round_pressure_def DEFAULT_PEN_WIDTH_def)
  from rendered_width_bounds [OF this, of "1 / 2" "1 / 2"] show ?thesis
    by (simp add: default_solid_round_pressure_def DEFAULT_PEN_WIDTH_def)
qed

end
