(* ===== verification/Store.thy ===== *)
theory Store
  imports Protocol "HOL-Library.Product_Lexorder" "HOL-Library.Sublist"
begin

text \<open>
  The page channel's persistence: \<open>crates/server/src/realtime/store.rs\<close> over the tables of
  \<open>crates/server/migrations\<close>. A table is the list of its rows; each SQL statement is a function
  on them, named after its \<open>db_query_span!\<close> label. A statement may fail: the environment says
  which labels do, and a failed statement (or a failed \<open>COMMIT\<close>) rolls the transaction back, so
  an operation returns the new database only when it succeeds. The page row is locked
  (\<open>FOR UPDATE\<close>) by every writer, so one operation on a page is one atomic step. Outside the
  sources, and so parameters: the clock (\<open>now()\<close>), chrono's \<open>to_rfc3339\<close> and the database's
  text collation.
\<close>

section \<open>Tables\<close>

record PageRow =
  pg_id :: string
  pg_owner_id :: string
  pg_title :: string
  pg_created_at :: int
  pg_updated_at :: int
  pg_ink_revision :: int
  pg_paper :: string

record StrokeBatchRow =
  sbr_page_id :: string
  sbr_seq :: int
  sbr_revision :: int
  sbr_client_batch_id :: string
  sbr_strokes :: "Stroke list"

record StrokeTombstoneRow =
  str_page_id :: string
  str_stroke_id :: string
  str_deleted_revision :: int

record TombstoneBatchRow =
  tbr_page_id :: string
  tbr_client_mutation_id :: string
  tbr_revision :: int
  tbr_stroke_ids :: "string list"

record ThumbnailRow =
  th_page_id :: string
  th_source_seq :: int
  th_status :: string
  th_png :: "u8 list option"
  th_created_at :: int
  th_paper :: string

record db =
  pages :: "PageRow list"
  stroke_batches :: "StrokeBatchRow list"
  stroke_tombstones :: "StrokeTombstoneRow list"
  tombstone_batches :: "TombstoneBatchRow list"
  page_thumbnails :: "ThumbnailRow list"

type_synonym query = "string \<times> string"

datatype DbError =
    QueryFailed query
  | RowNotFound query
  | ConstraintViolation query

record dbenv =
  env_fault :: "query \<Rightarrow> bool"
  env_now :: int
  env_rfc3339 :: "int \<Rightarrow> string"
  env_collation_key :: "string \<Rightarrow> string"

definition run_query :: "dbenv \<Rightarrow> query \<Rightarrow> DbError + 'a \<Rightarrow> DbError + 'a" where
  "run_query env q r = (if env_fault env q then Inl (QueryFailed q) else r)"

lemma run_query_Inr [results_simps]: "run_query env q r = Inr y \<longleftrightarrow> \<not> env_fault env q \<and> r = Inr y"
  by (simp add: run_query_def)

section \<open>Reads\<close>

definition page_row :: "db \<Rightarrow> string \<Rightarrow> PageRow option" where
  "page_row d page_id = List.find (\<lambda>r. pg_id r = page_id) (pages d)"

definition batches_of :: "db \<Rightarrow> string \<Rightarrow> StrokeBatchRow list" where
  "batches_of d page_id = filter (\<lambda>b. sbr_page_id b = page_id) (stroke_batches d)"

definition tombstones_of :: "db \<Rightarrow> string \<Rightarrow> StrokeTombstoneRow list" where
  "tombstones_of d page_id = filter (\<lambda>t. str_page_id t = page_id) (stroke_tombstones d)"

definition tombstone_batches_of :: "db \<Rightarrow> string \<Rightarrow> TombstoneBatchRow list" where
  "tombstone_batches_of d page_id = filter (\<lambda>t. tbr_page_id t = page_id) (tombstone_batches d)"

definition thumbnails_of :: "db \<Rightarrow> string \<Rightarrow> ThumbnailRow list" where
  "thumbnails_of d page_id = filter (\<lambda>t. th_page_id t = page_id) (page_thumbnails d)"

text \<open>\<open>SELECT stroke_id FROM stroke_tombstones WHERE page_id = $1\<close>.\<close>

definition tombstoned_ids_of :: "db \<Rightarrow> string \<Rightarrow> string list" where
  "tombstoned_ids_of d page_id = map str_stroke_id (tombstones_of d page_id)"

definition fetch_one :: "query \<Rightarrow> 'a option \<Rightarrow> DbError + 'a" where
  "fetch_one q r = (case r of None \<Rightarrow> Inl (RowNotFound q) | Some x \<Rightarrow> Inr x)"

lemma fetch_one_Inr [results_simps]: "fetch_one q r = Inr x \<longleftrightarrow> r = Some x"
  by (cases r) (auto simp: fetch_one_def)

definition page_belongs_to_owner :: "dbenv \<Rightarrow> db \<Rightarrow> string \<Rightarrow> string \<Rightarrow> DbError + bool" where
  "page_belongs_to_owner env d page_id owner_id =
     run_query env (''SELECT'', ''page_belongs_to_owner'')
       (Inr (List.find (\<lambda>r. pg_id r = page_id \<and> pg_owner_id r = owner_id) (pages d) \<noteq> None))"

definition current_paper :: "dbenv \<Rightarrow> db \<Rightarrow> string \<Rightarrow> DbError + Paper" where
  "current_paper env d page_id =
     bindr (run_query env (''SELECT'', ''current_paper'')
              (fetch_one (''SELECT'', ''current_paper'') (page_row d page_id)))
       (\<lambda>row. Inr (case from_wire (pg_paper row) of None \<Rightarrow> paper_default | Some p \<Rightarrow> p))"

definition max_seq :: "dbenv \<Rightarrow> db \<Rightarrow> string \<Rightarrow> DbError + u64" where
  "max_seq env d page_id =
     run_query env (''SELECT'', ''max_seq'')
       (Inr (as_u64 (max_or_0 (map sbr_seq (batches_of d page_id)))))"

definition wire_batch :: "StrokeBatchRow \<Rightarrow> StrokeBatch" where
  "wire_batch row =
     \<lparr>sb_seq = as_u64 (sbr_seq row), sb_client_batch_id = sbr_client_batch_id row,
      sb_strokes = sbr_strokes row\<rparr>"

definition load_batches_after :: "dbenv \<Rightarrow> db \<Rightarrow> string \<Rightarrow> u64 \<Rightarrow> DbError + StrokeBatch list" where
  "load_batches_after env d page_id from_seq =
     run_query env (''SELECT'', ''load_batches_after'')
       (Inr (map wire_batch
         (sort_key sbr_seq (filter (\<lambda>b. as_i64 from_seq < sbr_seq b) (batches_of d page_id)))))"

definition wire_tombstones :: "TombstoneBatchRow \<Rightarrow> TombstoneBatch" where
  "wire_tombstones row =
     \<lparr>tb_revision = as_u64 (tbr_revision row), tb_client_mutation_id = tbr_client_mutation_id row,
      tb_stroke_ids = tbr_stroke_ids row\<rparr>"

text \<open>Two queries outside a transaction: \<open>d\<close> is the database the first one reads, \<open>d'\<close> the
  one the second reads.\<close>

definition load_page_replay ::
  "dbenv \<Rightarrow> db \<Rightarrow> db \<Rightarrow> string \<Rightarrow> u64 \<Rightarrow> DbError + (StrokeBatch list \<times> TombstoneBatch list)" where
  "load_page_replay env d d' page_id from_seq =
     bindr (load_batches_after env d page_id from_seq) (\<lambda>batches.
     bindr (run_query env (''SELECT'', ''load_tombstone_batches'')
              (Inr (map wire_tombstones
                (sort_key (\<lambda>t. (tbr_revision t, env_collation_key env (tbr_client_mutation_id t)))
                  (tombstone_batches_of d' page_id)))))
       (\<lambda>tombstones. Inr (batches, tombstones)))"

section \<open>Writes\<close>

definition lock_page :: "dbenv \<Rightarrow> db \<Rightarrow> string \<Rightarrow> string \<Rightarrow> DbError + PageRow" where
  "lock_page env d name page_id =
     run_query env (''SELECT'', name) (fetch_one (''SELECT'', name) (page_row d page_id))"

definition commit_tx :: "dbenv \<Rightarrow> string \<Rightarrow> DbError + unit" where
  "commit_tx env name = run_query env (''COMMIT'', name) (Inr ())"

definition begin_tx :: "dbenv \<Rightarrow> string \<Rightarrow> DbError + unit" where
  "begin_tx env name = run_query env (''BEGIN'', name) (Inr ())"

text \<open>\<open>UPDATE pages SET .. WHERE id = $1\<close>.\<close>

definition update_page :: "(PageRow \<Rightarrow> PageRow) \<Rightarrow> string \<Rightarrow> db \<Rightarrow> db" where
  "update_page f page_id d = d\<lparr>pages := map (\<lambda>r. if pg_id r = page_id then f r else r) (pages d)\<rparr>"

text \<open>\<open>INSERT INTO stroke_batches\<close>: the primary key, the two unique indexes and the check of the
  migrations.\<close>

definition insert_stroke_batch :: "query \<Rightarrow> StrokeBatchRow \<Rightarrow> db \<Rightarrow> DbError + db" where
  "insert_stroke_batch q row d =
     (if page_row d (sbr_page_id row) = None
         \<or> sbr_revision row \<le> 0
         \<or> list_ex (\<lambda>b. sbr_seq b = sbr_seq row \<or> sbr_client_batch_id b = sbr_client_batch_id row
              \<or> sbr_revision b = sbr_revision row) (batches_of d (sbr_page_id row))
      then Inl (ConstraintViolation q)
      else Inr (d\<lparr>stroke_batches := stroke_batches d @ [row]\<rparr>))"

text \<open>\<open>INSERT INTO page_thumbnails .. ON CONFLICT (page_id, source_seq) DO NOTHING\<close>, with whether a
  row was affected.\<close>

definition insert_thumbnail_job :: "int \<Rightarrow> string \<Rightarrow> int \<Rightarrow> string \<Rightarrow> db \<Rightarrow> bool \<times> db" where
  "insert_thumbnail_job now page_id source_seq paper d =
     (if list_ex (\<lambda>t. th_source_seq t = source_seq) (thumbnails_of d page_id) then (False, d)
      else (True, d\<lparr>page_thumbnails := page_thumbnails d @
             [\<lparr>th_page_id = page_id, th_source_seq = source_seq, th_status = ''generating'',
               th_png = None, th_created_at = now, th_paper = paper\<rparr>]\<rparr>))"

record PersistedBatch =
  pb_seq :: u64
  pb_revision :: u64
  pb_owner_id :: string
  pb_visible_strokes :: "Stroke list"
  pb_thumbnail_job_created :: bool
  pb_updated_at :: "string option"

record InsertedBatch =
  ib_seq :: int
  ib_revision :: int
  ib_updated_at :: string
  ib_thumbnail_job_created :: bool

definition insert_visible_batch ::
  "dbenv \<Rightarrow> db \<Rightarrow> string \<Rightarrow> string \<Rightarrow> Stroke list \<Rightarrow> int \<Rightarrow> string \<Rightarrow> DbError + (InsertedBatch \<times> db)" where
  "insert_visible_batch env d page_id client_batch_id visible_strokes current_revision paper =
     bindr (run_query env (''SELECT'', ''persist_batch_next_seq'')
       (let m = max_or_0 (map sbr_seq (batches_of d page_id))
        in if m = i64_max then Inl (QueryFailed (''SELECT'', ''persist_batch_next_seq''))
           else Inr (m + 1))) (\<lambda>next.
     let revision = wrap_i64 (current_revision + 1) in
     bindr (run_query env (''INSERT'', ''persist_batch_insert'')
       (insert_stroke_batch (''INSERT'', ''persist_batch_insert'')
         \<lparr>sbr_page_id = page_id, sbr_seq = next, sbr_revision = revision,
          sbr_client_batch_id = client_batch_id, sbr_strokes = visible_strokes\<rparr> d)) (\<lambda>d1.
     bindr (run_query env (''UPDATE'', ''persist_batch_bump_page'') (Inr (
       update_page (\<lambda>r. r\<lparr>pg_updated_at := env_now env, pg_ink_revision := revision\<rparr>) page_id d1))) (\<lambda>d2.
     bindr (run_query env (''INSERT'', ''persist_batch_thumbnail_job'') (Inr (
       insert_thumbnail_job (env_now env) page_id revision paper d2))) (\<lambda>(thumbnail_job_created, d3).
     Inr (\<lparr>ib_seq = next, ib_revision = revision, ib_updated_at = env_rfc3339 env (env_now env),
           ib_thumbnail_job_created = thumbnail_job_created\<rparr>, d3)))))"

definition persist_batch ::
  "dbenv \<Rightarrow> db \<Rightarrow> string \<Rightarrow> string \<Rightarrow> Stroke list \<Rightarrow> DbError + (PersistedBatch \<times> db)" where
  "persist_batch env d page_id client_batch_id strokes =
     bindr (begin_tx env ''persist_batch'') (\<lambda>_.
     bindr (lock_page env d ''persist_batch_lock_page'' page_id) (\<lambda>row.
     bindr (run_query env (''SELECT'', ''persist_batch_tombstoned'')
       (Inr (filter (\<lambda>i. i \<in> set (map stroke_id strokes)) (tombstoned_ids_of d page_id)))) (\<lambda>tombstoned.
     let visible_strokes = filter (\<lambda>stroke. stroke_id stroke \<notin> set tombstoned) strokes in
     bindr (run_query env (''SELECT'', ''persist_batch_existing'')
       (Inr (List.find (\<lambda>b. sbr_client_batch_id b = client_batch_id) (batches_of d page_id)))) (\<lambda>existing.
     case existing of
       Some b \<Rightarrow>
         bindr (commit_tx env ''persist_batch'') (\<lambda>_.
         Inr (\<lparr>pb_seq = as_u64 (sbr_seq b), pb_revision = as_u64 (sbr_revision b),
               pb_owner_id = pg_owner_id row, pb_visible_strokes = visible_strokes,
               pb_thumbnail_job_created = False, pb_updated_at = None\<rparr>, d))
     | None \<Rightarrow>
         if visible_strokes = [] then
           bindr (run_query env (''SELECT'', ''persist_batch_head_seq'')
             (Inr (max_or_0 (map sbr_seq (batches_of d page_id))))) (\<lambda>head_seq.
           bindr (commit_tx env ''persist_batch'') (\<lambda>_.
           Inr (\<lparr>pb_seq = as_u64 head_seq, pb_revision = as_u64 (pg_ink_revision row),
                 pb_owner_id = pg_owner_id row, pb_visible_strokes = visible_strokes,
                 pb_thumbnail_job_created = False, pb_updated_at = None\<rparr>, d)))
         else
           bindr (insert_visible_batch env d page_id client_batch_id visible_strokes
             (pg_ink_revision row) (pg_paper row)) (\<lambda>(inserted, d').
           bindr (commit_tx env ''persist_batch'') (\<lambda>_.
           Inr (\<lparr>pb_seq = as_u64 (ib_seq inserted), pb_revision = as_u64 (ib_revision inserted),
                 pb_owner_id = pg_owner_id row, pb_visible_strokes = visible_strokes,
                 pb_thumbnail_job_created = ib_thumbnail_job_created inserted,
                 pb_updated_at = Some (ib_updated_at inserted)\<rparr>, d')))))))"

record PersistedTombstones =
  pt_revision :: u64
  pt_owner_id :: string
  pt_stroke_ids :: "string list"
  pt_thumbnail_job_created :: bool
  pt_updated_at :: "string option"

text \<open>The loop of inserts into \<open>stroke_tombstones\<close>, whose primary key is \<open>(page_id, stroke_id)\<close>.\<close>

fun insert_stroke_tombstones :: "query \<Rightarrow> string \<Rightarrow> int \<Rightarrow> string list \<Rightarrow> db \<Rightarrow> DbError + db" where
  "insert_stroke_tombstones q page_id revision [] d = Inr d"
| "insert_stroke_tombstones q page_id revision (i # ids) d =
     (if i \<in> set (tombstoned_ids_of d page_id) then Inl (ConstraintViolation q)
      else insert_stroke_tombstones q page_id revision ids
        (d\<lparr>stroke_tombstones := stroke_tombstones d @
            [\<lparr>str_page_id = page_id, str_stroke_id = i, str_deleted_revision = revision\<rparr>]\<rparr>))"

definition insert_tombstone_batch :: "query \<Rightarrow> TombstoneBatchRow \<Rightarrow> db \<Rightarrow> DbError + db" where
  "insert_tombstone_batch q row d =
     (if page_row d (tbr_page_id row) = None
         \<or> list_ex (\<lambda>t. tbr_client_mutation_id t = tbr_client_mutation_id row)
              (tombstone_batches_of d (tbr_page_id row))
      then Inl (ConstraintViolation q)
      else Inr (d\<lparr>tombstone_batches := tombstone_batches d @ [row]\<rparr>))"

definition persist_tombstones ::
  "dbenv \<Rightarrow> db \<Rightarrow> string \<Rightarrow> string \<Rightarrow> string list \<Rightarrow> DbError + (PersistedTombstones \<times> db)" where
  "persist_tombstones env d page_id client_mutation_id requested_ids =
     bindr (begin_tx env ''persist_tombstones'') (\<lambda>_.
     bindr (lock_page env d ''persist_tombstones_lock_page'' page_id) (\<lambda>row.
     bindr (run_query env (''SELECT'', ''persist_tombstones_existing'')
       (Inr (List.find (\<lambda>t. tbr_client_mutation_id t = client_mutation_id)
         (tombstone_batches_of d page_id)))) (\<lambda>stored.
     case stored of
       Some t \<Rightarrow>
         bindr (commit_tx env ''persist_tombstones'') (\<lambda>_.
         Inr (\<lparr>pt_revision = as_u64 (tbr_revision t), pt_owner_id = pg_owner_id row,
               pt_stroke_ids = tbr_stroke_ids t, pt_thumbnail_job_created = False,
               pt_updated_at = None\<rparr>, d))
     | None \<Rightarrow>
         let ids0 = remdups_adj (sort requested_ids) in
         bindr (run_query env (''SELECT'', ''persist_tombstones_already_deleted'')
           (Inr (filter (\<lambda>i. i \<in> set ids0) (tombstoned_ids_of d page_id)))) (\<lambda>existing.
         let ids = filter (\<lambda>i. i \<notin> set existing) ids0;
             revision = (if ids = [] then pg_ink_revision row else wrap_i64 (pg_ink_revision row + 1)) in
         bindr (if ids = [] then Inr d
           else run_query env (''INSERT'', ''persist_tombstones_insert_stroke'')
             (insert_stroke_tombstones (''INSERT'', ''persist_tombstones_insert_stroke'')
               page_id revision ids d)) (\<lambda>d1.
         bindr (run_query env (''INSERT'', ''persist_tombstones_insert_batch'')
           (insert_tombstone_batch (''INSERT'', ''persist_tombstones_insert_batch'')
             \<lparr>tbr_page_id = page_id, tbr_client_mutation_id = client_mutation_id,
              tbr_revision = revision, tbr_stroke_ids = ids\<rparr> d1)) (\<lambda>d2.
         if ids = [] then
           bindr (commit_tx env ''persist_tombstones'') (\<lambda>_.
           Inr (\<lparr>pt_revision = as_u64 revision, pt_owner_id = pg_owner_id row, pt_stroke_ids = ids,
                 pt_thumbnail_job_created = False, pt_updated_at = None\<rparr>, d2))
         else
           bindr (run_query env (''UPDATE'', ''persist_tombstones_bump_page'')
             (if pg_ink_revision row = i64_max
              then Inl (QueryFailed (''UPDATE'', ''persist_tombstones_bump_page''))
              else Inr (update_page (\<lambda>r. r\<lparr>pg_updated_at := env_now env,
                     pg_ink_revision := pg_ink_revision r + 1\<rparr>) page_id d2))) (\<lambda>d3.
           bindr (run_query env (''INSERT'', ''persist_tombstones_thumbnail_job'') (Inr (
             insert_thumbnail_job (env_now env) page_id revision (pg_paper row) d3)))
               (\<lambda>(thumbnail_job_created, d4).
           bindr (commit_tx env ''persist_tombstones'') (\<lambda>_.
           Inr (\<lparr>pt_revision = as_u64 revision, pt_owner_id = pg_owner_id row, pt_stroke_ids = ids,
                 pt_thumbnail_job_created = thumbnail_job_created,
                 pt_updated_at = Some (env_rfc3339 env (env_now env))\<rparr>, d4))))))))))"

record PersistedPaper =
  pp_changed :: bool
  pp_revision :: u64
  pp_owner_id :: string
  pp_thumbnail_job_created :: bool
  pp_updated_at :: "string option"

text \<open>The \<open>EXISTS\<close> query: a stroke of a batch up to the revision that no tombstone up to the
  revision names.\<close>

definition has_visible_ink :: "db \<Rightarrow> string \<Rightarrow> int \<Rightarrow> bool" where
  "has_visible_ink d page_id revision =
     list_ex (\<lambda>b. sbr_revision b \<le> revision \<and>
        list_ex (\<lambda>s. \<not> list_ex (\<lambda>t. str_stroke_id t = stroke_id s \<and> str_deleted_revision t \<le> revision)
          (tombstones_of d page_id)) (sbr_strokes b))
       (batches_of d page_id)"

definition persist_paper :: "dbenv \<Rightarrow> db \<Rightarrow> string \<Rightarrow> Paper \<Rightarrow> DbError + (PersistedPaper \<times> db)" where
  "persist_paper env d page_id paper =
     bindr (begin_tx env ''persist_paper'') (\<lambda>_.
     bindr (lock_page env d ''persist_paper_lock_page'' page_id) (\<lambda>row.
     if pg_paper row = wire_value paper then
       bindr (commit_tx env ''persist_paper'') (\<lambda>_.
       Inr (\<lparr>pp_changed = False, pp_revision = as_u64 (pg_ink_revision row),
             pp_owner_id = pg_owner_id row, pp_thumbnail_job_created = False,
             pp_updated_at = None\<rparr>, d))
     else
       bindr (run_query env (''SELECT'', ''persist_paper_has_visible_ink'')
         (Inr (has_visible_ink d page_id (pg_ink_revision row)))) (\<lambda>visible.
       let revision = (if visible then wrap_i64 (pg_ink_revision row + 1) else pg_ink_revision row) in
       bindr (run_query env (''UPDATE'', ''persist_paper_update_page'') (Inr (
         update_page (\<lambda>r. r\<lparr>pg_paper := wire_value paper, pg_updated_at := env_now env,
           pg_ink_revision := revision\<rparr>) page_id d))) (\<lambda>d1.
       bindr (if visible then
           run_query env (''INSERT'', ''persist_paper_thumbnail_job'') (Inr (
             insert_thumbnail_job (env_now env) page_id revision (wire_value paper) d1))
         else Inr (False, d1)) (\<lambda>(thumbnail_job_created, d2).
       bindr (commit_tx env ''persist_paper'') (\<lambda>_.
       Inr (\<lparr>pp_changed = True, pp_revision = as_u64 revision, pp_owner_id = pg_owner_id row,
             pp_thumbnail_job_created = thumbnail_job_created,
             pp_updated_at = Some (env_rfc3339 env (env_now env))\<rparr>, d2)))))))"

section \<open>The invariant of the tables\<close>

text \<open>What one page's rows look like: everything is stated over the page's own row and its rows of
  the four child tables.\<close>

record page_view =
  v_row :: "PageRow option"
  v_batches :: "StrokeBatchRow list"
  v_tombstones :: "StrokeTombstoneRow list"
  v_tombstone_batches :: "TombstoneBatchRow list"
  v_thumbnails :: "ThumbnailRow list"

definition page_view :: "db \<Rightarrow> string \<Rightarrow> page_view" where
  "page_view d p = \<lparr>v_row = page_row d p, v_batches = batches_of d p,
     v_tombstones = tombstones_of d p, v_tombstone_batches = tombstone_batches_of d p,
     v_thumbnails = thumbnails_of d p\<rparr>"

text \<open>Batches: sequence numbers \<open>1, 2, ..\<close> without a gap, revisions ascending in the same order and
  within the page's, each batch a client id of its own and at least one stroke.\<close>

definition batches_ok :: "int \<Rightarrow> StrokeBatchRow list \<Rightarrow> bool" where
  "batches_ok rv bs \<longleftrightarrow>
     map sbr_seq bs = map (\<lambda>i. int i + 1) [0..<length bs] \<and>
     sorted_wrt (<) (map sbr_revision bs) \<and>
     (\<forall>b \<in> set bs. 0 < sbr_revision b \<and> sbr_revision b \<le> rv \<and> sbr_strokes b \<noteq> []) \<and>
     distinct (map sbr_client_batch_id bs)"

text \<open>Tombstones: one per stroke, and exactly the ids the tombstone batches carry.\<close>

definition tombstones_ok :: "int \<Rightarrow> StrokeTombstoneRow list \<Rightarrow> TombstoneBatchRow list \<Rightarrow> bool" where
  "tombstones_ok rv ts tbs \<longleftrightarrow>
     distinct (map str_stroke_id ts) \<and>
     (\<forall>t \<in> set ts. 0 < str_deleted_revision t \<and> str_deleted_revision t \<le> rv) \<and>
     distinct (map tbr_client_mutation_id tbs) \<and>
     (\<forall>t \<in> set tbs. 0 \<le> tbr_revision t \<and> tbr_revision t \<le> rv) \<and>
     set (map str_stroke_id ts) = (\<Union>t \<in> set tbs. set (tbr_stroke_ids t))"

text \<open>Delete wins: a stroke both added and deleted was deleted after it was added.\<close>

definition delete_wins :: "StrokeBatchRow list \<Rightarrow> StrokeTombstoneRow list \<Rightarrow> bool" where
  "delete_wins bs ts \<longleftrightarrow>
     (\<forall>b \<in> set bs. \<forall>s \<in> set (sbr_strokes b). \<forall>t \<in> set ts.
        str_stroke_id t = stroke_id s \<longrightarrow> sbr_revision b < str_deleted_revision t)"

text \<open>Thumbnails: one per revision, none ahead of the page, and the page's head revision has one.\<close>

definition thumbnails_ok :: "int \<Rightarrow> ThumbnailRow list \<Rightarrow> bool" where
  "thumbnails_ok rv ths \<longleftrightarrow>
     distinct (map th_source_seq ths) \<and>
     (\<forall>t \<in> set ths. 0 < th_source_seq t \<and> th_source_seq t \<le> rv) \<and>
     (rv = 0 \<or> rv \<in> set (map th_source_seq ths))"

fun view_ok :: "page_view \<Rightarrow> bool" where
  "view_ok v = (case v_row v of
     None \<Rightarrow> v_batches v = [] \<and> v_tombstones v = [] \<and> v_tombstone_batches v = [] \<and> v_thumbnails v = []
   | Some row \<Rightarrow>
       0 \<le> pg_ink_revision row \<and> pg_ink_revision row \<le> i64_max \<and>
       batches_ok (pg_ink_revision row) (v_batches v) \<and>
       tombstones_ok (pg_ink_revision row) (v_tombstones v) (v_tombstone_batches v) \<and>
       delete_wins (v_batches v) (v_tombstones v) \<and>
       thumbnails_ok (pg_ink_revision row) (v_thumbnails v))"

declare view_ok.simps [simp del]

definition db_inv :: "db \<Rightarrow> bool" where
  "db_inv d \<longleftrightarrow> distinct (map pg_id (pages d)) \<and> (\<forall>p. view_ok (page_view d p))"

lemma db_inv_step:
  assumes "db_inv d" and "map pg_id (pages d') = map pg_id (pages d)"
    and "\<And>q. q \<noteq> p \<Longrightarrow> page_view d' q = page_view d q" and "view_ok (page_view d' p)"
  shows "db_inv d'"
  using assms unfolding db_inv_def by metis

subsection \<open>Projections after a write\<close>

lemma page_row_id: "page_row d p = Some r \<Longrightarrow> pg_id r = p"
  by (auto simp: page_row_def find_Some_iff)

lemma find_map_update:
  assumes "\<And>r. pg_id (f r) = pg_id r"
  shows "List.find (\<lambda>r. pg_id r = q) (map (\<lambda>r. if pg_id r = p then f r else r) rs) =
    (if q = p then map_option f (List.find (\<lambda>r. pg_id r = p) rs) else List.find (\<lambda>r. pg_id r = q) rs)"
  by (induction rs) (auto simp: assms)

lemma page_row_update_page [store_simps]:
  "(\<And>r. pg_id (f r) = pg_id r) \<Longrightarrow>
   page_row (update_page f p d) q = (if q = p then map_option f (page_row d p) else page_row d q)"
  by (simp add: page_row_def update_page_def find_map_update)

lemma update_page_ids [store_simps]:
  "(\<And>r. pg_id (f r) = pg_id r) \<Longrightarrow> map pg_id (pages (update_page f p d)) = map pg_id (pages d)"
  by (simp add: update_page_def)

lemma update_page_children [store_simps]:
  "batches_of (update_page f p d) q = batches_of d q"
  "tombstones_of (update_page f p d) q = tombstones_of d q"
  "tombstone_batches_of (update_page f p d) q = tombstone_batches_of d q"
  "thumbnails_of (update_page f p d) q = thumbnails_of d q"
  by (simp_all add: update_page_def batches_of_def tombstones_of_def tombstone_batches_of_def
      thumbnails_of_def)

lemma append_batch_views [store_simps]:
  "page_row (d\<lparr>stroke_batches := bs\<rparr>) q = page_row d q"
  "batches_of (d\<lparr>stroke_batches := stroke_batches d @ [b]\<rparr>) q =
     batches_of d q @ (if sbr_page_id b = q then [b] else [])"
  "tombstones_of (d\<lparr>stroke_batches := bs\<rparr>) q = tombstones_of d q"
  "tombstone_batches_of (d\<lparr>stroke_batches := bs\<rparr>) q = tombstone_batches_of d q"
  "thumbnails_of (d\<lparr>stroke_batches := bs\<rparr>) q = thumbnails_of d q"
  by (simp_all add: page_row_def batches_of_def tombstones_of_def tombstone_batches_of_def
      thumbnails_of_def)

lemma append_tombstone_views [store_simps]:
  "page_row (d\<lparr>stroke_tombstones := ts\<rparr>) q = page_row d q"
  "batches_of (d\<lparr>stroke_tombstones := ts\<rparr>) q = batches_of d q"
  "tombstones_of (d\<lparr>stroke_tombstones := stroke_tombstones d @ ts\<rparr>) q =
     tombstones_of d q @ filter (\<lambda>t. str_page_id t = q) ts"
  "tombstone_batches_of (d\<lparr>stroke_tombstones := ts\<rparr>) q = tombstone_batches_of d q"
  "thumbnails_of (d\<lparr>stroke_tombstones := ts\<rparr>) q = thumbnails_of d q"
  by (simp_all add: page_row_def batches_of_def tombstones_of_def tombstone_batches_of_def
      thumbnails_of_def)

lemma append_tombstone_batch_views [store_simps]:
  "page_row (d\<lparr>tombstone_batches := tbs\<rparr>) q = page_row d q"
  "batches_of (d\<lparr>tombstone_batches := tbs\<rparr>) q = batches_of d q"
  "tombstones_of (d\<lparr>tombstone_batches := tbs\<rparr>) q = tombstones_of d q"
  "tombstone_batches_of (d\<lparr>tombstone_batches := tombstone_batches d @ [t]\<rparr>) q =
     tombstone_batches_of d q @ (if tbr_page_id t = q then [t] else [])"
  "thumbnails_of (d\<lparr>tombstone_batches := tbs\<rparr>) q = thumbnails_of d q"
  by (simp_all add: page_row_def batches_of_def tombstones_of_def tombstone_batches_of_def
      thumbnails_of_def)

lemma append_thumbnail_views [store_simps]:
  "page_row (d\<lparr>page_thumbnails := ths\<rparr>) q = page_row d q"
  "batches_of (d\<lparr>page_thumbnails := ths\<rparr>) q = batches_of d q"
  "tombstones_of (d\<lparr>page_thumbnails := ths\<rparr>) q = tombstones_of d q"
  "tombstone_batches_of (d\<lparr>page_thumbnails := ths\<rparr>) q = tombstone_batches_of d q"
  "thumbnails_of (d\<lparr>page_thumbnails := page_thumbnails d @ [t]\<rparr>) q =
     thumbnails_of d q @ (if th_page_id t = q then [t] else [])"
  by (simp_all add: page_row_def batches_of_def tombstones_of_def tombstone_batches_of_def
      thumbnails_of_def)

text \<open>The state after the thumbnail job of a revision that has none.\<close>

definition add_job :: "int \<Rightarrow> string \<Rightarrow> int \<Rightarrow> string \<Rightarrow> db \<Rightarrow> db" where
  "add_job now p rv paper d = d\<lparr>page_thumbnails := page_thumbnails d @
     [\<lparr>th_page_id = p, th_source_seq = rv, th_status = ''generating'', th_png = None,
       th_created_at = now, th_paper = paper\<rparr>]\<rparr>"

lemma insert_thumbnail_job_new:
  "rv \<notin> set (map th_source_seq (thumbnails_of d p)) \<Longrightarrow>
   insert_thumbnail_job now p rv paper d = (True, add_job now p rv paper d)"
  by (auto simp: insert_thumbnail_job_def add_job_def list_ex_iff)

lemma add_job_views [store_simps]:
  "page_row (add_job now p rv paper d) q = page_row d q"
  "batches_of (add_job now p rv paper d) q = batches_of d q"
  "tombstones_of (add_job now p rv paper d) q = tombstones_of d q"
  "tombstone_batches_of (add_job now p rv paper d) q = tombstone_batches_of d q"
  "thumbnails_of (add_job now p rv paper d) q = thumbnails_of d q @
     (if p = q then [\<lparr>th_page_id = p, th_source_seq = rv, th_status = ''generating'',
        th_png = None, th_created_at = now, th_paper = paper\<rparr>] else [])"
  "pages (add_job now p rv paper d) = pages d"
  by (simp_all add: add_job_def store_simps)

subsection \<open>Growing a page\<close>

text \<open>What each kind of write does to the parts of the invariant.\<close>

lemma batches_ok_seqs: "batches_ok rv bs \<Longrightarrow> max_or_0 (map sbr_seq bs) = int (length bs)"
proof -
  assume ok: "batches_ok rv bs"
  then have eq: "map sbr_seq bs = map (\<lambda>i. int i + 1) [0..<length bs]" by (simp add: batches_ok_def)
  show ?thesis
  proof (cases "length bs")
    case 0
    then show ?thesis by simp
  next
    case (Suc n)
    then have "map sbr_seq bs = map (\<lambda>i. int i + 1) [0..<n] @ [int (length bs)]"
      using eq by simp
    then show ?thesis using Suc by (auto intro!: max_or_0_snoc)
  qed
qed

lemma strict_sorted_bounded_length:
  fixes xs :: "int list"
  assumes "sorted_wrt (<) xs" "\<And>x. x \<in> set xs \<Longrightarrow> 0 < x \<and> x \<le> rv"
  shows "int (length xs) \<le> max 0 rv"
proof -
  have "distinct xs" using assms(1) by (simp add: strict_sorted_iff)
  then have "length xs = card (set xs)" by (simp add: distinct_card)
  also have "\<dots> \<le> card {1..rv}" by (rule card_mono) (use assms(2) in force)+
  finally show ?thesis by simp
qed

lemma batches_ok_length: "batches_ok rv bs \<Longrightarrow> 0 \<le> rv \<Longrightarrow> int (length bs) \<le> rv"
  using strict_sorted_bounded_length [of "map sbr_revision bs" rv] by (auto simp: batches_ok_def)

lemma batches_ok_snoc:
  assumes "batches_ok rv bs" "rv < rv'" "0 \<le> rv"
    and "sbr_seq b = int (length bs) + 1" "sbr_revision b = rv'" "sbr_strokes b \<noteq> []"
    and "sbr_client_batch_id b \<notin> set (map sbr_client_batch_id bs)"
  shows "batches_ok rv' (bs @ [b])"
  using assms by (fastforce simp: batches_ok_def sorted_wrt_append)

lemma batches_ok_mono: "batches_ok rv bs \<Longrightarrow> rv \<le> rv' \<Longrightarrow> batches_ok rv' bs"
  by (fastforce simp: batches_ok_def)

lemma tombstones_ok_mono: "tombstones_ok rv ts tbs \<Longrightarrow> rv \<le> rv' \<Longrightarrow> tombstones_ok rv' ts tbs"
  by (fastforce simp: tombstones_ok_def)

lemma thumbnails_ok_snoc:
  assumes "thumbnails_ok rv ths" "rv < rv'" "0 \<le> rv" "th_source_seq t = rv'"
  shows "thumbnails_ok rv' (ths @ [t])"
  using assms by (fastforce simp: thumbnails_ok_def)

lemma thumbnails_ok_fresh: "thumbnails_ok rv ths \<Longrightarrow> rv < rv' \<Longrightarrow> rv' \<notin> set (map th_source_seq ths)"
  by (force simp: thumbnails_ok_def)

subsection \<open>What a successful operation did\<close>

definition stroke_visible :: "db \<Rightarrow> string \<Rightarrow> Stroke \<Rightarrow> bool" where
  "stroke_visible d p s \<longleftrightarrow> stroke_id s \<notin> set (tombstoned_ids_of d p)"

text \<open>The three ways \<open>persist_batch\<close> succeeds: a retry, a fully suppressed add, an insert.\<close>

definition batch_row :: "db \<Rightarrow> string \<Rightarrow> string \<Rightarrow> Stroke list \<Rightarrow> int \<Rightarrow> StrokeBatchRow" where
  "batch_row d p cid strokes rv =
     \<lparr>sbr_page_id = p, sbr_seq = max_or_0 (map sbr_seq (batches_of d p)) + 1, sbr_revision = rv,
      sbr_client_batch_id = cid, sbr_strokes = strokes\<rparr>"

definition after_batch :: "dbenv \<Rightarrow> db \<Rightarrow> string \<Rightarrow> string \<Rightarrow> Stroke list \<Rightarrow> PageRow \<Rightarrow> db" where
  "after_batch env d p cid strokes row =
     (let rv = wrap_i64 (pg_ink_revision row + 1) in
      snd (insert_thumbnail_job (env_now env) p rv (pg_paper row)
        (update_page (\<lambda>r. r\<lparr>pg_updated_at := env_now env, pg_ink_revision := rv\<rparr>) p
          (d\<lparr>stroke_batches := stroke_batches d @ [batch_row d p cid strokes rv]\<rparr>))))"

lemma persist_batch_cases:
  assumes "persist_batch env d p cid strokes = Inr (r, d')"
  obtains
    (retry) row b where "page_row d p = Some row" "b \<in> set (batches_of d p)"
      "sbr_client_batch_id b = cid" "d' = d"
      "r = \<lparr>pb_seq = as_u64 (sbr_seq b), pb_revision = as_u64 (sbr_revision b),
            pb_owner_id = pg_owner_id row,
            pb_visible_strokes = filter (stroke_visible d p) strokes,
            pb_thumbnail_job_created = False, pb_updated_at = None\<rparr>"
  | (suppressed) row where "page_row d p = Some row"
      "cid \<notin> set (map sbr_client_batch_id (batches_of d p))"
      "filter (stroke_visible d p) strokes = []" "d' = d"
      "r = \<lparr>pb_seq = as_u64 (max_or_0 (map sbr_seq (batches_of d p))),
            pb_revision = as_u64 (pg_ink_revision row), pb_owner_id = pg_owner_id row,
            pb_visible_strokes = [], pb_thumbnail_job_created = False, pb_updated_at = None\<rparr>"
  | (inserted) row job where "page_row d p = Some row"
      "cid \<notin> set (map sbr_client_batch_id (batches_of d p))"
      "filter (stroke_visible d p) strokes \<noteq> []"
      "max_or_0 (map sbr_seq (batches_of d p)) \<noteq> i64_max"
      "0 < wrap_i64 (pg_ink_revision row + 1)"
      "d' = after_batch env d p cid (filter (stroke_visible d p) strokes) row"
      "r = \<lparr>pb_seq = as_u64 (max_or_0 (map sbr_seq (batches_of d p)) + 1),
            pb_revision = as_u64 (wrap_i64 (pg_ink_revision row + 1)),
            pb_owner_id = pg_owner_id row,
            pb_visible_strokes = filter (stroke_visible d p) strokes,
            pb_thumbnail_job_created = job,
            pb_updated_at = Some (env_rfc3339 env (env_now env))\<rparr>"
      "job \<longleftrightarrow> wrap_i64 (pg_ink_revision row + 1) \<notin> set (map th_source_seq (thumbnails_of d p))"
proof -
  define vis where "vis = filter (stroke_visible d p) strokes"
  have vis_eq: "filter (\<lambda>s. stroke_id s \<in> set (tombstoned_ids_of d p) \<longrightarrow>
      stroke_id s \<notin> stroke_id ` set strokes) strokes = vis"
    unfolding vis_def stroke_visible_def by (rule filter_cong) auto
  obtain row where row: "page_row d p = Some row"
    using assms by (auto simp: persist_batch_def lock_page_def results_simps)
  show ?thesis
  proof (cases "List.find (\<lambda>b. sbr_client_batch_id b = cid) (batches_of d p)")
    case (Some b)
    then have b: "b \<in> set (batches_of d p)" "sbr_client_batch_id b = cid"
      by (auto simp: find_Some_iff)
    show ?thesis
      by (rule retry [OF row b])
        (use assms row Some in \<open>auto simp: persist_batch_def lock_page_def begin_tx_def commit_tx_def
            results_simps Let_def vis_eq vis_def\<close>)
  next
    case None
    then have cid: "cid \<notin> set (map sbr_client_batch_id (batches_of d p))"
      by (auto simp: find_None_iff)
    show ?thesis
    proof (cases "vis = []")
      case True
      show ?thesis
        by (rule suppressed [OF row cid])
          (use assms row None True in \<open>auto simp: persist_batch_def lock_page_def begin_tx_def
              commit_tx_def results_simps Let_def vis_eq vis_def\<close>)
    next
      case False
      from assms row None False obtain ib where
        ib: "insert_visible_batch env d p cid vis (pg_ink_revision row) (pg_paper row) = Inr (ib, d')"
        and r: "r = \<lparr>pb_seq = as_u64 (ib_seq ib), pb_revision = as_u64 (ib_revision ib),
                 pb_owner_id = pg_owner_id row, pb_visible_strokes = vis,
                 pb_thumbnail_job_created = ib_thumbnail_job_created ib,
                 pb_updated_at = Some (ib_updated_at ib)\<rparr>"
        by (auto simp: persist_batch_def lock_page_def begin_tx_def commit_tx_def results_simps
            Let_def vis_eq split: prod.splits)
      define rv where "rv = wrap_i64 (pg_ink_revision row + 1)"
      define d2 where "d2 = update_page (\<lambda>r. r\<lparr>pg_updated_at := env_now env, pg_ink_revision := rv\<rparr>) p
          (d\<lparr>stroke_batches := stroke_batches d @ [batch_row d p cid vis rv]\<rparr>)"
      from ib have D: "d' = snd (insert_thumbnail_job (env_now env) p rv (pg_paper row) d2)"
        "ib_seq ib = max_or_0 (map sbr_seq (batches_of d p)) + 1" "ib_revision ib = rv"
        "ib_updated_at ib = env_rfc3339 env (env_now env)"
        "ib_thumbnail_job_created ib = fst (insert_thumbnail_job (env_now env) p rv (pg_paper row) d2)"
        "max_or_0 (map sbr_seq (batches_of d p)) \<noteq> i64_max" "0 < rv"
        by (auto simp: insert_visible_batch_def results_simps Let_def rv_def d2_def batch_row_def
            insert_stroke_batch_def split: if_splits prod.splits)
      have job: "fst (insert_thumbnail_job (env_now env) p rv (pg_paper row) d2) \<longleftrightarrow>
          rv \<notin> set (map th_source_seq (thumbnails_of d p))"
        by (auto simp: insert_thumbnail_job_def list_ex_iff d2_def store_simps)
      show ?thesis
        by (rule inserted [OF row cid])
          (use D r False job in \<open>simp_all add: vis_def rv_def d2_def after_batch_def Let_def\<close>)
    qed
  qed
qed

lemma after_batch_eq:
  assumes "wrap_i64 (pg_ink_revision row + 1) \<notin> set (map th_source_seq (thumbnails_of d p))"
  shows "after_batch env d p cid strokes row =
    (let rv = wrap_i64 (pg_ink_revision row + 1) in
     add_job (env_now env) p rv (pg_paper row)
       (update_page (\<lambda>r. r\<lparr>pg_updated_at := env_now env, pg_ink_revision := rv\<rparr>) p
         (d\<lparr>stroke_batches := stroke_batches d @ [batch_row d p cid strokes rv]\<rparr>)))"
  using assms by (simp add: after_batch_def Let_def insert_thumbnail_job_new store_simps)

lemma view_okD:
  assumes "db_inv d" "page_row d p = Some row"
  shows "0 \<le> pg_ink_revision row" "pg_ink_revision row \<le> i64_max"
    "batches_ok (pg_ink_revision row) (batches_of d p)"
    "tombstones_ok (pg_ink_revision row) (tombstones_of d p) (tombstone_batches_of d p)"
    "delete_wins (batches_of d p) (tombstones_of d p)"
    "thumbnails_ok (pg_ink_revision row) (thumbnails_of d p)"
proof -
  from assms(1) have "view_ok (page_view d p)" by (simp add: db_inv_def)
  with assms(2) show "0 \<le> pg_ink_revision row" "pg_ink_revision row \<le> i64_max"
    "batches_ok (pg_ink_revision row) (batches_of d p)"
    "tombstones_ok (pg_ink_revision row) (tombstones_of d p) (tombstone_batches_of d p)"
    "delete_wins (batches_of d p) (tombstones_of d p)"
    "thumbnails_ok (pg_ink_revision row) (thumbnails_of d p)"
    by (simp_all add: view_ok.simps page_view_def)
qed

lemma view_okI:
  assumes "page_row d p = Some row" "0 \<le> pg_ink_revision row" "pg_ink_revision row \<le> i64_max"
    "batches_ok (pg_ink_revision row) (batches_of d p)"
    "tombstones_ok (pg_ink_revision row) (tombstones_of d p) (tombstone_batches_of d p)"
    "delete_wins (batches_of d p) (tombstones_of d p)"
    "thumbnails_ok (pg_ink_revision row) (thumbnails_of d p)"
  shows "view_ok (page_view d p)"
  using assms by (simp add: view_ok.simps page_view_def)

lemma view_ok_no_row: "db_inv d \<Longrightarrow> page_row d p = None \<Longrightarrow>
    batches_of d p = [] \<and> tombstones_of d p = [] \<and> tombstone_batches_of d p = [] \<and> thumbnails_of d p = []"
  unfolding db_inv_def by (drule conjunct2, drule spec [of _ p]) (simp add: view_ok.simps page_view_def)

text \<open>A successful bump stayed within \<open>BIGINT\<close>: the wrapped successor is positive only then.\<close>

lemma wrap_i64_succ_pos: "0 \<le> n \<Longrightarrow> n \<le> i64_max \<Longrightarrow> 0 < wrap_i64 (n + 1) \<Longrightarrow>
    wrap_i64 (n + 1) = n + 1 \<and> n + 1 \<le> i64_max"
proof -
  assume n: "0 \<le> n" "n \<le> i64_max" and pos: "0 < wrap_i64 (n + 1)"
  have "n \<noteq> i64_max"
    using pos by (auto simp: wrap_i64_def i64_max_def)
  with n show ?thesis using wrap_i64_id [of "n + 1"] by simp
qed

lemma delete_wins_snoc:
  assumes "delete_wins bs ts" "\<forall>s \<in> set (sbr_strokes b). stroke_id s \<notin> str_stroke_id ` set ts"
  shows "delete_wins (bs @ [b]) ts"
  using assms by (auto simp: delete_wins_def) (metis imageI)

lemma tombstoned_ids_set: "set (tombstoned_ids_of d p) = str_stroke_id ` set (tombstones_of d p)"
  by (simp add: tombstoned_ids_of_def)

lemma after_batch_inv:
  assumes inv: "db_inv d" and row: "page_row d p = Some row"
    and cid: "cid \<notin> set (map sbr_client_batch_id (batches_of d p))"
    and vis: "strokes \<noteq> []" "\<And>s. s \<in> set strokes \<Longrightarrow> stroke_visible d p s"
    and pos: "0 < wrap_i64 (pg_ink_revision row + 1)"
  shows "db_inv (after_batch env d p cid strokes row)"
proof -
  note ok = view_okD [OF inv row]
  define rv where "rv = pg_ink_revision row + 1"
  have wrap: "wrap_i64 (pg_ink_revision row + 1) = rv" "rv \<le> i64_max"
    using wrap_i64_succ_pos [OF ok(1,2) pos] by (simp_all add: rv_def)
  have fresh: "rv \<notin> set (map th_source_seq (thumbnails_of d p))"
    using thumbnails_ok_fresh [OF ok(6)] by (simp add: rv_def)
  then have eq: "after_batch env d p cid strokes row =
     add_job (env_now env) p rv (pg_paper row)
       (update_page (\<lambda>r. r\<lparr>pg_updated_at := env_now env, pg_ink_revision := rv\<rparr>) p
         (d\<lparr>stroke_batches := stroke_batches d @ [batch_row d p cid strokes rv]\<rparr>))"
    by (simp add: after_batch_eq wrap)
  have seq: "max_or_0 (map sbr_seq (batches_of d p)) = int (length (batches_of d p))"
    by (rule batches_ok_seqs [OF ok(3)])
  show ?thesis
  proof (rule db_inv_step [OF inv, where p = p])
    show "view_ok (page_view (after_batch env d p cid strokes row) p)"
    proof (rule view_okI)
      show "page_row (after_batch env d p cid strokes row) p =
          Some (row\<lparr>pg_updated_at := env_now env, pg_ink_revision := rv\<rparr>)"
        by (simp add: eq store_simps row)
      have "delete_wins (batches_of d p @ [batch_row d p cid strokes rv]) (tombstones_of d p)"
        using ok(5) vis(2)
        by (intro delete_wins_snoc) (auto simp: batch_row_def stroke_visible_def tombstoned_ids_set)
      then show "delete_wins (batches_of (after_batch env d p cid strokes row) p)
          (tombstones_of (after_batch env d p cid strokes row) p)"
        by (simp add: eq store_simps batch_row_def)
      have "batches_ok rv (batches_of d p @ [batch_row d p cid strokes rv])"
        by (rule batches_ok_snoc [OF ok(3)]) (use ok(1) cid vis seq in \<open>auto simp: rv_def batch_row_def\<close>)
      then show "batches_ok (pg_ink_revision (row\<lparr>pg_updated_at := env_now env, pg_ink_revision := rv\<rparr>))
          (batches_of (after_batch env d p cid strokes row) p)"
        by (simp add: eq store_simps batch_row_def)
      show "thumbnails_ok (pg_ink_revision (row\<lparr>pg_updated_at := env_now env, pg_ink_revision := rv\<rparr>))
          (thumbnails_of (after_batch env d p cid strokes row) p)"
        using ok(1) by (auto simp: eq store_simps rv_def intro!: thumbnails_ok_snoc [OF ok(6)])
      show "tombstones_ok (pg_ink_revision (row\<lparr>pg_updated_at := env_now env, pg_ink_revision := rv\<rparr>))
          (tombstones_of (after_batch env d p cid strokes row) p)
          (tombstone_batches_of (after_batch env d p cid strokes row) p)"
        by (simp add: eq store_simps) (rule tombstones_ok_mono [OF ok(4)], simp add: rv_def)
    qed (use ok(1) wrap(2) in \<open>simp_all add: rv_def\<close>)
  qed (simp_all add: eq store_simps page_view_def batch_row_def)
qed

lemma persist_batch_inv:
  assumes "db_inv d" "persist_batch env d p cid strokes = Inr (r, d')"
  shows "db_inv d'"
  using assms(2)
proof (cases rule: persist_batch_cases)
  case (inserted row job)
  then show ?thesis using after_batch_inv [OF assms(1) inserted(1,2,3) _ inserted(5)] by auto
qed (use assms(1) in simp_all)


lemma stroke_visible_iff: "stroke_visible d p s \<longleftrightarrow> stroke_id s \<notin> str_stroke_id ` set (tombstones_of d p)"
  by (simp add: stroke_visible_def tombstoned_ids_set)

subsection \<open>Deletions\<close>

text \<open>The ids a deletion adds: the requested ones, sorted, once each, less those already deleted.\<close>

definition fresh_ids :: "db \<Rightarrow> string \<Rightarrow> string list \<Rightarrow> string list" where
  "fresh_ids d p ids = filter (\<lambda>i. i \<notin> set (tombstoned_ids_of d p)) (remdups_adj (sort ids))"

lemma fresh_ids_distinct: "distinct (fresh_ids d p ids)"
  by (simp add: fresh_ids_def)

lemma fresh_ids_set: "set (fresh_ids d p ids) = set ids - set (tombstoned_ids_of d p)"
  by (auto simp: fresh_ids_def)

definition tombstone_rows :: "string \<Rightarrow> int \<Rightarrow> string list \<Rightarrow> StrokeTombstoneRow list" where
  "tombstone_rows p rv ids =
     map (\<lambda>i. \<lparr>str_page_id = p, str_stroke_id = i, str_deleted_revision = rv\<rparr>) ids"

lemma tombstone_rows_simps [simp]:
  "tombstone_rows p rv [] = []"
  "map str_stroke_id (tombstone_rows p rv ids) = ids"
  "str_stroke_id ` set (tombstone_rows p rv ids) = set ids"
  "filter (\<lambda>t. str_page_id t = q) (tombstone_rows p rv ids) =
     (if p = q then tombstone_rows p rv ids else [])"
  by (simp_all add: tombstone_rows_def comp_def filter_map image_image)

lemma tombstone_rows_revision: "t \<in> set (tombstone_rows p rv ids) \<Longrightarrow> str_deleted_revision t = rv"
  by (auto simp: tombstone_rows_def)

lemma tombstoned_ids_append:
  "tombstoned_ids_of (d\<lparr>stroke_tombstones := stroke_tombstones d @ [\<lparr>str_page_id = p,
     str_stroke_id = i, str_deleted_revision = rv\<rparr>]\<rparr>) p = tombstoned_ids_of d p @ [i]"
  by (simp add: tombstoned_ids_of_def store_simps)

lemma insert_stroke_tombstones_Inr:
  "insert_stroke_tombstones q p rv ids d = Inr d' \<longleftrightarrow>
   distinct ids \<and> set ids \<inter> set (tombstoned_ids_of d p) = {} \<and>
   d' = d\<lparr>stroke_tombstones := stroke_tombstones d @ tombstone_rows p rv ids\<rparr>"
proof (induction ids arbitrary: d)
  case (Cons i ids)
  then show ?case by (auto simp: tombstoned_ids_append tombstone_rows_def)
qed auto

definition tombstone_batch_row :: "string \<Rightarrow> string \<Rightarrow> int \<Rightarrow> string list \<Rightarrow> TombstoneBatchRow" where
  "tombstone_batch_row p mid rv ids =
     \<lparr>tbr_page_id = p, tbr_client_mutation_id = mid, tbr_revision = rv, tbr_stroke_ids = ids\<rparr>"

definition after_delete :: "dbenv \<Rightarrow> db \<Rightarrow> string \<Rightarrow> string \<Rightarrow> string list \<Rightarrow> PageRow \<Rightarrow> db" where
  "after_delete env d p mid ids row =
     (let rv = wrap_i64 (pg_ink_revision row + 1);
          d1 = d\<lparr>stroke_tombstones := stroke_tombstones d @ tombstone_rows p rv ids\<rparr>;
          d2 = d1\<lparr>tombstone_batches := tombstone_batches d @ [tombstone_batch_row p mid rv ids]\<rparr>
      in snd (insert_thumbnail_job (env_now env) p rv (pg_paper row)
           (update_page (\<lambda>r. r\<lparr>pg_updated_at := env_now env,
              pg_ink_revision := pg_ink_revision r + 1\<rparr>) p d2)))"

text \<open>The three ways \<open>persist_tombstones\<close> succeeds: a retry, nothing left to delete, a deletion.\<close>

lemma persist_tombstones_cases:
  assumes "persist_tombstones env d p mid req = Inr (r, d')"
  obtains
    (retry) row t where "page_row d p = Some row" "t \<in> set (tombstone_batches_of d p)"
      "tbr_client_mutation_id t = mid" "d' = d"
      "r = \<lparr>pt_revision = as_u64 (tbr_revision t), pt_owner_id = pg_owner_id row,
            pt_stroke_ids = tbr_stroke_ids t, pt_thumbnail_job_created = False,
            pt_updated_at = None\<rparr>"
  | (vacuous) row where "page_row d p = Some row" "fresh_ids d p req = []"
      "mid \<notin> set (map tbr_client_mutation_id (tombstone_batches_of d p))"
      "d' = d\<lparr>tombstone_batches := tombstone_batches d @
              [tombstone_batch_row p mid (pg_ink_revision row) []]\<rparr>"
      "r = \<lparr>pt_revision = as_u64 (pg_ink_revision row), pt_owner_id = pg_owner_id row,
            pt_stroke_ids = [], pt_thumbnail_job_created = False, pt_updated_at = None\<rparr>"
  | (deleted) row job where "page_row d p = Some row" "fresh_ids d p req \<noteq> []"
      "mid \<notin> set (map tbr_client_mutation_id (tombstone_batches_of d p))"
      "pg_ink_revision row \<noteq> i64_max"
      "d' = after_delete env d p mid (fresh_ids d p req) row"
      "r = \<lparr>pt_revision = as_u64 (wrap_i64 (pg_ink_revision row + 1)),
            pt_owner_id = pg_owner_id row, pt_stroke_ids = fresh_ids d p req,
            pt_thumbnail_job_created = job, pt_updated_at = Some (env_rfc3339 env (env_now env))\<rparr>"
      "job \<longleftrightarrow> wrap_i64 (pg_ink_revision row + 1) \<notin> set (map th_source_seq (thumbnails_of d p))"
proof -
  define ids where "ids = fresh_ids d p req"
  have ids_eq: "filter (\<lambda>i. i \<in> set (tombstoned_ids_of d p) \<longrightarrow> i \<notin> set req)
      (remdups_adj (sort req)) = ids"
    unfolding ids_def fresh_ids_def by (rule filter_cong) auto
  note defs = persist_tombstones_def lock_page_def begin_tx_def commit_tx_def results_simps Let_def ids_eq
  obtain row where row: "page_row d p = Some row"
    using assms by (auto simp: defs)
  show ?thesis
  proof (cases "List.find (\<lambda>t. tbr_client_mutation_id t = mid) (tombstone_batches_of d p)")
    case (Some t)
    then have t: "t \<in> set (tombstone_batches_of d p)" "tbr_client_mutation_id t = mid"
      by (auto simp: find_Some_iff)
    show ?thesis by (rule retry [OF row t]) (use assms row Some in \<open>auto simp: defs\<close>)
  next
    case None
    then have mid: "mid \<notin> set (map tbr_client_mutation_id (tombstone_batches_of d p))"
      by (auto simp: find_None_iff)
    show ?thesis
    proof (cases "ids = []")
      case True
      have "d' = d\<lparr>tombstone_batches := tombstone_batches d @
              [tombstone_batch_row p mid (pg_ink_revision row) []]\<rparr>"
        "r = \<lparr>pt_revision = as_u64 (pg_ink_revision row), pt_owner_id = pg_owner_id row,
            pt_stroke_ids = [], pt_thumbnail_job_created = False, pt_updated_at = None\<rparr>"
        using assms row None True
        by (auto simp: defs insert_tombstone_batch_def tombstone_batch_row_def split: if_splits)
      moreover have "fresh_ids d p req = []" using True by (simp add: ids_def)
      ultimately show ?thesis using vacuous [OF row] mid by blast
    next
      case False
      define rv where "rv = wrap_i64 (pg_ink_revision row + 1)"
      define d3 where "d3 = update_page (\<lambda>r. r\<lparr>pg_updated_at := env_now env,
              pg_ink_revision := pg_ink_revision r + 1\<rparr>) p
            (d\<lparr>stroke_tombstones := stroke_tombstones d @ tombstone_rows p rv ids,
              tombstone_batches := tombstone_batches d @ [tombstone_batch_row p mid rv ids]\<rparr>)"
      have D: "pg_ink_revision row \<noteq> i64_max"
        "d' = snd (insert_thumbnail_job (env_now env) p rv (pg_paper row) d3)"
        "r = \<lparr>pt_revision = as_u64 rv, pt_owner_id = pg_owner_id row, pt_stroke_ids = ids,
              pt_thumbnail_job_created =
                fst (insert_thumbnail_job (env_now env) p rv (pg_paper row) d3),
              pt_updated_at = Some (env_rfc3339 env (env_now env))\<rparr>"
        using assms row None False
        by (auto simp: defs insert_tombstone_batch_def insert_stroke_tombstones_Inr
            tombstone_batch_row_def rv_def d3_def split: if_splits prod.splits)
      have job: "fst (insert_thumbnail_job (env_now env) p rv (pg_paper row) d3) \<longleftrightarrow>
          rv \<notin> set (map th_source_seq (thumbnails_of d p))"
        by (auto simp: insert_thumbnail_job_def list_ex_iff d3_def store_simps)
      show ?thesis
        by (rule deleted [OF row])
          (use D mid False job in \<open>simp_all add: ids_def rv_def d3_def after_delete_def Let_def\<close>)
    qed
  qed
qed


lemma wrap_i64_succ: "0 \<le> n \<Longrightarrow> n < i64_max \<Longrightarrow> wrap_i64 (n + 1) = n + 1"
  by (rule wrap_i64_id) simp_all

lemma tombstones_ok_grow:
  assumes ok: "tombstones_ok rv ts tbs" and rv: "rv \<le> rv'" "0 \<le> rv'" "ids \<noteq> [] \<Longrightarrow> 0 < rv'"
    and ids: "distinct ids" "set ids \<inter> str_stroke_id ` set ts = {}"
    and mid: "mid \<notin> set (map tbr_client_mutation_id tbs)"
  shows "tombstones_ok rv' (ts @ tombstone_rows p rv' ids) (tbs @ [tombstone_batch_row p mid rv' ids])"
proof -
  have "0 < rv'" if "t \<in> set (tombstone_rows p rv' ids)" for t
    using that rv(3) by (cases ids) auto
  moreover have "tombstones_ok rv' ts tbs" using ok rv(1) by (rule tombstones_ok_mono)
  ultimately show ?thesis
    using ids mid rv(2)
    by (auto simp: tombstones_ok_def tombstone_batch_row_def tombstone_rows_revision)
qed

lemma delete_wins_grow:
  assumes "delete_wins bs ts" "\<forall>b \<in> set bs. sbr_revision b < rv"
  shows "delete_wins bs (ts @ tombstone_rows p rv ids)"
  using assms by (auto simp: delete_wins_def tombstone_rows_revision)

lemma batches_ok_below: "batches_ok rv bs \<Longrightarrow> rv < rv' \<Longrightarrow> \<forall>b \<in> set bs. sbr_revision b < rv'"
  by (auto simp: batches_ok_def)

lemma after_delete_eq:
  assumes "wrap_i64 (pg_ink_revision row + 1) \<notin> set (map th_source_seq (thumbnails_of d p))"
  shows "after_delete env d p mid ids row =
    (let rv = wrap_i64 (pg_ink_revision row + 1) in
     add_job (env_now env) p rv (pg_paper row)
       (update_page (\<lambda>r. r\<lparr>pg_updated_at := env_now env, pg_ink_revision := pg_ink_revision r + 1\<rparr>) p
         (d\<lparr>stroke_tombstones := stroke_tombstones d @ tombstone_rows p rv ids,
            tombstone_batches := tombstone_batches d @ [tombstone_batch_row p mid rv ids]\<rparr>)))"
  using assms by (simp add: after_delete_def Let_def insert_thumbnail_job_new store_simps)

lemma tombstone_views_tables [store_simps]:
  "page_row (d\<lparr>stroke_tombstones := ts, tombstone_batches := tbs\<rparr>) q = page_row d q"
  "batches_of (d\<lparr>stroke_tombstones := ts, tombstone_batches := tbs\<rparr>) q = batches_of d q"
  "thumbnails_of (d\<lparr>stroke_tombstones := ts, tombstone_batches := tbs\<rparr>) q = thumbnails_of d q"
  "tombstones_of (d\<lparr>stroke_tombstones := stroke_tombstones d @ ts', tombstone_batches := tbs\<rparr>) q =
     tombstones_of d q @ filter (\<lambda>t. str_page_id t = q) ts'"
  "tombstone_batches_of (d\<lparr>stroke_tombstones := ts,
       tombstone_batches := tombstone_batches d @ [t]\<rparr>) q =
     tombstone_batches_of d q @ (if tbr_page_id t = q then [t] else [])"
  by (simp_all add: page_row_def batches_of_def tombstones_of_def tombstone_batches_of_def
      thumbnails_of_def)

lemma tombstone_batch_row_simps [simp]:
  "tbr_page_id (tombstone_batch_row p mid rv ids) = p"
  "tbr_client_mutation_id (tombstone_batch_row p mid rv ids) = mid"
  "tbr_revision (tombstone_batch_row p mid rv ids) = rv"
  "tbr_stroke_ids (tombstone_batch_row p mid rv ids) = ids"
  by (simp_all add: tombstone_batch_row_def)

lemma after_delete_views:
  assumes inv: "db_inv d" and row: "page_row d p = Some row" and below: "pg_ink_revision row < i64_max"
  defines "rv \<equiv> pg_ink_revision row + 1"
  shows "page_row (after_delete env d p mid ids row) q =
      (if q = p then Some (row\<lparr>pg_updated_at := env_now env, pg_ink_revision := rv\<rparr>) else page_row d q)"
    and "batches_of (after_delete env d p mid ids row) q = batches_of d q"
    and "tombstones_of (after_delete env d p mid ids row) q =
      tombstones_of d q @ (if q = p then tombstone_rows p rv ids else [])"
    and "tombstone_batches_of (after_delete env d p mid ids row) q =
      tombstone_batches_of d q @ (if q = p then [tombstone_batch_row p mid rv ids] else [])"
    and "thumbnails_of (after_delete env d p mid ids row) q =
      thumbnails_of d q @ (if q = p then [\<lparr>th_page_id = p, th_source_seq = rv,
        th_status = ''generating'', th_png = None, th_created_at = env_now env,
        th_paper = pg_paper row\<rparr>] else [])"
    and "map pg_id (pages (after_delete env d p mid ids row)) = map pg_id (pages d)"
proof -
  note ok = view_okD [OF inv row]
  have wrap: "wrap_i64 (pg_ink_revision row + 1) = rv"
    using wrap_i64_succ [OF ok(1) below] by (simp add: rv_def)
  have fresh: "wrap_i64 (pg_ink_revision row + 1) \<notin> set (map th_source_seq (thumbnails_of d p))"
    using thumbnails_ok_fresh [OF ok(6), of rv] wrap by (simp add: rv_def)
  note eq = after_delete_eq [OF fresh, of env mid ids, unfolded wrap Let_def]
  show "page_row (after_delete env d p mid ids row) q =
      (if q = p then Some (row\<lparr>pg_updated_at := env_now env, pg_ink_revision := rv\<rparr>) else page_row d q)"
    by (simp add: eq store_simps row rv_def)
  show "batches_of (after_delete env d p mid ids row) q = batches_of d q"
    "tombstones_of (after_delete env d p mid ids row) q =
      tombstones_of d q @ (if q = p then tombstone_rows p rv ids else [])"
    "tombstone_batches_of (after_delete env d p mid ids row) q =
      tombstone_batches_of d q @ (if q = p then [tombstone_batch_row p mid rv ids] else [])"
    "thumbnails_of (after_delete env d p mid ids row) q =
      thumbnails_of d q @ (if q = p then [\<lparr>th_page_id = p, th_source_seq = rv,
        th_status = ''generating'', th_png = None, th_created_at = env_now env,
        th_paper = pg_paper row\<rparr>] else [])"
    "map pg_id (pages (after_delete env d p mid ids row)) = map pg_id (pages d)"
    by (simp_all add: eq store_simps)
qed

lemma after_delete_inv:
  assumes inv: "db_inv d" and row: "page_row d p = Some row" and below: "pg_ink_revision row < i64_max"
    and ids: "distinct ids" "set ids \<inter> set (tombstoned_ids_of d p) = {}"
    and mid: "mid \<notin> set (map tbr_client_mutation_id (tombstone_batches_of d p))"
  shows "db_inv (after_delete env d p mid ids row)"
proof -
  note ok = view_okD [OF inv row] and views = after_delete_views [OF inv row below, of env mid ids]
  define rv where "rv = pg_ink_revision row + 1"
  have rv: "pg_ink_revision row < rv" "0 < rv" "rv \<le> i64_max" using ok(1) below by (simp_all add: rv_def)
  show ?thesis
  proof (rule db_inv_step [OF inv, where p = p])
    show "view_ok (page_view (after_delete env d p mid ids row) p)"
    proof (rule view_okI)
      show "batches_ok (pg_ink_revision (row\<lparr>pg_updated_at := env_now env, pg_ink_revision := rv\<rparr>))
          (batches_of (after_delete env d p mid ids row) p)"
        using batches_ok_mono [OF ok(3), of rv] rv by (simp add: views)
      show "tombstones_ok (pg_ink_revision (row\<lparr>pg_updated_at := env_now env, pg_ink_revision := rv\<rparr>))
          (tombstones_of (after_delete env d p mid ids row) p)
          (tombstone_batches_of (after_delete env d p mid ids row) p)"
        using tombstones_ok_grow [OF ok(4), of rv ids mid p] rv ids mid
        by (simp add: views rv_def tombstoned_ids_set)
      show "delete_wins (batches_of (after_delete env d p mid ids row) p)
          (tombstones_of (after_delete env d p mid ids row) p)"
        using delete_wins_grow [OF ok(5) batches_ok_below [OF ok(3) rv(1)]]
        by (simp add: views rv_def)
      show "thumbnails_ok (pg_ink_revision (row\<lparr>pg_updated_at := env_now env, pg_ink_revision := rv\<rparr>))
          (thumbnails_of (after_delete env d p mid ids row) p)"
        using thumbnails_ok_snoc [OF ok(6) rv(1) ok(1)] by (simp add: views rv_def)
    qed (use rv in \<open>simp_all add: views rv_def\<close>)
  qed (simp_all add: views page_view_def)
qed


lemma persist_tombstones_inv:
  assumes inv: "db_inv d" and op: "persist_tombstones env d p mid req = Inr (r, d')"
  shows "db_inv d'"
  using op
proof (cases rule: persist_tombstones_cases)
  case (vacuous row)
  note ok = view_okD [OF inv vacuous(1)]
  have "tombstones_ok (pg_ink_revision row) (tombstones_of d p)
      (tombstone_batches_of d p @ [tombstone_batch_row p mid (pg_ink_revision row) []])"
    using tombstones_ok_grow [OF ok(4), of "pg_ink_revision row" "[]" mid p] ok(1) vacuous(3) by simp
  then have "view_ok (page_view d' p)"
    by (intro view_okI) (use ok vacuous(1,4) in \<open>simp_all add: store_simps\<close>)
  then show ?thesis
    by (rule db_inv_step [OF inv, where p = p, rotated 2])
      (simp_all add: vacuous(4) store_simps page_view_def)
next
  case (deleted row job)
  have "pg_ink_revision row < i64_max" using view_okD(2) [OF inv deleted(1)] deleted(4) by simp
  then show ?thesis
    using after_delete_inv [OF inv deleted(1) _ fresh_ids_distinct _ deleted(3)]
    by (auto simp: deleted(5) fresh_ids_set)
qed (use inv in simp_all)

subsection \<open>Paper\<close>

definition after_paper :: "dbenv \<Rightarrow> db \<Rightarrow> string \<Rightarrow> Paper \<Rightarrow> PageRow \<Rightarrow> db" where
  "after_paper env d p paper row =
     (let visible = has_visible_ink d p (pg_ink_revision row);
          rv = (if visible then wrap_i64 (pg_ink_revision row + 1) else pg_ink_revision row);
          d1 = update_page (\<lambda>r. r\<lparr>pg_paper := wire_value paper, pg_updated_at := env_now env,
            pg_ink_revision := rv\<rparr>) p d
      in if visible then snd (insert_thumbnail_job (env_now env) p rv (wire_value paper) d1) else d1)"

lemma persist_paper_cases:
  assumes "persist_paper env d p paper = Inr (r, d')"
  obtains
    (unchanged) row where "page_row d p = Some row" "pg_paper row = wire_value paper" "d' = d"
      "r = \<lparr>pp_changed = False, pp_revision = as_u64 (pg_ink_revision row),
            pp_owner_id = pg_owner_id row, pp_thumbnail_job_created = False, pp_updated_at = None\<rparr>"
  | (changed) row where "page_row d p = Some row" "pg_paper row \<noteq> wire_value paper"
      "d' = after_paper env d p paper row"
      "r = \<lparr>pp_changed = True,
            pp_revision = as_u64 (if has_visible_ink d p (pg_ink_revision row)
              then wrap_i64 (pg_ink_revision row + 1) else pg_ink_revision row),
            pp_owner_id = pg_owner_id row,
            pp_thumbnail_job_created = (has_visible_ink d p (pg_ink_revision row) \<and>
              wrap_i64 (pg_ink_revision row + 1) \<notin> set (map th_source_seq (thumbnails_of d p))),
            pp_updated_at = Some (env_rfc3339 env (env_now env))\<rparr>"
proof -
  note defs = persist_paper_def lock_page_def begin_tx_def commit_tx_def results_simps Let_def
  obtain row where row: "page_row d p = Some row"
    using assms by (auto simp: defs)
  show ?thesis
  proof (cases "pg_paper row = wire_value paper")
    case True
    then show ?thesis using assms row by (intro unchanged [OF row True]) (auto simp: defs)
  next
    case False
    show ?thesis
    proof (cases "has_visible_ink d p (pg_ink_revision row)")
      case visible: True
      show ?thesis
        by (rule changed [OF row False])
          (use assms row False visible in \<open>auto simp: defs after_paper_def insert_thumbnail_job_def
             store_simps list_ex_iff image_iff split: if_splits\<close>)
    next
      case invisible: False
      show ?thesis
        by (rule changed [OF row False])
          (use assms row False invisible in \<open>auto simp: defs after_paper_def\<close>)
    qed
  qed
qed

lemma after_paper_inv:
  assumes inv: "db_inv d" and row: "page_row d p = Some row" and below: "pg_ink_revision row < i64_max"
  shows "db_inv (after_paper env d p paper row)"
proof -
  note ok = view_okD [OF inv row]
  define rv where "rv = pg_ink_revision row + 1"
  have rv: "pg_ink_revision row < rv" "0 \<le> rv" "rv \<le> i64_max" using ok(1) below by (simp_all add: rv_def)
  have wrap: "wrap_i64 (pg_ink_revision row + 1) = rv"
    using wrap_i64_succ [OF ok(1) below] by (simp add: rv_def)
  show ?thesis
  proof (cases "has_visible_ink d p (pg_ink_revision row)")
    case False
    then have eq: "after_paper env d p paper row =
        update_page (\<lambda>r. r\<lparr>pg_paper := wire_value paper, pg_updated_at := env_now env,
          pg_ink_revision := pg_ink_revision row\<rparr>) p d"
      by (simp add: after_paper_def)
    have row': "page_row (after_paper env d p paper row) p =
        Some (row\<lparr>pg_paper := wire_value paper, pg_updated_at := env_now env\<rparr>)"
      using row by (simp add: eq store_simps)
    have "view_ok (page_view (after_paper env d p paper row) p)"
      by (rule view_okI [OF row']) (use ok in \<open>simp_all add: eq store_simps\<close>)
    then show ?thesis
      by (rule db_inv_step [OF inv, where p = p, rotated 2]) (simp_all add: eq store_simps page_view_def)
  next
    case True
    have "rv \<notin> set (map th_source_seq (thumbnails_of d p))"
      using thumbnails_ok_fresh [OF ok(6) rv(1)] .
    then have eq: "after_paper env d p paper row =
        add_job (env_now env) p rv (wire_value paper)
          (update_page (\<lambda>r. r\<lparr>pg_paper := wire_value paper, pg_updated_at := env_now env,
            pg_ink_revision := rv\<rparr>) p d)"
      using True by (simp add: after_paper_def wrap insert_thumbnail_job_new store_simps)
    have "view_ok (page_view (after_paper env d p paper row) p)"
    proof (rule view_okI)
      show "page_row (after_paper env d p paper row) p = Some (row\<lparr>pg_paper := wire_value paper,
          pg_updated_at := env_now env, pg_ink_revision := rv\<rparr>)"
        using row by (simp add: eq store_simps)
    qed (use rv ok batches_ok_mono [OF ok(3), of rv] tombstones_ok_mono [OF ok(4), of rv]
          thumbnails_ok_snoc [OF ok(6) rv(1) ok(1)] in \<open>simp_all add: eq store_simps\<close>)
    then show ?thesis
      by (rule db_inv_step [OF inv, where p = p, rotated 2]) (simp_all add: eq store_simps page_view_def)
  qed
qed

lemma persist_paper_inv:
  assumes inv: "db_inv d" and op: "persist_paper env d p paper = Inr (r, d')"
    and below: "\<And>row. page_row d p = Some row \<Longrightarrow> pg_ink_revision row < i64_max"
  shows "db_inv d'"
  using op
proof (cases rule: persist_paper_cases)
  case (changed row)
  then show ?thesis using after_paper_inv [OF inv _ below] by simp
qed (use inv in simp_all)


section \<open>The persistence port\<close>

text \<open>The trait \<open>PageStore\<close>: the seven calls the page channel makes, over a store state of any
  type. A call may change the state even when it only reads: other connections work meanwhile.\<close>

record 's PageStore =
  st_page_belongs_to_owner :: "string \<Rightarrow> string \<Rightarrow> 's \<Rightarrow> (DbError + bool) \<times> 's"
  st_current_paper :: "string \<Rightarrow> 's \<Rightarrow> (DbError + Paper) \<times> 's"
  st_max_seq :: "string \<Rightarrow> 's \<Rightarrow> (DbError + u64) \<times> 's"
  st_load_page_replay ::
    "string \<Rightarrow> u64 \<Rightarrow> 's \<Rightarrow> (DbError + (StrokeBatch list \<times> TombstoneBatch list)) \<times> 's"
  st_persist_batch :: "string \<Rightarrow> string \<Rightarrow> Stroke list \<Rightarrow> 's \<Rightarrow> (DbError + PersistedBatch) \<times> 's"
  st_persist_tombstones ::
    "string \<Rightarrow> string \<Rightarrow> string list \<Rightarrow> 's \<Rightarrow> (DbError + PersistedTombstones) \<times> 's"
  st_persist_paper :: "string \<Rightarrow> Paper \<Rightarrow> 's \<Rightarrow> (DbError + PersistedPaper) \<times> 's"

text \<open>What the other connections do to the database between two calls of this one: writes of the
  same three kinds.\<close>

datatype page_write =
    W_Batch string string "Stroke list"
  | W_Tombstones string string "string list"
  | W_Paper string Paper

definition commit_or_keep :: "db \<Rightarrow> DbError + ('r \<times> db) \<Rightarrow> db" where
  "commit_or_keep d res = (case res of Inl _ \<Rightarrow> d | Inr (_, d') \<Rightarrow> d')"

fun apply_write :: "dbenv \<Rightarrow> page_write \<Rightarrow> db \<Rightarrow> db" where
  "apply_write env (W_Batch p cid strokes) d = commit_or_keep d (persist_batch env d p cid strokes)"
| "apply_write env (W_Tombstones p mid ids) d = commit_or_keep d (persist_tombstones env d p mid ids)"
| "apply_write env (W_Paper p paper) d = commit_or_keep d (persist_paper env d p paper)"

text \<open>The database behind \<open>PgPageStore\<close>, with the number of statements groups run so far: \<open>env n\<close> is
  the environment of the \<open>n\<close>-th, and \<open>others n\<close> the writes that committed just before it.\<close>

record pg =
  pg_db :: db
  pg_clock :: nat

definition pg_tick :: "(nat \<Rightarrow> dbenv) \<Rightarrow> (nat \<Rightarrow> page_write list) \<Rightarrow> pg \<Rightarrow> pg" where
  "pg_tick env others s =
     \<lparr>pg_db = fold (apply_write (env (pg_clock s))) (others (pg_clock s)) (pg_db s),
      pg_clock = Suc (pg_clock s)\<rparr>"

definition pg_read ::
  "(nat \<Rightarrow> dbenv) \<Rightarrow> (nat \<Rightarrow> page_write list) \<Rightarrow> (dbenv \<Rightarrow> db \<Rightarrow> DbError + 'r) \<Rightarrow> pg \<Rightarrow> (DbError + 'r) \<times> pg" where
  "pg_read env others f s = (let s' = pg_tick env others s in (f (env (pg_clock s)) (pg_db s'), s'))"

definition pg_write ::
  "(nat \<Rightarrow> dbenv) \<Rightarrow> (nat \<Rightarrow> page_write list) \<Rightarrow> (dbenv \<Rightarrow> db \<Rightarrow> DbError + ('r \<times> db)) \<Rightarrow> pg \<Rightarrow> (DbError + 'r) \<times> pg" where
  "pg_write env others f s =
     (let s' = pg_tick env others s in
      case f (env (pg_clock s)) (pg_db s') of
        Inl e \<Rightarrow> (Inl e, s')
      | Inr (r, d) \<Rightarrow> (Inr r, s'\<lparr>pg_db := d\<rparr>))"

definition PgPageStore :: "(nat \<Rightarrow> dbenv) \<Rightarrow> (nat \<Rightarrow> page_write list) \<Rightarrow> pg PageStore" where
  "PgPageStore env others =
     \<lparr>st_page_belongs_to_owner = (\<lambda>page_id owner_id.
        pg_read env others (\<lambda>e d. page_belongs_to_owner e d page_id owner_id)),
      st_current_paper = (\<lambda>page_id. pg_read env others (\<lambda>e d. current_paper e d page_id)),
      st_max_seq = (\<lambda>page_id. pg_read env others (\<lambda>e d. max_seq e d page_id)),
      st_load_page_replay = (\<lambda>page_id from_seq s.
        let s1 = pg_tick env others s; s2 = pg_tick env others s1
        in (load_page_replay (env (pg_clock s)) (pg_db s1) (pg_db s2) page_id from_seq, s2)),
      st_persist_batch = (\<lambda>page_id client_batch_id strokes.
        pg_write env others (\<lambda>e d. persist_batch e d page_id client_batch_id strokes)),
      st_persist_tombstones = (\<lambda>page_id client_mutation_id stroke_ids.
        pg_write env others (\<lambda>e d. persist_tombstones e d page_id client_mutation_id stroke_ids)),
      st_persist_paper = (\<lambda>page_id paper.
        pg_write env others (\<lambda>e d. persist_paper e d page_id paper))\<rparr>"

lemma pg_store_calls [store_simps]:
  "st_max_seq (PgPageStore env others) p = pg_read env others (\<lambda>e d. max_seq e d p)"
  "st_current_paper (PgPageStore env others) p = pg_read env others (\<lambda>e d. current_paper e d p)"
  "st_page_belongs_to_owner (PgPageStore env others) p u =
     pg_read env others (\<lambda>e d. page_belongs_to_owner e d p u)"
  "st_persist_batch (PgPageStore env others) p cid strokes =
     pg_write env others (\<lambda>e d. persist_batch e d p cid strokes)"
  "st_persist_tombstones (PgPageStore env others) p mid ids =
     pg_write env others (\<lambda>e d. persist_tombstones e d p mid ids)"
  "st_persist_paper (PgPageStore env others) p paper =
     pg_write env others (\<lambda>e d. persist_paper e d p paper)"
  by (simp_all add: PgPageStore_def)

text \<open>A page nobody else writes to meanwhile.\<close>

abbreviation alone :: "nat \<Rightarrow> page_write list" where "alone \<equiv> \<lambda>_. []"

lemma pg_tick_alone [simp]: "pg_tick env alone s = s\<lparr>pg_clock := Suc (pg_clock s)\<rparr>"
  by (simp add: pg_tick_def)


section \<open>The contract of the port\<close>

text \<open>
  What the dispatcher may rely on, whatever the store is: an invariant every call keeps (a paper
  change needs room for one more revision), reads that leave the stored strokes alone, a batch
  that stores none but the submitted strokes and reports a part of them as visible, in order.
\<close>

locale page_store =
  fixes ops :: "'s PageStore"
    and inv :: "'s \<Rightarrow> bool"
    and room :: "string \<Rightarrow> 's \<Rightarrow> bool"
    and stored :: "string \<Rightarrow> 's \<Rightarrow> Stroke set"
  assumes max_seq_inv: "inv s \<Longrightarrow> inv (snd (st_max_seq ops p s))"
    and max_seq_stored: "stored q (snd (st_max_seq ops p s)) = stored q s"
    and replay_inv: "inv s \<Longrightarrow> inv (snd (st_load_page_replay ops p from s))"
    and replay_stored: "stored q (snd (st_load_page_replay ops p from s)) = stored q s"
    and batch_inv: "inv s \<Longrightarrow> inv (snd (st_persist_batch ops p cid strokes s))"
    and batch_stored: "stored q (snd (st_persist_batch ops p cid strokes s))
      \<subseteq> stored q s \<union> (if q = p then set strokes else {})"
    and batch_visible: "st_persist_batch ops p cid strokes s = (Inr r, s') \<Longrightarrow>
      subseq (pb_visible_strokes r) strokes"
    and tombstones_inv: "inv s \<Longrightarrow> inv (snd (st_persist_tombstones ops p mid ids s))"
    and tombstones_stored: "stored q (snd (st_persist_tombstones ops p mid ids s)) = stored q s"
    and paper_inv: "inv s \<Longrightarrow> room p s \<Longrightarrow> inv (snd (st_persist_paper ops p paper s))"
    and paper_stored: "stored q (snd (st_persist_paper ops p paper s)) = stored q s"

definition stored_strokes :: "string \<Rightarrow> pg \<Rightarrow> Stroke set" where
  "stored_strokes p s = (\<Union>b \<in> set (batches_of (pg_db s) p). set (sbr_strokes b))"

definition pg_inv :: "pg \<Rightarrow> bool" where
  "pg_inv s \<longleftrightarrow> db_inv (pg_db s)"

definition pg_room :: "string \<Rightarrow> pg \<Rightarrow> bool" where
  "pg_room p s \<longleftrightarrow> (case page_row (pg_db s) p of None \<Rightarrow> True | Some row \<Rightarrow> pg_ink_revision row < i64_max)"

lemma pg_write_alone:
  "pg_write env alone f s = (case f (env (pg_clock s)) (pg_db s) of
      Inl e \<Rightarrow> (Inl e, s\<lparr>pg_clock := Suc (pg_clock s)\<rparr>)
    | Inr (r, d) \<Rightarrow> (Inr r, \<lparr>pg_db = d, pg_clock = Suc (pg_clock s)\<rparr>))"
  by (simp add: pg_write_def split: sum.splits prod.splits)

lemma after_batch_batches:
  "batches_of (after_batch env d p cid strokes row) q =
   batches_of d q @ (if q = p then [batch_row d p cid strokes (wrap_i64 (pg_ink_revision row + 1))] else [])"
  by (auto simp: after_batch_def Let_def insert_thumbnail_job_def store_simps batch_row_def)

lemma after_delete_batches: "batches_of (after_delete env d p mid ids row) q = batches_of d q"
  by (auto simp: after_delete_def Let_def insert_thumbnail_job_def store_simps)

lemma after_paper_batches: "batches_of (after_paper env d p paper row) q = batches_of d q"
  by (auto simp: after_paper_def Let_def insert_thumbnail_job_def store_simps)

lemma batch_row_simps [simp]:
  "sbr_strokes (batch_row d p cid strokes rv) = strokes"
  "sbr_client_batch_id (batch_row d p cid strokes rv) = cid"
  "sbr_revision (batch_row d p cid strokes rv) = rv"
  "sbr_page_id (batch_row d p cid strokes rv) = p"
  "sbr_seq (batch_row d p cid strokes rv) = max_or_0 (map sbr_seq (batches_of d p)) + 1"
  by (simp_all add: batch_row_def)

text \<open>What one write does to the batches.\<close>

lemma persist_tombstones_batches:
  "persist_tombstones env d p mid req = Inr (r, d') \<Longrightarrow> batches_of d' q = batches_of d q"
  by (erule persist_tombstones_cases) (simp_all add: after_delete_batches store_simps)

lemma persist_paper_batches:
  "persist_paper env d p paper = Inr (r, d') \<Longrightarrow> batches_of d' q = batches_of d q"
  by (erule persist_paper_cases) (simp_all add: after_paper_batches)

lemma persist_batch_batches:
  assumes "persist_batch env d p cid strokes = Inr (r, d')"
  shows "\<exists>bs. batches_of d' q = batches_of d q @ bs \<and>
    (\<Union>b \<in> set bs. set (sbr_strokes b)) \<subseteq> (if q = p then set strokes else {})"
  using assms by (cases rule: persist_batch_cases) (auto simp: after_batch_batches)

lemma persist_batch_visible:
  "persist_batch env d p cid strokes = Inr (r, d') \<Longrightarrow>
   pb_visible_strokes r = filter (stroke_visible d p) strokes"
  by (erule persist_batch_cases) simp_all

text \<open>The Postgres store keeps the contract while it is the only writer.\<close>

interpretation pg_store: page_store "PgPageStore env alone" pg_inv pg_room stored_strokes for env
proof unfold_locales
  fix s q p cid strokes
  show "stored_strokes q (snd (st_persist_batch (PgPageStore env alone) p cid strokes s))
      \<subseteq> stored_strokes q s \<union> (if q = p then set strokes else {})"
  proof (cases "persist_batch (env (pg_clock s)) (pg_db s) p cid strokes")
    case (Inr res)
    obtain r d' where res: "res = (r, d')" by (cases res)
    obtain bs where bs: "batches_of d' q = batches_of (pg_db s) q @ bs"
      "(\<Union>b \<in> set bs. set (sbr_strokes b)) \<subseteq> (if q = p then set strokes else {})"
      using persist_batch_batches [OF Inr [unfolded res], of q] by blast
    have "stored_strokes q (snd (st_persist_batch (PgPageStore env alone) p cid strokes s)) =
        stored_strokes q s \<union> (\<Union>b \<in> set bs. set (sbr_strokes b))"
      by (simp add: PgPageStore_def pg_write_alone stored_strokes_def Inr res bs(1))
    then show ?thesis using bs(2) by blast
  qed (simp add: PgPageStore_def pg_write_alone stored_strokes_def)
qed (auto simp: PgPageStore_def pg_read_def pg_write_alone pg_inv_def stored_strokes_def pg_room_def Let_def
       persist_tombstones_batches persist_paper_batches persist_batch_visible
       split: sum.splits prod.splits option.splits
       intro: persist_batch_inv persist_tombstones_inv persist_paper_inv)


section \<open>Sequences of writes\<close>

definition run_writes :: "(dbenv \<times> page_write) list \<Rightarrow> db \<Rightarrow> db" where
  "run_writes ws d = fold (\<lambda>(env, w). apply_write env w) ws d"

lemma run_writes_simps [simp]:
  "run_writes [] d = d"
  "run_writes ((env, w) # ws) d = run_writes ws (apply_write env w d)"
  by (simp_all add: run_writes_def)

text \<open>A write that fails changes nothing, so it suffices to look at the ones that succeed.\<close>

lemma apply_write_cases:
  obtains
    (kept) "apply_write env w d = d"
  | (batch) p cid strokes r where "w = W_Batch p cid strokes"
      "persist_batch env d p cid strokes = Inr (r, apply_write env w d)"
  | (erase) p mid ids r where "w = W_Tombstones p mid ids"
      "persist_tombstones env d p mid ids = Inr (r, apply_write env w d)"
  | (paper) p paper r where "w = W_Paper p paper"
      "persist_paper env d p paper = Inr (r, apply_write env w d)"
proof (cases w)
  case (W_Batch p cid strokes)
  then show ?thesis
    using kept batch by (cases "persist_batch env d p cid strokes") (auto simp: commit_or_keep_def)
next
  case (W_Tombstones p mid ids)
  then show ?thesis
    using kept erase by (cases "persist_tombstones env d p mid ids") (auto simp: commit_or_keep_def)
next
  case (W_Paper p paper)
  then show ?thesis
    using kept paper by (cases "persist_paper env d p paper") (auto simp: commit_or_keep_def)
qed

text \<open>Every page has room for \<open>n\<close> more revisions.\<close>

definition db_room :: "int \<Rightarrow> db \<Rightarrow> bool" where
  "db_room n d \<longleftrightarrow> (\<forall>p row. page_row d p = Some row \<longrightarrow> pg_ink_revision row + n < i64_max)"

text \<open>A write appends at most one batch to a page, removes no tombstone, and moves the page's
  revision by at most one.\<close>

definition grows :: "db \<Rightarrow> string \<Rightarrow> db \<Rightarrow> bool" where
  "grows d p d' \<longleftrightarrow>
     (\<exists>bs. batches_of d' p = batches_of d p @ bs) \<and>
     set (tombstones_of d p) \<subseteq> set (tombstones_of d' p) \<and>
     (\<forall>row. page_row d p = Some row \<longrightarrow> (\<exists>row'. page_row d' p = Some row' \<and>
        pg_owner_id row' = pg_owner_id row \<and>
        pg_ink_revision row \<le> pg_ink_revision row' \<and> pg_ink_revision row' \<le> pg_ink_revision row + 1)) \<and>
     (page_row d p = None \<longrightarrow> page_row d' p = None)"

lemma grows_refl: "grows d p d"
  by (auto simp: grows_def)

lemma after_batch_views:
  assumes inv: "db_inv d" and row: "page_row d p = Some row" and below: "pg_ink_revision row < i64_max"
  defines "rv \<equiv> pg_ink_revision row + 1"
  shows "page_row (after_batch env d p cid strokes row) q =
      (if q = p then Some (row\<lparr>pg_updated_at := env_now env, pg_ink_revision := rv\<rparr>) else page_row d q)"
    and "tombstones_of (after_batch env d p cid strokes row) q = tombstones_of d q"
proof -
  note ok = view_okD [OF inv row]
  have wrap: "wrap_i64 (pg_ink_revision row + 1) = rv"
    using wrap_i64_succ [OF ok(1) below] by (simp add: rv_def)
  have fresh: "wrap_i64 (pg_ink_revision row + 1) \<notin> set (map th_source_seq (thumbnails_of d p))"
    using thumbnails_ok_fresh [OF ok(6), of rv] wrap by (simp add: rv_def)
  note eq = after_batch_eq [OF fresh, of env cid strokes, unfolded wrap Let_def]
  show "page_row (after_batch env d p cid strokes row) q =
      (if q = p then Some (row\<lparr>pg_updated_at := env_now env, pg_ink_revision := rv\<rparr>) else page_row d q)"
    "tombstones_of (after_batch env d p cid strokes row) q = tombstones_of d q"
    by (simp_all add: eq store_simps row)
qed

lemma inserted_below:
  assumes "db_inv d" "page_row d p = Some row" "0 < wrap_i64 (pg_ink_revision row + 1)"
  shows "pg_ink_revision row < i64_max"
  using wrap_i64_succ_pos [OF view_okD(1,2) [OF assms(1,2)] assms(3)] by simp

lemma persist_batch_grows:
  assumes inv: "db_inv d" and op: "persist_batch env d q cid strokes = Inr (r, d')"
  shows "grows d p d'"
  using op
proof (cases rule: persist_batch_cases)
  case (inserted row job)
  note below = inserted_below [OF inv inserted(1,5)]
  show ?thesis
    using after_batch_views [OF inv inserted(1) below] inserted(1)
    by (auto simp: grows_def inserted(6) after_batch_batches)
qed (simp_all add: grows_refl)

lemma persist_tombstones_grows:
  assumes inv: "db_inv d" and op: "persist_tombstones env d q mid ids = Inr (r, d')"
  shows "grows d p d'"
  using op
proof (cases rule: persist_tombstones_cases)
  case (vacuous row)
  then show ?thesis by (auto simp: grows_def store_simps)
next
  case (deleted row job)
  have below: "pg_ink_revision row < i64_max" using view_okD(2) [OF inv deleted(1)] deleted(4) by simp
  show ?thesis
    using after_delete_views(1,2,3) [OF inv deleted(1) below] deleted(1)
    by (auto simp: grows_def deleted(5))
qed (simp_all add: grows_refl)

lemma after_paper_row:
  assumes inv: "db_inv d" and row: "page_row d p = Some row" and below: "pg_ink_revision row < i64_max"
  shows "\<exists>row'. page_row (after_paper env d p paper row) q = (if q = p then Some row' else page_row d q) \<and>
      pg_owner_id row' = pg_owner_id row \<and> pg_paper row' = wire_value paper \<and>
      pg_ink_revision row \<le> pg_ink_revision row' \<and> pg_ink_revision row' \<le> pg_ink_revision row + 1"
  by (rule exI [of _ "row\<lparr>pg_paper := wire_value paper, pg_updated_at := env_now env,
        pg_ink_revision := (if has_visible_ink d p (pg_ink_revision row)
          then pg_ink_revision row + 1 else pg_ink_revision row)\<rparr>"])
    (use wrap_i64_succ [OF view_okD(1) [OF inv row] below] row in
      \<open>auto simp: after_paper_def Let_def insert_thumbnail_job_def store_simps\<close>)

lemma persist_paper_grows:
  assumes inv: "db_inv d" and op: "persist_paper env d q paper = Inr (r, d')"
    and below: "\<And>row. page_row d q = Some row \<Longrightarrow> pg_ink_revision row < i64_max"
  shows "grows d p d'"
  using op
proof (cases rule: persist_paper_cases)
  case (changed row)
  have "tombstones_of d' p = tombstones_of d p"
    by (auto simp: changed(3) after_paper_def Let_def insert_thumbnail_job_def store_simps)
  then show ?thesis
    using after_paper_row [OF inv changed(1) below [OF changed(1)], of env paper p] changed(1)
    by (auto simp: grows_def changed(3) after_paper_batches)
qed (simp_all add: grows_refl)

lemma apply_write_inv_grows:
  assumes inv: "db_inv d" and room: "db_room n d" "1 \<le> n"
  shows "db_inv (apply_write env w d) \<and> grows d p (apply_write env w d) \<and> db_room (n - 1) (apply_write env w d)"
proof -
  have below: "pg_ink_revision row < i64_max" if "page_row d q = Some row" for q row
  proof -
    have "pg_ink_revision row + n < i64_max" using room(1) that by (simp add: db_room_def)
    then show ?thesis using room(2) by simp
  qed
  have *: "db_inv (apply_write env w d) \<and> grows d q (apply_write env w d)" for q
  proof (cases rule: apply_write_cases [of env w d])
    case kept
    then show ?thesis using inv by (simp add: grows_refl)
  next
    case batch
    then show ?thesis using persist_batch_inv [OF inv batch(2)] persist_batch_grows [OF inv batch(2)] by simp
  next
    case erase
    then show ?thesis
      using persist_tombstones_inv [OF inv erase(2)] persist_tombstones_grows [OF inv erase(2)] by simp
  next
    case paper
    then show ?thesis
      using persist_paper_inv [OF inv paper(2) below] persist_paper_grows [OF inv paper(2) below] by simp
  qed
  have "db_room (n - 1) (apply_write env w d)"
    unfolding db_room_def
  proof (intro allI impI)
    fix q row'
    assume row': "page_row (apply_write env w d) q = Some row'"
    then obtain row where row: "page_row d q = Some row"
      using conjunct2 [OF * [of q]] by (cases "page_row d q") (auto simp: grows_def)
    then have "pg_ink_revision row' \<le> pg_ink_revision row + 1"
      using conjunct2 [OF * [of q]] row' by (auto simp: grows_def)
    moreover have "pg_ink_revision row + n < i64_max" using room(1) row by (simp add: db_room_def)
    ultimately show "pg_ink_revision row' + (n - 1) < i64_max" by simp
  qed
  with * show ?thesis by blast
qed

text \<open>The parts of growth that compose over a run.\<close>

definition extends :: "db \<Rightarrow> string \<Rightarrow> db \<Rightarrow> bool" where
  "extends d p d' \<longleftrightarrow> (\<exists>bs. batches_of d' p = batches_of d p @ bs) \<and>
     set (tombstones_of d p) \<subseteq> set (tombstones_of d' p) \<and>
     (page_row d p \<noteq> None \<longrightarrow> page_row d' p \<noteq> None)"

lemma extends_refl: "extends d p d"
  by (auto simp: extends_def)

lemma extends_trans: "extends d p d' \<Longrightarrow> extends d' p d'' \<Longrightarrow> extends d p d''"
  by (auto simp: extends_def)

lemma grows_extends: "grows d p d' \<Longrightarrow> extends d p d'"
  by (fastforce simp: grows_def extends_def)

lemma run_writes_inv:
  "db_inv d \<Longrightarrow> db_room (int (length ws)) d \<Longrightarrow>
   db_inv (run_writes ws d) \<and> extends d p (run_writes ws d)"
proof (induction ws arbitrary: d)
  case (Cons w ws)
  obtain env v where w: "w = (env, v)" by (cases w)
  have step: "db_inv (apply_write env v d) \<and> grows d p (apply_write env v d) \<and>
      db_room (int (length ws)) (apply_write env v d)"
    using apply_write_inv_grows [OF Cons.prems, of env v p] by simp
  then show ?case
    using Cons.IH [of "apply_write env v d"] extends_trans [OF grows_extends]
    by (auto simp: w)
qed (simp add: extends_refl)


section \<open>Properties\<close>

subsection \<open>A concrete database\<close>

definition example_env :: dbenv where
  "example_env = \<lparr>env_fault = (\<lambda>_. False), env_now = 7, env_rfc3339 = (\<lambda>_. ''now''), env_collation_key = id\<rparr>"

definition example_row :: PageRow where
  "example_row = \<lparr>pg_id = ''p'', pg_owner_id = ''u'', pg_title = ''t'', pg_created_at = 0,
     pg_updated_at = 0, pg_ink_revision = 0, pg_paper = ''none''\<rparr>"

definition example_db :: db where
  "example_db = \<lparr>pages = [example_row], stroke_batches = [], stroke_tombstones = [],
     tombstone_batches = [], page_thumbnails = []\<rparr>"

definition example_stroke :: "string \<Rightarrow> Stroke" where
  "example_stroke i = \<lparr>stroke_id = i, stroke_style = default_solid_round_pressure, stroke_points = []\<rparr>"

lemma example_db_page: "page_row example_db p = (if p = ''p'' then Some example_row else None)"
  by (auto simp: page_row_def example_db_def example_row_def)

lemma example_db_empty:
  "batches_of example_db p = []" "tombstones_of example_db p = []"
  "tombstone_batches_of example_db p = []" "thumbnails_of example_db p = []"
  "tombstoned_ids_of example_db p = []"
  by (simp_all add: batches_of_def tombstones_of_def tombstone_batches_of_def thumbnails_of_def
      tombstoned_ids_of_def example_db_def)

lemma example_db_inv: "db_inv example_db"
  by (auto simp: db_inv_def view_ok.simps page_view_def example_db_empty example_db_page batches_ok_def
      tombstones_ok_def delete_wins_def thumbnails_ok_def example_row_def i64_max_def)
    (simp add: example_db_def)

lemma example_db_room: "n < 1000 \<Longrightarrow> db_room n example_db"
  by (auto simp: db_room_def example_db_page example_row_def i64_max_def)

subsection \<open>The invariant\<close>

text \<open>Every committed write keeps the tables consistent: whatever batches, deletions and paper
  changes run, failing or not, each page's batches stay numbered \<open>1, 2, ..\<close> without a gap, its
  tombstones stay exactly the ids its deletion batches carry, a deleted stroke was deleted after
  it was added, and no thumbnail is ahead of the page.\<close>

theorem writes_keep_invariant:
  "db_inv d \<Longrightarrow> db_room (int (length ws)) d \<Longrightarrow> db_inv (run_writes ws d)"
  using run_writes_inv by blast

lemma writes_keep_invariant_witness:
  "db_inv (run_writes [(example_env, W_Paper ''p'' RuledWide),
      (example_env, W_Batch ''p'' ''b1'' [example_stroke ''s1'']),
      (example_env, W_Tombstones ''p'' ''m1'' [''s1'', ''s2'']),
      (example_env, W_Batch ''p'' ''b2'' [example_stroke ''s2''])] example_db)"
  by (rule writes_keep_invariant [OF example_db_inv example_db_room]) simp

text \<open>The library never loses a page's preview: after any writes, either the page has no ink
  revision yet or the thumbnail row of its current revision exists, so the retention cleanup,
  which spares exactly that row, never empties the preview.\<close>

theorem head_thumbnail_exists:
  assumes "db_inv d" "db_room (int (length ws)) d" "page_row (run_writes ws d) p = Some row"
  shows "pg_ink_revision row = 0 \<or>
    (\<exists>t \<in> set (thumbnails_of (run_writes ws d) p). th_source_seq t = pg_ink_revision row)"
proof -
  have "db_inv (run_writes ws d)" using run_writes_inv [OF assms(1,2)] by blast
  from view_okD(6) [OF this assms(3)] show ?thesis by (auto simp: thumbnails_ok_def)
qed

definition example_inked :: db where
  "example_inked = run_writes [(example_env, W_Batch ''p'' ''b1'' [example_stroke ''s1''])] example_db"

lemma example_inked_inv: "db_inv example_inked"
  unfolding example_inked_def
  by (rule run_writes_inv [OF example_db_inv example_db_room, THEN conjunct1]) simp

lemma example_inked_commit: "persist_batch example_env example_db ''p'' ''b1'' [example_stroke ''s1''] =
    Inr (\<lparr>pb_seq = 1, pb_revision = 1, pb_owner_id = ''u'', pb_visible_strokes = [example_stroke ''s1''],
      pb_thumbnail_job_created = True, pb_updated_at = Some ''now''\<rparr>, example_inked)"
  by (simp add: example_inked_def persist_batch_def begin_tx_def lock_page_def commit_tx_def
      run_query_def fetch_one_def example_env_def example_db_page example_db_empty
      insert_visible_batch_def insert_stroke_batch_def insert_thumbnail_job_def i64_max_def
      wrap_i64_def example_row_def as_u64_def commit_or_keep_def store_simps Let_def)

lemma example_inked_row: "page_row example_inked ''p'' =
    Some (example_row\<lparr>pg_updated_at := 7, pg_ink_revision := 1\<rparr>)"
  using example_inked_commit
proof (cases rule: persist_batch_cases)
    case (inserted row job)
    have "row = example_row" using inserted(1) by (simp add: example_db_page)
    then show ?thesis
      unfolding inserted(6)
      by (simp add: after_batch_def Let_def insert_thumbnail_job_def store_simps example_db_empty
          example_db_page wrap_i64_def example_row_def example_env_def)
  qed (simp_all add: example_db_empty)

lemma example_inked_children:
  "\<exists>b. batches_of example_inked ''p'' = [b] \<and> sbr_client_batch_id b = ''b1'' \<and> sbr_seq b = 1 \<and>
     sbr_strokes b = [example_stroke ''s1'']"
  "tombstoned_ids_of example_inked p = []" "tombstone_batches_of example_inked p = []"
proof -
  have "(\<exists>b. batches_of example_inked ''p'' = [b] \<and> sbr_client_batch_id b = ''b1'' \<and> sbr_seq b = 1 \<and>
      sbr_strokes b = [example_stroke ''s1'']) \<and>
    tombstoned_ids_of example_inked p = [] \<and> tombstone_batches_of example_inked p = []"
    using example_inked_commit
  proof (cases rule: persist_batch_cases)
    case (inserted row job)
    have "filter (stroke_visible example_db ''p'') [example_stroke ''s1''] = [example_stroke ''s1'']"
      by (simp add: stroke_visible_def example_db_empty)
    then show ?thesis
      unfolding inserted(6)
      by (simp add: after_batch_def Let_def insert_thumbnail_job_def store_simps tombstoned_ids_of_def
          example_db_empty batch_row_def)
  qed (simp_all add: example_db_empty)
  then show "\<exists>b. batches_of example_inked ''p'' = [b] \<and> sbr_client_batch_id b = ''b1'' \<and> sbr_seq b = 1 \<and>
     sbr_strokes b = [example_stroke ''s1'']"
    "tombstoned_ids_of example_inked p = []" "tombstone_batches_of example_inked p = []" by auto
qed

lemma head_thumbnail_exists_witness:
  "\<exists>t \<in> set (thumbnails_of example_inked ''p''). th_source_seq t = 1"
  using head_thumbnail_exists [OF example_db_inv example_db_room
      example_inked_row [unfolded example_inked_def]]
  by (simp add: example_inked_def)


subsection \<open>Batches\<close>

text \<open>The strokes a page shows, in the order they were added.\<close>

definition survivors :: "db \<Rightarrow> string \<Rightarrow> Stroke list" where
  "survivors d p = filter (stroke_visible d p) (concat (map sbr_strokes (batches_of d p)))"

lemma insert_new_batch:
  assumes inv: "db_inv d" and row: "page_row d p = Some row" and room: "pg_ink_revision row < i64_max"
    and up: "\<forall>q. \<not> env_fault env q"
    and new: "cid \<notin> set (map sbr_client_batch_id (batches_of d p))"
    and vis: "filter (stroke_visible d p) strokes \<noteq> []"
  shows "\<exists>r d'. persist_batch env d p cid strokes = Inr (r, d') \<and>
    uint (pb_seq r) = int (length (batches_of d p)) + 1 \<and>
    uint (pb_revision r) = pg_ink_revision row + 1 \<and>
    pb_visible_strokes r = filter (stroke_visible d p) strokes \<and>
    survivors d' p = survivors d p @ filter (stroke_visible d p) strokes \<and>
    pb_owner_id r = pg_owner_id row \<and> pb_thumbnail_job_created r \<and> pb_updated_at r \<noteq> None"
proof -
  note ok = view_okD [OF inv row]
  have seq: "max_or_0 (map sbr_seq (batches_of d p)) = int (length (batches_of d p))"
    by (rule batches_ok_seqs [OF ok(3)])
  have len: "int (length (batches_of d p)) \<le> pg_ink_revision row"
    by (rule batches_ok_length [OF ok(3,1)])
  have wrap: "wrap_i64 (pg_ink_revision row + 1) = pg_ink_revision row + 1"
    by (rule wrap_i64_succ [OF ok(1) room])
  have fresh: "pg_ink_revision row + 1 \<notin> set (map th_source_seq (thumbnails_of d p))"
    by (rule thumbnails_ok_fresh [OF ok(6)]) simp
  have none: "List.find (\<lambda>b. sbr_client_batch_id b = cid) (batches_of d p) = None"
    using new by (auto simp: find_None_iff)
  have unique: "sbr_seq b \<noteq> int (length (batches_of d p)) + 1 \<and> sbr_revision b \<noteq> pg_ink_revision row + 1"
    if "b \<in> set (batches_of d p)" for b
    using max_or_0_ge [of "sbr_seq b" "map sbr_seq (batches_of d p)"] that ok(3)
    by (auto simp: seq batches_ok_def)
  define vis where "vis = filter (stroke_visible d p) strokes"
  have vis_eq: "filter (\<lambda>s. stroke_id s \<in> set (tombstoned_ids_of d p) \<longrightarrow>
      stroke_id s \<notin> stroke_id ` set strokes) strokes = vis"
    unfolding vis_def stroke_visible_def by (rule filter_cong) auto
  have "\<exists>r d'. persist_batch env d p cid strokes = Inr (r, d')"
    using up row none vis ok(1) new unique len room
    by (auto simp: persist_batch_def begin_tx_def lock_page_def commit_tx_def run_query_def
        fetch_one_def Let_def vis_eq vis_def [symmetric] insert_visible_batch_def
        insert_stroke_batch_def seq wrap list_ex_iff split: prod.splits)
  then obtain r d' where op: "persist_batch env d p cid strokes = Inr (r, d')" by blast
  from op show ?thesis
  proof (cases rule: persist_batch_cases)
    case (inserted row' job)
    have [simp]: "row' = row" using inserted(1) row by simp
    have "tombstoned_ids_of d' p = tombstoned_ids_of d p"
      using after_batch_views(2) [OF inv row room] by (simp add: inserted(6) tombstoned_ids_of_def)
    then have "stroke_visible d' p = stroke_visible d p" by (simp add: stroke_visible_def [abs_def])
    then have "survivors d' p = survivors d p @ filter (stroke_visible d p) strokes"
      by (simp add: survivors_def inserted(6) after_batch_batches)
    then show ?thesis
      using op inserted(7,8) fresh ok(1) room len by (simp add: seq wrap uint_as_u64)
  qed (use new vis in auto)
qed

text \<open>A batch under a new id is persisted exactly once, whole: with the database up and the page
  there, it commits with the next sequence number and the next revision, the strokes that no
  deletion names are appended to the page and reported as visible, and a thumbnail job and a new
  edit time come with it.\<close>

theorem new_batch_appends:
  assumes inv: "db_inv d" and row: "page_row d p = Some row" and room: "pg_ink_revision row < i64_max"
    and up: "\<forall>q. \<not> env_fault env q"
    and new: "cid \<notin> set (map sbr_client_batch_id (batches_of d p))"
    and vis: "filter (stroke_visible d p) strokes \<noteq> []"
  shows "\<exists>r d'. persist_batch env d p cid strokes = Inr (r, d') \<and>
    uint (pb_seq r) = int (length (batches_of d p)) + 1 \<and>
    uint (pb_revision r) = pg_ink_revision row + 1 \<and>
    pb_visible_strokes r = filter (stroke_visible d p) strokes \<and>
    survivors d' p = survivors d p @ filter (stroke_visible d p) strokes \<and>
    pb_owner_id r = pg_owner_id row \<and> pb_thumbnail_job_created r \<and> pb_updated_at r \<noteq> None"
  using insert_new_batch [OF assms] .

lemma new_batch_appends_witness:
  "\<exists>r d'. persist_batch example_env example_db ''p'' ''b1'' [example_stroke ''s1''] = Inr (r, d') \<and>
     uint (pb_seq r) = 1 \<and> survivors d' ''p'' = [example_stroke ''s1'']"
  using new_batch_appends [of example_db "''p''" example_row example_env "''b1''" "[example_stroke ''s1'']"]
  by (auto simp: example_db_inv example_db_page example_db_empty example_row_def i64_max_def
      example_env_def stroke_visible_def survivors_def)

lemma extends_batch: "extends d p d' \<Longrightarrow> b \<in> set (batches_of d p) \<Longrightarrow> b \<in> set (batches_of d' p)"
  by (auto simp: extends_def)

lemma same_batch:
  assumes "db_inv d" "a \<in> set (batches_of d p)" "b \<in> set (batches_of d p)"
    "sbr_client_batch_id a = sbr_client_batch_id b"
  shows "a = b"
proof -
  obtain row where row: "page_row d p = Some row"
    using assms(1,2) by (cases "page_row d p")
      (auto simp: db_inv_def view_ok.simps page_view_def dest!: spec [of _ p])
  have "distinct (map sbr_client_batch_id (batches_of d p))"
    using view_okD(3) [OF assms(1) row] by (simp add: batches_ok_def)
  then show ?thesis using assms(2-4) by (auto simp: distinct_map dest: inj_onD)
qed

text \<open>C7. Committing a batch is idempotent: once its id has been stored, sending it again, even with
  other writes in between, stores nothing and answers with the first commit's sequence number and
  revision, without a new thumbnail job or edit time.\<close>

theorem batch_retry_idempotent:
  assumes inv: "db_inv d" and first: "persist_batch env d p cid strokes = Inr (r, d')"
    and stored: "pb_updated_at r \<noteq> None"
    and room: "db_room (int (length ws)) d'"
    and again: "persist_batch env' (run_writes ws d') p cid strokes' = Inr (r', d'')"
  shows "d'' = run_writes ws d' \<and> pb_seq r' = pb_seq r \<and> pb_revision r' = pb_revision r \<and>
    \<not> pb_thumbnail_job_created r' \<and> pb_updated_at r' = None"
proof -
  have inv': "db_inv d'" by (rule persist_batch_inv [OF inv first])
  have run: "db_inv (run_writes ws d')" "extends d' p (run_writes ws d')"
    using run_writes_inv [OF inv' room] by auto
  obtain b where b: "b \<in> set (batches_of d' p)" "sbr_client_batch_id b = cid"
    "pb_seq r = as_u64 (sbr_seq b)" "pb_revision r = as_u64 (sbr_revision b)"
    using first
  proof (cases rule: persist_batch_cases)
    case (inserted row job)
    show ?thesis
      by (rule that [of "batch_row d p cid (filter (stroke_visible d p) strokes)
          (wrap_i64 (pg_ink_revision row + 1))"]) (simp_all add: inserted(6,7) after_batch_batches)
  qed (use stored in simp_all)
  note b' = extends_batch [OF run(2) b(1)]
  have known: "cid \<in> set (map sbr_client_batch_id (batches_of (run_writes ws d') p))"
    using b' b(2) by auto
  from again show ?thesis
  proof (cases rule: persist_batch_cases)
    case (retry row b2)
    have "b2 = b"
      by (rule same_batch [OF run(1) retry(2) b']) (simp add: retry(3) b(2))
    then show ?thesis by (simp add: retry(4,5) b(3,4))
  qed (use known in blast)+
qed

lemma batch_retry_idempotent_witness:
  "\<exists>r d' r' d''. persist_batch example_env example_db ''p'' ''b1'' [example_stroke ''s1''] = Inr (r, d') \<and>
     persist_batch example_env d' ''p'' ''b1'' [example_stroke ''s1''] = Inr (r', d'') \<and>
     d'' = d' \<and> pb_seq r' = pb_seq r"
proof -
  obtain r d' where first: "persist_batch example_env example_db ''p'' ''b1'' [example_stroke ''s1''] = Inr (r, d')"
    "pb_updated_at r \<noteq> None"
    by (simp add: persist_batch_def begin_tx_def lock_page_def commit_tx_def
        run_query_def fetch_one_def example_env_def example_db_page example_db_empty
        insert_visible_batch_def insert_stroke_batch_def insert_thumbnail_job_def i64_max_def
        wrap_i64_def example_row_def store_simps Let_def)
  obtain row b where row: "page_row d' ''p'' = Some row" and b: "batches_of d' ''p'' = [b]" "sbr_client_batch_id b = ''b1''"
    using first after_batch_views(1) [OF example_db_inv]
    by (cases rule: persist_batch_cases)
      (auto simp: after_batch_batches example_db_empty example_db_page example_row_def i64_max_def)
  obtain r' d'' where again: "persist_batch example_env d' ''p'' ''b1'' [example_stroke ''s1''] = Inr (r', d'')"
    using row b by (simp add: persist_batch_def begin_tx_def lock_page_def commit_tx_def
        run_query_def fetch_one_def example_env_def Let_def)
  have "db_room (int (length ([] :: (dbenv \<times> page_write) list))) d'"
    unfolding db_room_def
  proof (intro allI impI)
    fix p row assume row: "page_row d' p = Some row"
    have "grows example_db p d'" by (rule persist_batch_grows [OF example_db_inv first(1)])
    with row have "pg_ink_revision row \<le> 1"
      by (auto simp: grows_def example_db_page example_row_def split: if_splits)
    then show "pg_ink_revision row + int (length ([] :: (dbenv \<times> page_write) list)) < i64_max"
      by (simp add: i64_max_def)
  qed
  from batch_retry_idempotent [OF example_db_inv first this, unfolded run_writes_simps, OF again] first again
  show ?thesis by blast
qed


subsection \<open>Deletions\<close>

lemma extends_tombstoned: "extends d p d' \<Longrightarrow> set (tombstoned_ids_of d p) \<subseteq> set (tombstoned_ids_of d' p)"
  by (auto simp: extends_def tombstoned_ids_of_def)

lemma persist_tombstones_ids:
  assumes inv: "db_inv d" and op: "persist_tombstones env d p mid req = Inr (r, d')"
    and new: "mid \<notin> set (map tbr_client_mutation_id (tombstone_batches_of d p))"
  shows "set (tombstoned_ids_of d' p) = set (tombstoned_ids_of d p) \<union> set req"
  using op
proof (cases rule: persist_tombstones_cases)
  case (vacuous row)
  have "set req \<subseteq> set (tombstoned_ids_of d p)"
    using fresh_ids_set [of d p req] by (simp add: vacuous(2))
  then show ?thesis by (auto simp: vacuous(4) tombstoned_ids_of_def store_simps)
next
  case (deleted row job)
  have below: "pg_ink_revision row < i64_max" using view_okD(2) [OF inv deleted(1)] deleted(4) by simp
  show ?thesis
    using after_delete_views(3) [OF inv deleted(1) below, where q = p] fresh_ids_set [of d p req]
    by (auto simp: deleted(5) tombstoned_ids_of_def)
qed (use new in auto)



subsection \<open>Errors\<close>

definition constraint_error :: "DbError \<Rightarrow> bool" where
  "constraint_error e = (case e of ConstraintViolation _ \<Rightarrow> True | _ \<Rightarrow> False)"

text \<open>A result that is not a constraint error, and how it is composed.\<close>

definition fine :: "DbError + 'a \<Rightarrow> bool" where
  "fine r \<longleftrightarrow> (\<forall>e. r = Inl e \<longrightarrow> \<not> constraint_error e)"

lemma fine_bindr: "fine r \<Longrightarrow> (\<And>a. r = Inr a \<Longrightarrow> fine (f a)) \<Longrightarrow> fine (bindr r f)"
  by (cases r) (auto simp: fine_def)

lemma fine_run_query: "fine r \<Longrightarrow> fine (run_query env q r)"
  by (simp add: fine_def run_query_def constraint_error_def)

lemma fine_Inr: "fine (Inr x)"
  by (simp add: fine_def)

lemma fine_failed: "fine (Inl (QueryFailed q))"
  by (simp add: fine_def constraint_error_def)

lemma fine_fetch_one: "fine (fetch_one q r)"
  by (cases r) (simp_all add: fine_def fetch_one_def constraint_error_def)

lemma fine_tx: "fine (begin_tx env name)" "fine (commit_tx env name)" "fine (lock_page env d name p)"
  by (simp_all add: begin_tx_def commit_tx_def lock_page_def fine_run_query fine_Inr fine_fetch_one)

lemmas fine_intros = fine_bindr fine_run_query fine_Inr fine_failed fine_fetch_one fine_tx

lemma insert_visible_batch_error:
  assumes inv: "db_inv d" and row: "page_row d p = Some row" and room: "pg_ink_revision row < i64_max"
    and new: "cid \<notin> set (map sbr_client_batch_id (batches_of d p))"
  shows "fine (insert_visible_batch env d p cid strokes (pg_ink_revision row) paper)"
proof -
  note ok = view_okD [OF inv row]
  have wrap: "wrap_i64 (pg_ink_revision row + 1) = pg_ink_revision row + 1"
    by (rule wrap_i64_succ [OF ok(1) room])
  have seq: "max_or_0 (map sbr_seq (batches_of d p)) = int (length (batches_of d p))"
    by (rule batches_ok_seqs [OF ok(3)])
  have "sbr_seq b \<noteq> int (length (batches_of d p)) + 1 \<and> sbr_revision b \<noteq> pg_ink_revision row + 1 \<and>
      sbr_client_batch_id b \<noteq> cid" if "b \<in> set (batches_of d p)" for b
    using max_or_0_ge [of "sbr_seq b" "map sbr_seq (batches_of d p)"] that ok(3) new
    by (auto simp: seq batches_ok_def)
  then have "\<not> list_ex (\<lambda>b. sbr_seq b = int (length (batches_of d p)) + 1 \<or>
      sbr_client_batch_id b = cid \<or> sbr_revision b = pg_ink_revision row + 1) (batches_of d p)"
    by (auto simp: list_ex_iff)
  then have ins: "insert_stroke_batch q \<lparr>sbr_page_id = p, sbr_seq = int (length (batches_of d p)) + 1,
      sbr_revision = pg_ink_revision row + 1, sbr_client_batch_id = cid, sbr_strokes = strokes\<rparr> d =
      Inr (d\<lparr>stroke_batches := stroke_batches d @ [\<lparr>sbr_page_id = p,
        sbr_seq = int (length (batches_of d p)) + 1, sbr_revision = pg_ink_revision row + 1,
        sbr_client_batch_id = cid, sbr_strokes = strokes\<rparr>]\<rparr>)" for q
    using ok(1) row by (simp add: insert_stroke_batch_def)
  show ?thesis
    unfolding insert_visible_batch_def Let_def wrap seq
    by (auto intro!: fine_intros simp: results_simps ins split: prod.splits if_splits)
qed

lemma persist_batch_fine:
  assumes inv: "db_inv d" and room: "db_room 1 d"
  shows "fine (persist_batch env d p cid strokes)"
proof -
  have below: "pg_ink_revision row < i64_max" if "page_row d q = Some row" for q row
    using room that by (force simp: db_room_def)
  have ins: "fine (insert_visible_batch env d p cid vis (pg_ink_revision row) (pg_paper row))"
    if "page_row d p = Some row" "List.find (\<lambda>b. sbr_client_batch_id b = cid) (batches_of d p) = None"
    for row vis
    by (rule insert_visible_batch_error [OF inv that(1) below [OF that(1)]])
      (use that(2) in \<open>auto simp: find_None_iff\<close>)
  show ?thesis
    unfolding persist_batch_def Let_def
    by (auto intro!: fine_intros ins simp: lock_page_def results_simps split: option.splits)
qed

lemma persist_tombstones_fine: "fine (persist_tombstones env d p mid ids)"
proof -
  have rows: "fine (insert_stroke_tombstones q p rv (filter (\<lambda>i. i \<in> set (tombstoned_ids_of d p) \<longrightarrow>
      i \<notin> set ids) (remdups_adj (sort ids))) d)" for q rv
  proof -
    have "filter (\<lambda>i. i \<in> set (tombstoned_ids_of d p) \<longrightarrow> i \<notin> set ids) (remdups_adj (sort ids)) =
        fresh_ids d p ids"
      unfolding fresh_ids_def by (rule filter_cong) auto
    moreover have "insert_stroke_tombstones q p rv (fresh_ids d p ids) d =
        Inr (d\<lparr>stroke_tombstones := stroke_tombstones d @ tombstone_rows p rv (fresh_ids d p ids)\<rparr>)"
      using fresh_ids_set [of d p ids] by (auto simp: insert_stroke_tombstones_Inr fresh_ids_distinct)
    ultimately show ?thesis by (simp add: fine_Inr)
  qed
  have batch: "fine (insert_tombstone_batch q \<lparr>tbr_page_id = p, tbr_client_mutation_id = mid,
      tbr_revision = rv, tbr_stroke_ids = xs\<rparr> d1)"
    if "page_row d p = Some row" "List.find (\<lambda>t. tbr_client_mutation_id t = mid) (tombstone_batches_of d p) = None"
      "page_row d1 p = page_row d p" "tombstone_batches_of d1 p = tombstone_batches_of d p"
    for row q rv xs d1
    using that by (auto simp: insert_tombstone_batch_def find_None_iff list_ex_iff fine_Inr)
  show ?thesis
    unfolding persist_tombstones_def Let_def
    by (intro fine_intros; (auto intro!: fine_intros rows batch
          simp: lock_page_def results_simps insert_stroke_tombstones_Inr store_simps
          split: option.splits prod.splits if_splits)?)
qed

lemma persist_paper_fine: "fine (persist_paper env d p paper)"
  unfolding persist_paper_def Let_def by (auto intro!: fine_intros split: prod.splits)



end
