(* ===== verification/Hub.thy ===== *)
theory Hub
  imports Protocol
begin

text \<open>
  The in-process realtime state of \<open>crates/server/src/realtime/hub.rs\<close>: tickets, broadcast channels
  per owner and per page, and the single-editor lease of each page. Every operation takes the time
  \<open>Utc::now()\<close> returned to it, in nanoseconds. Outside the sources: \<open>rand\<close> (the bytes are an
  argument), OpenTelemetry's \<open>SpanContext\<close> (the type \<open>'o\<close>), chrono's \<open>to_rfc3339\<close>, and tokio's
  broadcast channel, of which only what the hub does is kept: the capacity it was created with and
  the messages handed to \<open>send\<close>, oldest first. A subscription is the position in that list from
  which the receiver reads.
\<close>

definition seconds :: "int \<Rightarrow> int" where "seconds n = n * 1000000000"

definition TICKET_TTL_SECONDS :: int where "TICKET_TTL_SECONDS = 60"
definition LIBRARY_CHANNEL_CAPACITY :: nat where "LIBRARY_CHANNEL_CAPACITY = 64"
definition PAGE_CHANNEL_CAPACITY :: nat where "PAGE_CHANNEL_CAPACITY = 256"
definition LEASE_TTL_SECONDS :: int where "LEASE_TTL_SECONDS = 30"

section \<open>State\<close>

record ('m, 'o) Fanout =
  fo_message :: 'm
  fo_origin :: 'o

record ('m, 'o) Channel =
  ch_capacity :: nat
  ch_sent :: "('m, 'o) Fanout list"

record 'o Ticket =
  tk_owner_id :: string
  tk_expires_at :: int
  tk_origin :: 'o

record 'o RedeemedTicket =
  rd_owner_id :: string
  rd_origin :: 'o

record Lease =
  ls_holder :: string
  ls_expires_at :: int

datatype LeaseOutcome =
    Granted
  | Denied string

record 'o RealtimeHub =
  tickets :: "string \<rightharpoonup> 'o Ticket"
  library_channels :: "string \<rightharpoonup> (LibraryEvent, 'o) Channel"
  page_channels :: "string \<rightharpoonup> (PageServerMessage, 'o) Channel"
  leases :: "string \<rightharpoonup> Lease"

definition hub_default :: "'o RealtimeHub" where
  "hub_default = \<lparr>tickets = Map.empty, library_channels = Map.empty, page_channels = Map.empty,
     leases = Map.empty\<rparr>"

section \<open>Tickets\<close>

definition hex_digit :: "nat \<Rightarrow> char" where
  "hex_digit n = (if n < 10 then char_of (48 + n) else char_of (87 + n))"

text \<open>\<open>format!("{byte:02x}")\<close> of each random byte.\<close>

definition random_hex :: "u8 list \<Rightarrow> string" where
  "random_hex buffer =
     concat (map (\<lambda>byte. [hex_digit (unat byte div 16), hex_digit (unat byte mod 16)]) buffer)"

definition issue_ticket ::
  "int \<Rightarrow> (int \<Rightarrow> string) \<Rightarrow> u8 list \<Rightarrow> string \<Rightarrow> 'o \<Rightarrow> 'o RealtimeHub \<Rightarrow>
   RealtimeTicketResponse \<times> 'o RealtimeHub" where
  "issue_ticket now to_rfc3339 random owner_id origin hub =
     (let ticket = ''ticket_'' @ random_hex random;
          expires_at = now + seconds TICKET_TTL_SECONDS
      in (\<lparr>rt_ticket = ticket, rt_expires_at = to_rfc3339 expires_at\<rparr>,
          hub\<lparr>tickets := (tickets hub)(ticket \<mapsto>
            \<lparr>tk_owner_id = owner_id, tk_expires_at = expires_at, tk_origin = origin\<rparr>)\<rparr>))"

text \<open>\<open>HashMap::retain\<close> on the values.\<close>

definition map_retain :: "('v \<Rightarrow> bool) \<Rightarrow> ('k \<rightharpoonup> 'v) \<Rightarrow> 'k \<rightharpoonup> 'v" where
  "map_retain P m = (\<lambda>k. case m k of None \<Rightarrow> None | Some v \<Rightarrow> if P v then Some v else None)"

definition consume_ticket ::
  "int \<Rightarrow> string \<Rightarrow> 'o RealtimeHub \<Rightarrow> 'o RedeemedTicket option \<times> 'o RealtimeHub" where
  "consume_ticket now ticket hub =
     (let ts = map_retain (\<lambda>t. tk_expires_at t > now) (tickets hub) in
      case ts ticket of
        None \<Rightarrow> (None, hub\<lparr>tickets := ts\<rparr>)
      | Some t \<Rightarrow>
          (if tk_expires_at t > now
           then Some \<lparr>rd_owner_id = tk_owner_id t, rd_origin = tk_origin t\<rparr> else None,
           hub\<lparr>tickets := ts(ticket := None)\<rparr>))"

section \<open>Channels\<close>

text \<open>\<open>entry(key).or_insert_with(|| broadcast::channel(capacity))\<close>.\<close>

definition channel_entry :: "nat \<Rightarrow> (string \<rightharpoonup> ('m, 'o) Channel) \<Rightarrow> string \<Rightarrow> ('m, 'o) Channel" where
  "channel_entry capacity channels key =
     (case channels key of Some c \<Rightarrow> c | None \<Rightarrow> \<lparr>ch_capacity = capacity, ch_sent = []\<rparr>)"

definition channel_send :: "('m, 'o) Fanout \<Rightarrow> ('m, 'o) Channel \<Rightarrow> ('m, 'o) Channel" where
  "channel_send m c = c\<lparr>ch_sent := ch_sent c @ [m]\<rparr>"

definition subscribe_library :: "string \<Rightarrow> 'o RealtimeHub \<Rightarrow> nat \<times> 'o RealtimeHub" where
  "subscribe_library owner_id hub =
     (let c = channel_entry LIBRARY_CHANNEL_CAPACITY (library_channels hub) owner_id
      in (length (ch_sent c), hub\<lparr>library_channels := (library_channels hub)(owner_id \<mapsto> c)\<rparr>))"

definition publish_library_event :: "'o \<Rightarrow> string \<Rightarrow> LibraryEvent \<Rightarrow> 'o RealtimeHub \<Rightarrow> 'o RealtimeHub" where
  "publish_library_event origin owner_id event hub =
     (let c = channel_entry LIBRARY_CHANNEL_CAPACITY (library_channels hub) owner_id
      in hub\<lparr>library_channels := (library_channels hub)(owner_id \<mapsto>
           channel_send \<lparr>fo_message = event, fo_origin = origin\<rparr> c)\<rparr>)"

definition subscribe_page :: "string \<Rightarrow> 'o RealtimeHub \<Rightarrow> nat \<times> 'o RealtimeHub" where
  "subscribe_page page_id hub =
     (let c = channel_entry PAGE_CHANNEL_CAPACITY (page_channels hub) page_id
      in (length (ch_sent c), hub\<lparr>page_channels := (page_channels hub)(page_id \<mapsto> c)\<rparr>))"

definition publish_page :: "'o \<Rightarrow> string \<Rightarrow> PageServerMessage \<Rightarrow> 'o RealtimeHub \<Rightarrow> 'o RealtimeHub" where
  "publish_page origin page_id message hub =
     (let c = channel_entry PAGE_CHANNEL_CAPACITY (page_channels hub) page_id
      in hub\<lparr>page_channels := (page_channels hub)(page_id \<mapsto>
           channel_send \<lparr>fo_message = message, fo_origin = origin\<rparr> c)\<rparr>)"

text \<open>What was published to a key so far, and what a receiver that subscribed at a position has
  been offered since.\<close>

definition page_sent :: "'o RealtimeHub \<Rightarrow> string \<Rightarrow> PageServerMessage list" where
  "page_sent hub page_id =
     map fo_message (ch_sent (channel_entry PAGE_CHANNEL_CAPACITY (page_channels hub) page_id))"

definition library_sent :: "'o RealtimeHub \<Rightarrow> string \<Rightarrow> LibraryEvent list" where
  "library_sent hub owner_id =
     map fo_message (ch_sent (channel_entry LIBRARY_CHANNEL_CAPACITY (library_channels hub) owner_id))"

section \<open>The edit lease\<close>

text \<open>\<open>leases.remove\<close> of an expired entry, the first statement of \<open>acquire_lease\<close>.\<close>

definition sweep_lease :: "int \<Rightarrow> string \<Rightarrow> (string \<rightharpoonup> Lease) \<Rightarrow> string \<rightharpoonup> Lease" where
  "sweep_lease now page_id ls =
     (case ls page_id of
        Some existing \<Rightarrow> if ls_expires_at existing \<le> now then ls(page_id := None) else ls
      | None \<Rightarrow> ls)"

definition acquire_lease ::
  "int \<Rightarrow> string \<Rightarrow> string \<Rightarrow> 'o RealtimeHub \<Rightarrow> LeaseOutcome \<times> 'o RealtimeHub" where
  "acquire_lease now page_id session_id hub =
     (let ls = sweep_lease now page_id (leases hub);
          expires_at = now + seconds LEASE_TTL_SECONDS
      in case ls page_id of
           Some existing \<Rightarrow>
             if ls_holder existing = session_id
             then (Granted, hub\<lparr>leases := ls(page_id \<mapsto> existing\<lparr>ls_expires_at := expires_at\<rparr>)\<rparr>)
             else (Denied (ls_holder existing), hub\<lparr>leases := ls\<rparr>)
         | None \<Rightarrow>
             (Granted, hub\<lparr>leases := ls(page_id \<mapsto>
                \<lparr>ls_holder = session_id, ls_expires_at = expires_at\<rparr>)\<rparr>))"

definition release_lease :: "string \<Rightarrow> string \<Rightarrow> 'o RealtimeHub \<Rightarrow> bool \<times> 'o RealtimeHub" where
  "release_lease page_id session_id hub =
     (case leases hub page_id of
        Some existing \<Rightarrow>
          if ls_holder existing = session_id
          then (True, hub\<lparr>leases := (leases hub)(page_id := None)\<rparr>)
          else (False, hub)
      | None \<Rightarrow> (False, hub))"

definition current_lease_holder :: "int \<Rightarrow> string \<Rightarrow> 'o RealtimeHub \<Rightarrow> string option \<times> 'o RealtimeHub" where
  "current_lease_holder now page_id hub =
     (case leases hub page_id of
        Some existing \<Rightarrow>
          if ls_expires_at existing > now then (Some (ls_holder existing), hub)
          else (None, hub\<lparr>leases := (leases hub)(page_id := None)\<rparr>)
      | None \<Rightarrow> (None, hub))"

text \<open>The session that holds the page at a time, if any: what the stored entry means.\<close>

definition holder_at :: "int \<Rightarrow> string \<Rightarrow> 'o RealtimeHub \<Rightarrow> string option" where
  "holder_at now page_id hub =
     (case leases hub page_id of
        Some existing \<Rightarrow> if ls_expires_at existing > now then Some (ls_holder existing) else None
      | None \<Rightarrow> None)"


section \<open>The contract of the lease\<close>

text \<open>
  What the dispatcher relies on: who holds a page is a function of time; acquiring is granted
  exactly when the page is free or already the caller's and then holds for the time to live;
  a denial names the holder and changes nothing; no operation touches another page.
\<close>

locale edit_lease =
  fixes acquire :: "int \<Rightarrow> string \<Rightarrow> string \<Rightarrow> 's \<Rightarrow> LeaseOutcome \<times> 's"
    and release :: "string \<Rightarrow> string \<Rightarrow> 's \<Rightarrow> bool \<times> 's"
    and current :: "int \<Rightarrow> string \<Rightarrow> 's \<Rightarrow> string option \<times> 's"
    and held :: "int \<Rightarrow> string \<Rightarrow> 's \<Rightarrow> string option"
    and ttl :: int
  assumes acquire_outcome: "fst (acquire now p sid s) =
      (case held now p s of None \<Rightarrow> Granted | Some h \<Rightarrow> if h = sid then Granted else Denied h)"
    and acquire_granted: "fst (acquire now p sid s) = Granted \<Longrightarrow>
      held t p (snd (acquire now p sid s)) = (if t < now + ttl then Some sid else None)"
    and acquire_denied: "fst (acquire now p sid s) = Denied h \<Longrightarrow>
      held t p (snd (acquire now p sid s)) = held t p s"
    and acquire_other: "q \<noteq> p \<Longrightarrow> held t q (snd (acquire now p sid s)) = held t q s"
    and release_held: "held t p s = Some sid \<Longrightarrow> fst (release p sid s)"
    and release_done: "fst (release p sid s) \<Longrightarrow> held t p (snd (release p sid s)) = None"
    and release_kept: "\<not> fst (release p sid s) \<Longrightarrow> held t p (snd (release p sid s)) = held t p s"
    and release_own: "fst (release p sid s) \<Longrightarrow> held t p s = Some h \<Longrightarrow> h = sid"
    and release_other: "q \<noteq> p \<Longrightarrow> held t q (snd (release p sid s)) = held t q s"
    and current_holder: "fst (current now p s) = held now p s"
    and current_kept: "held now p s \<noteq> None \<Longrightarrow> held t p (snd (current now p s)) = held t p s"
    and current_other: "q \<noteq> p \<Longrightarrow> held t q (snd (current now p s)) = held t q s"
begin

lemma acquire_denied_iff: "fst (acquire now p sid s) = Denied h \<longleftrightarrow> held now p s = Some h \<and> h \<noteq> sid"
  by (auto simp: acquire_outcome split: option.splits)

lemma acquire_granted_iff: "fst (acquire now p sid s) = Granted \<longleftrightarrow> held now p s = None \<or> held now p s = Some sid"
  by (auto simp: acquire_outcome split: option.splits)

text \<open>While a session holds the page, the operations of others leave it the holder.\<close>

lemma acquire_keeps_holder:
  assumes holds: "\<And>t. t < e \<Longrightarrow> held t p s = Some sid" and now: "now < e"
    and renew: "other = sid \<Longrightarrow> q = p \<Longrightarrow> e \<le> now + ttl" and t: "t < e"
  shows "held t p (snd (acquire now q other s)) = Some sid"
proof (cases "q = p")
  case False
  then show ?thesis using acquire_other [of p q] holds [OF t] by simp
next
  case [simp]: True
  show ?thesis
  proof (cases "other = sid")
    case [simp]: True
    have "fst (acquire now p sid s) = Granted" using holds [OF now] by (simp add: acquire_granted_iff)
    then show ?thesis using acquire_granted renew t by simp
  next
    case False
    then have "fst (acquire now p other s) = Denied sid"
      using holds [OF now] by (simp add: acquire_denied_iff)
    then show ?thesis using acquire_denied holds [OF t] by simp
  qed
qed

lemma release_keeps_holder:
  assumes "held t p s = Some sid" and "\<not> (q = p \<and> other = sid)"
  shows "held t p (snd (release q other s)) = Some sid"
  using assms release_other [of p q t other s] release_own [of p other s t sid]
    release_kept [of p other s t] by (cases "q = p"; cases "fst (release q other s)") auto

lemma current_keeps_holder:
  assumes "held now p s \<noteq> None" and "held t p s = Some sid"
  shows "held t p (snd (current now q s)) = Some sid"
  using assms current_other [of p q] current_kept by (cases "q = p") auto

text \<open>Releasing is the inverse of acquiring: the page is free for the next session at once.\<close>

lemma acquire_after_release:
  assumes "held now p s = Some sid"
  shows "fst (acquire now p other (snd (release p sid s))) = Granted"
  using release_done [OF release_held [OF assms]] by (simp add: acquire_granted_iff)

end

text \<open>The hub's lease keeps that contract.\<close>

lemma holder_at_sweep: "holder_at now p (hub\<lparr>leases := ls\<rparr>) =
    (case ls p of Some e \<Rightarrow> if ls_expires_at e > now then Some (ls_holder e) else None | None \<Rightarrow> None)"
  by (simp add: holder_at_def)

interpretation hub_lease: edit_lease acquire_lease release_lease current_lease_holder holder_at
  "seconds LEASE_TTL_SECONDS"
  by unfold_locales
    (auto simp: acquire_lease_def release_lease_def current_lease_holder_def holder_at_def
      sweep_lease_def Let_def split: option.splits if_splits)

section \<open>Runs of lease operations\<close>

datatype lease_op =
    Op_Acquire string string
  | Op_Release string string
  | Op_Holder string

fun lease_step :: "int \<times> lease_op \<Rightarrow> 'o RealtimeHub \<Rightarrow> LeaseOutcome option \<times> 'o RealtimeHub" where
  "lease_step (now, Op_Acquire page_id session_id) hub =
     (let (outcome, hub') = acquire_lease now page_id session_id hub in (Some outcome, hub'))"
| "lease_step (now, Op_Release page_id session_id) hub = (None, snd (release_lease page_id session_id hub))"
| "lease_step (now, Op_Holder page_id) hub = (None, snd (current_lease_holder now page_id hub))"

fun lease_run :: "(int \<times> lease_op) list \<Rightarrow> 'o RealtimeHub \<Rightarrow> LeaseOutcome option list \<times> 'o RealtimeHub" where
  "lease_run [] hub = ([], hub)"
| "lease_run (op # ops) hub =
     (let (outcome, hub1) = lease_step op hub; (outcomes, hub2) = lease_run ops hub1
      in (outcome # outcomes, hub2))"

text \<open>Operations that leave a grant of the session on the page alone: before it expires, not its
  own release, and its own renewals not from a clock behind the grant.\<close>

fun undisturbed :: "int \<Rightarrow> string \<Rightarrow> string \<Rightarrow> int \<times> lease_op \<Rightarrow> bool" where
  "undisturbed since page_id session_id (now, op) \<longleftrightarrow>
     now < since + seconds LEASE_TTL_SECONDS \<and>
     (case op of
        Op_Acquire p s \<Rightarrow> p = page_id \<and> s = session_id \<longrightarrow> since \<le> now
      | Op_Release p s \<Rightarrow> \<not> (p = page_id \<and> s = session_id)
      | Op_Holder p \<Rightarrow> True)"

lemma lease_step_keeps_holder:
  assumes holds: "\<And>t. t < since + seconds LEASE_TTL_SECONDS \<Longrightarrow> holder_at t p hub = Some sid"
    and quiet: "undisturbed since p sid op" and t: "t < since + seconds LEASE_TTL_SECONDS"
  shows "holder_at t p (snd (lease_step op hub)) = Some sid"
proof -
  obtain now act where op: "op = (now, act)" by (cases op)
  have now: "now < since + seconds LEASE_TTL_SECONDS" using quiet by (simp add: op)
  show ?thesis
  proof (cases act)
    case (Op_Acquire q other)
    then have "holder_at t p (snd (acquire_lease now q other hub)) = Some sid"
      using hub_lease.acquire_keeps_holder [OF holds now _ t, of other q] quiet by (simp add: op)
    then show ?thesis by (simp add: op Op_Acquire case_prod_beta)
  next
    case (Op_Release q other)
    then show ?thesis
      using hub_lease.release_keeps_holder [OF holds [OF t], of q other] quiet by (simp add: op)
  next
    case (Op_Holder q)
    then show ?thesis
      using hub_lease.current_keeps_holder [OF _ holds [OF t], of now q] holds [OF now] by (simp add: op)
  qed
qed

lemma lease_run_keeps_holder:
  assumes "\<And>t. t < since + seconds LEASE_TTL_SECONDS \<Longrightarrow> holder_at t p hub = Some sid"
    and "\<forall>op \<in> set ops. undisturbed since p sid op" and "t < since + seconds LEASE_TTL_SECONDS"
  shows "holder_at t p (snd (lease_run ops hub)) = Some sid"
  using assms
proof (induction ops arbitrary: hub)
  case (Cons op ops)
  have "holder_at t p (snd (lease_run ops (snd (lease_step op hub)))) = Some sid"
    using Cons.prems lease_step_keeps_holder [of since p hub sid op]
    by (intro Cons.IH) auto
  then show ?case by (simp add: case_prod_beta)
qed auto


section \<open>What an operation leaves alone\<close>

lemma page_sent_simps [hub_simps]:
  "page_sent (publish_page sp p m hub) q = page_sent hub q @ (if q = p then [m] else [])"
  "page_sent (publish_library_event sp u e hub) q = page_sent hub q"
  "page_sent (snd (acquire_lease now p sid hub)) q = page_sent hub q"
  "page_sent (snd (release_lease p sid hub)) q = page_sent hub q"
  "page_sent (snd (current_lease_holder now p hub)) q = page_sent hub q"
  "page_sent (snd (subscribe_page p hub)) q = page_sent hub q"
  by (auto simp: page_sent_def publish_page_def publish_library_event_def channel_entry_def
      channel_send_def acquire_lease_def release_lease_def current_lease_holder_def
      subscribe_page_def Let_def split: option.splits)

lemma library_sent_simps [hub_simps]:
  "library_sent (publish_page sp p m hub) u = library_sent hub u"
  "library_sent (publish_library_event sp v e hub) u = library_sent hub u @ (if u = v then [e] else [])"
  "library_sent (snd (acquire_lease now p sid hub)) u = library_sent hub u"
  "library_sent (snd (release_lease p sid hub)) u = library_sent hub u"
  by (auto simp: library_sent_def publish_page_def publish_library_event_def channel_entry_def
      channel_send_def acquire_lease_def release_lease_def Let_def split: option.splits)

lemma holder_at_publish [hub_simps]:
  "holder_at now q (publish_page sp p m hub) = holder_at now q hub"
  "holder_at now q (publish_library_event sp u e hub) = holder_at now q hub"
  by (simp_all add: holder_at_def publish_page_def publish_library_event_def Let_def)

lemma page_sent_default [simp]: "page_sent hub_default q = []"
  by (simp add: page_sent_def hub_default_def channel_entry_def)

lemma subscribe_page_position [hub_simps]: "fst (subscribe_page p hub) = length (page_sent hub p)"
  by (simp add: subscribe_page_def page_sent_def Let_def)


section \<open>Properties\<close>

text \<open>C13. A granted edit lease excludes every other session until it expires or is released: in
  any run of lease operations on the hub that are before the grant's expiry and do not include
  the holder's own release, every acquisition by another session is denied, naming the holder,
  and the holder's own is granted again.\<close>

theorem lease_exclusive:
  assumes "fst (acquire_lease now p sid hub) = Granted"
    and "\<forall>op \<in> set ops. undisturbed now p sid op"
    and "t < now + seconds LEASE_TTL_SECONDS"
  shows "fst (acquire_lease t p other (snd (lease_run ops (snd (acquire_lease now p sid hub))))) =
    (if other = sid then Granted else Denied sid)"
proof -
  have "holder_at t p (snd (lease_run ops (snd (acquire_lease now p sid hub)))) = Some sid"
    by (rule lease_run_keeps_holder [OF _ assms(2,3)])
      (simp add: hub_lease.acquire_granted [OF assms(1)])
  then show ?thesis by (auto simp: hub_lease.acquire_outcome)
qed

definition example_hub :: "unit RealtimeHub" where "example_hub = hub_default"

lemma lease_exclusive_witness:
  "fst (acquire_lease 5 ''p'' ''b'' (snd (lease_run
      [(1, Op_Acquire ''p'' ''b''), (2, Op_Holder ''p''), (3, Op_Release ''p'' ''b''), (4, Op_Acquire ''p'' ''a'')]
      (snd (acquire_lease 0 ''p'' ''a'' example_hub))))) = Denied ''a''"
  using lease_exclusive [of 0 "''p''" "''a''" example_hub
      "[(1, Op_Acquire ''p'' ''b''), (2, Op_Holder ''p''), (3, Op_Release ''p'' ''b''), (4, Op_Acquire ''p'' ''a'')]"
      5 "''b''"]
  by (simp add: hub_lease.acquire_granted_iff holder_at_def example_hub_def hub_default_def
      seconds_def LEASE_TTL_SECONDS_def)

text \<open>Releasing frees the page at once: the session that holds it can release it, the next
  session's acquisition is then granted, and a release by a session that does not hold the page
  changes nothing.\<close>

theorem lease_handover:
  "(holder_at now p hub = Some sid \<longrightarrow>
      fst (release_lease p sid hub) \<and>
      fst (acquire_lease now p other (snd (release_lease p sid hub))) = Granted) \<and>
   (\<not> fst (release_lease p sid hub) \<longrightarrow> snd (release_lease p sid hub) = hub)"
proof (intro conjI impI)
  show "fst (release_lease p sid hub)" if "holder_at now p hub = Some sid"
    using that by (rule hub_lease.release_held)
  show "fst (acquire_lease now p other (snd (release_lease p sid hub))) = Granted"
    if "holder_at now p hub = Some sid"
    using that by (rule hub_lease.acquire_after_release)
  show "snd (release_lease p sid hub) = hub" if "\<not> fst (release_lease p sid hub)"
    using that by (auto simp: release_lease_def split: option.splits)
qed

lemma lease_handover_witness:
  "fst (acquire_lease 2 ''p'' ''b'' (snd (release_lease ''p'' ''a'' (snd (acquire_lease 0 ''p'' ''a'' example_hub))))) = Granted"
  using lease_handover [of 2 "''p''" "snd (acquire_lease 0 ''p'' ''a'' example_hub)" "''a''" "''b''"]
  by (simp add: hub_lease.acquire_granted hub_lease.acquire_granted_iff holder_at_def example_hub_def
      hub_default_def seconds_def LEASE_TTL_SECONDS_def acquire_lease_def sweep_lease_def Let_def)

subsection \<open>Tickets\<close>

lemma consume_issued:
  assumes "issue_ticket now fmt random owner origin hub = (resp, hub1)"
  shows "fst (consume_ticket t (rt_ticket resp) hub1) =
    (if t < now + seconds TICKET_TTL_SECONDS
     then Some \<lparr>rd_owner_id = owner, rd_origin = origin\<rparr> else None)"
  using assms by (auto simp: issue_ticket_def consume_ticket_def map_retain_def Let_def)

lemma consume_removes: "tickets (snd (consume_ticket t k hub)) k = None"
  by (auto simp: consume_ticket_def map_retain_def Let_def split: option.splits)

lemma consume_no_new: "tickets hub k = None \<Longrightarrow> tickets (snd (consume_ticket t k' hub)) k = None"
  by (auto simp: consume_ticket_def map_retain_def Let_def split: option.splits)

text \<open>A realtime ticket works once and for sixty seconds: redeeming it in time yields the
  session it was issued to, a second redemption yields nothing whatever is redeemed in between,
  and from sixty seconds on it yields nothing at all.\<close>

theorem ticket_single_use:
  assumes issued: "issue_ticket now fmt random owner origin hub = (resp, hub1)"
  shows "fst (consume_ticket t (rt_ticket resp) hub1) =
      (if t < now + seconds 60 then Some \<lparr>rd_owner_id = owner, rd_origin = origin\<rparr> else None) \<and>
    fst (consume_ticket t' (rt_ticket resp) (foldl (\<lambda>h (u, k). snd (consume_ticket u k h))
      (snd (consume_ticket t (rt_ticket resp) hub1)) others)) = None"
proof
  show "fst (consume_ticket t (rt_ticket resp) hub1) =
      (if t < now + seconds 60 then Some \<lparr>rd_owner_id = owner, rd_origin = origin\<rparr> else None)"
    using consume_issued [OF issued] by (simp add: TICKET_TTL_SECONDS_def)
  have "tickets (foldl (\<lambda>h (u, k). snd (consume_ticket u k h)) h others) (rt_ticket resp) = None"
    if "tickets h (rt_ticket resp) = None" for h :: "'a RealtimeHub"
    using that by (induction others arbitrary: h) (auto simp: consume_no_new)
  from this [OF consume_removes [of t "rt_ticket resp" hub1]]
  show "fst (consume_ticket t' (rt_ticket resp) (foldl (\<lambda>h (u, k). snd (consume_ticket u k h))
      (snd (consume_ticket t (rt_ticket resp) hub1)) others)) = None"
    by (simp add: consume_ticket_def map_retain_def Let_def)
qed

lemma ticket_single_use_witness:
  "fst (consume_ticket 7 (rt_ticket (fst (issue_ticket 5 (\<lambda>_. ''t'') [1, 255] ''owner'' () example_hub)))
      (snd (issue_ticket 5 (\<lambda>_. ''t'') [1, 255] ''owner'' () example_hub))) =
   Some \<lparr>rd_owner_id = ''owner'', rd_origin = ()\<rparr>"
  using ticket_single_use [of 5 "\<lambda>_. ''t''" "[1, 255]" "''owner''" "()" example_hub, OF prod.collapse [symmetric]]
  by (simp add: seconds_def)

lemma hex_digit_inject: "a < 16 \<Longrightarrow> b < 16 \<Longrightarrow> hex_digit a = hex_digit b \<longleftrightarrow> a = b"
proof -
  have "list_all (\<lambda>a. list_all (\<lambda>b. (hex_digit a = hex_digit b) = (a = b)) [0..<16]) [0..<16]"
    by code_simp
  then show "a < 16 \<Longrightarrow> b < 16 \<Longrightarrow> hex_digit a = hex_digit b \<longleftrightarrow> a = b"
    by (auto simp: list_all_iff)
qed

lemma random_hex_Cons: "random_hex (b # bs) = hex_digit (unat b div 16) # hex_digit (unat b mod 16) # random_hex bs"
  by (simp add: random_hex_def)

text \<open>Distinct random bytes give distinct tickets and session ids: the hexadecimal rendering
  is injective on byte strings and twice as long as its input.\<close>

theorem random_hex_injective:
  "length (random_hex xs) = 2 * length xs \<and> (random_hex xs = random_hex ys \<longleftrightarrow> xs = ys)"
proof (induction xs arbitrary: ys)
  case Nil
  then show ?case by (cases ys) (simp_all add: random_hex_Cons, simp_all add: random_hex_def)
next
  case (Cons x xs)
  have byte: "unat x div 16 = unat y div 16 \<and> unat x mod 16 = unat y mod 16 \<longleftrightarrow> x = y" for y :: u8
    by (metis div_mult_mod_eq word_unat_eq_iff)
  have "unat b div 16 < 16" for b :: u8
  proof -
    have "unat b < 256" using unsigned_less [of b] by simp
    then show ?thesis by (simp add: less_mult_imp_div_less)
  qed
  then show ?case
    using Cons byte
    by (cases ys) (auto simp: random_hex_Cons hex_digit_inject random_hex_def [of "[]"])
qed

end
