(* ===== verification/Dispatch.thy ===== *)
theory Dispatch
  imports Store Hub
begin

text \<open>
  What each page-channel message does: \<open>crates/server/src/realtime/dispatch.rs\<close>, over any
  \<open>PageStore\<close>. The state is the hub, the store, the frames the sender's sink has accepted, the
  metrics recorded and the thumbnail jobs spawned; a handler returns whether the socket stays
  open. Outside the sources, and so in the context: \<open>serde_json::to_string\<close>, the clock and the
  current span, and the sink, which may refuse any frame.
\<close>

section \<open>Context and state\<close>

record 'o PageContext =
  cx_page_id :: string
  cx_session_id :: string
  cx_now :: int
  cx_span :: 'o
  cx_to_json :: "PageServerMessage \<Rightarrow> string option"
  cx_sink_ok :: "nat \<Rightarrow> bool"
  cx_elapsed :: fp
  cx_coalesce_replay :: bool

datatype Metric =
    RealtimeEvent string string
  | PageMutation string string
  | RealtimeMessageBytes string string nat
  | RealtimeReplay nat nat fp
  | ThumbnailGenerationQueued
  | ThumbnailGenerationFinished
  | ThumbnailGeneration string fp
  | ThumbnailRecovery string
  | ThumbnailArtifactBytes nat
  | RealtimeMessageHandling string fp
  | RealtimeConnections int
  | AuthFailure string

record ThumbnailJob =
  tj_page_id :: string
  tj_owner_id :: string
  tj_source_seq :: u64

record ('s, 'o) server =
  sv_hub :: "'o RealtimeHub"
  sv_store :: 's
  sv_frames :: "string list"
  sv_metrics :: "Metric list"
  sv_jobs :: "ThumbnailJob list"

definition record_metric :: "Metric \<Rightarrow> ('s, 'o) server \<Rightarrow> ('s, 'o) server" where
  "record_metric m sv = sv\<lparr>sv_metrics := sv_metrics sv @ [m]\<rparr>"

definition publish_to_page :: "'o PageContext \<Rightarrow> PageServerMessage \<Rightarrow> ('s, 'o) server \<Rightarrow> ('s, 'o) server" where
  "publish_to_page ctx m sv = sv\<lparr>sv_hub := publish_page (cx_span ctx) (cx_page_id ctx) m (sv_hub sv)\<rparr>"

definition publish_to_library ::
  "'o PageContext \<Rightarrow> string \<Rightarrow> LibraryEvent \<Rightarrow> ('s, 'o) server \<Rightarrow> ('s, 'o) server" where
  "publish_to_library ctx owner_id e sv =
     sv\<lparr>sv_hub := publish_library_event (cx_span ctx) owner_id e (sv_hub sv)\<rparr>"

text \<open>A call to the store and to the lease, each leaving its result and the new state.\<close>

definition call_store :: "('s \<Rightarrow> 'r \<times> 's) \<Rightarrow> ('s, 'o) server \<Rightarrow> 'r \<times> ('s, 'o) server" where
  "call_store f sv = (let (r, s) = f (sv_store sv) in (r, sv\<lparr>sv_store := s\<rparr>))"

definition take_lease :: "'o PageContext \<Rightarrow> ('s, 'o) server \<Rightarrow> LeaseOutcome \<times> ('s, 'o) server" where
  "take_lease ctx sv =
     (let (outcome, hub) = acquire_lease (cx_now ctx) (cx_page_id ctx) (cx_session_id ctx) (sv_hub sv)
      in (outcome, sv\<lparr>sv_hub := hub\<rparr>))"

section \<open>Sending\<close>

definition send_page_frame ::
  "'o PageContext \<Rightarrow> PageServerMessage \<Rightarrow> ('s, 'o) server \<Rightarrow> nat option \<times> ('s, 'o) server" where
  "send_page_frame ctx message sv =
     (case cx_to_json ctx message of
        None \<Rightarrow> (None, sv)
      | Some payload \<Rightarrow>
          if cx_sink_ok ctx (length (sv_frames sv))
          then (Some (length payload),
            record_metric (RealtimeMessageBytes ''page'' (server_message_type message) (length payload))
              (sv\<lparr>sv_frames := sv_frames sv @ [payload]\<rparr>))
          else (None, sv))"

definition send_page ::
  "'o PageContext \<Rightarrow> PageServerMessage \<Rightarrow> ('s, 'o) server \<Rightarrow> bool \<times> ('s, 'o) server" where
  "send_page ctx message sv =
     (let (sent, sv') = send_page_frame ctx message sv in (sent \<noteq> None, sv'))"

section \<open>Leases\<close>

definition deny_lease :: "'o PageContext \<Rightarrow> string \<Rightarrow> ('s, 'o) server \<Rightarrow> bool \<times> ('s, 'o) server" where
  "deny_lease ctx holder sv =
     send_page ctx (LeaseDenied holder) (record_metric (RealtimeEvent ''page'' ''lease_denied'') sv)"

definition dispatch_acquire_lease :: "'o PageContext \<Rightarrow> ('s, 'o) server \<Rightarrow> bool \<times> ('s, 'o) server" where
  "dispatch_acquire_lease ctx sv =
     (let (outcome, sv1) = take_lease ctx sv in
      case outcome of
        Granted \<Rightarrow> send_page ctx LeaseGranted
          (publish_to_page ctx (LeaseChanged (Some (cx_session_id ctx))) sv1)
      | Denied holder \<Rightarrow> deny_lease ctx holder sv1)"

definition dispatch_renew_lease :: "'o PageContext \<Rightarrow> ('s, 'o) server \<Rightarrow> bool \<times> ('s, 'o) server" where
  "dispatch_renew_lease ctx sv =
     (let (outcome, sv1) = take_lease ctx sv in
      case outcome of
        Granted \<Rightarrow> send_page ctx LeaseGranted sv1
      | Denied holder \<Rightarrow> deny_lease ctx holder sv1)"

definition dispatch_release_lease :: "'o PageContext \<Rightarrow> ('s, 'o) server \<Rightarrow> ('s, 'o) server" where
  "dispatch_release_lease ctx sv =
     (let (released, hub) = release_lease (cx_page_id ctx) (cx_session_id ctx) (sv_hub sv);
          sv1 = sv\<lparr>sv_hub := hub\<rparr>
      in if released then publish_to_page ctx (LeaseChanged None) sv1 else sv1)"

section \<open>Mutations\<close>

definition publish_page_updated ::
  "'o PageContext \<Rightarrow> string \<Rightarrow> string \<Rightarrow> ('s, 'o) server \<Rightarrow> ('s, 'o) server" where
  "publish_page_updated ctx owner_id updated_at =
     publish_to_library ctx owner_id (PageUpdated (cx_page_id ctx) updated_at)"

text \<open>\<open>thumbnails::enqueue\<close> up to the spawned task, which is the job added to \<open>sv_jobs\<close>.\<close>

definition enqueue :: "string \<Rightarrow> string \<Rightarrow> u64 \<Rightarrow> ('s, 'o) server \<Rightarrow> ('s, 'o) server" where
  "enqueue page_id owner_id source_seq sv =
     (let sv1 = record_metric ThumbnailGenerationQueued sv
      in sv1\<lparr>sv_jobs := sv_jobs sv1 @
           [\<lparr>tj_page_id = page_id, tj_owner_id = owner_id, tj_source_seq = source_seq\<rparr>]\<rparr>)"

definition queue_thumbnail ::
  "'o PageContext \<Rightarrow> string \<Rightarrow> u64 \<Rightarrow> ('s, 'o) server \<Rightarrow> ('s, 'o) server" where
  "queue_thumbnail ctx owner_id revision sv =
     enqueue (cx_page_id ctx) owner_id revision
       (publish_to_library ctx owner_id
         (PageThumbnailUpdated (cx_page_id ctx) (Thumb_Generating revision)) sv)"

text \<open>The tail all three mutations share: the library re-sorts, and a new thumbnail job starts.\<close>

definition announce_edit ::
  "'o PageContext \<Rightarrow> string \<Rightarrow> string option \<Rightarrow> bool \<Rightarrow> u64 \<Rightarrow> ('s, 'o) server \<Rightarrow> ('s, 'o) server" where
  "announce_edit ctx owner_id updated_at thumbnail_job_created revision sv =
     (let sv1 = (case updated_at of
            Some edited_at \<Rightarrow> publish_page_updated ctx owner_id edited_at sv
          | None \<Rightarrow> sv)
      in if thumbnail_job_created then queue_thumbnail ctx owner_id revision sv1 else sv1)"

definition stroke_rejected :: "Stroke \<Rightarrow> bool" where
  "stroke_rejected stroke \<longleftrightarrow> stroke_id stroke = [] \<or> isl (stroke_validate stroke)"

definition commit_batch ::
  "'s PageStore \<Rightarrow> 'o PageContext \<Rightarrow> string \<Rightarrow> Stroke list \<Rightarrow> ('s, 'o) server \<Rightarrow> bool \<times> ('s, 'o) server" where
  "commit_batch ops ctx client_batch_id strokes sv =
     (let (outcome, sv1) = take_lease ctx sv in
      case outcome of
        Denied holder \<Rightarrow> deny_lease ctx holder sv1
      | Granted \<Rightarrow>
          if list_ex stroke_rejected strokes
          then send_page ctx (Msg_Error ''invalid_stroke_style''
            ''strokes require a supported immutable solid_round style with in-range pressure'' None) sv1
          else let (res, sv2) = call_store
                 (st_persist_batch ops (cx_page_id ctx) client_batch_id strokes) sv1 in
            case res of
              Inl error \<Rightarrow>
                send_page ctx (Msg_Error ''commit_failed'' ''could not persist strokes'' None)
                  (record_metric (PageMutation ''commit_batch'' ''error'') sv2)
            | Inr persisted \<Rightarrow>
                (let sv3 = record_metric (PageMutation ''commit_batch'' ''success'') sv2;
                     sv4 = (if pb_visible_strokes persisted \<noteq> []
                       then publish_to_page ctx (Msg_StrokeBatch
                         \<lparr>sb_seq = pb_seq persisted, sb_client_batch_id = client_batch_id,
                          sb_strokes = pb_visible_strokes persisted\<rparr>) sv3
                       else sv3)
                 in (True, announce_edit ctx (pb_owner_id persisted) (pb_updated_at persisted)
                       (pb_thumbnail_job_created persisted) (pb_revision persisted) sv4)))"

definition commit_tombstones ::
  "'s PageStore \<Rightarrow> 'o PageContext \<Rightarrow> string \<Rightarrow> string list \<Rightarrow> ('s, 'o) server \<Rightarrow> bool \<times> ('s, 'o) server" where
  "commit_tombstones ops ctx client_mutation_id stroke_ids sv =
     (let (outcome, sv1) = take_lease ctx sv in
      case outcome of
        Denied holder \<Rightarrow> deny_lease ctx holder sv1
      | Granted \<Rightarrow>
          let (res, sv2) = call_store
            (st_persist_tombstones ops (cx_page_id ctx) client_mutation_id stroke_ids) sv1 in
          case res of
            Inl error \<Rightarrow>
              send_page ctx (Msg_Error ''tombstone_failed'' ''could not persist deleted strokes''
                  (Some client_mutation_id))
                (record_metric (PageMutation ''commit_tombstones'' ''error'') sv2)
          | Inr persisted \<Rightarrow>
              (let sv3 = publish_to_page ctx (Msg_TombstoneBatch
                     \<lparr>tb_revision = pt_revision persisted, tb_client_mutation_id = client_mutation_id,
                      tb_stroke_ids = pt_stroke_ids persisted\<rparr>) sv2
               in (True, record_metric (PageMutation ''commit_tombstones'' ''success'')
                     (announce_edit ctx (pt_owner_id persisted) (pt_updated_at persisted)
                       (pt_thumbnail_job_created persisted) (pt_revision persisted) sv3))))"

definition set_paper ::
  "'s PageStore \<Rightarrow> 'o PageContext \<Rightarrow> string \<Rightarrow> Paper \<Rightarrow> ('s, 'o) server \<Rightarrow> bool \<times> ('s, 'o) server" where
  "set_paper ops ctx client_mutation_id paper sv =
     (let (outcome, sv1) = take_lease ctx sv in
      case outcome of
        Denied holder \<Rightarrow> deny_lease ctx holder sv1
      | Granted \<Rightarrow>
          let (res, sv2) = call_store (st_persist_paper ops (cx_page_id ctx) paper) sv1 in
          case res of
            Inl error \<Rightarrow>
              send_page ctx (Msg_Error ''paper_failed'' ''could not persist the page paper''
                  (Some client_mutation_id))
                (record_metric (PageMutation ''set_paper'' ''error'') sv2)
          | Inr persisted \<Rightarrow>
              if \<not> pp_changed persisted
              then send_page ctx (PaperChanged paper (pp_revision persisted))
                (record_metric (PageMutation ''set_paper'' ''noop'') sv2)
              else (True, record_metric (PageMutation ''set_paper'' ''success'')
                     (announce_edit ctx (pp_owner_id persisted) (pp_updated_at persisted)
                       (pp_thumbnail_job_created persisted) (pp_revision persisted)
                       (publish_to_page ctx (PaperChanged paper (pp_revision persisted)) sv2))))"

section \<open>Replay\<close>

record ReplayCost =
  rc_frames :: nat
  rc_bytes :: nat

definition replay_cost_default :: ReplayCost where
  "replay_cost_default = \<lparr>rc_frames = 0, rc_bytes = 0\<rparr>"

definition add_frame :: "nat \<Rightarrow> ReplayCost \<Rightarrow> ReplayCost" where
  "add_frame bytes cost = cost\<lparr>rc_frames := rc_frames cost + 1, rc_bytes := rc_bytes cost + bytes\<rparr>"

definition deleted_ids :: "TombstoneBatch list \<Rightarrow> string list" where
  "deleted_ids tombstones = concat (map tb_stroke_ids tombstones)"

definition retain_undeleted :: "string list \<Rightarrow> StrokeBatch \<Rightarrow> StrokeBatch" where
  "retain_undeleted ids batch =
     batch\<lparr>sb_strokes := filter (\<lambda>stroke. stroke_id stroke \<notin> set ids) (sb_strokes batch)\<rparr>"

definition build_page_replay ::
  "string \<Rightarrow> u64 \<Rightarrow> StrokeBatch list \<Rightarrow> TombstoneBatch list \<Rightarrow> PageReplay" where
  "build_page_replay page_id last_seq batches tombstones =
     \<lparr>pr_page_id = page_id, pr_last_seq = last_seq,
      pr_batches = map (retain_undeleted (deleted_ids tombstones)) batches,
      pr_tombstones = tombstones\<rparr>"

text \<open>A loop of \<open>send_page_frame\<close>, adding each frame's bytes to the cost; \<open>None\<close> when one fails.\<close>

fun send_frames ::
  "'o PageContext \<Rightarrow> PageServerMessage list \<Rightarrow> ReplayCost \<Rightarrow> ('s, 'o) server \<Rightarrow>
   ReplayCost option \<times> ('s, 'o) server" where
  "send_frames ctx [] cost sv = (Some cost, sv)"
| "send_frames ctx (m # ms) cost sv =
     (let (sent, sv1) = send_page_frame ctx m sv in
      case sent of
        None \<Rightarrow> (None, sv1)
      | Some bytes \<Rightarrow> send_frames ctx ms (add_frame bytes cost) sv1)"

definition send_replay_frames ::
  "'o PageContext \<Rightarrow> StrokeBatch list \<Rightarrow> TombstoneBatch list \<Rightarrow> ReplayCost \<Rightarrow> ('s, 'o) server \<Rightarrow>
   ReplayCost option \<times> ('s, 'o) server" where
  "send_replay_frames ctx batches tombstones cost sv =
     (let (sent, sv1) = send_frames ctx
            (map (\<lambda>batch. Msg_StrokeBatch (retain_undeleted (deleted_ids tombstones) batch)) batches) cost sv
      in case sent of
           None \<Rightarrow> (None, sv1)
         | Some cost1 \<Rightarrow> send_frames ctx (map Msg_TombstoneBatch tombstones) cost1 sv1)"

definition replay_page ::
  "'s PageStore \<Rightarrow> 'o PageContext \<Rightarrow> u64 \<Rightarrow> ('s, 'o) server \<Rightarrow> bool \<times> ('s, 'o) server" where
  "replay_page ops ctx from_seq sv =
     (let (res, sv1) = call_store (st_load_page_replay ops (cx_page_id ctx) from_seq) sv in
      case res of
        Inl error \<Rightarrow>
          send_page ctx (Msg_Error ''replay_failed'' ''could not load page ink'' None)
            (record_metric (RealtimeEvent ''page'' ''replay_error'') sv1)
      | Inr (batches, tombstones) \<Rightarrow>
          let (res2, sv2) = call_store (st_max_seq ops (cx_page_id ctx)) sv1;
              last_seq = (case res2 of Inl _ \<Rightarrow> from_seq | Inr n \<Rightarrow> n);
              (sent, sv3) =
                (if cx_coalesce_replay ctx
                 then send_frames ctx [Msg_PageReplay
                        (build_page_replay (cx_page_id ctx) last_seq batches tombstones)]
                        replay_cost_default sv2
                 else let (part, sv') = send_replay_frames ctx batches tombstones replay_cost_default sv2
                      in case part of
                           None \<Rightarrow> (None, sv')
                         | Some cost \<Rightarrow> send_frames ctx [Synced last_seq] cost sv')
          in case sent of
               None \<Rightarrow> (False, sv3)
             | Some cost \<Rightarrow>
                 (True, record_metric (RealtimeReplay (rc_frames cost) (rc_bytes cost) (cx_elapsed ctx)) sv3))"

section \<open>The router\<close>

definition dispatch_page_client_message ::
  "'s PageStore \<Rightarrow> 'o PageContext \<Rightarrow> PageClientMessage \<Rightarrow> ('s, 'o) server \<Rightarrow> bool \<times> ('s, 'o) server" where
  "dispatch_page_client_message ops ctx message sv =
     (case message of
        Subscribe from_seq \<Rightarrow> replay_page ops ctx from_seq sv
      | AcquireLease \<Rightarrow> dispatch_acquire_lease ctx sv
      | RenewLease \<Rightarrow> dispatch_renew_lease ctx sv
      | ReleaseLease \<Rightarrow> (True, dispatch_release_lease ctx sv)
      | CommitBatch client_batch_id strokes \<Rightarrow> commit_batch ops ctx client_batch_id strokes sv
      | CommitTombstones client_mutation_id stroke_ids \<Rightarrow>
          commit_tombstones ops ctx client_mutation_id stroke_ids sv
      | SetPaper client_mutation_id paper \<Rightarrow> set_paper ops ctx client_mutation_id paper sv)"


section \<open>What a handler leaves alone\<close>

lemma send_page_frame_fields [server_simps]:
  "sv_store (snd (send_page_frame ctx m sv)) = sv_store sv"
  "sv_hub (snd (send_page_frame ctx m sv)) = sv_hub sv"
  "sv_jobs (snd (send_page_frame ctx m sv)) = sv_jobs sv"
  by (simp_all add: send_page_frame_def record_metric_def split: option.splits)

lemma send_page_fields [server_simps]:
  "sv_store (snd (send_page ctx m sv)) = sv_store sv"
  "sv_hub (snd (send_page ctx m sv)) = sv_hub sv"
  "sv_jobs (snd (send_page ctx m sv)) = sv_jobs sv"
  by (simp_all add: send_page_def case_prod_beta server_simps)

lemma record_metric_fields [server_simps]:
  "sv_store (record_metric m sv) = sv_store sv"
  "sv_hub (record_metric m sv) = sv_hub sv"
  "sv_jobs (record_metric m sv) = sv_jobs sv"
  "sv_frames (record_metric m sv) = sv_frames sv"
  by (simp_all add: record_metric_def)

lemma publish_fields [server_simps]:
  "sv_store (publish_to_page ctx m sv) = sv_store sv"
  "sv_jobs (publish_to_page ctx m sv) = sv_jobs sv"
  "sv_frames (publish_to_page ctx m sv) = sv_frames sv"
  "sv_hub (publish_to_page ctx m sv) = publish_page (cx_span ctx) (cx_page_id ctx) m (sv_hub sv)"
  "sv_store (publish_to_library ctx u e sv) = sv_store sv"
  "sv_jobs (publish_to_library ctx u e sv) = sv_jobs sv"
  "sv_frames (publish_to_library ctx u e sv) = sv_frames sv"
  "sv_hub (publish_to_library ctx u e sv) = publish_library_event (cx_span ctx) u e (sv_hub sv)"
  by (simp_all add: publish_to_page_def publish_to_library_def)

lemma deny_lease_fields [server_simps]:
  "sv_store (snd (deny_lease ctx h sv)) = sv_store sv"
  "sv_hub (snd (deny_lease ctx h sv)) = sv_hub sv"
  "sv_jobs (snd (deny_lease ctx h sv)) = sv_jobs sv"
  by (simp_all add: deny_lease_def server_simps)

lemma take_lease_fields [server_simps]:
  "sv_store (snd (take_lease ctx sv)) = sv_store sv"
  "sv_jobs (snd (take_lease ctx sv)) = sv_jobs sv"
  "sv_frames (snd (take_lease ctx sv)) = sv_frames sv"
  "sv_hub (snd (take_lease ctx sv)) =
     snd (acquire_lease (cx_now ctx) (cx_page_id ctx) (cx_session_id ctx) (sv_hub sv))"
  by (simp_all add: take_lease_def case_prod_beta)

lemma take_lease_outcome: "fst (take_lease ctx sv) =
    fst (acquire_lease (cx_now ctx) (cx_page_id ctx) (cx_session_id ctx) (sv_hub sv))"
  by (simp add: take_lease_def case_prod_beta)

lemma call_store_fields [server_simps]:
  "sv_store (snd (call_store f sv)) = snd (f (sv_store sv))"
  "fst (call_store f sv) = fst (f (sv_store sv))"
  "sv_hub (snd (call_store f sv)) = sv_hub sv"
  "sv_jobs (snd (call_store f sv)) = sv_jobs sv"
  "sv_frames (snd (call_store f sv)) = sv_frames sv"
  by (simp_all add: call_store_def case_prod_beta)

lemma queue_thumbnail_fields [server_simps]:
  "sv_store (queue_thumbnail ctx u rv sv) = sv_store sv"
  "sv_hub (queue_thumbnail ctx u rv sv) = publish_library_event (cx_span ctx) u
     (PageThumbnailUpdated (cx_page_id ctx) (Thumb_Generating rv)) (sv_hub sv)"
  "sv_jobs (queue_thumbnail ctx u rv sv) = sv_jobs sv @
     [\<lparr>tj_page_id = cx_page_id ctx, tj_owner_id = u, tj_source_seq = rv\<rparr>]"
  by (simp_all add: queue_thumbnail_def enqueue_def server_simps)

lemma announce_edit_fields [server_simps]:
  "sv_store (announce_edit ctx u t j rv sv) = sv_store sv"
  "page_sent (sv_hub (announce_edit ctx u t j rv sv)) p = page_sent (sv_hub sv) p"
  "holder_at now p (sv_hub (announce_edit ctx u t j rv sv)) = holder_at now p (sv_hub sv)"
  "sv_jobs (announce_edit ctx u t j rv sv) = sv_jobs sv @
     (if j then [\<lparr>tj_page_id = cx_page_id ctx, tj_owner_id = u, tj_source_seq = rv\<rparr>] else [])"
  by (auto simp: announce_edit_def publish_page_updated_def server_simps hub_simps Let_def
      split: option.splits)

lemma announce_edit_library [server_simps]:
  "library_sent (sv_hub (announce_edit ctx u t j rv sv)) v = library_sent (sv_hub sv) v @
     (if v = u then (case t of None \<Rightarrow> [] | Some edited_at \<Rightarrow> [PageUpdated (cx_page_id ctx) edited_at]) @
        (if j then [PageThumbnailUpdated (cx_page_id ctx) (Thumb_Generating rv)] else []) else [])"
  by (auto simp: announce_edit_def publish_page_updated_def server_simps hub_simps Let_def
      split: option.splits)

lemma send_frames_fields [server_simps]:
  "sv_store (snd (send_frames ctx ms cost sv)) = sv_store sv"
  "sv_hub (snd (send_frames ctx ms cost sv)) = sv_hub sv"
  "sv_jobs (snd (send_frames ctx ms cost sv)) = sv_jobs sv"
proof (induction ms arbitrary: cost sv)
  case (Cons m ms)
  {
    case 1
    then show ?case using Cons.IH(1) by (simp add: case_prod_beta server_simps split: option.splits)
  next
    case 2
    then show ?case using Cons.IH(2) by (simp add: case_prod_beta server_simps split: option.splits)
  next
    case 3
    then show ?case using Cons.IH(3) by (simp add: case_prod_beta server_simps split: option.splits)
  }
qed auto

lemma send_replay_frames_fields [server_simps]:
  "sv_store (snd (send_replay_frames ctx bs ts cost sv)) = sv_store sv"
  "sv_hub (snd (send_replay_frames ctx bs ts cost sv)) = sv_hub sv"
  "sv_jobs (snd (send_replay_frames ctx bs ts cost sv)) = sv_jobs sv"
  by (simp_all add: send_replay_frames_def case_prod_beta server_simps split: option.splits)

lemma replay_page_fields [server_simps]:
  "sv_hub (snd (replay_page ops ctx from sv)) = sv_hub sv"
  "sv_jobs (snd (replay_page ops ctx from sv)) = sv_jobs sv"
  by (simp_all add: replay_page_def case_prod_beta server_simps Let_def split: sum.splits option.splits)

lemma dispatch_release_lease_fields [server_simps]:
  "sv_store (dispatch_release_lease ctx sv) = sv_store sv"
  "sv_jobs (dispatch_release_lease ctx sv) = sv_jobs sv"
  by (simp_all add: dispatch_release_lease_def case_prod_beta server_simps Let_def)

lemma replay_page_store:
  "sv_store (snd (replay_page ops ctx from sv)) =
     (case st_load_page_replay ops (cx_page_id ctx) from (sv_store sv) of
        (Inl _, s) \<Rightarrow> s | (Inr _, s) \<Rightarrow> snd (st_max_seq ops (cx_page_id ctx) s))"
  by (simp add: replay_page_def case_prod_beta server_simps Let_def split: sum.splits option.splits)


section \<open>Effects of the mutations\<close>

text \<open>Whether the sender's lease lets it write: free, expired or its own.\<close>

definition may_edit :: "'o PageContext \<Rightarrow> ('s, 'o) server \<Rightarrow> bool" where
  "may_edit ctx sv \<longleftrightarrow>
     fst (acquire_lease (cx_now ctx) (cx_page_id ctx) (cx_session_id ctx) (sv_hub sv)) = Granted"

lemma may_edit_holder: "may_edit ctx sv \<longleftrightarrow>
    holder_at (cx_now ctx) (cx_page_id ctx) (sv_hub sv) \<in> {None, Some (cx_session_id ctx)}"
  by (simp add: may_edit_def hub_lease.acquire_granted_iff)

lemma take_lease_granted [server_simps]:
  "may_edit ctx sv \<Longrightarrow> fst (take_lease ctx sv) = Granted"
  by (simp add: may_edit_def take_lease_outcome)

lemma take_lease_denied:
  "\<not> may_edit ctx sv \<Longrightarrow> \<exists>h. fst (take_lease ctx sv) = Denied h \<and>
     holder_at (cx_now ctx) (cx_page_id ctx) (sv_hub sv) = Some h \<and> h \<noteq> cx_session_id ctx"
  by (auto simp: may_edit_holder take_lease_outcome hub_lease.acquire_outcome)

definition batch_call :: "'s PageStore \<Rightarrow> 'o PageContext \<Rightarrow> string \<Rightarrow> Stroke list \<Rightarrow> ('s, 'o) server \<Rightarrow>
    (DbError + PersistedBatch) \<times> 's" where
  "batch_call ops ctx cid strokes sv = st_persist_batch ops (cx_page_id ctx) cid strokes (sv_store sv)"

text \<open>The frame a persisted batch is fanned out as.\<close>

definition batch_fanout :: "string \<Rightarrow> PersistedBatch \<Rightarrow> PageServerMessage list" where
  "batch_fanout cid r = (if pb_visible_strokes r = [] then []
     else [Msg_StrokeBatch \<lparr>sb_seq = pb_seq r, sb_client_batch_id = cid,
       sb_strokes = pb_visible_strokes r\<rparr>])"

lemma commit_batch_effect:
  assumes "may_edit ctx sv" and "\<not> list_ex stroke_rejected strokes"
  shows "sv_store (snd (commit_batch ops ctx cid strokes sv)) = snd (batch_call ops ctx cid strokes sv)"
    and "page_sent (sv_hub (snd (commit_batch ops ctx cid strokes sv))) p = page_sent (sv_hub sv) p @
      (if p = cx_page_id ctx then
         (case fst (batch_call ops ctx cid strokes sv) of Inl _ \<Rightarrow> [] | Inr r \<Rightarrow> batch_fanout cid r)
       else [])"
  using assms
  by (auto simp: commit_batch_def batch_call_def batch_fanout_def case_prod_beta server_simps hub_simps
      Let_def split: sum.splits)

lemma commit_tombstones_effect:
  assumes "may_edit ctx sv"
    and "call = st_persist_tombstones ops (cx_page_id ctx) mid ids (sv_store sv)"
  shows "sv_store (snd (commit_tombstones ops ctx mid ids sv)) = snd call"
    and "page_sent (sv_hub (snd (commit_tombstones ops ctx mid ids sv))) p = page_sent (sv_hub sv) p @
      (if p = cx_page_id ctx then
         (case fst call of Inl _ \<Rightarrow> [] | Inr r \<Rightarrow> [Msg_TombstoneBatch
            \<lparr>tb_revision = pt_revision r, tb_client_mutation_id = mid, tb_stroke_ids = pt_stroke_ids r\<rparr>])
       else [])"
  using assms
  by (auto simp: commit_tombstones_def case_prod_beta server_simps hub_simps
      Let_def split: sum.splits)

lemma set_paper_effect:
  assumes "may_edit ctx sv"
    and "call = st_persist_paper ops (cx_page_id ctx) paper (sv_store sv)"
  shows "sv_store (snd (set_paper ops ctx mid paper sv)) = snd call"
    and "page_sent (sv_hub (snd (set_paper ops ctx mid paper sv))) p = page_sent (sv_hub sv) p @
      (if p = cx_page_id ctx then
         (case fst call of Inl _ \<Rightarrow> [] | Inr r \<Rightarrow>
            if pp_changed r then [PaperChanged paper (pp_revision r)] else [])
       else [])"
  using assms
  by (auto simp: set_paper_def case_prod_beta server_simps hub_simps Let_def split: sum.splits)

text \<open>A refused mutation: the sender is told who holds the page, and nothing else happens.\<close>

fun is_edit :: "PageClientMessage \<Rightarrow> bool" where
  "is_edit (CommitBatch _ _) = True"
| "is_edit (CommitTombstones _ _) = True"
| "is_edit (SetPaper _ _) = True"
| "is_edit _ = False"

lemma dispatch_refused:
  assumes "\<not> may_edit ctx sv" and "is_edit m"
  obtains h where "holder_at (cx_now ctx) (cx_page_id ctx) (sv_hub sv) = Some h"
    "h \<noteq> cx_session_id ctx"
    "dispatch_page_client_message ops ctx m sv = deny_lease ctx h (snd (take_lease ctx sv))"
proof -
  obtain h where h: "fst (take_lease ctx sv) = Denied h"
    "holder_at (cx_now ctx) (cx_page_id ctx) (sv_hub sv) = Some h" "h \<noteq> cx_session_id ctx"
    using take_lease_denied [OF assms(1)] by blast
  have "dispatch_page_client_message ops ctx m sv = deny_lease ctx h (snd (take_lease ctx sv))"
    using assms(2) h(1)
    by (cases m) (simp_all add: dispatch_page_client_message_def commit_batch_def commit_tombstones_def
        set_paper_def case_prod_beta)
  with h that show ?thesis by blast
qed

lemma commit_batch_rejected:
  assumes "may_edit ctx sv" and "list_ex stroke_rejected strokes"
  shows "sv_store (snd (commit_batch ops ctx cid strokes sv)) = sv_store sv"
    and "page_sent (sv_hub (snd (commit_batch ops ctx cid strokes sv))) p = page_sent (sv_hub sv) p"
  using assms by (simp_all add: commit_batch_def case_prod_beta server_simps hub_simps)

section \<open>What every store under the contract guarantees\<close>

context page_store
begin

lemma replay_page_inv: "inv (sv_store sv) \<Longrightarrow> inv (sv_store (snd (replay_page ops ctx sq sv)))"
  using replay_inv [of "sv_store sv" "cx_page_id ctx" sq]
  by (auto simp: replay_page_store case_prod_beta split: sum.splits intro: max_seq_inv)

lemma replay_page_stored: "stored q (sv_store (snd (replay_page ops ctx sq sv))) = stored q (sv_store sv)"
  using replay_stored [of q "cx_page_id ctx" sq "sv_store sv"]
  by (auto simp: replay_page_store case_prod_beta max_seq_stored split: sum.splits)

lemma lease_messages_store:
  "sv_store (snd (dispatch_acquire_lease ctx sv)) = sv_store sv"
  "sv_store (snd (dispatch_renew_lease ctx sv)) = sv_store sv"
  by (simp_all add: dispatch_acquire_lease_def dispatch_renew_lease_def case_prod_beta server_simps
      split: LeaseOutcome.splits)

lemma refused_store:
  assumes "\<not> may_edit ctx sv" "is_edit m"
  shows "sv_store (snd (dispatch_page_client_message ops ctx m sv)) = sv_store sv"
  using assms by (rule dispatch_refused [where ops = ops]) (simp add: server_simps)

lemma dispatch_inv:
  assumes inv: "inv (sv_store sv)"
    and room: "\<And>mid paper. m = SetPaper mid paper \<Longrightarrow> room (cx_page_id ctx) (sv_store sv)"
  shows "inv (sv_store (snd (dispatch_page_client_message ops ctx m sv)))"
proof (cases "is_edit m \<and> \<not> may_edit ctx sv")
  case True
  then show ?thesis using inv by (simp add: refused_store)
next
  case False
  show ?thesis
  proof (cases m)
    case (CommitBatch cid strokes)
    then show ?thesis
      using False inv commit_batch_effect(1) [of ctx sv strokes ops cid] batch_inv
        commit_batch_rejected(1) [of ctx sv strokes ops cid]
      by (cases "list_ex stroke_rejected strokes")
        (auto simp: dispatch_page_client_message_def batch_call_def)
  next
    case (CommitTombstones mid ids)
    then show ?thesis
      using False inv tombstones_inv
      by (simp add: dispatch_page_client_message_def commit_tombstones_effect(1) [OF _ refl])
  next
    case (SetPaper mid paper)
    then show ?thesis
      using False inv paper_inv [OF inv room [OF SetPaper]]
      by (simp add: dispatch_page_client_message_def set_paper_effect(1) [OF _ refl])
  qed (use inv in \<open>simp_all add: dispatch_page_client_message_def replay_page_inv
         lease_messages_store server_simps\<close>)
qed

lemma dispatch_stored:
  "stored q (sv_store (snd (dispatch_page_client_message ops ctx m sv))) \<subseteq>
   stored q (sv_store sv) \<union> {s. \<not> stroke_rejected s}"
proof (cases "is_edit m \<and> \<not> may_edit ctx sv")
  case True
  then show ?thesis by (simp add: refused_store)
next
  case False
  show ?thesis
  proof (cases m)
    case (CommitBatch cid strokes)
    show ?thesis
    proof (cases "list_ex stroke_rejected strokes")
      case True
      then show ?thesis
        using False CommitBatch
        by (simp add: dispatch_page_client_message_def commit_batch_rejected)
    next
      case valid: False
      then have "set strokes \<subseteq> {s. \<not> stroke_rejected s}" by (auto simp: list_ex_iff)
      then show ?thesis
        using False valid CommitBatch batch_stored [of q "cx_page_id ctx" cid strokes "sv_store sv"]
        by (auto simp: dispatch_page_client_message_def commit_batch_effect(1) batch_call_def
            split: if_splits)
    qed
  next
    case (CommitTombstones mid ids)
    then show ?thesis
      using False by (simp add: dispatch_page_client_message_def commit_tombstones_effect(1) [OF _ refl] tombstones_stored)
  next
    case (SetPaper mid paper)
    then show ?thesis
      using False by (simp add: dispatch_page_client_message_def set_paper_effect(1) [OF _ refl] paper_stored)
  qed (simp_all add: dispatch_page_client_message_def replay_page_stored lease_messages_store server_simps)
qed

end


section \<open>Properties\<close>

lemma deny_lease_frames: "sv_frames (snd (deny_lease ctx h sv)) = sv_frames sv \<or>
    (\<exists>payload. cx_to_json ctx (LeaseDenied h) = Some payload \<and>
      sv_frames (snd (deny_lease ctx h sv)) = sv_frames sv @ [payload])"
  by (auto simp: deny_lease_def send_page_def send_page_frame_def record_metric_def split: option.splits)

lemma announce_edit_frames: "sv_frames (announce_edit ctx v t j rv sv) = sv_frames sv"
  by (auto simp: announce_edit_def publish_page_updated_def queue_thumbnail_def enqueue_def
      server_simps Let_def split: option.splits)

text \<open>C2. Only the lease holder edits a page: a batch, deletion or paper change from a session while
  another one holds the page reaches neither the store, nor the page's channel, nor the owner's
  library, starts no thumbnail job and leaves the lease where it is; the sender is sent at most
  the denial naming the holder.\<close>

theorem only_holder_edits:
  assumes holder: "holder_at (cx_now ctx) (cx_page_id ctx) (sv_hub sv) = Some h" "h \<noteq> cx_session_id ctx"
    and edit: "is_edit m"
  shows "let sv' = snd (dispatch_page_client_message ops ctx m sv) in
    sv_store sv' = sv_store sv \<and> page_sent (sv_hub sv') p = page_sent (sv_hub sv) p \<and>
    library_sent (sv_hub sv') u = library_sent (sv_hub sv) u \<and> sv_jobs sv' = sv_jobs sv \<and>
    holder_at (cx_now ctx) (cx_page_id ctx) (sv_hub sv') = Some h \<and>
    (sv_frames sv' = sv_frames sv \<or>
     (\<exists>payload. cx_to_json ctx (LeaseDenied h) = Some payload \<and> sv_frames sv' = sv_frames sv @ [payload]))"
proof -
  have refused: "\<not> may_edit ctx sv" using holder by (simp add: may_edit_holder)
  obtain h' where h': "holder_at (cx_now ctx) (cx_page_id ctx) (sv_hub sv) = Some h'"
    "dispatch_page_client_message ops ctx m sv = deny_lease ctx h' (snd (take_lease ctx sv))"
    using dispatch_refused [OF refused edit, of ops] by metis
  have [simp]: "h' = h" using h'(1) holder(1) by simp
  have denied: "fst (acquire_lease (cx_now ctx) (cx_page_id ctx) (cx_session_id ctx) (sv_hub sv)) = Denied h"
    using holder by (simp add: hub_lease.acquire_denied_iff)
  show ?thesis
    using deny_lease_frames [of ctx h "snd (take_lease ctx sv)"] h'(2) holder hub_lease.acquire_denied [OF denied]
    by (simp add: Let_def server_simps hub_simps)
qed

definition example_server :: "(pg, unit) server" where
  "example_server = \<lparr>sv_hub = hub_default, sv_store = \<lparr>pg_db = example_db, pg_clock = 0\<rparr>,
     sv_frames = [], sv_metrics = [], sv_jobs = []\<rparr>"

definition example_ctx :: "string \<Rightarrow> unit PageContext" where
  "example_ctx sid = \<lparr>cx_page_id = ''p'', cx_session_id = sid, cx_now = 0, cx_span = (),
     cx_to_json = (\<lambda>_. Some ''{}''), cx_sink_ok = (\<lambda>_. True), cx_elapsed = Fin 0,
     cx_coalesce_replay = True\<rparr>"

lemma only_holder_edits_witness:
  "sv_store (snd (dispatch_page_client_message (PgPageStore (\<lambda>_. example_env) alone) (example_ctx ''b'')
      (CommitTombstones ''m'' [''s'']) (snd (take_lease (example_ctx ''a'') example_server)))) =
   sv_store example_server"
  using only_holder_edits [of "example_ctx ''b''" "snd (take_lease (example_ctx ''a'') example_server)" "''a''"
      "CommitTombstones ''m'' [''s'']" "PgPageStore (\<lambda>_. example_env) alone"]
  by (simp add: Let_def server_simps example_ctx_def example_server_def hub_default_def
      hub_lease.acquire_granted hub_lease.acquire_granted_iff holder_at_def acquire_lease_def
      sweep_lease_def seconds_def LEASE_TTL_SECONDS_def)

definition dispatch_run ::
  "'s PageStore \<Rightarrow> ('o PageContext \<times> PageClientMessage) list \<Rightarrow> ('s, 'o) server \<Rightarrow> ('s, 'o) server" where
  "dispatch_run ops ms sv = fold (\<lambda>(ctx, m) sv. snd (dispatch_page_client_message ops ctx m sv)) ms sv"

definition stroke_accepted :: "Stroke \<Rightarrow> bool" where
  "stroke_accepted s \<longleftrightarrow> stroke_id s \<noteq> [] \<and> stroke_validate s = Inr ()"

lemma stroke_accepted_iff: "stroke_accepted s \<longleftrightarrow> \<not> stroke_rejected s"
  by (cases "stroke_validate s") (auto simp: stroke_accepted_def stroke_rejected_def)

text \<open>C17. Nothing invalid is ever stored: starting from a database whose strokes all have an id, an
  accepted style and pressures in range, any sequence of messages from any sessions leaves it so,
  over every page.\<close>

theorem stored_strokes_stay_valid:
  assumes "\<forall>s \<in> stored_strokes p (sv_store sv). stroke_accepted s"
  shows "\<forall>s \<in> stored_strokes p (sv_store (dispatch_run (PgPageStore env alone) ms sv)). stroke_accepted s"
proof -
  have "stored_strokes p (sv_store (dispatch_run (PgPageStore env alone) ms sv)) \<subseteq>
      stored_strokes p (sv_store sv) \<union> {s. \<not> stroke_rejected s}"
  proof (induction ms arbitrary: sv)
    case (Cons cm ms)
    obtain ctx m where cm: "cm = (ctx, m)" by (cases cm)
    show ?case
      using Cons.IH [of "snd (dispatch_page_client_message (PgPageStore env alone) ctx m sv)"]
        pg_store.dispatch_stored [of p env ctx m sv]
      by (auto simp: cm dispatch_run_def)
  qed (auto simp: dispatch_run_def)
  then show ?thesis using assms by (auto simp: stroke_accepted_iff)
qed

lemma stored_strokes_stay_valid_witness:
  "stored_strokes ''p'' (sv_store (dispatch_run (PgPageStore (\<lambda>_. example_env) alone)
     [(example_ctx ''a'', CommitBatch ''b'' [example_stroke ''s'', example_stroke []]),
      (example_ctx ''a'', CommitBatch ''c'' [example_stroke ''s''])] example_server))
   \<subseteq> Collect stroke_accepted"
proof -
  have "\<forall>s \<in> stored_strokes ''p'' (sv_store example_server). stroke_accepted s"
    by (simp add: stored_strokes_def example_server_def example_db_empty)
  from stored_strokes_stay_valid [OF this] show ?thesis by blast
qed

text \<open>C16. A stored batch is announced exactly once and completely: when the holder's valid batch is
  stored, the socket stays open and is sent nothing itself, the page's channel carries one
  stroke-batch with the stored sequence number and precisely the strokes the store reported
  visible (none if there are none), the owner's library learns the new edit time and the new
  thumbnail, and that thumbnail's job starts, each only when the store made one.\<close>

theorem commit_batch_announces:
  assumes "may_edit ctx sv" and "\<forall>s \<in> set strokes. stroke_accepted s"
    and "st_persist_batch ops (cx_page_id ctx) cid strokes (sv_store sv) = (Inr r, s')"
  shows "let (keep, sv') = commit_batch ops ctx cid strokes sv in
    keep \<and> sv_store sv' = s' \<and> sv_frames sv' = sv_frames sv \<and>
    page_sent (sv_hub sv') p = page_sent (sv_hub sv) p @
      (if p = cx_page_id ctx \<and> pb_visible_strokes r \<noteq> [] then [Msg_StrokeBatch
         \<lparr>sb_seq = pb_seq r, sb_client_batch_id = cid, sb_strokes = pb_visible_strokes r\<rparr>] else []) \<and>
    library_sent (sv_hub sv') u = library_sent (sv_hub sv) u @
      (if u = pb_owner_id r then
         (case pb_updated_at r of None \<Rightarrow> [] | Some edited_at \<Rightarrow> [PageUpdated (cx_page_id ctx) edited_at]) @
         (if pb_thumbnail_job_created r
          then [PageThumbnailUpdated (cx_page_id ctx) (Thumb_Generating (pb_revision r))] else [])
       else []) \<and>
    sv_jobs sv' = sv_jobs sv @ (if pb_thumbnail_job_created r then
      [\<lparr>tj_page_id = cx_page_id ctx, tj_owner_id = pb_owner_id r, tj_source_seq = pb_revision r\<rparr>] else [])"
proof -
  have "\<not> list_ex stroke_rejected strokes" using assms(2) by (auto simp: list_ex_iff stroke_accepted_iff)
  then show ?thesis
    using assms(1,3)
    by (simp add: commit_batch_def case_prod_beta server_simps hub_simps Let_def announce_edit_frames)
qed

lemma example_stroke_accepted: "i \<noteq> [] \<Longrightarrow> stroke_accepted (example_stroke i)"
  using default_style_valid by (simp add: stroke_accepted_def example_stroke_def stroke_validate_def)

lemma commit_batch_announces_witness:
  "page_sent (sv_hub (snd (commit_batch (PgPageStore (\<lambda>_. example_env) alone) (example_ctx ''a'') ''b1''
      [example_stroke ''s1''] example_server))) ''p'' =
   [Msg_StrokeBatch \<lparr>sb_seq = 1, sb_client_batch_id = ''b1'', sb_strokes = [example_stroke ''s1'']\<rparr>]"
proof -
  obtain s' where call: "st_persist_batch (PgPageStore (\<lambda>_. example_env) alone) (cx_page_id (example_ctx ''a'')) ''b1''
      [example_stroke ''s1''] (sv_store example_server) =
      (Inr \<lparr>pb_seq = 1, pb_revision = 1, pb_owner_id = ''u'', pb_visible_strokes = [example_stroke ''s1''],
        pb_thumbnail_job_created = True, pb_updated_at = Some ''now''\<rparr>, s')"
    by (simp add: pg_store_calls pg_write_alone example_server_def example_ctx_def persist_batch_def
        begin_tx_def lock_page_def commit_tx_def run_query_def fetch_one_def example_env_def
        example_db_page example_db_empty insert_visible_batch_def insert_stroke_batch_def
        insert_thumbnail_job_def i64_max_def wrap_i64_def example_row_def as_u64_def store_simps Let_def)
  have "may_edit (example_ctx ''a'') example_server"
    by (simp add: may_edit_holder example_server_def hub_default_def holder_at_def)
  from commit_batch_announces [OF this _ call, of "''p''" "''u''"] show ?thesis
    by (simp add: case_prod_beta Let_def example_stroke_accepted example_ctx_def)
      (simp add: example_server_def hub_default_def page_sent_def channel_entry_def)
qed

end
