(* ===== verification/Viewer.thy ===== *)
theory Viewer
  imports Protocol
begin

text \<open>
  The read-only ink viewer of the web client, \<open>frontend/src/viewer.rs\<close>: pan and zoom, and the
  reducer that applies page-channel events to what it shows. A signal of the page feed is a field
  of the feed; a reducer returns the new feed. Not modelled: the canvas and the DOM, the
  animation frames that paint it, and telemetry.
\<close>

section \<open>Pan and zoom\<close>

definition MIN_CANVAS_SCALE :: fp where "MIN_CANVAS_SCALE = fround f64 (8 / 100)"
definition MAX_CANVAS_SCALE :: fp where "MAX_CANVAS_SCALE = Fin 4"
definition WHEEL_ZOOM_STEP :: fp where
  "WHEEL_ZOOM_STEP = fround f64 (10163963568148535 / 10000000000000000)"

record PanZoom =
  pz_offset_x :: fp
  pz_offset_y :: fp
  pz_scale :: fp
  pz_dragging :: "(int \<times> fp \<times> fp) option"

definition pan_zoom_new :: PanZoom where
  "pan_zoom_new = \<lparr>pz_offset_x = Fin 80, pz_offset_y = Fin 80, pz_scale = MIN_CANVAS_SCALE,
     pz_dragging = None\<rparr>"

text \<open>A pointer event: its id and its position, \<open>i32\<close> values.\<close>

record PointerEvent =
  pe_pointer_id :: int
  pe_client_x :: int
  pe_client_y :: int

definition pointer_down :: "PointerEvent \<Rightarrow> PanZoom \<Rightarrow> PanZoom" where
  "pointer_down event pz =
     pz\<lparr>pz_dragging := Some (pe_pointer_id event, Fin (of_int (pe_client_x event)),
       Fin (of_int (pe_client_y event)))\<rparr>"

definition pointer_move :: "PointerEvent \<Rightarrow> PanZoom \<Rightarrow> PanZoom" where
  "pointer_move event pz =
     (case pz_dragging pz of
        None \<Rightarrow> pz
      | Some (pointer_id, last_x, last_y) \<Rightarrow>
          if pointer_id = pe_pointer_id event
          then let x = Fin (of_int (pe_client_x event)); y = Fin (of_int (pe_client_y event))
            in pz\<lparr>pz_offset_x := fp_add f64 (pz_offset_x pz) (fp_sub f64 x last_x),
                  pz_offset_y := fp_add f64 (pz_offset_y pz) (fp_sub f64 y last_y),
                  pz_dragging := Some (pointer_id, x, y)\<rparr>
          else pz)"

definition pointer_up :: "PointerEvent \<Rightarrow> PanZoom \<Rightarrow> PanZoom" where
  "pointer_up event pz =
     (case pz_dragging pz of
        None \<Rightarrow> pz
      | Some (pointer_id, _, _) \<Rightarrow>
          if pointer_id = pe_pointer_id event then pz\<lparr>pz_dragging := None\<rparr> else pz)"

definition cancel_drag :: "PanZoom \<Rightarrow> PanZoom" where
  "cancel_drag pz = pz\<lparr>pz_dragging := None\<rparr>"

definition wheel_scale :: "fp \<Rightarrow> fp \<Rightarrow> fp option" where
  "wheel_scale old_scale delta_y =
     (let factor = (if fp_lt delta_y (Fin 0) then WHEEL_ZOOM_STEP
            else fp_div f64 (Fin 1) WHEEL_ZOOM_STEP);
          new_scale = fp_clamp MIN_CANVAS_SCALE MAX_CANVAS_SCALE (fp_mul f64 old_scale factor)
      in if fp_le F64_EPSILON (fp_abs (fp_sub f64 new_scale old_scale)) then Some new_scale else None)"

definition zoom_offset :: "fp \<Rightarrow> fp \<Rightarrow> fp \<Rightarrow> fp \<Rightarrow> fp" where
  "zoom_offset offset canvas old_scale new_scale =
     (let world = fp_div f64 (fp_sub f64 canvas offset) old_scale
      in fp_sub f64 canvas (fp_mul f64 world new_scale))"

text \<open>A wheel event: its delta, its position, and the bounding rectangle of the canvas it hit.\<close>

record WheelEvent =
  we_delta_y :: fp
  we_client_x :: int
  we_client_y :: int
  we_rect :: "(fp \<times> fp \<times> fp \<times> fp) option"

definition wheel :: "WheelEvent \<Rightarrow> PanZoom \<Rightarrow> PanZoom" where
  "wheel event pz =
     (let old_scale = pz_scale pz in
      case wheel_scale old_scale (we_delta_y event) of
        None \<Rightarrow> pz
      | Some new_scale \<Rightarrow>
          let pz1 = (case we_rect event of
                None \<Rightarrow> pz
              | Some (rect_left, rect_top, width, height) \<Rightarrow>
                  if fp_lt (Fin 0) width \<and> fp_lt (Fin 0) height
                  then let canvas_x = fp_sub f64 (Fin (of_int (we_client_x event))) rect_left;
                           canvas_y = fp_sub f64 (Fin (of_int (we_client_y event))) rect_top
                    in pz\<lparr>pz_offset_x := zoom_offset (pz_offset_x pz) canvas_x old_scale new_scale,
                          pz_offset_y := zoom_offset (pz_offset_y pz) canvas_y old_scale new_scale\<rparr>
                  else pz)
          in pz1\<lparr>pz_scale := new_scale\<rparr>)"

section \<open>Batches in sequence order\<close>

text \<open>The standard library's \<open>binary_search_by_key\<close>: halve the range, keep the last element not
  above the key, and answer where it is or where it would go.\<close>

function bsearch_base :: "('a \<Rightarrow> u64) \<Rightarrow> u64 \<Rightarrow> 'a list \<Rightarrow> nat \<Rightarrow> nat \<Rightarrow> nat" where
  "bsearch_base f k xs base sz =
     (if sz \<le> 1 then base
      else let half = sz div 2; mid = base + half
        in bsearch_base f k xs (if k < f (xs ! mid) then base else mid) (sz - half))"
  by auto
termination by (relation "measure (\<lambda>(f, k, xs, base, sz). sz)") auto

declare bsearch_base.simps [simp del]

definition binary_search_by_key :: "('a \<Rightarrow> u64) \<Rightarrow> u64 \<Rightarrow> 'a list \<Rightarrow> nat + nat" where
  "binary_search_by_key f k xs =
     (if xs = [] then Inl 0
      else let base = bsearch_base f k xs 0 (length xs)
        in if f (xs ! base) = k then Inr base
           else Inl (base + (if f (xs ! base) < k then 1 else 0)))"

definition insert_batch :: "StrokeBatch list \<Rightarrow> StrokeBatch \<Rightarrow> StrokeBatch list" where
  "insert_batch items batch =
     (case binary_search_by_key sb_seq (sb_seq batch) items of
        Inr index \<Rightarrow> items[index := batch]
      | Inl index \<Rightarrow> take index items @ batch # drop index items)"

definition tombstoned_ids :: "TombstoneBatch list \<Rightarrow> string list" where
  "tombstoned_ids tombstones = concat (map tb_stroke_ids tombstones)"

definition retain_batch :: "string list \<Rightarrow> StrokeBatch \<Rightarrow> StrokeBatch" where
  "retain_batch removed batch =
     batch\<lparr>sb_strokes := filter (\<lambda>stroke. stroke_id stroke \<notin> set removed) (sb_strokes batch)\<rparr>"

definition retain_surviving :: "StrokeBatch list \<Rightarrow> string list \<Rightarrow> StrokeBatch list" where
  "retain_surviving items removed = map (retain_batch removed) items"

section \<open>The page feed\<close>

record PageFeed =
  fd_batches :: "StrokeBatch list"
  fd_status :: string
  fd_error :: "string option"
  fd_last_seq :: u64
  fd_paper :: Paper

text \<open>The feed \<open>follow_page_channel\<close> starts from, given the paper of the library's listing.\<close>

definition feed_new :: "Paper \<Rightarrow> PageFeed" where
  "feed_new initial_paper = \<lparr>fd_batches = [], fd_status = ''Connecting'', fd_error = None,
     fd_last_seq = 0, fd_paper = initial_paper\<rparr>"

definition next_viewer_paper :: "Paper \<Rightarrow> PageServerMessage \<Rightarrow> Paper" where
  "next_viewer_paper current event =
     (case event of
        Welcome _ _ _ paper \<Rightarrow> paper
      | PaperChanged paper _ \<Rightarrow> paper
      | _ \<Rightarrow> current)"

definition apply_page_event :: "PageServerMessage \<Rightarrow> PageFeed \<Rightarrow> PageFeed" where
  "apply_page_event event feed0 =
     (let feed = feed0\<lparr>fd_paper := next_viewer_paper (fd_paper feed0) event\<rparr> in
      case event of
        Welcome _ seq _ _ \<Rightarrow>
          feed\<lparr>fd_status := ''Connected'', fd_last_seq := min seq (fd_last_seq feed)\<rparr>
      | Msg_StrokeBatch batch \<Rightarrow>
          feed\<lparr>fd_batches := insert_batch (fd_batches feed) batch,
            fd_last_seq := max (fd_last_seq feed) (sb_seq batch), fd_status := ''Live'',
            fd_error := None\<rparr>
      | Msg_PageReplay replay \<Rightarrow>
          feed\<lparr>fd_batches := retain_surviving (foldl insert_batch (fd_batches feed) (pr_batches replay))
              (tombstoned_ids (pr_tombstones replay)),
            fd_last_seq := max (fd_last_seq feed) (pr_last_seq replay), fd_status := ''Synced'',
            fd_error := None\<rparr>
      | Synced seq \<Rightarrow>
          feed\<lparr>fd_last_seq := max (fd_last_seq feed) seq, fd_status := ''Synced'', fd_error := None\<rparr>
      | Msg_TombstoneBatch tombstones \<Rightarrow>
          feed\<lparr>fd_batches := retain_surviving (fd_batches feed) (tombstoned_ids [tombstones]),
            fd_status := ''Live''\<rparr>
      | Msg_Error _ message _ \<Rightarrow> feed\<lparr>fd_error := Some message\<rparr>
      | PaperChanged _ _ \<Rightarrow> feed
      | LeaseGranted \<Rightarrow> feed
      | LeaseDenied _ \<Rightarrow> feed
      | LeaseChanged _ \<Rightarrow> feed)"

section \<open>Inserting keeps the order\<close>

definition seqs :: "StrokeBatch list \<Rightarrow> u64 list" where
  "seqs items = map sb_seq items"

text \<open>The search keeps the key between its base and the end of the range it has left.\<close>

lemma bsearch_base_spec:
  assumes "sorted_wrt (<) (map f xs)" "0 < sz" "base + sz \<le> length xs"
    and "base = 0 \<or> f (xs ! base) \<le> k"
    and "base + sz < length xs \<Longrightarrow> k < f (xs ! (base + sz))"
  shows "let b = bsearch_base f k xs base sz in
    b < length xs \<and> (b = 0 \<or> f (xs ! b) \<le> k) \<and> (Suc b < length xs \<longrightarrow> k < f (xs ! Suc b))"
  using assms
proof (induction f k xs base sz rule: bsearch_base.induct)
  case (1 f k xs base sz)
  show ?case
  proof (cases "sz \<le> 1")
    case True
    with "1.prems" have [simp]: "sz = Suc 0" by simp
    show ?thesis using "1.prems" by (auto simp: Let_def bsearch_base.simps [of f k xs base "Suc 0"])
  next
    case False
    define half where "half = sz div 2"
    define mid where "mid = base + half"
    have half: "0 < half" "half < sz" "half \<le> sz - half" using False by (auto simp: half_def)
    define base' where "base' = (if k < f (xs ! mid) then base else mid)"
    have step: "bsearch_base f k xs base sz = bsearch_base f k xs base' (sz - half)"
      using False by (simp add: bsearch_base.simps [of f k xs base sz] half_def mid_def base'_def Let_def)
    have above: "k < f (xs ! (base' + (sz - half)))" if "base' + (sz - half) < length xs"
    proof (cases "k < f (xs ! mid)")
      case True
      have "mid = base + (sz - half) \<or> mid < base + (sz - half)"
        using half by (auto simp: mid_def)
      moreover have "mid < length xs" using half "1.prems"(3) by (simp add: mid_def)
      ultimately have "f (xs ! mid) \<le> f (xs ! (base + (sz - half)))"
        using that True sorted_wrt_nth_less [OF "1.prems"(1), of mid "base + (sz - half)"]
        by (auto simp: base'_def)
      then show ?thesis using True by (simp add: base'_def)
    next
      case False
      have "mid + (sz - half) = base + sz" using half by (simp add: mid_def)
      then show ?thesis using that False "1.prems"(5) by (simp add: base'_def)
    qed
    have "base' = 0 \<or> f (xs ! base') \<le> k"
      using "1.prems"(4) by (auto simp: base'_def not_less)
    moreover have "base' + (sz - half) \<le> length xs"
      using half "1.prems"(3) by (auto simp: base'_def mid_def)
    ultimately show ?thesis
      unfolding step
      using "1.IH" [OF False half_def mid_def, folded base'_def] "1.prems"(1) half above by simp
  qed
qed


lemma sorted_nth_le: "sorted_wrt (<) (map f xs) \<Longrightarrow> i \<le> j \<Longrightarrow> j < length xs \<Longrightarrow> (f (xs ! i) :: u64) \<le> f (xs ! j)"
  using sorted_wrt_nth_less [of "(<)" "map f xs" i j] by (cases "i = j") auto

lemma sorted_nth_less: "sorted_wrt (<) (map f xs) \<Longrightarrow> i < j \<Longrightarrow> j < length xs \<Longrightarrow> (f (xs ! i) :: u64) < f (xs ! j)"
  using sorted_wrt_nth_less [of "(<)" "map f xs" i j] by auto

lemma binary_search_spec:
  assumes s: "sorted_wrt (<) (map f xs)"
  shows "case binary_search_by_key f k xs of
      Inr i \<Rightarrow> i < length xs \<and> f (xs ! i) = k
    | Inl i \<Rightarrow> i \<le> length xs \<and> (\<forall>j < i. f (xs ! j) < k) \<and> (\<forall>j. i \<le> j \<and> j < length xs \<longrightarrow> k < f (xs ! j))"
proof (cases "xs = []")
  case True
  then show ?thesis by (simp add: binary_search_by_key_def)
next
  case False
  define b where "b = bsearch_base f k xs 0 (length xs)"
  have b: "b < length xs" "b = 0 \<or> f (xs ! b) \<le> k" "Suc b < length xs \<Longrightarrow> k < f (xs ! Suc b)"
    using bsearch_base_spec [OF s, of "length xs" 0 k] False by (auto simp: b_def Let_def)
  have above: "k < f (xs ! j)" if "b < j" "j < length xs" for j
  proof -
    have "f (xs ! Suc b) \<le> f (xs ! j)" using that by (intro sorted_nth_le [OF s]) auto
    then show ?thesis using b(3) that by auto
  qed
  have below: "f (xs ! j) < k" if "j < b" for j
  proof -
    have "f (xs ! j) < f (xs ! b)" using that b(1) by (intro sorted_nth_less [OF s]) auto
    then show ?thesis using b(2) that by auto
  qed
  show ?thesis
  proof (cases "f (xs ! b)" k rule: linorder_cases)
    case less
    then show ?thesis
      using False b(1) above below by (auto simp: binary_search_by_key_def Let_def b_def [symmetric] less_Suc_eq)
  next
    case equal
    then show ?thesis using False b(1) by (simp add: binary_search_by_key_def Let_def b_def [symmetric])
  next
    case greater
    then have "b = 0" using b(2) by auto
    then have "k < f (xs ! j)" if "j < length xs" for j
      using above [of j] that greater by (cases "j = 0") auto
    with greater show ?thesis
      using False \<open>b = 0\<close> by (auto simp: Suc_le_eq binary_search_by_key_def Let_def b_def [symmetric])
  qed
qed

text \<open>What inserting means: the batches before it, itself, the batches after it.\<close>

definition insert_seq :: "StrokeBatch \<Rightarrow> StrokeBatch list \<Rightarrow> StrokeBatch list" where
  "insert_seq b items = takeWhile (\<lambda>x. sb_seq x < sb_seq b) items @ b #
     dropWhile (\<lambda>x. sb_seq x \<le> sb_seq b) items"

lemma split_at:
  assumes "i \<le> length xs" "\<And>j. j < i \<Longrightarrow> P (xs ! j)" "\<And>j. i \<le> j \<Longrightarrow> j < length xs \<Longrightarrow> \<not> P (xs ! j)"
  shows "takeWhile P xs = take i xs" "dropWhile P xs = drop i xs"
proof -
  show *: "takeWhile P xs = take i xs" by (rule takeWhile_eq_take_P_nth) (use assms in auto)
  show "dropWhile P xs = drop i xs"
    unfolding dropWhile_eq_drop * using assms(1) by (simp add: min_def)
qed

lemma insert_batch_eq:
  assumes "sorted_wrt (<) (seqs items)"
  shows "insert_batch items b = insert_seq b items"
proof -
  have s: "sorted_wrt (<) (map sb_seq items)" using assms by (simp add: seqs_def)
  show ?thesis
  proof (cases "binary_search_by_key sb_seq (sb_seq b) items")
    case (Inl i)
    then have i: "i \<le> length items" "\<And>j. j < i \<Longrightarrow> sb_seq (items ! j) < sb_seq b"
      "\<And>j. i \<le> j \<Longrightarrow> j < length items \<Longrightarrow> sb_seq b < sb_seq (items ! j)"
      using binary_search_spec [OF s, of "sb_seq b"] by auto
    have "takeWhile (\<lambda>x. sb_seq x < sb_seq b) items = take i items"
      by (rule split_at(1)) (use i in \<open>auto simp: not_less less_imp_le\<close>)
    moreover have "dropWhile (\<lambda>x. sb_seq x \<le> sb_seq b) items = drop i items"
      by (rule split_at(2)) (use i in \<open>auto simp: not_le less_imp_le\<close>)
    ultimately show ?thesis using Inl by (simp add: insert_batch_def insert_seq_def)
  next
    case (Inr i)
    then have i: "i < length items" "sb_seq (items ! i) = sb_seq b"
      using binary_search_spec [OF s, of "sb_seq b"] by auto
    have below: "sb_seq (items ! j) < sb_seq b" if "j < i" for j
      using sorted_nth_less [OF s that i(1)] i(2) by simp
    have above: "sb_seq b < sb_seq (items ! j)" if "i < j" "j < length items" for j
      using sorted_nth_less [OF s that] i(2) by simp
    have "takeWhile (\<lambda>x. sb_seq x < sb_seq b) items = take i items"
      by (rule split_at(1)) (use i below above in \<open>auto simp: not_less le_less\<close>)
    moreover have "dropWhile (\<lambda>x. sb_seq x \<le> sb_seq b) items = drop (Suc i) items"
      by (rule split_at(2)) (use i below above in \<open>auto simp: not_le less_Suc_eq Suc_le_eq less_imp_le\<close>)
    ultimately show ?thesis using Inr i(1) by (simp add: insert_batch_def insert_seq_def upd_conv_take_nth_drop)
  qed
qed

text \<open>The strokes shown under a sequence number: a strictly ascending list is this map.\<close>

definition batch_at :: "StrokeBatch list \<Rightarrow> u64 \<Rightarrow> StrokeBatch option" where
  "batch_at items s = List.find (\<lambda>b. sb_seq b = s) items"

lemma insert_seq_sorted:
  assumes "sorted_wrt (<) (seqs items)"
  shows "sorted_wrt (<) (seqs (insert_seq b items))"
  using assms
proof (induction items)
  case (Cons x xs)
  show ?case
  proof (cases "sb_seq x" "sb_seq b" rule: linorder_cases)
    case less
    have "\<And>y. y \<in> set (insert_seq b xs) \<Longrightarrow> sb_seq x < sb_seq y"
      using Cons.prems less by (auto simp: insert_seq_def seqs_def dest: set_takeWhileD set_dropWhileD)
    then show ?thesis using Cons less_imp_le [OF less] less by (auto simp: insert_seq_def seqs_def)
  next
    case equal
    have "dropWhile (\<lambda>y. sb_seq y \<le> sb_seq b) xs = xs"
      using Cons.prems equal by (cases xs) (auto simp: seqs_def)
    then show ?thesis using Cons.prems equal by (simp add: insert_seq_def seqs_def)
  next
    case greater
    have "\<And>y. y \<in> set xs \<Longrightarrow> sb_seq b < sb_seq y"
      using Cons.prems greater by (auto simp: seqs_def intro: order.strict_trans)
    then show ?thesis using Cons.prems greater by (auto simp: insert_seq_def seqs_def)
  qed
qed (simp add: insert_seq_def seqs_def)

lemma batch_at_Cons: "batch_at (x # xs) s = (if sb_seq x = s then Some x else batch_at xs s)"
  by (simp add: batch_at_def)

lemma batch_at_Nil [simp]: "batch_at [] s = None"
  by (simp add: batch_at_def)

lemma batch_at_insert_seq:
  assumes "sorted_wrt (<) (seqs items)"
  shows "batch_at (insert_seq b items) s = (if s = sb_seq b then Some b else batch_at items s)"
  using assms
proof (induction items)
  case (Cons x xs)
  have IH: "batch_at (insert_seq b xs) s = (if s = sb_seq b then Some b else batch_at xs s)"
    using Cons by (simp add: seqs_def)
  show ?case
  proof (cases "sb_seq x" "sb_seq b" rule: linorder_cases)
    case less
    then have "insert_seq b (x # xs) = x # insert_seq b xs" by (simp add: insert_seq_def)
    then show ?thesis using IH less by (auto simp: batch_at_Cons)
  next
    case equal
    have "dropWhile (\<lambda>y. sb_seq y \<le> sb_seq b) xs = xs"
      using Cons.prems equal by (cases xs) (auto simp: seqs_def)
    then show ?thesis using equal by (auto simp: insert_seq_def batch_at_Cons)
  next
    case greater
    then show ?thesis by (auto simp: insert_seq_def batch_at_Cons)
  qed
qed (simp add: insert_seq_def batch_at_Cons)


lemma batch_at_Some_iff:
  "sorted_wrt (<) (seqs items) \<Longrightarrow> batch_at items s = Some b \<longleftrightarrow> b \<in> set items \<and> sb_seq b = s"
  by (induction items) (auto simp: batch_at_Cons seqs_def)

lemma batch_at_None_iff: "batch_at items s = None \<longleftrightarrow> s \<notin> set (seqs items)"
  by (induction items) (auto simp: batch_at_Cons seqs_def)

lemma batch_at_append: "batch_at (xs @ ys) s = (case batch_at xs s of None \<Rightarrow> batch_at ys s | Some b \<Rightarrow> Some b)"
  by (induction xs) (auto simp: batch_at_Cons)

lemma batch_at_SomeD: "batch_at items s = Some b \<Longrightarrow> sb_seq b = s"
  by (auto simp: batch_at_def find_Some_iff)

lemma sorted_batches_eqI:
  assumes "sorted_wrt (<) (seqs xs)" "sorted_wrt (<) (seqs ys)" "\<And>s. batch_at xs s = batch_at ys s"
  shows "xs = ys"
proof -
  have "x \<in> set xs \<longleftrightarrow> x \<in> set ys" for x
    using assms(3) [of "sb_seq x"] batch_at_Some_iff [OF assms(1), of "sb_seq x" x]
      batch_at_Some_iff [OF assms(2), of "sb_seq x" x] by simp
  then have "set xs = set ys" by blast
  moreover from this have "seqs xs = seqs ys"
    using assms(1,2) by (intro strict_sorted_equal) (auto simp: seqs_def)
  moreover have "inj_on sb_seq (set xs)"
    using assms(1) by (simp add: seqs_def strict_sorted_iff distinct_map)
  ultimately show ?thesis
    by (intro map_inj_on [of sb_seq xs ys]) (simp_all add: seqs_def)
qed

lemma seqs_retain [simp]: "seqs (retain_surviving items ids) = seqs items"
  by (simp add: seqs_def retain_surviving_def retain_batch_def)

lemma sb_seq_retain [simp]: "sb_seq (retain_batch ids b) = sb_seq b"
  by (simp add: retain_batch_def)

lemma batch_at_retain [ink_simps]:
  "batch_at (retain_surviving items ids) s = map_option (retain_batch ids) (batch_at items s)"
  by (induction items) (auto simp: retain_surviving_def batch_at_Cons)

lemma retain_retain [ink_simps]:
  "retain_batch xs (retain_batch ys b) = retain_batch (xs @ ys) b"
  "retain_batch [] b = b"
  by (auto simp: retain_batch_def filter_filter conj_ac intro: filter_cong)

lemma retain_batch_cong: "set xs = set ys \<Longrightarrow> retain_batch xs b = retain_batch ys b"
  by (simp add: retain_batch_def)

lemma retain_absorb: "set xs \<subseteq> set ys \<Longrightarrow> retain_batch xs (retain_batch ys b) = retain_batch ys b"
  unfolding retain_retain by (rule retain_batch_cong) auto

lemma retain_absorb2: "set xs \<subseteq> set ys \<Longrightarrow> retain_batch ys (retain_batch xs b) = retain_batch ys b"
  unfolding retain_retain by (rule retain_batch_cong) auto

lemma foldl_insert_sorted:
  "sorted_wrt (<) (seqs items) \<Longrightarrow> sorted_wrt (<) (seqs (foldl insert_batch items bs))"
  by (induction bs arbitrary: items) (simp_all add: insert_batch_eq insert_seq_sorted)

lemma batch_at_foldl_insert:
  assumes "sorted_wrt (<) (seqs items)" "sorted_wrt (<) (seqs bs)"
  shows "batch_at (foldl insert_batch items bs) s =
    (case batch_at bs s of Some b \<Rightarrow> Some b | None \<Rightarrow> batch_at items s)"
  using assms
proof (induction bs arbitrary: items)
  case (Cons b bs)
  have "batch_at bs (sb_seq b) = None"
    using Cons.prems(2) by (auto simp: batch_at_None_iff seqs_def)
  moreover have "sorted_wrt (<) (seqs bs)" using Cons.prems(2) by (simp add: seqs_def)
  ultimately show ?case
    using Cons.IH [of "insert_seq b items"] Cons.prems(1)
    by (auto simp: insert_batch_eq insert_seq_sorted batch_at_insert_seq batch_at_Cons
        split: option.splits)
qed simp

section \<open>An event, one sequence number at a time\<close>

text \<open>What an event does to the batch shown under a sequence number.\<close>

definition event_at :: "PageServerMessage \<Rightarrow> u64 \<Rightarrow> StrokeBatch option \<Rightarrow> StrokeBatch option" where
  "event_at m s x =
     (case m of
        Msg_StrokeBatch b \<Rightarrow> if sb_seq b = s then Some b else x
      | Msg_TombstoneBatch t \<Rightarrow> map_option (retain_batch (tb_stroke_ids t)) x
      | Msg_PageReplay r \<Rightarrow> map_option (retain_batch (tombstoned_ids (pr_tombstones r)))
          (case batch_at (pr_batches r) s of Some b \<Rightarrow> Some b | None \<Rightarrow> x)
      | _ \<Rightarrow> x)"

definition event_sorted :: "PageServerMessage \<Rightarrow> bool" where
  "event_sorted m = (case m of Msg_PageReplay r \<Rightarrow> sorted_wrt (<) (seqs (pr_batches r)) | _ \<Rightarrow> True)"

lemma apply_page_event_sorted:
  "sorted_wrt (<) (seqs (fd_batches fd)) \<Longrightarrow> sorted_wrt (<) (seqs (fd_batches (apply_page_event m fd)))"
  by (cases m) (simp_all add: apply_page_event_def Let_def insert_batch_eq insert_seq_sorted foldl_insert_sorted)

lemma apply_page_event_at:
  assumes "sorted_wrt (<) (seqs (fd_batches fd))" "event_sorted m"
  shows "batch_at (fd_batches (apply_page_event m fd)) s = event_at m s (batch_at (fd_batches fd) s)"
  using assms
  by (cases m) (simp_all add: apply_page_event_def Let_def event_at_def event_sorted_def insert_batch_eq
      batch_at_insert_seq ink_simps batch_at_foldl_insert tombstoned_ids_def)

definition events_at :: "PageServerMessage list \<Rightarrow> u64 \<Rightarrow> StrokeBatch option \<Rightarrow> StrokeBatch option" where
  "events_at ms s x = foldl (\<lambda>y m. event_at m s y) x ms"

lemma events_at_simps [ink_simps]:
  "events_at [] s x = x"
  "events_at (m # ms) s x = events_at ms s (event_at m s x)"
  "events_at (ms @ ms') s x = events_at ms' s (events_at ms s x)"
  by (simp_all add: events_at_def)

text \<open>A live event: what the server fans out to a page, never a replay.\<close>

fun live_event :: "PageServerMessage \<Rightarrow> bool" where
  "live_event (Msg_PageReplay _) = False"
| "live_event (Welcome _ _ _ _) = False"
| "live_event (Synced _) = False"
| "live_event _ = True"

definition touches :: "u64 \<Rightarrow> PageServerMessage \<Rightarrow> bool" where
  "touches s m \<longleftrightarrow> (case m of Msg_StrokeBatch b \<Rightarrow> sb_seq b = s | _ \<Rightarrow> False)"

definition erased_by :: "PageServerMessage \<Rightarrow> string list" where
  "erased_by m = (case m of Msg_TombstoneBatch t \<Rightarrow> tb_stroke_ids t | _ \<Rightarrow> [])"

text \<open>A batch among the events settles what is shown, whatever was shown before; without one, only
  deletions apply.\<close>

lemma event_at_touched: "live_event m \<Longrightarrow> touches s m \<Longrightarrow> event_at m s x = event_at m s y"
  by (auto simp: event_at_def touches_def split: PageServerMessage.splits)

lemma events_at_touched:
  assumes "\<forall>m \<in> set ms. live_event m" "\<exists>m \<in> set ms. touches s m"
  shows "events_at ms s x = events_at ms s y"
  using assms
proof (induction ms arbitrary: x y)
  case (Cons m ms)
  then show ?case
    using event_at_touched [of m s x y] by (cases "touches s m") (auto simp: ink_simps)
qed simp

lemma event_at_untouched:
  "live_event m \<Longrightarrow> \<not> touches s m \<Longrightarrow> event_at m s x = map_option (retain_batch (erased_by m)) x"
  by (cases m; cases x) (auto simp: event_at_def touches_def erased_by_def ink_simps)

lemma events_at_untouched:
  assumes "\<forall>m \<in> set ms. live_event m" "\<not> (\<exists>m \<in> set ms. touches s m)"
    and x: "\<And>b. x = Some b \<Longrightarrow> retain_batch (concat (map erased_by ms)) b = b"
  shows "events_at ms s x = x"
  using assms
proof (induction ms)
  case (Cons m ms)
  have all: "retain_batch (erased_by m @ concat (map erased_by ms)) b = b" if "x = Some b" for b
    using Cons.prems(3) that by simp
  have 1: "retain_batch (erased_by m) b = b" if "x = Some b" for b
    by (subst all [OF that, symmetric], subst retain_absorb) (auto simp: all [OF that])
  have 2: "retain_batch (concat (map erased_by ms)) b = b" if "x = Some b" for b
    by (subst all [OF that, symmetric], subst retain_absorb) (auto simp: all [OF that])
  have "event_at m s x = map_option (retain_batch (erased_by m)) x"
    using Cons.prems(1,2) by (intro event_at_untouched) auto
  also have "\<dots> = x" using 1 by (cases x) auto
  finally have "event_at m s x = x" .
  then show ?case using Cons 2 by (simp add: ink_simps)
qed (simp add: ink_simps)


section \<open>Properties\<close>

text \<open>The viewer's binary-search insertion keeps its batches in strictly ascending sequence order
  and is a finite-map update: the inserted batch is what its sequence number shows afterwards, the
  only batch with that number, and every other number shows what it showed before.\<close>

theorem insert_batch_is_update:
  assumes "sorted_wrt (<) (map sb_seq items)"
  shows "sorted_wrt (<) (map sb_seq (insert_batch items b)) \<and>
    set (insert_batch items b) = {x \<in> set items. sb_seq x \<noteq> sb_seq b} \<union> {b} \<and>
    batch_at (insert_batch items b) s = (if s = sb_seq b then Some b else batch_at items s)"
proof -
  have s: "sorted_wrt (<) (seqs items)" using assms by (simp add: seqs_def)
  have s': "sorted_wrt (<) (seqs (insert_batch items b))"
    using insert_seq_sorted [OF s] by (simp add: insert_batch_eq [OF s])
  have at: "batch_at (insert_batch items b) t = (if t = sb_seq b then Some b else batch_at items t)" for t
    using batch_at_insert_seq [OF s] by (simp add: insert_batch_eq [OF s])
  have "x \<in> set (insert_batch items b) \<longleftrightarrow> x \<in> {x \<in> set items. sb_seq x \<noteq> sb_seq b} \<union> {b}" for x
    using batch_at_Some_iff [OF s', of "sb_seq x" x] batch_at_Some_iff [OF s, of "sb_seq x" x]
    by (auto simp: at split: if_splits)
  then show ?thesis using s' at by (auto simp: seqs_def)
qed

definition example_batch :: "u64 \<Rightarrow> StrokeBatch" where
  "example_batch n = \<lparr>sb_seq = n, sb_client_batch_id = ''b'', sb_strokes = []\<rparr>"

lemma insert_batch_is_update_witness:
  "batch_at (insert_batch [example_batch 1, example_batch 3] (example_batch 2)) 2 = Some (example_batch 2)"
  using insert_batch_is_update [of "[example_batch 1, example_batch 3]" "example_batch 2" 2]
  by (simp add: example_batch_def)

lemma min_scale: "\<exists>x. MIN_CANVAS_SCALE = Fin x \<and> 0 \<le> x \<and> x \<le> 1"
  unfolding MIN_CANVAS_SCALE_def
  by (rule fround_between) (use f64_int [of 0] f64_int [of 1] in simp_all)

definition scale_ok :: "fp \<Rightarrow> bool" where
  "scale_ok s \<longleftrightarrow> fp_le MIN_CANVAS_SCALE s \<and> fp_le s MAX_CANVAS_SCALE"

lemma min_le_max: "fp_le MIN_CANVAS_SCALE MAX_CANVAS_SCALE"
proof -
  obtain x where x: "MIN_CANVAS_SCALE = Fin x" "x \<le> 1" using min_scale by blast
  show ?thesis unfolding x(1) MAX_CANVAS_SCALE_def using x(2) by simp
qed

lemma clamp_scale_ok: "x \<noteq> NaN \<Longrightarrow> scale_ok (fp_clamp MIN_CANVAS_SCALE MAX_CANVAS_SCALE x)"
  unfolding scale_ok_def by (rule fp_clamp_bounds [OF min_le_max])

lemma zoom_step: "\<exists>x. WHEEL_ZOOM_STEP = Fin x \<and> 1 \<le> x \<and> x \<le> 2"
  unfolding WHEEL_ZOOM_STEP_def
  by (rule fround_between) (use f64_int [of 1] f64_int [of 2] in simp_all)

lemma zoom_inverse: "\<exists>x. fp_div f64 (Fin 1) WHEEL_ZOOM_STEP = Fin x"
proof -
  obtain x where x: "WHEEL_ZOOM_STEP = Fin x" "1 \<le> x" using zoom_step by blast
  have "\<exists>y. fround f64 (1 / x) = Fin y \<and> 0 \<le> y \<and> y \<le> 1"
    by (rule fround_between) (use x f64_int [of 0] f64_int [of 1] in simp_all)
  then obtain y where "fround f64 (1 / x) = Fin y" by blast
  moreover have "x \<noteq> 0" using x(2) by auto
  ultimately show ?thesis by (simp add: x(1))
qed

lemma wheel_scale_ok:
  assumes "scale_ok s" "wheel_scale s dy = Some s'"
  shows "scale_ok s' \<and> s' \<noteq> s"
proof -
  obtain m where m: "MIN_CANVAS_SCALE = Fin m" using min_scale by blast
  obtain x where s: "s = Fin x"
    using fp_between [of m s 4] assms(1) by (auto simp: scale_ok_def MAX_CANVAS_SCALE_def m)
  obtain z y where z: "WHEEL_ZOOM_STEP = Fin z" and y: "fp_div f64 (Fin 1) WHEEL_ZOOM_STEP = Fin y"
    using zoom_step zoom_inverse by blast
  have "fp_mul f64 s (if fp_lt dy (Fin 0) then WHEEL_ZOOM_STEP else fp_div f64 (Fin 1) WHEEL_ZOOM_STEP) \<noteq> NaN"
    unfolding y by (simp add: s z)
  then have "scale_ok s'"
    using assms(2) clamp_scale_ok by (auto simp: wheel_scale_def Let_def split: if_splits)
  moreover have "s' \<noteq> s"
    using assms(2) f64_int [of 0]
    by (auto simp: wheel_scale_def Let_def s F64_EPSILON_def split: if_splits)
  ultimately show ?thesis ..
qed

lemma wheel_pz_scale: "pz_scale (wheel ev pz) =
    (case wheel_scale (pz_scale pz) (we_delta_y ev) of None \<Rightarrow> pz_scale pz | Some s \<Rightarrow> s)"
  by (auto simp: wheel_def Let_def split: option.splits)

datatype gesture = G_Down PointerEvent | G_Move PointerEvent | G_Up PointerEvent | G_Cancel | G_Wheel WheelEvent

fun gesture_step :: "gesture \<Rightarrow> PanZoom \<Rightarrow> PanZoom" where
  "gesture_step (G_Down e) pz = pointer_down e pz"
| "gesture_step (G_Move e) pz = pointer_move e pz"
| "gesture_step (G_Up e) pz = pointer_up e pz"
| "gesture_step G_Cancel pz = cancel_drag pz"
| "gesture_step (G_Wheel e) pz = wheel e pz"

lemma drag_scale:
  "pz_scale (pointer_down e pz) = pz_scale pz" "pz_scale (pointer_move e pz) = pz_scale pz"
  "pz_scale (pointer_up e pz) = pz_scale pz" "pz_scale (cancel_drag pz) = pz_scale pz"
  by (simp_all add: pointer_down_def pointer_move_def pointer_up_def cancel_drag_def Let_def
      split: option.splits prod.splits)

lemma gesture_scale_ok: "scale_ok (pz_scale pz) \<Longrightarrow> scale_ok (pz_scale (gesture_step g pz))"
  by (cases g) (auto simp: drag_scale wheel_pz_scale dest: wheel_scale_ok split: option.splits)

text \<open>Zooming stays within the canvas limits: through any sequence of drags and wheel notches from
  the opening view the scale lies between the minimum and the maximum, and a notch that changes
  anything changes the scale.\<close>

theorem canvas_scale_bounded:
  "fp_le MIN_CANVAS_SCALE (pz_scale (fold gesture_step gs pan_zoom_new)) \<and>
   fp_le (pz_scale (fold gesture_step gs pan_zoom_new)) MAX_CANVAS_SCALE \<and>
   (pz_scale (wheel ev (fold gesture_step gs pan_zoom_new)) = pz_scale (fold gesture_step gs pan_zoom_new) \<longleftrightarrow>
    wheel ev (fold gesture_step gs pan_zoom_new) = fold gesture_step gs pan_zoom_new)"
proof -
  have "MIN_CANVAS_SCALE \<noteq> NaN" using min_scale by force
  then have start: "scale_ok (pz_scale pan_zoom_new)"
    using min_le_max fp_le_refl by (simp add: scale_ok_def pan_zoom_new_def)
  have all: "scale_ok (pz_scale (fold gesture_step gs pz))" if "scale_ok (pz_scale pz)" for pz
    using that by (induction gs arbitrary: pz) (simp_all add: gesture_scale_ok)
  define pz where "pz = fold gesture_step gs pan_zoom_new"
  have ok: "scale_ok (pz_scale pz)" using all [OF start] by (simp add: pz_def)
  have "wheel ev pz = pz \<or> pz_scale (wheel ev pz) \<noteq> pz_scale pz"
  proof (cases "wheel_scale (pz_scale pz) (we_delta_y ev)")
    case None
    then show ?thesis by (simp add: wheel_def)
  next
    case (Some s)
    then show ?thesis using wheel_scale_ok [OF ok Some] by (simp add: wheel_pz_scale)
  qed
  then show ?thesis using ok by (auto simp: pz_def scale_ok_def)
qed

end
