(* ===== verification/Convergence.thy ===== *)
theory Convergence
  imports Dispatch Viewer
begin

text \<open>
  The server and a viewer together. \<open>page_ink\<close> is what the tables say a page shows; a viewer that
  asks for a replay and then applies what the hub fans out ends up showing exactly that, through
  any interleaving of edits, deliveries, disconnects and reconnects. The step relation is on one
  page, its database and hub, and one viewer; handlers are atomic steps.
\<close>

section \<open>The ink of a page\<close>

definition page_ink :: "db \<Rightarrow> string \<Rightarrow> StrokeBatch list" where
  "page_ink d p = map (\<lambda>row. retain_batch (tombstoned_ids_of d p) (wire_batch row)) (batches_of d p)"

definition ink_at :: "db \<Rightarrow> string \<Rightarrow> u64 \<Rightarrow> StrokeBatch option" where
  "ink_at d p s = batch_at (page_ink d p) s"

definition head_seq :: "db \<Rightarrow> string \<Rightarrow> nat" where
  "head_seq d p = length (batches_of d p)"

lemma batches_seqs:
  assumes "db_inv d"
  shows "map sbr_seq (batches_of d p) = map (\<lambda>i. int i + 1) [0..<head_seq d p]"
    and "int (head_seq d p) \<le> i64_max"
proof -
  have "map sbr_seq (batches_of d p) = map (\<lambda>i. int i + 1) [0..<head_seq d p] \<and>
      int (head_seq d p) \<le> i64_max"
  proof (cases "page_row d p")
    case None
    then show ?thesis using view_ok_no_row [OF assms] by (simp add: head_seq_def i64_max_def)
  next
    case (Some row)
    note ok = view_okD [OF assms Some]
    show ?thesis using batches_ok_length [OF ok(3,1)] ok(2,3) by (simp add: head_seq_def batches_ok_def)
  qed
  then show "map sbr_seq (batches_of d p) = map (\<lambda>i. int i + 1) [0..<head_seq d p]"
    and "int (head_seq d p) \<le> i64_max" by auto
qed

lemma nth_batch_seq:
  assumes "db_inv d" "i < head_seq d p"
  shows "sbr_seq (batches_of d p ! i) = int i + 1"
proof -
  have "map sbr_seq (batches_of d p) ! i = int i + 1"
    unfolding batches_seqs(1) [OF assms(1)] using assms(2) by simp
  then show ?thesis using assms(2) by (simp add: head_seq_def)
qed

lemma batch_seq_bounds:
  assumes "db_inv d" "b \<in> set (batches_of d p)"
  shows "0 < sbr_seq b" "sbr_seq b \<le> int (head_seq d p)" "sbr_seq b \<le> i64_max"
proof -
  obtain i where "i < head_seq d p" "b = batches_of d p ! i"
    using assms(2) by (auto simp: in_set_conv_nth head_seq_def)
  then show "0 < sbr_seq b" "sbr_seq b \<le> int (head_seq d p)" "sbr_seq b \<le> i64_max"
    using nth_batch_seq [OF assms(1)] batches_seqs(2) [OF assms(1), of p] by auto
qed

lemma wire_batch_simps [simp]:
  "sb_seq (wire_batch row) = as_u64 (sbr_seq row)"
  "sb_client_batch_id (wire_batch row) = sbr_client_batch_id row"
  "sb_strokes (wire_batch row) = sbr_strokes row"
  by (simp_all add: wire_batch_def)

lemma seqs_page_ink: "db_inv d \<Longrightarrow>
    seqs (page_ink d p) = map (\<lambda>i. as_u64 (int i + 1)) [0..<head_seq d p]"
  using arg_cong [OF batches_seqs(1), of d "map as_u64" p]
  by (simp add: page_ink_def seqs_def comp_def)

lemma sorted_u64_range:
  "int n \<le> i64_max \<Longrightarrow> sorted_wrt (<) (map (\<lambda>i. as_u64 (int i + 1)) [0..<n])"
  by (auto simp: sorted_wrt_iff_nth_less as_u64_less_iff)

lemma page_ink_sorted: "db_inv d \<Longrightarrow> sorted_wrt (<) (seqs (page_ink d p))"
  by (simp add: seqs_page_ink sorted_u64_range batches_seqs(2))

lemma ink_at_Some_iff:
  assumes "db_inv d"
  shows "ink_at d p s = Some b \<longleftrightarrow> (\<exists>row \<in> set (batches_of d p).
    s = as_u64 (sbr_seq row) \<and> b = retain_batch (tombstoned_ids_of d p) (wire_batch row))"
  unfolding ink_at_def batch_at_Some_iff [OF page_ink_sorted [OF assms]] by (auto simp: page_ink_def)

lemma ink_at_None_iff:
  assumes "db_inv d"
  shows "ink_at d p s = None \<longleftrightarrow> s = 0 \<or> int (head_seq d p) < uint s"
proof -
  have "s \<in> set (seqs (page_ink d p)) \<longleftrightarrow> s \<noteq> 0 \<and> uint s \<le> int (head_seq d p)"
  proof
    assume "s \<in> set (seqs (page_ink d p))"
    then obtain i where i: "i < head_seq d p" "s = as_u64 (int i + 1)"
      by (auto simp: seqs_page_ink [OF assms])
    then have "uint s = int i + 1" using batches_seqs(2) [OF assms, of p] by (simp add: uint_as_u64)
    then show "s \<noteq> 0 \<and> uint s \<le> int (head_seq d p)" using i by auto
  next
    assume s: "s \<noteq> 0 \<and> uint s \<le> int (head_seq d p)"
    define i where "i = nat (uint s - 1)"
    have "0 < uint s" using s by (simp add: word_neq_0_conv word_less_def)
    then have "int i + 1 = uint s" by (simp add: i_def)
    moreover from this have "i < head_seq d p" using s by linarith
    ultimately have "i < head_seq d p" "s = as_u64 (int i + 1)" by (simp_all add: as_u64_def)
    then show "s \<in> set (seqs (page_ink d p))" by (auto simp: seqs_page_ink [OF assms])
  qed
  then show ?thesis unfolding ink_at_def batch_at_None_iff by (auto simp: not_le)
qed

lemma ink_at_retained:
  "db_inv d \<Longrightarrow> ink_at d p s = Some b \<Longrightarrow> set ids \<subseteq> set (tombstoned_ids_of d p) \<Longrightarrow>
   retain_batch ids b = b"
  by (auto simp: ink_at_Some_iff retain_absorb)


section \<open>A write and its announcement\<close>

text \<open>From \<open>d\<close> to \<open>d'\<close> while \<open>ms\<close> is fanned out: applying \<open>ms\<close> to the ink of \<open>d\<close> gives that of
  \<open>d'\<close>, ink once shown only ever loses strokes, and \<open>ms\<close> announces nothing \<open>d'\<close> does not hold.\<close>

definition tracks :: "db \<Rightarrow> string \<Rightarrow> PageServerMessage list \<Rightarrow> db \<Rightarrow> bool" where
  "tracks d p ms d' \<longleftrightarrow>
     (\<forall>m \<in> set ms. live_event m) \<and>
     (\<forall>s. events_at ms s (ink_at d p s) = ink_at d' p s) \<and>
     set (tombstoned_ids_of d p) \<union> set (concat (map erased_by ms)) \<subseteq> set (tombstoned_ids_of d' p) \<and>
     head_seq d p \<le> head_seq d' p \<and>
     (\<forall>s b. ink_at d p s = Some b \<longrightarrow>
        ink_at d' p s = Some (retain_batch (tombstoned_ids_of d' p) b)) \<and>
     (\<forall>b. Msg_StrokeBatch b \<in> set ms \<longrightarrow>
        ink_at d' p (sb_seq b) = Some (retain_batch (tombstoned_ids_of d' p) b) \<and>
        uint (sb_seq b) \<le> int (head_seq d p) + 1)"

lemma same_ink: "batches_of d' p = batches_of d p \<Longrightarrow> tombstones_of d' p = tombstones_of d p \<Longrightarrow>
    ink_at d' p s = ink_at d p s \<and> tombstoned_ids_of d' p = tombstoned_ids_of d p \<and>
    head_seq d' p = head_seq d p"
  by (simp add: ink_at_def page_ink_def tombstoned_ids_of_def head_seq_def)

lemma tracks_silent:
  assumes "db_inv d" "batches_of d' p = batches_of d p" "tombstones_of d' p = tombstones_of d p"
    and "\<forall>m \<in> set ms. live_event m \<and> \<not> (\<exists>s. touches s m) \<and> set (erased_by m) \<subseteq> set (tombstoned_ids_of d p)"
  shows "tracks d p ms d'"
proof -
  have ids: "set (concat (map erased_by ms)) \<subseteq> set (tombstoned_ids_of d p)" using assms(4) by auto
  have "events_at ms s (ink_at d p s) = ink_at d p s" for s
    by (rule events_at_untouched) (use assms(4) ink_at_retained [OF assms(1) _ ids] in auto)
  moreover have "Msg_StrokeBatch b \<notin> set ms" for b
    using assms(4) by (auto simp: touches_def)
  ultimately show ?thesis
    using assms(4) ids ink_at_retained [OF assms(1) _ subset_refl, of p]
    by (auto simp: tracks_def same_ink [OF assms(2,3)])
qed

lemma tracks_refl: "db_inv d \<Longrightarrow> tracks d p [] d"
  by (rule tracks_silent) auto

text \<open>A retry is honest when it submits again what the batch holds, as far as that is still visible.\<close>

definition honest_batch :: "db \<Rightarrow> string \<Rightarrow> string \<Rightarrow> Stroke list \<Rightarrow> bool" where
  "honest_batch d p cid strokes \<longleftrightarrow>
     (\<forall>b \<in> set (batches_of d p). sbr_client_batch_id b = cid \<longrightarrow>
        filter (stroke_visible d p) (sbr_strokes b) = filter (stroke_visible d p) strokes)"

lemma retain_visible:
  "retain_batch (tombstoned_ids_of d p) b = b\<lparr>sb_strokes := filter (stroke_visible d p) (sb_strokes b)\<rparr>"
  by (simp add: retain_batch_def stroke_visible_def [abs_def])

lemma batch_tracks:
  assumes inv: "db_inv d" and op: "persist_batch env d p cid strokes = Inr (r, d')"
    and honest: "honest_batch d p cid strokes"
  shows "tracks d p (batch_fanout cid r) d'"
  using op
proof (cases rule: persist_batch_cases)
  case (retry row b)
  define vis where "vis = filter (stroke_visible d p) strokes"
  define m where "m = \<lparr>sb_seq = as_u64 (sbr_seq b), sb_client_batch_id = cid, sb_strokes = vis\<rparr>"
  have fan: "batch_fanout cid r = (if vis = [] then [] else [Msg_StrokeBatch m])"
    by (simp add: batch_fanout_def retry m_def vis_def)
  have m: "m = retain_batch (tombstoned_ids_of d p) (wire_batch b)"
    using honest retry(2,3) by (simp add: retain_visible wire_batch_def honest_batch_def m_def vis_def)
  have at: "ink_at d p (sb_seq m) = Some m"
    using retry(2) by (auto simp: ink_at_Some_iff [OF inv] m)
  have mm: "retain_batch (tombstoned_ids_of d p) m = m"
    by (rule ink_at_retained [OF inv at subset_refl])
  have "events_at [Msg_StrokeBatch m] s (ink_at d p s) = ink_at d p s" for s
    using at by (auto simp: ink_simps event_at_def)
  moreover have "uint (sb_seq m) \<le> int (head_seq d p)"
    using ink_at_None_iff [OF inv, of p "sb_seq m"] at by auto
  ultimately show ?thesis
    using tracks_refl [OF inv, of p] at mm
    by (auto simp: fan retry(4) tracks_def erased_by_def)
next
  case (suppressed row)
  then show ?thesis using tracks_refl [OF inv] by (simp add: batch_fanout_def)
next
  case (inserted row job)
  define vis where "vis = filter (stroke_visible d p) strokes"
  define rv where "rv = wrap_i64 (pg_ink_revision row + 1)"
  have inv': "db_inv d'" by (rule persist_batch_inv [OF inv op])
  define n where "n = head_seq d p"
  have seq: "max_or_0 (map sbr_seq (batches_of d p)) = int n"
    using batches_ok_seqs [OF view_okD(3) [OF inv inserted(1)]] by (simp add: n_def head_seq_def)
  define m where "m = \<lparr>sb_seq = as_u64 (int n + 1), sb_client_batch_id = cid, sb_strokes = vis\<rparr>"
  have fan: "batch_fanout cid r = [Msg_StrokeBatch m]"
    using inserted(3) by (simp add: batch_fanout_def inserted(7) m_def vis_def seq)
  have bs: "batches_of d' p = batches_of d p @ [batch_row d p cid vis rv]"
    by (simp add: inserted(6) after_batch_batches vis_def rv_def)
  have ts: "tombstoned_ids_of d' p = tombstoned_ids_of d p"
    by (auto simp: inserted(6) after_batch_def Let_def insert_thumbnail_job_def tombstoned_ids_of_def store_simps)
  have head: "head_seq d' p = Suc n" by (simp add: head_seq_def bs n_def)
  have le: "int n + 1 \<le> i64_max" using batches_seqs(2) [OF inv', of p] head by simp
  have wire: "wire_batch (batch_row d p cid vis rv) = m"
    by (simp add: wire_batch_def m_def seq)
  have mm: "retain_batch (tombstoned_ids_of d p) m = m"
    by (simp add: retain_visible m_def vis_def)
  have ink: "page_ink d' p = page_ink d p @ [m]"
    by (simp add: page_ink_def bs ts wire mm)
  have at: "ink_at d' p s = (if s = sb_seq m then Some m else ink_at d p s)" for s
  proof -
    have "ink_at d p (sb_seq m) = None"
      using le by (simp add: ink_at_None_iff [OF inv] m_def uint_as_u64 n_def)
    then show ?thesis
      by (auto simp: ink_at_def ink batch_at_append batch_at_Cons split: option.splits)
  qed
  have "ink_at d' p s = Some (retain_batch (tombstoned_ids_of d' p) b)" if "ink_at d p s = Some b" for s b
    using that at [of s] ink_at_retained [OF inv that subset_refl] le ink_at_None_iff [OF inv, of p s]
    by (auto simp: ts m_def uint_as_u64 n_def)
  then show ?thesis
    using at mm le by (auto simp: tracks_def fan ink_simps event_at_def erased_by_def ts head n_def m_def uint_as_u64)
qed

lemma ink_after_delete:
  assumes inv: "db_inv d" and inv': "db_inv d'" and bs: "batches_of d' p = batches_of d p"
    and ts: "set (tombstoned_ids_of d' p) = set (tombstoned_ids_of d p) \<union> set ids"
  shows "ink_at d' p s = map_option (retain_batch ids) (ink_at d p s)"
proof -
  have eq: "retain_batch ids (retain_batch (tombstoned_ids_of d p) b) =
      retain_batch (tombstoned_ids_of d' p) b" for b
    unfolding retain_retain by (rule retain_batch_cong) (simp add: ts Un_commute)
  have "page_ink d' p = retain_surviving (page_ink d p) ids"
    by (simp add: page_ink_def retain_surviving_def bs eq)
  then show ?thesis by (simp add: ink_at_def batch_at_retain)
qed

lemma tombstones_track:
  assumes inv: "db_inv d" and op: "persist_tombstones env d p mid req = Inr (r, d')"
  shows "tracks d p [Msg_TombstoneBatch \<lparr>tb_revision = pt_revision r, tb_client_mutation_id = mid,
      tb_stroke_ids = pt_stroke_ids r\<rparr>] d'"
  using op
proof (cases rule: persist_tombstones_cases)
  case (retry row t)
  have "set (tbr_stroke_ids t) \<subseteq> set (tombstoned_ids_of d p)"
    using view_okD(4) [OF inv retry(1)] retry(2)
    by (auto simp: tombstones_ok_def tombstoned_ids_of_def)
  then show ?thesis
    by (intro tracks_silent [OF inv]) (auto simp: retry touches_def erased_by_def)
next
  case (vacuous row)
  then show ?thesis
    by (intro tracks_silent [OF inv]) (auto simp: touches_def erased_by_def store_simps)
next
  case (deleted row job)
  define ids where "ids = fresh_ids d p req"
  have below: "pg_ink_revision row < i64_max"
    using view_okD(2) [OF inv deleted(1)] deleted(4) by simp
  have inv': "db_inv d'" by (rule persist_tombstones_inv [OF inv op])
  note views = after_delete_views(3) [OF inv deleted(1) below, where q = p and ids = ids and env = env and mid = mid]
  have bs: "batches_of d' p = batches_of d p" by (simp add: deleted(5) after_delete_batches)
  have ts: "set (tombstoned_ids_of d' p) = set (tombstoned_ids_of d p) \<union> set ids"
    using views by (simp add: deleted(5) tombstoned_ids_of_def ids_def)
  note ink = ink_after_delete [OF inv inv' bs ts]
  have "retain_batch ids b = retain_batch (tombstoned_ids_of d' p) b" if "ink_at d p s = Some b" for s b
  proof -
    have "retain_batch (tombstoned_ids_of d' p) b =
        retain_batch (ids @ tombstoned_ids_of d p) b"
      by (rule retain_batch_cong) (simp add: ts Un_commute)
    then show ?thesis
      using ink_at_retained [OF inv that subset_refl] by (simp add: retain_retain(1) [symmetric])
  qed
  then show ?thesis
    using ts by (auto simp: tracks_def ink deleted(6) ink_simps event_at_def erased_by_def
        head_seq_def bs ids_def [symmetric])
qed

lemma paper_tracks:
  assumes inv: "db_inv d" and op: "persist_paper env d p paper = Inr (r, d')"
  shows "tracks d p (if pp_changed r then [PaperChanged paper (pp_revision r)] else []) d'"
proof -
  have "batches_of d' p = batches_of d p" "tombstones_of d' p = tombstones_of d p"
    using op by (auto elim!: persist_paper_cases simp: after_paper_def Let_def
        insert_thumbnail_job_def store_simps)
  then show ?thesis
    by (intro tracks_silent [OF inv]) (auto simp: touches_def erased_by_def)
qed


section \<open>A message and its announcement\<close>

lemma persist_batch_other:
  "persist_batch env d q cid strokes = Inr (r, d') \<Longrightarrow> p \<noteq> q \<Longrightarrow>
   batches_of d' p = batches_of d p \<and> tombstones_of d' p = tombstones_of d p"
  by (auto elim!: persist_batch_cases simp: after_batch_def Let_def insert_thumbnail_job_def
      batch_row_def store_simps)

lemma persist_tombstones_other:
  "persist_tombstones env d q mid req = Inr (r, d') \<Longrightarrow> p \<noteq> q \<Longrightarrow>
   batches_of d' p = batches_of d p \<and> tombstones_of d' p = tombstones_of d p"
  by (auto elim!: persist_tombstones_cases simp: after_delete_def Let_def insert_thumbnail_job_def
      store_simps)

lemma persist_paper_same:
  "persist_paper env d q paper = Inr (r, d') \<Longrightarrow>
   batches_of d' p = batches_of d p \<and> tombstones_of d' p = tombstones_of d p"
  by (auto elim!: persist_paper_cases simp: after_paper_def Let_def insert_thumbnail_job_def store_simps)

type_synonym 'o pg_server = "(pg, 'o) server"

abbreviation server_db :: "'o pg_server \<Rightarrow> db" where
  "server_db sv \<equiv> pg_db (sv_store sv)"

abbreviation dispatch_pg ::
  "(nat \<Rightarrow> dbenv) \<Rightarrow> 'o PageContext \<Rightarrow> PageClientMessage \<Rightarrow> 'o pg_server \<Rightarrow> 'o pg_server" where
  "dispatch_pg env ctx m sv \<equiv> snd (dispatch_page_client_message (PgPageStore env alone) ctx m sv)"

definition honest_message :: "'o PageContext \<Rightarrow> PageClientMessage \<Rightarrow> db \<Rightarrow> bool" where
  "honest_message ctx m d \<longleftrightarrow>
     (case m of CommitBatch cid strokes \<Rightarrow> honest_batch d (cx_page_id ctx) cid strokes | _ \<Rightarrow> True)"

definition room_for :: "'o PageContext \<Rightarrow> PageClientMessage \<Rightarrow> pg \<Rightarrow> bool" where
  "room_for ctx m s \<longleftrightarrow> (case m of SetPaper _ _ \<Rightarrow> pg_room (cx_page_id ctx) s | _ \<Rightarrow> True)"

definition announced :: "'o pg_server \<Rightarrow> string \<Rightarrow> 'o pg_server \<Rightarrow> PageServerMessage list \<Rightarrow> bool" where
  "announced sv p sv' ms \<longleftrightarrow>
     page_sent (sv_hub sv') p = page_sent (sv_hub sv) p @ ms \<and> tracks (server_db sv) p ms (server_db sv')"

lemma lease_message_announced:
  assumes inv: "db_inv (server_db sv)" and db: "server_db sv' = server_db sv"
    and sent: "page_sent (sv_hub sv') p = page_sent (sv_hub sv) p @ ms"
    and ms: "\<forall>m \<in> set ms. \<exists>h. m = LeaseChanged h"
  shows "announced sv p sv' ms"
  unfolding announced_def db sent
  by (simp, rule tracks_silent [OF inv]) (use ms in \<open>auto simp: touches_def erased_by_def\<close>)

lemma refused_announced:
  assumes "db_inv (server_db sv)" "\<not> may_edit ctx sv" "is_edit m"
  shows "announced sv p (dispatch_pg env ctx m sv) []"
proof -
  obtain h where h: "dispatch_page_client_message (PgPageStore env alone) ctx m sv =
      deny_lease ctx h (snd (take_lease ctx sv))"
    using dispatch_refused [OF assms(2,3)] by metis
  show ?thesis
    by (rule lease_message_announced [OF assms(1)]) (simp_all add: h server_simps hub_simps)
qed

lemma commit_batch_announced:
  assumes inv: "db_inv (server_db sv)" and edit: "may_edit ctx sv"
    and honest: "honest_batch (server_db sv) (cx_page_id ctx) cid strokes"
  shows "\<exists>ms. announced sv p (snd (commit_batch (PgPageStore env alone) ctx cid strokes sv)) ms"
proof (cases "list_ex stroke_rejected strokes")
  case True
  then show ?thesis
    using tracks_refl [OF inv] commit_batch_rejected [OF edit True]
    by (intro exI [of _ "[]"]) (simp add: announced_def)
next
  case False
  note eff = commit_batch_effect [OF edit False, of "PgPageStore env alone" cid]
  define q where "q = cx_page_id ctx"
  define e where "e = env (pg_clock (sv_store sv))"
  show ?thesis
  proof (cases "persist_batch e (server_db sv) q cid strokes")
    case (Inl err)
    then show ?thesis
      using tracks_refl [OF inv]
      by (intro exI [of _ "[]"])
        (simp add: announced_def eff batch_call_def pg_store_calls pg_write_alone e_def q_def)
  next
    case (Inr res)
    then obtain r d' where op: "persist_batch e (server_db sv) q cid strokes = Inr (r, d')"
      by (cases res) auto
    have call: "batch_call (PgPageStore env alone) ctx cid strokes sv =
        (Inr r, \<lparr>pg_db = d', pg_clock = Suc (pg_clock (sv_store sv))\<rparr>)"
      using op by (simp add: batch_call_def pg_store_calls pg_write_alone e_def q_def)
    show ?thesis
    proof (cases "p = q")
      case True
      then show ?thesis
        using batch_tracks [OF inv op] honest
        by (intro exI [of _ "batch_fanout cid r"]) (simp add: announced_def eff call q_def)
    next
      case False
      then show ?thesis
        using persist_batch_other [OF op False]
        by (intro exI [of _ "[]"]) (simp add: announced_def eff call q_def tracks_silent [OF inv])
    qed
  qed
qed

lemma commit_tombstones_announced:
  assumes inv: "db_inv (server_db sv)" and edit: "may_edit ctx sv"
  shows "\<exists>ms. announced sv p (snd (commit_tombstones (PgPageStore env alone) ctx mid ids sv)) ms"
proof -
  note eff = commit_tombstones_effect [OF edit refl, of "PgPageStore env alone" mid ids]
  define q where "q = cx_page_id ctx"
  define e where "e = env (pg_clock (sv_store sv))"
  show ?thesis
  proof (cases "persist_tombstones e (server_db sv) q mid ids")
    case (Inl err)
    then show ?thesis
      using tracks_refl [OF inv]
      by (intro exI [of _ "[]"]) (simp add: announced_def eff pg_store_calls pg_write_alone e_def q_def)
  next
    case (Inr res)
    then obtain r d' where op: "persist_tombstones e (server_db sv) q mid ids = Inr (r, d')"
      by (cases res) auto
    have call: "st_persist_tombstones (PgPageStore env alone) q mid ids (sv_store sv) =
        (Inr r, \<lparr>pg_db = d', pg_clock = Suc (pg_clock (sv_store sv))\<rparr>)"
      using op by (simp add: pg_store_calls pg_write_alone e_def)
    show ?thesis
    proof (cases "p = q")
      case True
      then show ?thesis
        using tombstones_track [OF inv op] by (auto simp: announced_def eff call [unfolded q_def] q_def)
    next
      case False
      then show ?thesis
        using persist_tombstones_other [OF op False]
        by (intro exI [of _ "[]"]) (simp add: announced_def eff call [unfolded q_def] q_def tracks_silent [OF inv])
    qed
  qed
qed

lemma set_paper_announced:
  assumes inv: "db_inv (server_db sv)" and edit: "may_edit ctx sv"
  shows "\<exists>ms. announced sv p (snd (set_paper (PgPageStore env alone) ctx mid paper sv)) ms"
proof -
  note eff = set_paper_effect [OF edit refl, of "PgPageStore env alone" mid paper]
  define q where "q = cx_page_id ctx"
  define e where "e = env (pg_clock (sv_store sv))"
  show ?thesis
  proof (cases "persist_paper e (server_db sv) q paper")
    case (Inl err)
    then show ?thesis
      using tracks_refl [OF inv]
      by (intro exI [of _ "[]"]) (simp add: announced_def eff pg_store_calls pg_write_alone e_def q_def)
  next
    case (Inr res)
    then obtain r d' where op: "persist_paper e (server_db sv) q paper = Inr (r, d')"
      by (cases res) auto
    have call: "st_persist_paper (PgPageStore env alone) q paper (sv_store sv) =
        (Inr r, \<lparr>pg_db = d', pg_clock = Suc (pg_clock (sv_store sv))\<rparr>)"
      using op by (simp add: pg_store_calls pg_write_alone e_def)
    show ?thesis
    proof (cases "p = q")
      case True
      then show ?thesis
        using paper_tracks [OF inv op] by (auto simp: announced_def eff call [unfolded q_def] q_def)
    next
      case False
      then show ?thesis
        using persist_paper_same [OF op, of p]
        by (intro exI [of _ "[]"]) (simp add: announced_def eff call [unfolded q_def] q_def tracks_silent [OF inv])
    qed
  qed
qed


lemma dispatch_announced:
  assumes inv: "db_inv (server_db sv)" and honest: "honest_message ctx m (server_db sv)"
  shows "\<exists>ms. announced sv p (dispatch_pg env ctx m sv) ms"
proof (cases "is_edit m \<and> \<not> may_edit ctx sv")
  case True
  then show ?thesis using refused_announced [OF inv] by blast
next
  case False
  show ?thesis
  proof (cases m)
    case (Subscribe n)
    have "server_db (dispatch_pg env ctx m sv) = server_db sv"
      by (auto simp: Subscribe dispatch_page_client_message_def replay_page_store PgPageStore_def
          pg_read_def Let_def split: sum.splits)
    then show ?thesis
      by (intro exI [of _ "[]"] lease_message_announced [OF inv])
        (simp_all add: Subscribe dispatch_page_client_message_def server_simps)
  next
    case AcquireLease
    then show ?thesis
      by (intro exI [of _ "if p = cx_page_id ctx \<and> fst (take_lease ctx sv) = Granted
            then [LeaseChanged (Some (cx_session_id ctx))] else []"] lease_message_announced [OF inv])
        (auto simp: dispatch_page_client_message_def dispatch_acquire_lease_def case_prod_beta
          server_simps hub_simps split: LeaseOutcome.splits)
  next
    case RenewLease
    then show ?thesis
      by (intro exI [of _ "[]"] lease_message_announced [OF inv])
        (auto simp: dispatch_page_client_message_def dispatch_renew_lease_def case_prod_beta
          server_simps hub_simps split: LeaseOutcome.splits)
  next
    case ReleaseLease
    then show ?thesis
      by (intro exI [of _ "if p = cx_page_id ctx \<and>
            fst (release_lease (cx_page_id ctx) (cx_session_id ctx) (sv_hub sv))
            then [LeaseChanged None] else []"] lease_message_announced [OF inv])
        (auto simp: dispatch_page_client_message_def dispatch_release_lease_def case_prod_beta
          server_simps hub_simps Let_def)
  next
    case (CommitBatch cid strokes)
    then show ?thesis
      using False commit_batch_announced [OF inv, of ctx cid strokes p env] honest
      by (simp add: dispatch_page_client_message_def honest_message_def)
  next
    case (CommitTombstones mid ids)
    then show ?thesis
      using False commit_tombstones_announced [OF inv, of ctx p env mid ids]
      by (simp add: dispatch_page_client_message_def)
  next
    case (SetPaper mid paper)
    then show ?thesis
      using False set_paper_announced [OF inv, of ctx p env mid paper]
      by (simp add: dispatch_page_client_message_def)
  qed
qed

lemma dispatch_db_inv:
  assumes "db_inv (server_db sv)" "room_for ctx m (sv_store sv)"
  shows "db_inv (server_db (dispatch_pg env ctx m sv))"
proof -
  have "pg_inv (sv_store (dispatch_pg env ctx m sv))"
    by (rule pg_store.dispatch_inv) (use assms in \<open>auto simp: pg_inv_def room_for_def\<close>)
  then show ?thesis by (simp add: pg_inv_def)
qed


section \<open>The replay of a page\<close>

lemma sorted_filter_key: "sorted (map f xs) \<Longrightarrow> sorted (map f (filter P xs))"
  by (induction xs) auto

lemma batches_sorted: "db_inv d \<Longrightarrow> sorted (map sbr_seq (batches_of d p))"
  by (subst batches_seqs(1)) (auto simp: sorted_wrt_iff_nth_less)

text \<open>The batches a replay reads: those after the cursor, in order.\<close>

lemma load_batches_after_Inr:
  assumes "db_inv d" "load_batches_after env d p from_seq = Inr bs"
  shows "bs = map wire_batch (filter (\<lambda>b. as_i64 from_seq < sbr_seq b) (batches_of d p))"
  using assms(2) sort_key_id_if_sorted [OF sorted_filter_key [OF batches_sorted [OF assms(1)]]]
  by (auto simp: load_batches_after_def run_query_def split: if_splits)

lemma load_page_replay_Inr:
  assumes inv: "db_inv d" and load: "load_page_replay env d d p from_seq = Inr (bs, ts)"
  shows "bs = map wire_batch (filter (\<lambda>b. as_i64 from_seq < sbr_seq b) (batches_of d p))"
    and "set (deleted_ids ts) = set (tombstoned_ids_of d p)"
proof -
  have load': "load_batches_after env d p from_seq = Inr bs"
    and ts: "ts = map wire_tombstones (sort_key (\<lambda>t. (tbr_revision t,
        env_collation_key env (tbr_client_mutation_id t))) (tombstone_batches_of d p))"
    using load by (auto simp: load_page_replay_def results_simps)
  from load_batches_after_Inr [OF inv load']
  show "bs = map wire_batch (filter (\<lambda>b. as_i64 from_seq < sbr_seq b) (batches_of d p))" .
  have "set (deleted_ids ts) = (\<Union>t \<in> set (tombstone_batches_of d p). set (tbr_stroke_ids t))"
    by (auto simp: deleted_ids_def ts wire_tombstones_def)
  also have "\<dots> = set (tombstoned_ids_of d p)"
  proof (cases "page_row d p")
    case None
    then show ?thesis using view_ok_no_row [OF inv] by (simp add: tombstoned_ids_of_def)
  next
    case (Some row)
    then show ?thesis using view_okD(4) [OF inv Some] by (simp add: tombstones_ok_def tombstoned_ids_of_def)
  qed
  finally show "set (deleted_ids ts) = set (tombstoned_ids_of d p)" .
qed

lemma retain_undeleted_eq: "retain_undeleted ids = retain_batch ids"
  by (rule ext) (simp add: retain_undeleted_def retain_batch_def)

lemma replay_batch_at:
  assumes inv: "db_inv d" and load: "load_page_replay env d d p from_seq = Inr (bs, ts)"
    and le: "uint from_seq \<le> int (head_seq d p)"
  defines "rbs \<equiv> map (retain_undeleted (deleted_ids ts)) bs"
  shows "sorted_wrt (<) (seqs rbs)"
    and "batch_at rbs s = (if from_seq < s then ink_at d p s else None)"
proof -
  note replay = load_page_replay_Inr [OF inv load]
  have from_i: "as_i64 from_seq = uint from_seq"
    by (rule as_i64_uint) (use le batches_seqs(2) [OF inv, of p] in linarith)
  have ret: "retain_batch (deleted_ids ts) = retain_batch (tombstoned_ids_of d p)"
    using retain_batch_cong [OF replay(2)] by blast
  have rbs: "rbs = filter (\<lambda>b. from_seq < sb_seq b) (page_ink d p)"
  proof -
    have "as_i64 from_seq < sbr_seq row \<longleftrightarrow> from_seq < as_u64 (sbr_seq row)"
      if "row \<in> set (batches_of d p)" for row
      using batch_seq_bounds [OF inv that] by (simp add: from_i word_less_def uint_as_u64)
    then have "filter (\<lambda>b. as_i64 from_seq < sbr_seq b) (batches_of d p) =
        filter (\<lambda>b. from_seq < as_u64 (sbr_seq b)) (batches_of d p)"
      by (intro filter_cong) auto
    then show ?thesis
      by (simp add: rbs_def replay(1) retain_undeleted_eq ret page_ink_def filter_map comp_def)
  qed
  have sub: "sorted_wrt (<) (seqs (filter P xs))" if "sorted_wrt (<) (seqs xs)" for P xs
    using that by (induction xs) (auto simp: seqs_def)
  show sorted: "sorted_wrt (<) (seqs rbs)"
    unfolding rbs by (rule sub [OF page_ink_sorted [OF inv]])
  have iff: "batch_at rbs s = Some b \<longleftrightarrow> from_seq < s \<and> ink_at d p s = Some b" for b
    unfolding batch_at_Some_iff [OF sorted] ink_at_def batch_at_Some_iff [OF page_ink_sorted [OF inv]]
    by (auto simp: rbs)
  show "batch_at rbs s = (if from_seq < s then ink_at d p s else None)"
  proof (cases "from_seq < s \<and> ink_at d p s \<noteq> None")
    case True
    then obtain b where "ink_at d p s = Some b" by auto
    with True show ?thesis using iff [of b] by simp
  next
    case False
    then have "batch_at rbs s \<noteq> Some b" for b using iff [of b] by auto
    then have "batch_at rbs s = None" by (cases "batch_at rbs s") auto
    with False show ?thesis by auto
  qed
qed

lemma max_seq_Inr:
  assumes "db_inv d" "max_seq env d p = Inr n"
  shows "uint n = int (head_seq d p)"
proof -
  have "max_or_0 (map sbr_seq (batches_of d p)) = int (head_seq d p)"
  proof (cases "page_row d p")
    case None
    then show ?thesis using view_ok_no_row [OF assms(1)] by (simp add: head_seq_def)
  next
    case (Some row)
    then show ?thesis using batches_ok_seqs [OF view_okD(3) [OF assms(1) Some]] by (simp add: head_seq_def)
  qed
  then show ?thesis
    using assms(2) batches_seqs(2) [OF assms(1), of p]
    by (auto simp: max_seq_def run_query_def uint_as_u64 split: if_splits)
qed


section \<open>One viewer of one page\<close>

text \<open>The connection of a viewer: the position its receiver reads from, the cursor its subscribe
  asked from, whether the replay has arrived, and whether a live batch arrived before it.\<close>

datatype link =
    Offline
  | Online (link_pos: nat) (link_from: u64) (link_replayed: bool) (link_early: bool)

record 'o session =
  ss_server :: "'o pg_server"
  ss_feed :: PageFeed
  ss_link :: link

definition is_stroke_batch :: "PageServerMessage \<Rightarrow> bool" where
  "is_stroke_batch m = (case m of Msg_StrokeBatch _ \<Rightarrow> True | _ \<Rightarrow> False)"

text \<open>What can happen. \<open>strict\<close> rules out one thing: losing the connection after a live batch was
  delivered and before the replay was.\<close>

inductive session_step :: "bool \<Rightarrow> (nat \<Rightarrow> dbenv) \<Rightarrow> string \<Rightarrow> 'o session \<Rightarrow> 'o session \<Rightarrow> bool"
  for strict env p where
  S_dispatch: "honest_message ctx m (server_db (ss_server ss)) \<Longrightarrow>
     room_for ctx m (sv_store (ss_server ss)) \<Longrightarrow>
     session_step strict env p ss (ss\<lparr>ss_server := dispatch_pg env ctx m (ss_server ss)\<rparr>)"
| S_connect: "ss_link ss = Offline \<Longrightarrow>
     session_step strict env p ss (ss\<lparr>
       ss_feed := apply_page_event (Welcome sid welcome_seq holder paper) (ss_feed ss),
       ss_link := Online (length (page_sent (sv_hub (ss_server ss)) p)) (fd_last_seq (ss_feed ss)) False False\<rparr>)"
| S_replay: "ss_link ss = Online pos from_seq False early \<Longrightarrow>
     load_page_replay e (server_db (ss_server ss)) (server_db (ss_server ss)) p from_seq = Inr (bs, ts) \<Longrightarrow>
     last_seq = (case max_seq e' (server_db (ss_server ss)) p of Inl _ \<Rightarrow> from_seq | Inr n \<Rightarrow> n) \<Longrightarrow>
     session_step strict env p ss (ss\<lparr>
       ss_feed := apply_page_event (Msg_PageReplay (build_page_replay p last_seq bs ts)) (ss_feed ss),
       ss_link := Online pos from_seq True early\<rparr>)"
| S_refused: "ss_link ss = Online pos from_seq replayed early \<Longrightarrow>
     session_step strict env p ss (ss\<lparr>ss_feed := apply_page_event (Msg_Error code message mid) (ss_feed ss)\<rparr>)"
| S_deliver: "ss_link ss = Online pos from_seq replayed early \<Longrightarrow>
     pos < length (page_sent (sv_hub (ss_server ss)) p) \<Longrightarrow>
     m = page_sent (sv_hub (ss_server ss)) p ! pos \<Longrightarrow>
     session_step strict env p ss (ss\<lparr>
       ss_feed := apply_page_event m (ss_feed ss),
       ss_link := Online (Suc pos) from_seq replayed (early \<or> (\<not> replayed \<and> is_stroke_batch m))\<rparr>)"
| S_disconnect: "ss_link ss = Online pos from_seq replayed early \<Longrightarrow>
     strict \<longrightarrow> replayed \<or> \<not> early \<Longrightarrow>
     session_step strict env p ss (ss\<lparr>ss_link := Offline\<rparr>)"

inductive_cases session_stepE: "session_step strict env p ss ss'"

text \<open>A viewer that opens the page on a server that has fanned out nothing to it yet.\<close>

inductive session_reachable :: "bool \<Rightarrow> (nat \<Rightarrow> dbenv) \<Rightarrow> string \<Rightarrow> 'o session \<Rightarrow> bool"
  for strict env p where
  SR_start: "db_inv (server_db sv) \<Longrightarrow> page_sent (sv_hub sv) p = [] \<Longrightarrow>
     session_reachable strict env p \<lparr>ss_server = sv, ss_feed = feed_new paper, ss_link = Offline\<rparr>"
| SR_step: "session_reachable strict env p ss \<Longrightarrow> session_step strict env p ss ss' \<Longrightarrow>
     session_reachable strict env p ss'"

section \<open>The invariant of a viewer\<close>

text \<open>What is shown is right up to deletions; everything up to a sequence number is shown; no
  batch in flight leaves a hole below it.\<close>

definition shown_right :: "db \<Rightarrow> string \<Rightarrow> PageFeed \<Rightarrow> bool" where
  "shown_right d p fd \<longleftrightarrow>
     sorted_wrt (<) (seqs (fd_batches fd)) \<and>
     (\<forall>s b. batch_at (fd_batches fd) s = Some b \<longrightarrow>
        ink_at d p s = Some (retain_batch (tombstoned_ids_of d p) b)) \<and>
     uint (fd_last_seq fd) \<le> int (head_seq d p)"

definition covers :: "u64 \<Rightarrow> PageFeed \<Rightarrow> bool" where
  "covers c fd \<longleftrightarrow> (\<forall>s. s \<noteq> 0 \<and> s \<le> c \<longrightarrow> batch_at (fd_batches fd) s \<noteq> None)"

definition gapless :: "PageFeed \<Rightarrow> PageServerMessage list \<Rightarrow> bool" where
  "gapless fd ms \<longleftrightarrow> (\<forall>xs b ys s. ms = xs @ Msg_StrokeBatch b # ys \<longrightarrow> s \<noteq> 0 \<longrightarrow> s < sb_seq b \<longrightarrow>
     batch_at (fd_batches fd) s \<noteq> None \<or> (\<exists>m \<in> set xs. touches s m))"

definition log_right :: "db \<Rightarrow> string \<Rightarrow> PageServerMessage list \<Rightarrow> bool" where
  "log_right d p ms \<longleftrightarrow>
     (\<forall>m \<in> set ms. live_event m \<and> set (erased_by m) \<subseteq> set (tombstoned_ids_of d p)) \<and>
     (\<forall>b. Msg_StrokeBatch b \<in> set ms \<longrightarrow>
        ink_at d p (sb_seq b) = Some (retain_batch (tombstoned_ids_of d p) b))"

fun link_right :: "db \<Rightarrow> string \<Rightarrow> PageServerMessage list \<Rightarrow> PageFeed \<Rightarrow> link \<Rightarrow> bool" where
  "link_right d p sent fd Offline \<longleftrightarrow> covers (fd_last_seq fd) fd"
| "link_right d p sent fd (Online pos from_seq replayed early) \<longleftrightarrow>
     pos \<le> length sent \<and> uint from_seq \<le> int (head_seq d p) \<and> covers from_seq fd \<and>
     (if replayed
      then (\<forall>s. events_at (drop pos sent) s (batch_at (fd_batches fd) s) = ink_at d p s) \<and>
           covers (fd_last_seq fd) fd \<and> gapless fd (drop pos sent)
      else (\<forall>s. \<exists>x. events_at (drop pos sent) s x = ink_at d p s) \<and>
           (\<not> early \<longrightarrow> covers (fd_last_seq fd) fd))"

definition session_ok :: "string \<Rightarrow> 'o session \<Rightarrow> bool" where
  "session_ok p ss \<longleftrightarrow>
     (let d = server_db (ss_server ss); sent = page_sent (sv_hub (ss_server ss)) p in
      db_inv d \<and> log_right d p sent \<and> shown_right d p (ss_feed ss) \<and>
      link_right d p sent (ss_feed ss) (ss_link ss))"

lemma covers_mono: "covers c fd \<Longrightarrow> c' \<le> c \<Longrightarrow> covers c' fd"
  by (auto simp: covers_def)

lemma covers_max: "covers a fd \<Longrightarrow> covers b fd \<Longrightarrow> covers (max a b) fd"
  by (auto simp: covers_def max_def)


subsection \<open>An edit\<close>

lemma tracksD:
  assumes "tracks d p ms d'"
  shows "\<forall>m \<in> set ms. live_event m" "events_at ms s (ink_at d p s) = ink_at d' p s"
    "set (tombstoned_ids_of d p) \<subseteq> set (tombstoned_ids_of d' p)"
    "m \<in> set ms \<Longrightarrow> set (erased_by m) \<subseteq> set (tombstoned_ids_of d' p)"
    "head_seq d p \<le> head_seq d' p"
    "ink_at d p s = Some b \<Longrightarrow> ink_at d' p s = Some (retain_batch (tombstoned_ids_of d' p) b)"
    "Msg_StrokeBatch b' \<in> set ms \<Longrightarrow>
       ink_at d' p (sb_seq b') = Some (retain_batch (tombstoned_ids_of d' p) b')"
    "Msg_StrokeBatch b' \<in> set ms \<Longrightarrow> uint (sb_seq b') \<le> int (head_seq d p) + 1"
  using assms by (simp_all add: tracks_def UN_subset_iff)

text \<open>What was right up to deletions stays right up to deletions.\<close>

lemma right_after:
  assumes "tracks d p ms d'" "ink_at d p s = Some (retain_batch (tombstoned_ids_of d p) b)"
  shows "ink_at d' p s = Some (retain_batch (tombstoned_ids_of d' p) b)"
  using tracksD(6) [OF assms] tracksD(3) [OF assms(1)] by (simp add: retain_absorb2)

lemma log_right_dispatch:
  assumes t: "tracks d p ms d'" and log: "log_right d p sent"
  shows "log_right d' p (sent @ ms)"
  unfolding log_right_def
proof (intro conjI ballI allI impI)
  fix m assume m: "m \<in> set (sent @ ms)"
  then show "live_event m" using log tracksD(1) [OF t] by (auto simp: log_right_def)
  show "set (erased_by m) \<subseteq> set (tombstoned_ids_of d' p)"
  proof (cases "m \<in> set ms")
    case True
    then show ?thesis by (rule tracksD(4) [OF t])
  next
    case False
    then have "set (erased_by m) \<subseteq> set (tombstoned_ids_of d p)" using m log by (auto simp: log_right_def)
    then show ?thesis using tracksD(3) [OF t] by blast
  qed
next
  fix b assume b: "Msg_StrokeBatch b \<in> set (sent @ ms)"
  show "ink_at d' p (sb_seq b) = Some (retain_batch (tombstoned_ids_of d' p) b)"
  proof (cases "Msg_StrokeBatch b \<in> set ms")
    case True
    then show ?thesis by (rule tracksD(7) [OF t])
  next
    case False
    then have "ink_at d p (sb_seq b) = Some (retain_batch (tombstoned_ids_of d p) b)"
      using b log by (auto simp: log_right_def)
    then show ?thesis by (rule right_after [OF t])
  qed
qed

lemma shown_right_dispatch:
  assumes "tracks d p ms d'" "shown_right d p fd"
  shows "shown_right d' p fd"
  using assms right_after [OF assms(1)] tracksD(5) [OF assms(1)] by (auto simp: shown_right_def)

lemma event_at_None: "live_event m \<Longrightarrow> \<not> touches s m \<Longrightarrow> event_at m s None = None"
  by (simp add: event_at_untouched)

lemma events_at_None: "\<forall>m \<in> set ms. live_event m \<Longrightarrow> \<not> (\<exists>m \<in> set ms. touches s m) \<Longrightarrow>
    events_at ms s None = None"
  by (rule events_at_untouched) auto

lemma gapless_dispatch:
  assumes inv: "db_inv d" and t: "tracks d p ms d'" and g: "gapless fd pend"
    and live: "\<forall>m \<in> set pend. live_event m"
    and pend: "\<And>s. events_at pend s (batch_at (fd_batches fd) s) = ink_at d p s"
  shows "gapless fd (pend @ ms)"
  unfolding gapless_def
proof (intro allI impI)
  fix xs b ys s
  assume split: "pend @ ms = xs @ Msg_StrokeBatch b # ys" and s: "s \<noteq> 0" "s < sb_seq b"
  from split consider
      us where "pend = xs @ us" "us @ ms = Msg_StrokeBatch b # ys" "us \<noteq> []"
    | us where "xs = pend @ us" "ms = us @ Msg_StrokeBatch b # ys"
    by (auto simp: append_eq_append_conv2 append_eq_Cons_conv)
  then show "batch_at (fd_batches fd) s \<noteq> None \<or> (\<exists>m \<in> set xs. touches s m)"
  proof cases
    case (1 us)
    then obtain us' where "us = Msg_StrokeBatch b # us'" by (cases us) auto
    with 1(1) g s show ?thesis by (auto simp: gapless_def)
  next
    case (2 us)
    have "uint (sb_seq b) \<le> int (head_seq d p) + 1" using tracksD(8) [OF t, of b] 2(2) by simp
    then have "ink_at d p s \<noteq> None" using s by (simp add: ink_at_None_iff [OF inv] word_less_def)
    then have "events_at pend s (batch_at (fd_batches fd) s) \<noteq> None" by (simp add: pend)
    then have "batch_at (fd_batches fd) s \<noteq> None \<or> (\<exists>m \<in> set pend. touches s m)"
      using events_at_None [OF live, of s] by metis
    then show ?thesis using 2(1) by auto
  qed
qed

lemma link_right_dispatch:
  assumes inv: "db_inv d" and t: "tracks d p ms d'" and log: "log_right d p sent"
    and link: "link_right d p sent fd l"
  shows "link_right d' p (sent @ ms) fd l"
proof (cases l)
  case Offline
  then show ?thesis using link by simp
next
  case (Online pos from_seq replayed early)
  have live: "\<forall>m \<in> set (drop pos sent). live_event m"
    using log by (auto simp: log_right_def dest: in_set_dropD)
  have pos: "pos \<le> length sent" using link Online by simp
  have after: "events_at (drop pos sent) s x = ink_at d p s \<Longrightarrow>
      events_at (drop pos sent @ ms) s x = ink_at d' p s" for s x
    using tracksD(2) [OF t] by (simp add: ink_simps)
  show ?thesis
  proof (cases replayed)
    case True
    then show ?thesis
      using link Online pos after tracksD(5) [OF t] gapless_dispatch [OF inv t _ live]
      by (auto simp: ink_simps)
  next
    case False
    have "\<exists>x. events_at (drop pos sent @ ms) s x = ink_at d' p s" for s
    proof -
      obtain x where "events_at (drop pos sent) s x = ink_at d p s" using link Online False by auto
      then show ?thesis using after by blast
    qed
    then show ?thesis
      using link Online False pos tracksD(5) [OF t] by auto
  qed
qed

lemma session_ok_dispatch:
  assumes ok: "session_ok p ss" and honest: "honest_message ctx m (server_db (ss_server ss))"
    and room: "room_for ctx m (sv_store (ss_server ss))"
  shows "session_ok p (ss\<lparr>ss_server := dispatch_pg env ctx m (ss_server ss)\<rparr>)"
proof -
  have inv: "db_inv (server_db (ss_server ss))" using ok by (simp add: session_ok_def Let_def)
  obtain ms where ms: "announced (ss_server ss) p (dispatch_pg env ctx m (ss_server ss)) ms"
    using dispatch_announced [OF inv honest] by blast
  then show ?thesis
    using ok dispatch_db_inv [OF inv room] log_right_dispatch shown_right_dispatch
      link_right_dispatch [OF inv]
    by (auto simp: session_ok_def Let_def announced_def)
qed


subsection \<open>A delivery\<close>

lemma fd_last_seq_apply: "live_event m \<Longrightarrow> fd_last_seq (apply_page_event m fd) =
    (case m of Msg_StrokeBatch b \<Rightarrow> max (fd_last_seq fd) (sb_seq b) | _ \<Rightarrow> fd_last_seq fd)"
  by (cases m) (simp_all add: apply_page_event_def Let_def)

lemma event_at_keeps: "live_event m \<Longrightarrow> x \<noteq> None \<Longrightarrow> event_at m s x \<noteq> None"
  by (cases m) (auto simp: event_at_def)

lemma live_event_sorted: "live_event m \<Longrightarrow> event_sorted m"
  by (cases m) (simp_all add: event_sorted_def)

lemma apply_live_at:
  "shown_right d p fd \<Longrightarrow> live_event m \<Longrightarrow>
   batch_at (fd_batches (apply_page_event m fd)) s = event_at m s (batch_at (fd_batches fd) s)"
  by (rule apply_page_event_at) (auto simp: shown_right_def live_event_sorted)

lemma event_right:
  assumes log: "log_right d p sent" "m \<in> set sent"
    and right: "\<And>b. x = Some b \<Longrightarrow> ink_at d p s = Some (retain_batch (tombstoned_ids_of d p) b)"
    and "event_at m s x = Some b"
  shows "ink_at d p s = Some (retain_batch (tombstoned_ids_of d p) b)"
proof (cases "touches s m")
  case True
  then obtain b' where "m = Msg_StrokeBatch b'" "sb_seq b' = s"
    by (auto simp: touches_def split: PageServerMessage.splits)
  then show ?thesis using assms by (auto simp: log_right_def event_at_def)
next
  case False
  then obtain b0 where "x = Some b0" "b = retain_batch (erased_by m) b0"
    using assms(1,2,4) by (auto simp: event_at_untouched log_right_def)
  moreover have "set (erased_by m) \<subseteq> set (tombstoned_ids_of d p)" using log by (auto simp: log_right_def)
  ultimately show ?thesis using right by (simp add: retain_absorb2)
qed

lemma shown_right_deliver:
  assumes inv: "db_inv d" and log: "log_right d p sent" "m \<in> set sent" and right: "shown_right d p fd"
  shows "shown_right d p (apply_page_event m fd)"
proof -
  have live: "live_event m" using log by (auto simp: log_right_def)
  have "uint (fd_last_seq (apply_page_event m fd)) \<le> int (head_seq d p)"
  proof (cases m)
    case (Msg_StrokeBatch b)
    then have "ink_at d p (sb_seq b) \<noteq> None" using log by (auto simp: log_right_def)
    then have "uint (sb_seq b) \<le> int (head_seq d p)" by (simp add: ink_at_None_iff [OF inv])
    then show ?thesis using right Msg_StrokeBatch by (simp add: fd_last_seq_apply shown_right_def max_def)
  qed (use right live in \<open>simp_all add: fd_last_seq_apply shown_right_def\<close>)
  moreover have "ink_at d p s = Some (retain_batch (tombstoned_ids_of d p) b)"
    if "batch_at (fd_batches (apply_page_event m fd)) s = Some b" for s b
    using event_right [OF log, of "batch_at (fd_batches fd) s" s b] that right
    by (auto simp: apply_live_at [OF right live] shown_right_def)
  ultimately show ?thesis
    using right by (simp add: shown_right_def apply_page_event_sorted)
qed

lemma covers_deliver:
  assumes "shown_right d p fd" "live_event m" "covers c fd"
  shows "covers c (apply_page_event m fd)"
  using assms event_at_keeps [OF assms(2)] by (simp add: covers_def apply_live_at [OF assms(1,2)])

lemma gapless_deliver:
  assumes right: "shown_right d p fd" and live: "live_event m" and g: "gapless fd (m # ms)"
  shows "gapless (apply_page_event m fd) ms"
  unfolding gapless_def
proof (intro allI impI)
  fix xs b ys s
  assume "ms = xs @ Msg_StrokeBatch b # ys" and s: "s \<noteq> 0" "s < sb_seq b"
  then have "m # ms = (m # xs) @ Msg_StrokeBatch b # ys" by simp
  then have "batch_at (fd_batches fd) s \<noteq> None \<or> (\<exists>m' \<in> set (m # xs). touches s m')"
    using g s unfolding gapless_def by blast
  moreover have "event_at m s x \<noteq> None" if "touches s m" for x
    using that by (auto simp: touches_def event_at_def split: PageServerMessage.splits)
  ultimately show "batch_at (fd_batches (apply_page_event m fd)) s \<noteq> None \<or> (\<exists>m \<in> set xs. touches s m)"
    using event_at_keeps [OF live] by (auto simp: apply_live_at [OF right live])
qed

lemma covers_cursor_deliver:
  assumes right: "shown_right d p fd" and live: "live_event m" and g: "gapless fd (m # ms)"
    and c: "covers (fd_last_seq fd) fd"
  shows "covers (fd_last_seq (apply_page_event m fd)) (apply_page_event m fd)"
proof (cases m)
  case (Msg_StrokeBatch b)
  have "batch_at (fd_batches (apply_page_event m fd)) s \<noteq> None" if "s \<noteq> 0" "s \<le> sb_seq b" for s
  proof (cases "s = sb_seq b")
    case True
    then show ?thesis by (simp add: apply_live_at [OF right live]) (simp add: event_at_def Msg_StrokeBatch)
  next
    case False
    then have "s < sb_seq b" using that(2) by simp
    moreover have "m # ms = [] @ Msg_StrokeBatch b # ms" by (simp add: Msg_StrokeBatch)
    ultimately have "batch_at (fd_batches fd) s \<noteq> None"
      using g that(1) unfolding gapless_def by (metis empty_iff list.set(1))
    then show ?thesis using event_at_keeps [OF live] by (simp add: apply_live_at [OF right live])
  qed
  then have "covers (sb_seq b) (apply_page_event m fd)" by (simp add: covers_def)
  then show ?thesis
    using covers_max [OF covers_deliver [OF right live c]] live
    by (simp add: fd_last_seq_apply Msg_StrokeBatch)
qed (use covers_deliver [OF right live c] live in \<open>simp_all add: fd_last_seq_apply\<close>)

lemma session_ok_deliver:
  assumes ok: "session_ok p ss" and link: "ss_link ss = Online pos from_seq replayed early"
    and pos: "pos < length (page_sent (sv_hub (ss_server ss)) p)"
    and m: "m = page_sent (sv_hub (ss_server ss)) p ! pos"
  shows "session_ok p (ss\<lparr>ss_feed := apply_page_event m (ss_feed ss),
      ss_link := Online (Suc pos) from_seq replayed (early \<or> (\<not> replayed \<and> is_stroke_batch m))\<rparr>)"
proof -
  define d where "d = server_db (ss_server ss)"
  define sent where "sent = page_sent (sv_hub (ss_server ss)) p"
  define fd where "fd = ss_feed ss"
  have inv: "db_inv d" and log: "log_right d p sent" and right: "shown_right d p fd"
    and lk: "link_right d p sent fd (Online pos from_seq replayed early)"
    using ok link by (simp_all add: session_ok_def Let_def d_def sent_def fd_def)
  have msent: "m \<in> set sent" using pos m by (simp add: sent_def)
  then have live: "live_event m" using log by (auto simp: log_right_def)
  have pend: "drop pos sent = m # drop (Suc pos) sent"
    using pos m by (simp add: sent_def Cons_nth_drop_Suc)
  have keep: "\<not> is_stroke_batch m \<Longrightarrow> fd_last_seq (apply_page_event m fd) = fd_last_seq fd"
    using live by (auto simp: fd_last_seq_apply is_stroke_batch_def split: PageServerMessage.splits)
  have "link_right d p sent (apply_page_event m fd)
      (Online (Suc pos) from_seq replayed (early \<or> (\<not> replayed \<and> is_stroke_batch m)))"
  proof (cases replayed)
    case True
    then show ?thesis
      using lk pos covers_deliver [OF right live] gapless_deliver [OF right live]
        covers_cursor_deliver [OF right live]
      by (auto simp: pend ink_simps apply_live_at [OF right live] sent_def [symmetric])
  next
    case False
    have "\<exists>x. events_at (drop (Suc pos) sent) s x = ink_at d p s" for s
    proof -
      obtain x where "events_at (drop pos sent) s x = ink_at d p s" using lk False by auto
      then show ?thesis by (auto simp: pend ink_simps)
    qed
    then show ?thesis
      using lk False pos covers_deliver [OF right live] keep by (auto simp: sent_def [symmetric])
  qed
  then show ?thesis
    using inv log shown_right_deliver [OF inv log msent right]
    by (simp add: session_ok_def Let_def d_def sent_def fd_def)
qed


subsection \<open>A replay\<close>

lemma replay_shows_ink:
  assumes inv: "db_inv d" and right: "shown_right d p fd"
    and asked: "uint from_seq \<le> int (head_seq d p)" "covers from_seq fd"
    and load: "load_page_replay e d d p from_seq = Inr (bs, ts)"
    and last: "last_seq = (case max_seq e' d p of Inl _ \<Rightarrow> from_seq | Inr n \<Rightarrow> n)"
  defines "fd' \<equiv> apply_page_event (Msg_PageReplay (build_page_replay p last_seq bs ts)) fd"
  shows "fd_batches fd' = page_ink d p" and "uint (fd_last_seq fd') \<le> int (head_seq d p)"
    and "fd_last_seq fd' = max (fd_last_seq fd) last_seq"
proof -
  define rbs where "rbs = map (retain_undeleted (deleted_ids ts)) bs"
  note rb = replay_batch_at [OF inv load asked(1), folded rbs_def]
  have ids: "tombstoned_ids ts = deleted_ids ts" by (simp add: tombstoned_ids_def deleted_ids_def)
  have sorted: "event_sorted (Msg_PageReplay (build_page_replay p last_seq bs ts))"
    using rb(1) by (simp add: event_sorted_def build_page_replay_def rbs_def)
  have sfd: "sorted_wrt (<) (seqs (fd_batches fd))" using right by (simp add: shown_right_def)
  have ret: "map_option (retain_batch (deleted_ids ts)) x = map_option (retain_batch (tombstoned_ids_of d p)) x" for x
    using retain_batch_cong [OF load_page_replay_Inr(2) [OF inv load]] by (cases x) auto
  have "batch_at (fd_batches fd') s = batch_at (page_ink d p) s" for s
  proof -
    have "batch_at (fd_batches fd') s = map_option (retain_batch (tombstoned_ids_of d p))
        (case batch_at rbs s of Some b \<Rightarrow> Some b | None \<Rightarrow> batch_at (fd_batches fd) s)"
      unfolding fd'_def
      by (subst apply_page_event_at [OF sfd sorted])
        (simp add: event_at_def build_page_replay_def rbs_def ids ret)
    also have "\<dots> = ink_at d p s"
    proof (cases "batch_at (fd_batches fd) s")
      case (Some b)
      then have "ink_at d p s = Some (retain_batch (tombstoned_ids_of d p) b)"
        using right by (simp add: shown_right_def)
      then show ?thesis using Some rb(2) [of s] by (simp add: retain_absorb)
    next
      case None
      have "ink_at d p s = None" if "\<not> from_seq < s"
        using that None asked(2) ink_at_None_iff [OF inv, of p s]
        by (auto simp: covers_def not_less)
      then show ?thesis
        using None rb(2) [of s] ink_at_retained [OF inv _ subset_refl, of p s]
        by (cases "ink_at d p s") auto
    qed
    finally show ?thesis by (simp add: ink_at_def)
  qed
  moreover have "sorted_wrt (<) (seqs (fd_batches fd'))"
    unfolding fd'_def by (rule apply_page_event_sorted [OF sfd])
  ultimately show "fd_batches fd' = page_ink d p"
    by (intro sorted_batches_eqI) (simp_all add: page_ink_sorted [OF inv])
  show *: "fd_last_seq fd' = max (fd_last_seq fd) last_seq"
    by (simp add: fd'_def apply_page_event_def Let_def build_page_replay_def)
  have "uint last_seq \<le> int (head_seq d p)"
    using last asked(1) max_seq_Inr [OF inv, of e' p] by (auto split: sum.splits)
  then show "uint (fd_last_seq fd') \<le> int (head_seq d p)"
    using right by (simp add: * shown_right_def max_def)
qed

lemma session_ok_replay:
  assumes ok: "session_ok p ss" and link: "ss_link ss = Online pos from_seq False early"
    and load: "load_page_replay e (server_db (ss_server ss)) (server_db (ss_server ss)) p from_seq = Inr (bs, ts)"
    and last: "last_seq = (case max_seq e' (server_db (ss_server ss)) p of Inl _ \<Rightarrow> from_seq | Inr n \<Rightarrow> n)"
  shows "session_ok p (ss\<lparr>
      ss_feed := apply_page_event (Msg_PageReplay (build_page_replay p last_seq bs ts)) (ss_feed ss),
      ss_link := Online pos from_seq True early\<rparr>)"
proof -
  define d where "d = server_db (ss_server ss)"
  define sent where "sent = page_sent (sv_hub (ss_server ss)) p"
  define fd' where "fd' = apply_page_event (Msg_PageReplay (build_page_replay p last_seq bs ts)) (ss_feed ss)"
  have inv: "db_inv d" and log: "log_right d p sent" and right: "shown_right d p (ss_feed ss)"
    and lk: "link_right d p sent (ss_feed ss) (Online pos from_seq False early)"
    using ok link by (simp_all add: session_ok_def Let_def d_def sent_def)
  have asked: "uint from_seq \<le> int (head_seq d p)" "covers from_seq (ss_feed ss)" using lk by simp_all
  note shows_ink = replay_shows_ink [OF inv right asked load [folded d_def] last [folded d_def], folded fd'_def]
  have at: "batch_at (fd_batches fd') s = ink_at d p s" for s by (simp add: shows_ink(1) ink_at_def)
  have right': "shown_right d p fd'"
    using shows_ink(2) page_ink_sorted [OF inv] ink_at_retained [OF inv _ subset_refl]
    by (auto simp: shown_right_def at shows_ink(1) ink_at_def [symmetric])
  have cover: "covers c fd'" if "uint c \<le> int (head_seq d p)" for c
    using that by (auto simp: covers_def at ink_at_None_iff [OF inv] word_le_def)
  have live: "\<forall>m \<in> set (drop pos sent). live_event m"
    and erased: "set (concat (map erased_by (drop pos sent))) \<subseteq> set (tombstoned_ids_of d p)"
    using log set_drop_subset [of pos sent] by (auto simp: log_right_def)
  have pend: "events_at (drop pos sent) s (ink_at d p s) = ink_at d p s" for s
  proof (cases "\<exists>m \<in> set (drop pos sent). touches s m")
    case True
    obtain x where "events_at (drop pos sent) s x = ink_at d p s" using lk by auto
    then show ?thesis using events_at_touched [OF live True] by metis
  next
    case False
    then show ?thesis
      by (intro events_at_untouched [OF live]) (use ink_at_retained [OF inv _ erased] in auto)
  qed
  have "gapless fd' (drop pos sent)"
    unfolding gapless_def
  proof (intro allI impI disjI1)
    fix xs b ys s
    assume split: "drop pos sent = xs @ Msg_StrokeBatch b # ys" and s: "s \<noteq> 0" "s < sb_seq b"
    have "Msg_StrokeBatch b \<in> set (drop pos sent)" by (simp add: split)
    then have "Msg_StrokeBatch b \<in> set sent" by (rule in_set_dropD)
    then have "ink_at d p (sb_seq b) \<noteq> None" using log by (auto simp: log_right_def)
    then have "uint (sb_seq b) \<le> int (head_seq d p)" by (simp add: ink_at_None_iff [OF inv])
    then show "batch_at (fd_batches fd') s \<noteq> None"
      using s by (simp add: at ink_at_None_iff [OF inv] word_less_def)
  qed
  then have "link_right d p sent fd' (Online pos from_seq True early)"
    using lk asked(1) cover [OF asked(1)] cover [OF shows_ink(2)] by (simp add: at pend)
  then show ?thesis
    using inv log right' by (simp add: session_ok_def Let_def d_def sent_def fd'_def)
qed

subsection \<open>Every reachable session\<close>

lemma session_ok_connect:
  assumes ok: "session_ok p ss" and link: "ss_link ss = Offline"
  shows "session_ok p (ss\<lparr>
      ss_feed := apply_page_event (Welcome sid welcome_seq holder paper) (ss_feed ss),
      ss_link := Online (length (page_sent (sv_hub (ss_server ss)) p)) (fd_last_seq (ss_feed ss)) False False\<rparr>)"
proof -
  define fd' where "fd' = apply_page_event (Welcome sid welcome_seq holder paper) (ss_feed ss)"
  have fd': "fd_batches fd' = fd_batches (ss_feed ss)"
    "fd_last_seq fd' = min welcome_seq (fd_last_seq (ss_feed ss))"
    by (simp_all add: fd'_def apply_page_event_def Let_def)
  have le: "fd_last_seq fd' \<le> fd_last_seq (ss_feed ss)" by (simp add: fd')
  have cov: "covers (fd_last_seq (ss_feed ss)) (ss_feed ss)"
    using ok link by (simp add: session_ok_def Let_def)
  then have "covers (fd_last_seq (ss_feed ss)) fd'" by (simp add: covers_def fd')
  moreover have "shown_right (server_db (ss_server ss)) p fd'"
    using ok le by (auto simp: session_ok_def Let_def shown_right_def fd'(1) word_le_def)
  ultimately show ?thesis
    using ok covers_mono [OF _ le]
    by (auto simp: session_ok_def Let_def fd'_def [symmetric] shown_right_def ink_simps)
qed

lemma same_feed:
  assumes "fd_batches fd' = fd_batches fd" "fd_last_seq fd' = fd_last_seq fd"
  shows "shown_right d p fd' = shown_right d p fd" "link_right d p sent fd' l = link_right d p sent fd l"
  using assms by (simp add: shown_right_def, cases l) (simp_all add: covers_def gapless_def)

lemma session_ok_refused:
  "session_ok p ss \<Longrightarrow>
   session_ok p (ss\<lparr>ss_feed := apply_page_event (Msg_Error code message mid) (ss_feed ss)\<rparr>)"
  using same_feed [of "apply_page_event (Msg_Error code message mid) (ss_feed ss)" "ss_feed ss"]
  by (simp add: session_ok_def Let_def apply_page_event_def)

lemma session_ok_disconnect:
  "session_ok p ss \<Longrightarrow> ss_link ss = Online pos from_seq replayed early \<Longrightarrow> replayed \<or> \<not> early \<Longrightarrow>
   session_ok p (ss\<lparr>ss_link := Offline\<rparr>)"
  by (auto simp: session_ok_def Let_def split: if_splits)

lemma session_ok_step:
  assumes "session_step True env p ss ss'" "session_ok p ss"
  shows "session_ok p ss'"
  using assms
proof (cases rule: session_step.cases)
  case (S_dispatch ctx m)
  then show ?thesis using session_ok_dispatch [OF assms(2)] by simp
next
  case (S_connect sid welcome_seq holder paper)
  then show ?thesis using session_ok_connect [OF assms(2)] by simp
next
  case (S_replay pos from_seq early e bs ts last_seq e')
  show ?thesis unfolding S_replay(1) by (rule session_ok_replay [OF assms(2) S_replay(2,3,4)])
next
  case (S_refused pos from_seq replayed early code message mid)
  then show ?thesis using session_ok_refused [OF assms(2)] by simp
next
  case (S_deliver pos from_seq replayed early m)
  show ?thesis unfolding S_deliver(1) by (rule session_ok_deliver [OF assms(2) S_deliver(2,3,4)])
next
  case (S_disconnect pos from_seq replayed early)
  then show ?thesis using session_ok_disconnect [OF assms(2) S_disconnect(2)] by simp
qed

lemma session_ok_start:
  assumes "db_inv (server_db sv)" "page_sent (sv_hub sv) p = []"
  shows "session_ok p \<lparr>ss_server = sv, ss_feed = feed_new paper, ss_link = Offline\<rparr>"
  using assms
  by (simp add: session_ok_def log_right_def shown_right_def feed_new_def covers_def seqs_def)

lemma session_reachable_ok: "session_reachable True env p ss \<Longrightarrow> session_ok p ss"
  by (induction rule: session_reachable.induct) (auto intro: session_ok_start session_ok_step)


section \<open>Properties\<close>

lemma page_ink_strokes: "concat (map sb_strokes (page_ink d p)) = survivors d p"
  by (simp add: page_ink_def survivors_def retain_batch_def stroke_visible_def [abs_def] comp_def filter_concat)



subsection \<open>Example sessions\<close>

abbreviation example_envs :: "nat \<Rightarrow> dbenv" where "example_envs \<equiv> \<lambda>_. example_env"

lemma insert_example:
  assumes inv: "db_inv d" and row: "page_row d ''p'' = Some row" "pg_ink_revision row < i64_max"
    and ts: "tombstoned_ids_of d ''p'' = []"
    and new: "cid \<notin> set (map sbr_client_batch_id (batches_of d ''p''))"
  obtains r d' where "persist_batch example_env d ''p'' cid [example_stroke i] = Inr (r, d')"
    "uint (pb_seq r) = int (head_seq d ''p'') + 1" "pb_visible_strokes r = [example_stroke i]"
    "survivors d' ''p'' = survivors d ''p'' @ [example_stroke i]"
    "head_seq d' ''p'' = Suc (head_seq d ''p'')"
    "tombstone_batches_of d' ''p'' = tombstone_batches_of d ''p''"
proof -
  have vis: "filter (stroke_visible d ''p'') [example_stroke i] = [example_stroke i]"
    by (simp add: stroke_visible_def ts)
  obtain r d' where op: "persist_batch example_env d ''p'' cid [example_stroke i] = Inr (r, d')"
    and r: "uint (pb_seq r) = int (head_seq d ''p'') + 1" "pb_visible_strokes r = [example_stroke i]"
      "survivors d' ''p'' = survivors d ''p'' @ [example_stroke i]"
    using insert_new_batch [OF inv row(1,2) _ new, of example_env "[example_stroke i]"] vis
    by (auto simp: example_env_def head_seq_def)
  from op have "head_seq d' ''p'' = Suc (head_seq d ''p'') \<and>
      tombstone_batches_of d' ''p'' = tombstone_batches_of d ''p''"
  proof (cases rule: persist_batch_cases)
    case (inserted row job)
    then show ?thesis
      by (auto simp: head_seq_def after_batch_batches)
        (auto simp: after_batch_def Let_def insert_thumbnail_job_def store_simps)
  qed (use new vis in auto)
  with op r that show thesis by blast
qed

lemma example_commit:
  assumes inv: "db_inv d" and row: "page_row d ''p'' = Some row" "pg_ink_revision row < i64_max"
    and ts: "tombstoned_ids_of d ''p'' = []" and i: "i \<noteq> []"
    and new: "cid \<notin> set (map sbr_client_batch_id (batches_of d ''p''))"
    and hub: "sv_hub sv = hub_default" "server_db sv = d"
  obtains sv' where "dispatch_pg example_envs (example_ctx ''a'') (CommitBatch cid [example_stroke i]) sv = sv'"
    "page_sent (sv_hub sv') ''p'' = [Msg_StrokeBatch \<lparr>sb_seq = word_of_int (int (head_seq d ''p'') + 1),
       sb_client_batch_id = cid, sb_strokes = [example_stroke i]\<rparr>]"
    "survivors (server_db sv') ''p'' = survivors d ''p'' @ [example_stroke i]"
    "head_seq (server_db sv') ''p'' = Suc (head_seq d ''p'')"
    "tombstone_batches_of (server_db sv') ''p'' = tombstone_batches_of d ''p''"
    "db_inv (server_db sv')"
proof -
  obtain r d' where op: "persist_batch example_env d ''p'' cid [example_stroke i] = Inr (r, d')"
    and r: "uint (pb_seq r) = int (head_seq d ''p'') + 1" "pb_visible_strokes r = [example_stroke i]"
    and d': "survivors d' ''p'' = survivors d ''p'' @ [example_stroke i]"
      "head_seq d' ''p'' = Suc (head_seq d ''p'')"
      "tombstone_batches_of d' ''p'' = tombstone_batches_of d ''p''"
    using insert_example [OF inv row ts new, of i] by blast
  have edit: "may_edit (example_ctx ''a'') sv"
    by (simp add: may_edit_holder hub hub_default_def holder_at_def)
  have ok: "\<not> list_ex stroke_rejected [example_stroke i]"
    using example_stroke_accepted [OF i] by (simp add: stroke_accepted_iff)
  have call: "batch_call (PgPageStore example_envs alone) (example_ctx ''a'') cid [example_stroke i] sv =
      (Inr r, \<lparr>pg_db = d', pg_clock = Suc (pg_clock (sv_store sv))\<rparr>)"
    using op by (simp add: batch_call_def pg_store_calls pg_write_alone example_ctx_def hub)
  note eff = commit_batch_effect [OF edit ok, of "PgPageStore example_envs alone" cid]
  have seq: "pb_seq r = word_of_int (int (head_seq d ''p'') + 1)"
    using r(1) by (metis word_of_int_uint)
  show thesis
  proof (rule that [OF refl])
    show "page_sent (sv_hub (dispatch_pg example_envs (example_ctx ''a'') (CommitBatch cid [example_stroke i]) sv)) ''p'' =
        [Msg_StrokeBatch \<lparr>sb_seq = word_of_int (int (head_seq d ''p'') + 1),
          sb_client_batch_id = cid, sb_strokes = [example_stroke i]\<rparr>]"
      using eff(2) [of "''p''"] call r(2)
      by (simp add: dispatch_page_client_message_def batch_fanout_def seq example_ctx_def hub)
  qed (use eff(1) call d' persist_batch_inv [OF inv op] in \<open>simp_all add: dispatch_page_client_message_def\<close>)
qed


lemma empty_replay:
  assumes "head_seq d p \<le> nat (as_i64 n)" "db_inv d" "tombstone_batches_of d p = []"
  shows "load_page_replay example_env d d p n = Inr ([], [])"
proof -
  have "filter (\<lambda>b. as_i64 n < sbr_seq b) (batches_of d p) = []"
    using batch_seq_bounds [OF assms(2), of _ p] assms(1) by (fastforce simp: filter_empty_conv)
  then show ?thesis
    by (simp add: load_page_replay_def load_batches_after_def run_query_def example_env_def assms(3))
qed

lemma example_max_seq: "db_inv d \<Longrightarrow> max_seq example_env d p = Inr (word_of_int (int (head_seq d p)))"
proof -
  assume inv: "db_inv d"
  obtain n where "max_seq example_env d p = Inr n"
    by (simp add: max_seq_def run_query_def example_env_def)
  with max_seq_Inr [OF inv this] show ?thesis by (metis word_of_int_uint)
qed

lemma survivors_example_db: "survivors example_db p = []"
  by (simp add: survivors_def example_db_empty)



subsection \<open>Where the cursor is not sound\<close>


lemma example_inked_head:
  "head_seq example_inked ''p'' = 1" "survivors example_inked ''p'' = [example_stroke ''s1'']"
  using example_inked_children(1)
  by (auto simp: head_seq_def survivors_def stroke_visible_def example_inked_children(2))

text \<open>A live batch delivered before the replay costs the viewer its cursor: the page has one
  stroke, a viewer opens it, another session's batch reaches the viewer before the replay does, and
  the connection is lost. The viewer reconnects from that batch's number, is synced, and shows the
  second stroke alone: the first is never fetched.\<close>

theorem early_drop_loses_ink:
  "\<exists>ss :: unit session. session_reachable False example_envs ''p'' ss \<and>
     ss_link ss = Online (length (page_sent (sv_hub (ss_server ss)) ''p'')) 2 True False \<and>
     fd_status (ss_feed ss) = ''Synced'' \<and>
     concat (map sb_strokes (fd_batches (ss_feed ss))) = [example_stroke ''s2''] \<and>
     survivors (server_db (ss_server ss)) ''p'' = [example_stroke ''s1'', example_stroke ''s2'']"
proof -
  define sv0 where "sv0 = example_server\<lparr>sv_store := \<lparr>pg_db = example_inked, pg_clock = 0\<rparr>\<rparr>"
  have hub0: "sv_hub sv0 = hub_default" "server_db sv0 = example_inked"
    by (simp_all add: sv0_def example_server_def)
  have sent0: "page_sent (sv_hub sv0) ''p'' = []"
    by (simp add: hub0 hub_default_def page_sent_def channel_entry_def)
  obtain sv' where sv': "dispatch_pg example_envs (example_ctx ''a'') (CommitBatch ''b2'' [example_stroke ''s2'']) sv0 = sv'"
    "page_sent (sv_hub sv') ''p'' = [Msg_StrokeBatch \<lparr>sb_seq = word_of_int (int (head_seq example_inked ''p'') + 1),
       sb_client_batch_id = ''b2'', sb_strokes = [example_stroke ''s2'']\<rparr>]"
    "survivors (server_db sv') ''p'' = survivors example_inked ''p'' @ [example_stroke ''s2'']"
    "head_seq (server_db sv') ''p'' = Suc (head_seq example_inked ''p'')"
    "tombstone_batches_of (server_db sv') ''p'' = tombstone_batches_of example_inked ''p''"
    "db_inv (server_db sv')"
    by (rule example_commit [OF example_inked_inv example_inked_row _ example_inked_children(2), of "''s2''" "''b2''" sv0])
      (use example_inked_children(1) in \<open>auto simp: hub0 i64_max_def\<close>)
  define m where "m = Msg_StrokeBatch \<lparr>sb_seq = 2, sb_client_batch_id = ''b2'', sb_strokes = [example_stroke ''s2'']\<rparr>"
  have sent: "page_sent (sv_hub sv') ''p'' = [m]" using sv'(2) by (simp add: m_def example_inked_head)
  define f0 where "f0 = feed_new Paper_None"
  define f1 where "f1 = apply_page_event (Welcome ''x'' 1 None Paper_None) f0"
  define f2 where "f2 = apply_page_event m f1"
  define f3 where "f3 = apply_page_event (Welcome ''x'' 2 None Paper_None) f2"
  define f4 where "f4 = apply_page_event (Msg_PageReplay (build_page_replay ''p'' 2 [] [])) f3"
  note steps = f1_def f0_def f2_def f3_def f4_def m_def feed_new_def apply_page_event_def Let_def
    next_viewer_paper_def build_page_replay_def retain_surviving_def tombstoned_ids_def
  have last: "fd_last_seq f0 = 0" "fd_last_seq f3 = 2" by (simp_all add: steps)
  have r0: "session_reachable False example_envs ''p'' \<lparr>ss_server = sv0, ss_feed = f0, ss_link = Offline\<rparr>"
    unfolding f0_def by (rule SR_start) (simp_all add: hub0(2) sent0 example_inked_inv)
  have r1: "session_reachable False example_envs ''p'' \<lparr>ss_server = sv0, ss_feed = f1, ss_link = Online 0 0 False False\<rparr>"
    using SR_step [OF r0 S_connect [of "\<lparr>ss_server = sv0, ss_feed = f0, ss_link = Offline\<rparr>" False example_envs "''p''" "''x''" 1 None Paper_None]]
    by (simp add: sent0 f1_def last)
  have honest: "honest_message (example_ctx ''a'') (CommitBatch ''b2'' [example_stroke ''s2'']) (server_db sv0)"
    using example_inked_children(1) by (auto simp: hub0 honest_message_def honest_batch_def example_ctx_def)
  have room: "room_for (example_ctx ''a'') (CommitBatch ''b2'' [example_stroke ''s2'']) (sv_store sv0)"
    by (simp add: room_for_def hub0 example_ctx_def example_inked_row i64_max_def)
  have r2: "session_reachable False example_envs ''p'' \<lparr>ss_server = sv', ss_feed = f1, ss_link = Online 0 0 False False\<rparr>"
    using SR_step [OF r1 S_dispatch [of "example_ctx ''a''" "CommitBatch ''b2'' [example_stroke ''s2'']"
        "\<lparr>ss_server = sv0, ss_feed = f1, ss_link = Online 0 0 False False\<rparr>"]] honest room
    by (simp add: sv'(1))
  have r3: "session_reachable False example_envs ''p'' \<lparr>ss_server = sv', ss_feed = f2, ss_link = Online 1 0 False True\<rparr>"
    using SR_step [OF r2 S_deliver [of _ 0 0 False False "''p''" m]]
    by (simp add: sent f2_def m_def is_stroke_batch_def)
  have r4: "session_reachable False example_envs ''p'' \<lparr>ss_server = sv', ss_feed = f2, ss_link = Offline\<rparr>"
    using SR_step [OF r3 S_disconnect [of _ 1 0 False True False]] by simp
  have r5: "session_reachable False example_envs ''p'' \<lparr>ss_server = sv', ss_feed = f3, ss_link = Online 1 2 False False\<rparr>"
    using SR_step [OF r4 S_connect [of "\<lparr>ss_server = sv', ss_feed = f2, ss_link = Offline\<rparr>" False example_envs "''p''" "''x''" 2 None Paper_None]]
    by (simp add: sent f3_def steps)
  have "as_i64 2 = 2" using as_i64_uint [of 2] by (simp add: i64_max_def)
  then have load: "load_page_replay example_env (server_db sv') (server_db sv') ''p'' 2 = Inr ([], [])"
    by (intro empty_replay) (simp_all add: sv'(4-6) example_inked_head example_inked_children)
  have head: "max_seq example_env (server_db sv') ''p'' = Inr 2"
    using example_max_seq [OF sv'(6)] by (simp add: sv'(4) example_inked_head)
  have r6: "session_reachable False example_envs ''p'' \<lparr>ss_server = sv', ss_feed = f4, ss_link = Online 1 2 True False\<rparr>"
    using SR_step [OF r5 S_replay [of _ 1 2 False example_env "''p''" "[]" "[]" 2 example_env]] load head
    by (simp add: f4_def)
  show ?thesis
    by (rule exI [of _ "\<lparr>ss_server = sv', ss_feed = f4, ss_link = Online 1 2 True False\<rparr>"])
      (use r6 in \<open>simp_all add: sent sv'(3) example_inked_head; simp add: steps insert_batch_def binary_search_by_key_def retain_batch_def\<close>)
qed


definition racing_writes :: "nat \<Rightarrow> page_write list" where
  "racing_writes n = (if n = 2 then [W_Batch ''p'' ''b1'' [example_stroke ''s1'']] else [])"


subsection \<open>The two shapes of a replay\<close>

lemma apply_stroke_batches:
  "foldl (\<lambda>fd m. apply_page_event m fd) fd (map Msg_StrokeBatch bs) =
   (if bs = [] then fd else fd\<lparr>fd_batches := foldl insert_batch (fd_batches fd) bs,
      fd_last_seq := foldl max (fd_last_seq fd) (map sb_seq bs), fd_status := ''Live'', fd_error := None\<rparr>)"
proof (induction bs arbitrary: fd)
  case (Cons b bs)
  then show ?case by (simp add: apply_page_event_def next_viewer_paper_def Let_def)
qed simp

lemma apply_tombstone_batches:
  "foldl (\<lambda>fd m. apply_page_event m fd) fd (map Msg_TombstoneBatch ts) =
   (if ts = [] then fd else fd\<lparr>fd_batches := retain_surviving (fd_batches fd) (tombstoned_ids ts),
      fd_status := ''Live''\<rparr>)"
proof (induction ts arbitrary: fd)
  case (Cons t ts)
  have "retain_surviving (retain_surviving xs (tb_stroke_ids t)) (tombstoned_ids ts) =
      retain_surviving xs (tombstoned_ids (t # ts))" for xs
    by (auto simp: retain_surviving_def ink_simps tombstoned_ids_def intro!: retain_batch_cong)
  then show ?case using Cons by (simp add: apply_page_event_def next_viewer_paper_def Let_def tombstoned_ids_def)
qed simp

lemma foldl_max_le: "\<forall>x \<in> set xs. x \<le> m \<Longrightarrow> max (foldl max c xs) m = max c (m :: u64)"
  by (induction xs arbitrary: c) (auto simp: max_def)



end
