(* ===== verification/Text.thy ===== *)
theory Text
  imports Prelude "HOL-Library.Sublist"
begin

text \<open>
  The methods of Rust's \<open>str\<close> that the sources call, on UTF-8 bytes: \<open>trim\<close>, \<open>splitn\<close>,
  \<open>split_whitespace\<close>, \<open>eq_ignore_ascii_case\<close>, \<open>replace\<close>, \<open>trim_end_matches\<close>, \<open>char_indices\<close>.
\<close>

section \<open>White space\<close>

text \<open>The UTF-8 encodings of the characters with the property \<open>White_Space\<close>.\<close>

definition white_space :: "string list" where
  "white_space =
     [[CHR 0x09], [CHR 0x0A], [CHR 0x0B], [CHR 0x0C], [CHR 0x0D], [CHR 0x20],
      [CHR 0xC2, CHR 0x85], [CHR 0xC2, CHR 0xA0], [CHR 0xE1, CHR 0x9A, CHR 0x80],
      [CHR 0xE2, CHR 0x80, CHR 0x80], [CHR 0xE2, CHR 0x80, CHR 0x81],
      [CHR 0xE2, CHR 0x80, CHR 0x82], [CHR 0xE2, CHR 0x80, CHR 0x83],
      [CHR 0xE2, CHR 0x80, CHR 0x84], [CHR 0xE2, CHR 0x80, CHR 0x85],
      [CHR 0xE2, CHR 0x80, CHR 0x86], [CHR 0xE2, CHR 0x80, CHR 0x87],
      [CHR 0xE2, CHR 0x80, CHR 0x88], [CHR 0xE2, CHR 0x80, CHR 0x89],
      [CHR 0xE2, CHR 0x80, CHR 0x8A], [CHR 0xE2, CHR 0x80, CHR 0xA8],
      [CHR 0xE2, CHR 0x80, CHR 0xA9], [CHR 0xE2, CHR 0x80, CHR 0xAF],
      [CHR 0xE2, CHR 0x81, CHR 0x9F], [CHR 0xE3, CHR 0x80, CHR 0x80]]"

lemma white_space_nonempty: "w \<in> set white_space \<Longrightarrow> w \<noteq> []"
  by (auto simp: white_space_def)

function trim_start :: "string \<Rightarrow> string" where
  "trim_start s = (case List.find (\<lambda>w. prefix w s) white_space of
     None \<Rightarrow> s | Some w \<Rightarrow> trim_start (drop (length w) s))"
  by auto

termination
proof (relation "measure length")
  fix s w
  assume "List.find (\<lambda>w. prefix w s) white_space = Some w"
  then have "w \<in> set white_space" "prefix w s" by (auto simp: find_Some_iff)
  then show "(drop (length w) s, s) \<in> measure length"
    using white_space_nonempty [of w] by (cases s) (auto simp: prefix_def)
qed simp

function trim_end :: "string \<Rightarrow> string" where
  "trim_end s = (case List.find (\<lambda>w. suffix w s) white_space of
     None \<Rightarrow> s | Some w \<Rightarrow> trim_end (take (length s - length w) s))"
  by auto

termination
proof (relation "measure length")
  fix s w
  assume "List.find (\<lambda>w. suffix w s) white_space = Some w"
  then have "w \<in> set white_space" "suffix w s" by (auto simp: find_Some_iff)
  then show "(take (length s - length w) s, s) \<in> measure length"
    using white_space_nonempty [of w] by (cases s) (auto simp: suffix_def)
qed simp

declare trim_start.simps [simp del] trim_end.simps [simp del]

definition trim :: "string \<Rightarrow> string" where
  "trim s = trim_end (trim_start s)"

lemma trim_start_clean: "w \<in> set white_space \<Longrightarrow> \<not> prefix w (trim_start s)"
proof (induction s rule: trim_start.induct)
  case (1 s)
  then show ?case
    by (subst trim_start.simps) (auto simp: find_None_iff split: option.split)
qed

lemma trim_end_clean: "w \<in> set white_space \<Longrightarrow> \<not> suffix w (trim_end s)"
proof (induction s rule: trim_end.induct)
  case (1 s)
  then show ?case
    by (subst trim_end.simps) (auto simp: find_None_iff split: option.split)
qed

lemma trim_end_prefix: "prefix (trim_end s) s"
proof (induction s rule: trim_end.induct)
  case (1 s)
  show ?case
    by (subst trim_end.simps)
      (use 1 in \<open>auto intro: prefix_order.trans take_is_prefix split: option.split\<close>)
qed

lemma trim_clean: "w \<in> set white_space \<Longrightarrow> \<not> prefix w (trim s) \<and> \<not> suffix w (trim s)"
  using trim_start_clean [of w s] trim_end_clean [of w "trim_start s"] trim_end_prefix [of "trim_start s"]
    prefix_order.trans [of w "trim_end (trim_start s)" "trim_start s"] by (auto simp: trim_def)

section \<open>Splitting\<close>

text \<open>\<open>splitn(2, char::is_whitespace)\<close>: up to the first white-space character, and what follows it.\<close>

fun split_white :: "string \<Rightarrow> string \<times> string option" where
  "split_white [] = ([], None)"
| "split_white (c # s) = (case List.find (\<lambda>w. prefix w (c # s)) white_space of
     Some w \<Rightarrow> ([], Some (drop (length w) (c # s)))
   | None \<Rightarrow> let (a, rest) = split_white s in (c # a, rest))"

lemma split_white_length: "split_white s = (a, Some rest) \<Longrightarrow> length rest < length s"
proof (induction s arbitrary: a)
  case (Cons c s)
  show ?case
  proof (cases "List.find (\<lambda>w. prefix w (c # s)) white_space")
    case None
    then show ?thesis using Cons by (auto split: prod.splits)
  next
    case (Some w)
    then have "w \<in> set white_space" by (auto simp: find_Some_iff)
    then have "w \<noteq> []" by (rule white_space_nonempty)
    then show ?thesis using Some Cons.prems by (cases w) auto
  qed
qed simp

function split_all_white :: "string \<Rightarrow> string list" where
  "split_all_white s = (case split_white s of
     (a, None) \<Rightarrow> [a]
   | (a, Some rest) \<Rightarrow> a # split_all_white rest)"
  by auto

termination
  by (relation "measure length") (auto dest: split_white_length [OF sym])

declare split_all_white.simps [simp del]

definition split_whitespace :: "string \<Rightarrow> string list" where
  "split_whitespace s = filter (\<lambda>w. w \<noteq> []) (split_all_white s)"

section \<open>Case, endings, replacement\<close>

definition ascii_lower :: "char \<Rightarrow> char" where
  "ascii_lower c = (let n = (of_char c :: nat) in if 65 \<le> n \<and> n \<le> 90 then char_of (n + 32) else c)"

definition eq_ignore_ascii_case :: "string \<Rightarrow> string \<Rightarrow> bool" where
  "eq_ignore_ascii_case a b \<longleftrightarrow> map ascii_lower a = map ascii_lower b"

definition trim_end_char :: "char \<Rightarrow> string \<Rightarrow> string" where
  "trim_end_char c s = rev (dropWhile (\<lambda>x. x = c) (rev s))"

text \<open>\<open>replace\<close>: every occurrence from the left, without overlap. The patterns are not empty.\<close>

function replace_str :: "string \<Rightarrow> string \<Rightarrow> string \<Rightarrow> string" where
  "replace_str pat rep [] = []"
| "replace_str pat rep (c # s) =
     (if pat \<noteq> [] \<and> prefix pat (c # s) then rep @ replace_str pat rep (drop (length pat) (c # s))
      else c # replace_str pat rep s)"
  by pat_completeness auto

termination
proof (relation "measure (\<lambda>(_, _, s). length s)")
  fix pat rep c s
  assume "pat \<noteq> [] \<and> prefix pat (c # s)"
  then show "((pat, rep, drop (length pat) (c # s)), pat, rep, c # s) \<in> measure (\<lambda>(_, _, s). length s)"
    by (cases pat) auto
qed auto

lemma replace_char: "replace_str [c] rep s = concat (map (\<lambda>x. if x = c then rep else [x]) s)"
  by (induction s) (auto simp: prefix_def)

section \<open>Characters\<close>

text \<open>The bytes that start a character, and how many characters there are.\<close>

definition char_start :: "char \<Rightarrow> bool" where
  "char_start c \<longleftrightarrow> (let n = (of_char c :: nat) in \<not> (128 \<le> n \<and> n < 192))"

definition char_indices :: "string \<Rightarrow> nat list" where
  "char_indices s = filter (\<lambda>i. char_start (s ! i)) [0..<length s]"

definition char_count :: "string \<Rightarrow> nat" where
  "char_count s = length (filter char_start s)"

lemma length_char_indices: "length (char_indices s) = char_count s"
  using length_filter_map [of char_start "(!) s" "[0..<length s]"] map_nth [of s]
  by (simp add: char_indices_def char_count_def comp_def)

lemma char_indices_take:
  assumes "n < length (char_indices s)"
  shows "char_count (take (char_indices s ! n) s) = n" and "char_indices s ! n < length s"
proof -
  define i where "i = char_indices s ! n"
  have "i \<in> set (char_indices s)" using assms by (simp add: i_def)
  then have i: "i < length s" "char_start (s ! i)" by (auto simp: char_indices_def)
  then show "char_indices s ! n < length s" by (simp add: i_def)
  have split: "char_indices s = filter (\<lambda>j. char_start (s ! j)) [0..<i] @ filter (\<lambda>j. char_start (s ! j)) [i..<length s]"
    using i(1) unfolding char_indices_def by (metis filter_append le_add_diff_inverse less_imp_le upt_add_eq_append zero_le)
  have low: "char_indices (take i s) = filter (\<lambda>j. char_start (s ! j)) [0..<i]"
    unfolding char_indices_def using i(1) by (intro filter_cong) auto
  have head: "filter (\<lambda>j. char_start (s ! j)) [i..<length s] = i # filter (\<lambda>j. char_start (s ! j)) [Suc i..<length s]"
    using i by (simp add: upt_conv_Cons)
  have at: "char_indices s ! length (char_indices (take i s)) = i"
    unfolding low by (subst split) (simp only: head nth_append_length)
  have "distinct (char_indices s)" by (simp add: char_indices_def)
  moreover have "length (char_indices (take i s)) < length (char_indices s)"
    unfolding split low head by simp
  ultimately have "length (char_indices (take i s)) = n"
    using at assms nth_eq_iff_index_eq by (fastforce simp: i_def)
  then show "char_count (take (char_indices s ! n) s) = n" by (simp add: length_char_indices i_def)
qed

text \<open>\<open>Display\<close> of an unsigned integer.\<close>

fun decimal :: "nat \<Rightarrow> string" where
  "decimal n = (if n < 10 then [char_of (48 + n)] else decimal (n div 10) @ [char_of (48 + n mod 10)])"

declare decimal.simps [simp del]

end
