(* ===== verification/Outbox.thy ===== *)
theory Outbox
  imports Text Floats
begin

text \<open>
  The client's telemetry rules, \<open>frontend/src/telemetry/outbox.rs\<close>: the bounded queue, the
  lifecycle of the configuration, the reading of an answer, and when to send again. Time is an
  \<open>f64\<close> that the caller passes in, and so is the jitter. The locale \<open>lossy_queue\<close> is what the
  exporter relies on of the queue.
\<close>

section \<open>Limits\<close>

definition CAPACITY :: nat where "CAPACITY = 512"
definition PRE_CONFIG_CAPACITY :: nat where "PRE_CONFIG_CAPACITY = 128"
definition PRE_CONFIG_MAX_MS :: fp where "PRE_CONFIG_MAX_MS = Fin 60000"
definition MAX_BATCH :: nat where "MAX_BATCH = 256"
definition BACKOFF_BASE_MS :: fp where "BACKOFF_BASE_MS = Fin 5000"
definition BACKOFF_MAX_MS :: fp where "BACKOFF_MAX_MS = Fin 300000"
definition RETRY_AFTER_MAX_MS :: fp where "RETRY_AFTER_MAX_MS = Fin 900000"
definition MAX_BATCH_ATTEMPTS :: u32 where "MAX_BATCH_ATTEMPTS = 3"
definition MAX_CONSECUTIVE_FAILURES :: u32 where "MAX_CONSECUTIVE_FAILURES = 6"
definition EXPIRY_MARGIN_S :: fp where "EXPIRY_MARGIN_S = Fin 30"

section \<open>The queue\<close>

record 'a Outbox =
  ob_items :: "'a list"
  ob_capacity :: nat
  ob_dropped :: u64

definition outbox_new :: "nat \<Rightarrow> 'a Outbox" where
  "outbox_new capacity = \<lparr>ob_items = [], ob_capacity = capacity, ob_dropped = 0\<rparr>"

definition pop_front :: "'a Outbox \<Rightarrow> 'a Outbox" where
  "pop_front q = q\<lparr>ob_items := tl (ob_items q), ob_dropped := ob_dropped q + 1\<rparr>"

definition outbox_push :: "'a \<Rightarrow> 'a Outbox \<Rightarrow> 'a Outbox" where
  "outbox_push x q =
     (if ob_capacity q = 0 then q\<lparr>ob_dropped := ob_dropped q + 1\<rparr>
      else let q' = (if length (ob_items q) = ob_capacity q then pop_front q else q)
           in q'\<lparr>ob_items := ob_items q' @ [x]\<rparr>)"

function drop_oldest :: "'a Outbox \<Rightarrow> 'a Outbox" where
  "drop_oldest q = (if length (ob_items q) > ob_capacity q then drop_oldest (pop_front q) else q)"
  by auto

termination
  by (relation "measure (\<lambda>q. length (ob_items q))") (auto simp: pop_front_def)

declare drop_oldest.simps [simp del]

definition set_capacity :: "nat \<Rightarrow> 'a Outbox \<Rightarrow> 'a Outbox" where
  "set_capacity capacity q = drop_oldest (q\<lparr>ob_capacity := capacity\<rparr>)"

definition take_batch :: "nat \<Rightarrow> 'a Outbox \<Rightarrow> 'a list \<times> 'a Outbox" where
  "take_batch m q =
     (let count = min m (length (ob_items q))
      in (take count (ob_items q), q\<lparr>ob_items := drop count (ob_items q)\<rparr>))"

definition outbox_clear :: "'a Outbox \<Rightarrow> 'a Outbox" where
  "outbox_clear q = q\<lparr>ob_items := []\<rparr>"

definition outbox_is_empty :: "'a Outbox \<Rightarrow> bool" where
  "outbox_is_empty q \<longleftrightarrow> ob_items q = []"

section \<open>Configuration\<close>

datatype Signal = Traces | Logs

fun signal_path :: "Signal \<Rightarrow> string" where
  "signal_path Traces = ''traces''"
| "signal_path Logs = ''logs''"

record Credentials =
  cr_endpoint :: string
  cr_access_token :: string
  cr_expires_at :: fp

definition credentials_url :: "Credentials \<Rightarrow> Signal \<Rightarrow> string" where
  "credentials_url c signal = trim_end_char (CHR ''/'') (cr_endpoint c) @ ''/v1/'' @ signal_path signal"

definition usable_token :: "Credentials \<Rightarrow> fp \<Rightarrow> string option" where
  "usable_token c now_s =
     (if fp_lt (fp_add f64 now_s EXPIRY_MARGIN_S) (cr_expires_at c) \<and> cr_access_token c \<noteq> []
      then Some (cr_access_token c) else None)"

datatype OffReason =
    OR_NotConfigured | OR_SignedOut | OR_ConfigTimedOut | OR_SessionExpired | OR_Unauthorized | OR_GaveUp

fun describe_reason :: "OffReason \<Rightarrow> string" where
  "describe_reason OR_NotConfigured = ''the server gave no telemetry configuration''"
| "describe_reason OR_SignedOut = ''there is no signed-in session''"
| "describe_reason OR_ConfigTimedOut = ''no telemetry configuration arrived in time''"
| "describe_reason OR_SessionExpired = ''the session's access token expired''"
| "describe_reason OR_Unauthorized = ''the ingest refused a refreshed token (401)''"
| "describe_reason OR_GaveUp = ''the ingest or the server kept failing''"

datatype ConfigFetch = CF_Configured Credentials | CF_Absent | CF_SignedOut | CF_Unavailable

datatype ConfigOutcome = CO_Configured | CO_Refreshed | CO_Wait | CO_Off OffReason

datatype Lifecycle =
    LC_AwaitingConfig fp
  | LC_Configured Credentials u32
  | LC_Off OffReason

definition lifecycle_new :: "fp \<Rightarrow> Lifecycle" where
  "lifecycle_new now_ms = LC_AwaitingConfig now_ms"

fun is_configured :: "Lifecycle \<Rightarrow> bool" where
  "is_configured (LC_Configured _ _) = True"
| "is_configured _ = False"

text \<open>A fetch that neither configured nor was ignored: the outcome, and the state an unanswered
  refresh leaves behind.\<close>

fun refused :: "Lifecycle \<Rightarrow> ConfigFetch \<Rightarrow> ConfigOutcome \<times> Lifecycle" where
  "refused l (CF_Configured _) = (CO_Off OR_SessionExpired, l)"
| "refused l CF_Absent = (CO_Off OR_NotConfigured, l)"
| "refused l CF_SignedOut = (CO_Off (if is_configured l then OR_SessionExpired else OR_SignedOut), l)"
| "refused l CF_Unavailable = (case l of
     LC_Configured c failed \<Rightarrow>
       (if failed + 1 \<ge> MAX_CONSECUTIVE_FAILURES then CO_Off OR_GaveUp else CO_Wait,
        LC_Configured c (failed + 1))
   | _ \<Rightarrow> (CO_Wait, l))"

definition settle :: "ConfigOutcome \<times> Lifecycle \<Rightarrow> ConfigOutcome \<times> Lifecycle" where
  "settle r = (case fst r of CO_Off reason \<Rightarrow> (fst r, LC_Off reason) | _ \<Rightarrow> r)"

definition on_config :: "ConfigFetch \<Rightarrow> fp \<Rightarrow> Lifecycle \<Rightarrow> ConfigOutcome \<times> Lifecycle" where
  "on_config fetch now_s l = (case l of
     LC_Off reason \<Rightarrow> (CO_Off reason, l)
   | _ \<Rightarrow> (case fetch of
       CF_Configured c \<Rightarrow>
         (if usable_token c now_s \<noteq> None
          then (if is_configured l then CO_Refreshed else CO_Configured, LC_Configured c 0)
          else settle (refused l fetch))
     | _ \<Rightarrow> settle (refused l fetch)))"

fun expire :: "fp \<Rightarrow> Lifecycle \<Rightarrow> bool \<times> Lifecycle" where
  "expire now_ms (LC_AwaitingConfig since_ms) =
     (if fp_le PRE_CONFIG_MAX_MS (fp_sub f64 now_ms since_ms) then (True, LC_Off OR_ConfigTimedOut)
      else (False, LC_AwaitingConfig since_ms))"
| "expire now_ms l = (False, l)"

fun is_off :: "Lifecycle \<Rightarrow> bool" where
  "is_off (LC_Off _) = True"
| "is_off _ = False"

fun is_awaiting :: "Lifecycle \<Rightarrow> bool" where
  "is_awaiting (LC_AwaitingConfig _) = True"
| "is_awaiting _ = False"

definition turn_off :: "OffReason \<Rightarrow> Lifecycle \<Rightarrow> Lifecycle" where
  "turn_off reason l = (if is_off l then l else LC_Off reason)"

fun lc_credentials :: "Lifecycle \<Rightarrow> Credentials option" where
  "lc_credentials (LC_Configured c _) = Some c"
| "lc_credentials _ = None"

section \<open>Answers\<close>

datatype ExportOutcome =
    EO_Accepted
  | EO_Unauthorized
  | EO_Rejected u16
  | EO_Retryable "u16 option" "fp option"

text \<open>\<open>str::parse::<u32>\<close>: an optional plus sign, then digits only, at least one, no overflow.\<close>

definition decimal_digit :: "char \<Rightarrow> nat option" where
  "decimal_digit c = (let n = of_char c in if 48 \<le> n \<and> n \<le> 57 then Some (n - 48) else None)"

fun parse_decimal :: "nat \<Rightarrow> nat \<Rightarrow> string \<Rightarrow> nat option" where
  "parse_decimal bound acc [] = Some acc"
| "parse_decimal bound acc (c # s) = (case decimal_digit c of
     None \<Rightarrow> None
   | Some d \<Rightarrow> if acc * 10 + d < bound then parse_decimal bound (acc * 10 + d) s else None)"

definition parse_u32 :: "string \<Rightarrow> u32 option" where
  "parse_u32 s =
     (let s' = (if 1 < length s \<and> hd s = CHR ''+'' then tl s else s)
      in if s' = [] then None else map_option of_nat (parse_decimal (2 ^ 32) 0 s'))"

definition parse_retry_after_ms :: "string \<Rightarrow> fp option" where
  "parse_retry_after_ms value =
     map_option (\<lambda>seconds. fp_mul f64 (Fin (of_nat (unat seconds))) (Fin 1000)) (parse_u32 (trim value))"

definition from_response :: "u16 option \<Rightarrow> string option \<Rightarrow> ExportOutcome" where
  "from_response status retry_after = (case status of
     None \<Rightarrow> EO_Retryable None None
   | Some s \<Rightarrow>
       if 200 \<le> s \<and> s \<le> 299 then EO_Accepted
       else if s = 401 then EO_Unauthorized
       else if s = 429 \<or> s = 502 \<or> s = 503 \<or> s = 504
         then EO_Retryable (Some s) (Option.bind retry_after parse_retry_after_ms)
       else EO_Rejected s)"

fun describe_outcome :: "ExportOutcome \<Rightarrow> string" where
  "describe_outcome EO_Accepted = ''accepted''"
| "describe_outcome EO_Unauthorized = ''status 401''"
| "describe_outcome (EO_Rejected status) = ''status '' @ decimal (unat status)"
| "describe_outcome (EO_Retryable (Some status) _) = ''status '' @ decimal (unat status)"
| "describe_outcome (EO_Retryable None _) = ''transport error''"

section \<open>The send policy\<close>

datatype Transition = StartedFailing | Recovered | Stopped OffReason

record Decision =
  de_retry_batch :: bool
  de_refresh_token :: bool
  de_transition :: "Transition option"

record ExportPolicy =
  po_stopped :: "OffReason option"
  po_failures :: u32
  po_failing :: bool
  po_refreshed_after_401 :: bool
  po_refresh_pending :: bool
  po_next_attempt_at_ms :: fp

definition policy_default :: ExportPolicy where
  "policy_default = \<lparr>po_stopped = None, po_failures = 0, po_failing = False,
     po_refreshed_after_401 = False, po_refresh_pending = False, po_next_attempt_at_ms = Fin 0\<rparr>"

definition should_export :: "fp \<Rightarrow> ExportPolicy \<Rightarrow> bool" where
  "should_export now_ms p \<longleftrightarrow>
     po_stopped p = None \<and> \<not> po_refresh_pending p \<and> fp_le (po_next_attempt_at_ms p) now_ms"

definition needs_refresh :: "ExportPolicy \<Rightarrow> bool" where
  "needs_refresh p \<longleftrightarrow> po_stopped p = None \<and> po_refresh_pending p"

definition policy_refreshed :: "ExportPolicy \<Rightarrow> ExportPolicy" where
  "policy_refreshed p = p\<lparr>po_refresh_pending := False\<rparr>"

definition policy_stop :: "OffReason \<Rightarrow> ExportPolicy \<Rightarrow> Transition option \<times> ExportPolicy" where
  "policy_stop reason p =
     (if po_stopped p \<noteq> None then (None, p)
      else (Some (Stopped reason), p\<lparr>po_stopped := Some reason\<rparr>))"

definition start_failing :: "ExportPolicy \<Rightarrow> Transition option \<times> ExportPolicy" where
  "start_failing p =
     (if po_failing p then (None, p) else (Some StartedFailing, p\<lparr>po_failing := True\<rparr>))"

definition backoff_ms :: "u32 \<Rightarrow> fp \<Rightarrow> fp" where
  "backoff_ms failures jitter =
     (let exponent = min (unat failures - 1) 16;
          ceiling = fp_min (fp_mul f64 BACKOFF_BASE_MS
                              (Fin (of_nat (unat (push_bit exponent (1 :: u32)))))) BACKOFF_MAX_MS;
          jitter = fp_clamp (Fin 0) (Fin 1) jitter
      in fp_add f64 (fp_div f64 ceiling (Fin 2))
           (fp_mul f64 (fp_div f64 ceiling (Fin 2)) jitter))"

definition no_decision :: Decision where
  "no_decision = \<lparr>de_retry_batch = False, de_refresh_token = False, de_transition = None\<rparr>"

definition record_retryable ::
  "fp option \<Rightarrow> u32 \<Rightarrow> fp \<Rightarrow> fp \<Rightarrow> ExportPolicy \<Rightarrow> Decision \<times> ExportPolicy" where
  "record_retryable retry_after_ms attempts now_ms jitter p =
     (let p = p\<lparr>po_failures := po_failures p + 1\<rparr>
      in if po_failures p \<ge> MAX_CONSECUTIVE_FAILURES then
           (let (t, p) = policy_stop OR_GaveUp p in (no_decision\<lparr>de_transition := t\<rparr>, p))
         else
           (let wait = fp_max (backoff_ms (po_failures p) jitter)
                         (fp_min (case retry_after_ms of None \<Rightarrow> Fin 0 | Some ms \<Rightarrow> ms) RETRY_AFTER_MAX_MS);
                p = p\<lparr>po_next_attempt_at_ms := fp_add f64 now_ms wait\<rparr>;
                (t, p) = start_failing p
            in (\<lparr>de_retry_batch = attempts < MAX_BATCH_ATTEMPTS, de_refresh_token = False,
                 de_transition = t\<rparr>, p)))"

definition policy_record ::
  "ExportOutcome \<Rightarrow> u32 \<Rightarrow> fp \<Rightarrow> fp \<Rightarrow> ExportPolicy \<Rightarrow> Decision \<times> ExportPolicy" where
  "policy_record outcome attempts now_ms jitter p =
     (if po_stopped p \<noteq> None then (no_decision, p)
      else case outcome of
        EO_Accepted \<Rightarrow>
          (let p' = p\<lparr>po_failures := 0, po_refreshed_after_401 := False, po_next_attempt_at_ms := now_ms\<rparr>
           in if po_failing p then (no_decision\<lparr>de_transition := Some Recovered\<rparr>, p'\<lparr>po_failing := False\<rparr>)
              else (no_decision, p'))
      | EO_Unauthorized \<Rightarrow>
          (if po_refreshed_after_401 p then
             (let (t, p') = policy_stop OR_Unauthorized p in (no_decision\<lparr>de_transition := t\<rparr>, p'))
           else
             (let (t, p') = start_failing (p\<lparr>po_refreshed_after_401 := True, po_refresh_pending := True\<rparr>)
              in (no_decision\<lparr>de_refresh_token := True, de_transition := t\<rparr>, p')))
      | EO_Rejected _ \<Rightarrow>
          (let (t, p') = start_failing p in (no_decision\<lparr>de_transition := t\<rparr>, p'))
      | EO_Retryable _ retry_after_ms \<Rightarrow> record_retryable retry_after_ms attempts now_ms jitter p)"

section \<open>The queue keeps the newest\<close>

text \<open>The last \<open>n\<close> entries of a list.\<close>

definition last_n :: "nat \<Rightarrow> 'a list \<Rightarrow> 'a list" where
  "last_n n xs = drop (length xs - n) xs"

lemma last_n_all [simp]: "length xs \<le> n \<Longrightarrow> last_n n xs = xs"
  by (simp add: last_n_def)

lemma last_n_length [simp]: "length (last_n n xs) = min n (length xs)"
  by (auto simp: last_n_def)

lemma last_n_suffix: "suffix (last_n n xs) xs"
  by (simp add: last_n_def suffix_drop)

lemma last_n_split: "take (length xs - n) xs @ last_n n xs = xs"
  by (simp add: last_n_def)

lemma of_nat_parts: "(of_nat k :: u64) = of_nat (min n k) + of_nat (k - n)"
  unfolding of_nat_add [symmetric] by (simp only: min_def) simp

definition outbox_ok :: "'a Outbox \<Rightarrow> bool" where
  "outbox_ok q \<longleftrightarrow> length (ob_items q) \<le> ob_capacity q"

lemma outbox_new_ok [simp]: "outbox_ok (outbox_new n)"
  by (simp add: outbox_ok_def outbox_new_def)

lemma drop_oldest_effect:
  "drop_oldest q = q\<lparr>ob_items := last_n (ob_capacity q) (ob_items q),
     ob_dropped := ob_dropped q + of_nat (length (ob_items q) - ob_capacity q)\<rparr>"
proof (induction q rule: drop_oldest.induct)
  case (1 q)
  show ?case
  proof (cases "length (ob_items q) > ob_capacity q")
    case True
    then obtain x xs where q: "ob_items q = x # xs" by (cases "ob_items q") auto
    with True 1 show ?thesis
      by (subst drop_oldest.simps) (simp add: pop_front_def last_n_def Suc_diff_le)
  next
    case False
    then show ?thesis by (subst drop_oldest.simps) simp
  qed
qed

lemma outbox_push_effect:
  assumes "outbox_ok q"
  shows "outbox_push x q = q\<lparr>ob_items := last_n (ob_capacity q) (ob_items q @ [x]),
     ob_dropped := ob_dropped q + of_nat (Suc (length (ob_items q)) - ob_capacity q)\<rparr>"
proof (cases "length (ob_items q) = ob_capacity q \<and> ob_capacity q \<noteq> 0")
  case True
  then obtain y ys where "ob_items q = y # ys" by (cases "ob_items q") auto
  with True show ?thesis by (simp add: outbox_push_def pop_front_def last_n_def Let_def)
next
  case False
  with assms show ?thesis
    by (auto simp: outbox_push_def outbox_ok_def last_n_def Let_def)
qed

lemma set_capacity_effect:
  "set_capacity n q = q\<lparr>ob_capacity := n, ob_items := last_n n (ob_items q),
     ob_dropped := ob_dropped q + of_nat (length (ob_items q) - n)\<rparr>"
  by (simp add: set_capacity_def drop_oldest_effect)

lemma outbox_push_ok: "outbox_ok q \<Longrightarrow> outbox_ok (outbox_push x q)"
  by (simp add: outbox_push_effect) (simp add: outbox_ok_def)

lemma set_capacity_ok [simp]: "outbox_ok (set_capacity n q)"
  by (simp add: set_capacity_effect) (simp add: outbox_ok_def)

lemma take_batch_ok: "outbox_ok q \<Longrightarrow> outbox_ok (snd (take_batch m q))"
  by (simp add: outbox_ok_def take_batch_def Let_def)

lemma outbox_clear_ok [simp]: "outbox_ok (outbox_clear q)"
  by (simp add: outbox_ok_def outbox_clear_def)

lemma push_capacity [simp]: "ob_capacity (outbox_push x q) = ob_capacity q"
  by (simp add: outbox_push_def pop_front_def Let_def)

lemma take_batch_capacity [simp]: "ob_capacity (snd (take_batch m q)) = ob_capacity q"
  by (simp add: take_batch_def Let_def)

lemma clear_capacity [simp]: "ob_capacity (outbox_clear q) = ob_capacity q"
  by (simp add: outbox_clear_def)

lemma set_capacity_capacity [simp]: "ob_capacity (set_capacity n q) = n"
  by (simp add: set_capacity_effect)

lemma take_batch_length: "length (fst (take_batch m q)) \<le> m"
  by (simp add: take_batch_def Let_def)

text \<open>What a client does to a queue, and what it took out of it in a run.\<close>

datatype 'a QueueOp = Push 'a | Take nat | Resize nat | Clear

fun pushed :: "'a QueueOp list \<Rightarrow> 'a list" where
  "pushed [] = []"
| "pushed (Push x # ops) = x # pushed ops"
| "pushed (_ # ops) = pushed ops"

record ('q, 'a) QueueRun =
  qr_queue :: 'q
  qr_taken :: "'a list"
  qr_cleared :: nat

fun queue_run :: "('a \<Rightarrow> 'q \<Rightarrow> 'q) \<Rightarrow> (nat \<Rightarrow> 'q \<Rightarrow> 'a list \<times> 'q) \<Rightarrow> (nat \<Rightarrow> 'q \<Rightarrow> 'q) \<Rightarrow> ('q \<Rightarrow> 'q)
    \<Rightarrow> ('q \<Rightarrow> 'a list) \<Rightarrow> 'a QueueOp list \<Rightarrow> ('q, 'a) QueueRun \<Rightarrow> ('q, 'a) QueueRun" where
  "queue_run push takef resize clear items [] r = r"
| "queue_run push takef resize clear items (Push x # ops) r =
     queue_run push takef resize clear items ops (r\<lparr>qr_queue := push x (qr_queue r)\<rparr>)"
| "queue_run push takef resize clear items (Take n # ops) r =
     (let (b, q) = takef n (qr_queue r)
      in queue_run push takef resize clear items ops (r\<lparr>qr_queue := q, qr_taken := qr_taken r @ b\<rparr>))"
| "queue_run push takef resize clear items (Resize n # ops) r =
     queue_run push takef resize clear items ops (r\<lparr>qr_queue := resize n (qr_queue r)\<rparr>)"
| "queue_run push takef resize clear items (Clear # ops) r =
     queue_run push takef resize clear items ops
       (r\<lparr>qr_queue := clear (qr_queue r), qr_cleared := qr_cleared r + length (items (qr_queue r))\<rparr>)"

text \<open>The contract: entries leave at the front, by being taken, displaced or cleared; only the
  displaced are counted as lost; the queue is never longer than its room.\<close>

locale lossy_queue =
  fixes items :: "'q \<Rightarrow> 'a list" and room :: "'q \<Rightarrow> nat" and lost :: "'q \<Rightarrow> u64"
    and push :: "'a \<Rightarrow> 'q \<Rightarrow> 'q" and takef :: "nat \<Rightarrow> 'q \<Rightarrow> 'a list \<times> 'q"
    and resize :: "nat \<Rightarrow> 'q \<Rightarrow> 'q" and clear :: "'q \<Rightarrow> 'q"
  assumes push_items: "length (items q) \<le> room q \<Longrightarrow> items (push x q) = last_n (room q) (items q @ [x])"
    and push_room: "room (push x q) = room q"
    and push_lost: "length (items q) \<le> room q \<Longrightarrow>
      lost (push x q) = lost q + of_nat (Suc (length (items q)) - room q)"
    and take_items: "takef n q = (b, q') \<Longrightarrow> b @ items q' = items q"
    and take_keeps: "takef n q = (b, q') \<Longrightarrow> room q' = room q \<and> lost q' = lost q"
    and resize_items: "items (resize n q) = last_n n (items q)"
    and resize_room: "room (resize n q) = n"
    and resize_lost: "lost (resize n q) = lost q + of_nat (length (items q) - n)"
    and clear_items: "items (clear q) = []"
    and clear_keeps: "room (clear q) = room q \<and> lost (clear q) = lost q"
begin

text \<open>Relative to what was pushed before: in order, newest kept, every entry accounted for.\<close>

definition accounted :: "'a list \<Rightarrow> ('q, 'a) QueueRun \<Rightarrow> bool" where
  "accounted ps r \<longleftrightarrow>
     length (items (qr_queue r)) \<le> room (qr_queue r) \<and>
     (\<exists>early. ps = early @ items (qr_queue r) \<and> subseq (qr_taken r) early) \<and>
     (of_nat (length ps) :: u64) = of_nat (length (qr_taken r)) + of_nat (length (items (qr_queue r)))
       + lost (qr_queue r) + of_nat (qr_cleared r)"

lemma accountedI:
  "\<lbrakk> length (items (qr_queue r)) \<le> room (qr_queue r); ps = early @ items (qr_queue r);
     subseq (qr_taken r) early;
     (of_nat (length ps) :: u64) = of_nat (length (qr_taken r)) + of_nat (length (items (qr_queue r)))
       + lost (qr_queue r) + of_nat (qr_cleared r) \<rbrakk> \<Longrightarrow> accounted ps r"
  unfolding accounted_def by blast

lemma accounted_push:
  assumes "accounted ps r"
  shows "accounted (ps @ [x]) (r\<lparr>qr_queue := push x (qr_queue r)\<rparr>)"
proof -
  let ?q = "qr_queue r" and ?old = "items (qr_queue r) @ [x]"
  obtain early where ps: "ps = early @ items ?q" "subseq (qr_taken r) early"
    and len: "length (items ?q) \<le> room ?q"
    using assms by (auto simp: accounted_def)
  show ?thesis
  proof (rule accountedI [where early = "early @ take (length ?old - room ?q) ?old"])
    show "ps @ [x] = (early @ take (length ?old - room ?q) ?old) @
        items (qr_queue (r\<lparr>qr_queue := push x (qr_queue r)\<rparr>))"
      by (simp add: push_items [OF len] ps last_n_split del: take_append length_append)
  qed (use assms of_nat_parts [of "Suc (length (items ?q))" "room ?q"] in
      \<open>auto simp: accounted_def push_items push_room push_lost algebra_simps ps(2) list_emb_prefix\<close>)
qed

lemma accounted_take:
  assumes "accounted ps r" and "takef n (qr_queue r) = (b, q)"
  shows "accounted ps (r\<lparr>qr_queue := q, qr_taken := qr_taken r @ b\<rparr>)"
proof -
  obtain early where ps: "ps = early @ items (qr_queue r)" "subseq (qr_taken r) early"
    using assms by (auto simp: accounted_def)
  note b = take_items [OF assms(2)] take_keeps [OF assms(2)]
  have "ps = (early @ b) @ items q" by (simp add: ps b)
  moreover have "subseq (qr_taken r @ b) (early @ b)" using ps(2) by simp
  ultimately show ?thesis
    using assms(1) b(2) by (auto simp: accounted_def b(1) [symmetric] algebra_simps)
qed

lemma accounted_resize:
  assumes "accounted ps r"
  shows "accounted ps (r\<lparr>qr_queue := resize n (qr_queue r)\<rparr>)"
proof -
  let ?q = "qr_queue r" and ?old = "items (qr_queue r)"
  obtain early where ps: "ps = early @ ?old" "subseq (qr_taken r) early"
    using assms by (auto simp: accounted_def)
  have "ps = (early @ take (length ?old - n) ?old) @ last_n n ?old"
    by (simp only: ps append_assoc last_n_split)
  moreover have "subseq (qr_taken r) (early @ take (length ?old - n) ?old)"
    using ps(2) by (rule list_emb_prefix)
  moreover note of_nat_parts [of "length ?old" n]
  ultimately show ?thesis
    using assms by (auto simp: accounted_def resize_items resize_room resize_lost algebra_simps)
qed

lemma accounted_clear:
  assumes "accounted ps r"
  shows "accounted ps (r\<lparr>qr_queue := clear (qr_queue r),
    qr_cleared := qr_cleared r + length (items (qr_queue r))\<rparr>)"
  using assms by (auto simp: accounted_def clear_items clear_keeps list_emb_prefix algebra_simps)

lemma accounted_run:
  "accounted ps r \<Longrightarrow> accounted (ps @ pushed ops) (queue_run push takef resize clear items ops r)"
proof (induction ops arbitrary: ps r)
  case (Cons a ops)
  show ?case
  proof (cases a)
    case (Push x)
    then show ?thesis using Cons.IH [OF accounted_push [OF Cons.prems]] by simp
  next
    case (Take n)
    obtain b q where "takef n (qr_queue r) = (b, q)" by fastforce
    with Take show ?thesis using Cons.IH [OF accounted_take [OF Cons.prems]] by simp
  next
    case (Resize n)
    then show ?thesis using Cons.IH [OF accounted_resize [OF Cons.prems]] by simp
  next
    case Clear
    then show ?thesis using Cons.IH [OF accounted_clear [OF Cons.prems]] by simp
  qed
qed simp

end

interpretation outbox: lossy_queue ob_items ob_capacity ob_dropped outbox_push take_batch
  set_capacity outbox_clear
  by unfold_locales
    (auto simp: outbox_push_effect [unfolded outbox_ok_def] set_capacity_effect take_batch_def
      outbox_clear_def Let_def)

text \<open>Whatever is pushed, taken, resized and cleared, a telemetry queue starting empty is never
  longer than its capacity, holds the newest entries in order, hands out older ones in order and
  each once, and its drop counter accounts for every entry that is neither held, taken nor cleared.\<close>

theorem outbox_keeps_newest:
  "let r = queue_run outbox_push take_batch set_capacity outbox_clear ob_items ops
       \<lparr>qr_queue = outbox_new n, qr_taken = [], qr_cleared = 0\<rparr>;
       q = qr_queue r
   in length (ob_items q) \<le> ob_capacity q \<and>
      (\<exists>early. pushed ops = early @ ob_items q \<and> subseq (qr_taken r) early) \<and>
      ob_dropped q = of_nat (length (pushed ops)) - of_nat (length (qr_taken r))
        - of_nat (length (ob_items q)) - of_nat (qr_cleared r)"
proof -
  have "outbox.accounted [] \<lparr>qr_queue = outbox_new n, qr_taken = [], qr_cleared = 0\<rparr>"
    by (simp add: outbox.accounted_def outbox_new_def)
  from outbox.accounted_run [OF this, of ops] show ?thesis
    by (auto simp: outbox.accounted_def Let_def algebra_simps)
qed

section \<open>The backoff\<close>

definition backoff_ceiling :: "u32 \<Rightarrow> int" where
  "backoff_ceiling failures = min (5000 * 2 ^ min (unat failures - 1) 16) 300000"

lemma backoff_ceiling_range: "5000 \<le> backoff_ceiling failures" "backoff_ceiling failures \<le> 300000"
proof -
  have "(1::int) \<le> 2 ^ min (unat failures - 1) 16" by simp
  then show "5000 \<le> backoff_ceiling failures" "backoff_ceiling failures \<le> 300000"
    by (auto simp: backoff_ceiling_def)
qed

lemma backoff_ceiling_computed:
  "fp_min (fp_mul f64 BACKOFF_BASE_MS
     (Fin (of_nat (unat (push_bit (min (unat failures - 1) 16) (1 :: u32)))))) BACKOFF_MAX_MS
   = Fin (of_int (backoff_ceiling failures))"
proof -
  let ?e = "min (unat failures - 1) 16"
  have e: "(2::nat) ^ ?e \<le> 2 ^ 16" by (intro power_increasing) simp_all
  have "(2::nat) ^ ?e < 2 ^ 32" using e by simp
  then have "unat (of_nat (2 ^ ?e) :: u32) = 2 ^ ?e"
    by (subst unat_of_nat) simp
  then have "unat (push_bit ?e (1 :: u32)) = 2 ^ ?e"
    by (simp add: push_bit_eq_mult)
  moreover have "\<bar>5000 * 2 ^ ?e\<bar> < (2::int) ^ 53"
  proof -
    have "int (2 ^ ?e) \<le> int (2 ^ 16)" using e by (subst of_nat_le_iff)
    then show ?thesis by simp
  qed
  moreover have "rat_of_int (min a b) = min (of_int a) (of_int b)" for a b
    by (simp add: min_def)
  ultimately show ?thesis
    using f64_int [of "5000 * 2 ^ ?e"]
    by (simp add: BACKOFF_BASE_MS_def BACKOFF_MAX_MS_def backoff_ceiling_def)
qed

lemma f64_exact_halves:
  assumes "0 \<le> (c::int)" "c \<le> 300000"
  shows "fround f64 (of_int c / 2) = Fin (of_int c / 2)" "fround f64 (of_int c) = Fin (of_int c)"
  using assms by (auto intro!: f64_half f64_int)

lemma backoff_range:
  assumes "jitter \<noteq> NaN"
  shows "\<exists>x. backoff_ms failures jitter = Fin x \<and>
    of_int (backoff_ceiling failures) / 2 \<le> x \<and> x \<le> of_int (backoff_ceiling failures)"
proof -
  define c where "c = backoff_ceiling failures"
  have c: "5000 \<le> c" "c \<le> 300000" using backoff_ceiling_range [of failures] by (simp_all add: c_def)
  note half = f64_exact_halves [of c]
  obtain j where j: "fp_clamp (Fin 0) (Fin 1) jitter = Fin j" "0 \<le> j" "j \<le> 1"
    using fp_clamp_bounds [of "Fin 0" "Fin 1" jitter] assms
      fp_between [of 0 "fp_clamp (Fin 0) (Fin 1) jitter" 1] by auto
  have "0 \<le> of_int c / 2 * j" and "of_int c / 2 * j \<le> of_int c / 2"
    using j c by (auto intro: mult_left_le)
  then obtain y where y: "fround f64 (of_int c / 2 * j) = Fin y" "0 \<le> y" "y \<le> of_int c / 2"
    using fround_between [of 0 "of_int c / 2 * j" "of_int c / 2" f64] half(1) c f64_exact_halves(2) [of 0]
    by auto
  then obtain z where "fround f64 (of_int c / 2 + y) = Fin z" "of_int c / 2 \<le> z" "z \<le> of_int c"
    using fround_between [of "of_int c / 2" "of_int c / 2 + y" "of_int c" f64] half c by auto
  then show ?thesis
    unfolding backoff_ms_def Let_def backoff_ceiling_computed c_def [symmetric] j(1)
    using half(1) y(1) c by simp
qed

text \<open>The wait after the n-th failure in a row lies between half and all of 5 seconds doubled
  n - 1 times, capped at five minutes, whatever the jitter, for every failure count of the counter.\<close>

theorem backoff_bounded:
  assumes "jitter \<noteq> NaN"
  shows "fp_le (Fin (of_int (min (5000 * 2 ^ min (unat failures - 1) 16) 300000) / 2)) (backoff_ms failures jitter)
    \<and> fp_le (backoff_ms failures jitter) (Fin (of_int (min (5000 * 2 ^ min (unat failures - 1) 16) 300000)))"
  using backoff_range [OF assms, of failures] by (auto simp: backoff_ceiling_def)

lemma backoff_bounded_witness:
  "fp_le (Fin (of_int (min (5000 * 2 ^ min (unat (3 :: u32) - 1) 16) 300000) / 2)) (backoff_ms 3 (Fin (1 / 2)))"
  using backoff_bounded [of "Fin (1 / 2)" 3] by blast

section \<open>The policy gives up\<close>

datatype PolicyEvent = Answer ExportOutcome u32 fp fp | RefreshDone | StopNow OffReason

fun policy_step :: "PolicyEvent \<Rightarrow> ExportPolicy \<Rightarrow> Transition option \<times> ExportPolicy" where
  "policy_step (Answer outcome attempts now_ms jitter) p =
     (let (d, p') = policy_record outcome attempts now_ms jitter p in (de_transition d, p'))"
| "policy_step RefreshDone p = (None, policy_refreshed p)"
| "policy_step (StopNow reason) p = policy_stop reason p"

fun policy_run :: "PolicyEvent list \<Rightarrow> ExportPolicy \<Rightarrow> Transition list \<times> ExportPolicy" where
  "policy_run [] p = ([], p)"
| "policy_run (e # es) p =
     (let (t, p') = policy_step e p; (ts, p'') = policy_run es p'
      in ((case t of None \<Rightarrow> [] | Some t \<Rightarrow> [t]) @ ts, p''))"

definition policy_ok :: "ExportPolicy \<Rightarrow> bool" where
  "policy_ok p \<longleftrightarrow> (po_stopped p = None \<longrightarrow> po_failures p < 6)"

lemma policy_default_ok [simp]: "policy_ok policy_default"
  by (simp add: policy_ok_def policy_default_def)

named_theorems policy_defs \<open>the operations of the send policy, unfolded\<close>

lemmas [policy_defs] = policy_record_def record_retryable_def policy_stop_def start_failing_def
  policy_refreshed_def no_decision_def MAX_CONSECUTIVE_FAILURES_def

lemma u32_less_6: "(n::u32) < 6 \<Longrightarrow> \<not> 6 \<le> n + 1 \<Longrightarrow> n + 1 < 6 \<and> unat (n + 1) = Suc (unat n)"
proof -
  assume "n < 6" and n: "\<not> 6 \<le> n + 1"
  then have "unat n < unat (6::u32)" by (simp only: word_less_nat_alt)
  then have "unat (n + 1) = Suc (unat n)"
    by (subst unat_add_lem [THEN iffD1]) simp_all
  with n show ?thesis by (simp add: not_le)
qed

lemma policy_record_ok: "policy_ok p \<Longrightarrow> policy_ok (snd (policy_record outcome attempts now_ms jitter p))"
  using u32_less_6 [of "po_failures p"]
  by (cases outcome) (auto simp: policy_ok_def policy_defs Let_def not_le)

lemma policy_stop_ok: "policy_ok p \<Longrightarrow> policy_ok (snd (policy_stop reason p))"
  by (auto simp: policy_ok_def policy_defs)

lemma policy_refreshed_ok: "policy_ok p \<Longrightarrow> policy_ok (policy_refreshed p)"
  by (auto simp: policy_ok_def policy_defs)

lemma policy_step_ok: "policy_ok p \<Longrightarrow> policy_ok (snd (policy_step e p))"
  using policy_record_ok policy_stop_ok policy_refreshed_ok
  by (cases e) (simp_all add: case_prod_unfold Let_def)

lemma policy_run_stopped: "po_stopped p = Some r \<Longrightarrow> po_stopped (snd (policy_run es p)) = Some r"
proof (induction es arbitrary: p)
  case (Cons e es)
  have "po_stopped (snd (policy_step e p)) = Some r"
    using Cons.prems by (cases e) (auto simp: policy_defs case_prod_unfold Let_def)
  from Cons.IH [OF this] show ?case by (simp add: case_prod_unfold Let_def)
qed simp

fun accepted :: "PolicyEvent \<Rightarrow> bool" where
  "accepted (Answer EO_Accepted _ _ _) = True"
| "accepted _ = False"

fun retryable :: "PolicyEvent \<Rightarrow> bool" where
  "retryable (Answer (EO_Retryable _ _) _ _ _) = True"
| "retryable _ = False"

fun unauthorized :: "PolicyEvent \<Rightarrow> bool" where
  "unauthorized (Answer EO_Unauthorized _ _ _) = True"
| "unauthorized _ = False"

text \<open>What an event that is no success does to the two counts that end telemetry.\<close>

lemma policy_step_counts:
  assumes "policy_ok p" "\<not> accepted e" "po_stopped (snd (policy_step e p)) = None"
  shows "po_stopped p = None"
    and "unat (po_failures (snd (policy_step e p))) = (if retryable e then 1 else 0) + unat (po_failures p)"
    and "po_refreshed_after_401 (snd (policy_step e p)) \<longleftrightarrow> po_refreshed_after_401 p \<or> unauthorized e"
    and "unauthorized e \<Longrightarrow> \<not> po_refreshed_after_401 p"
proof -
  show stopped: "po_stopped p = None"
    using policy_run_stopped [of p _ "[e]"] assms(3)
    by (cases "po_stopped p") (auto simp: case_prod_unfold Let_def)
  with assms show "unat (po_failures (snd (policy_step e p))) =
      (if retryable e then 1 else 0) + unat (po_failures p)"
    using u32_less_6 [of "po_failures p"]
    by (cases e rule: retryable.cases) (auto simp: policy_defs policy_ok_def case_prod_unfold Let_def split: if_splits)
  show "po_refreshed_after_401 (snd (policy_step e p)) \<longleftrightarrow> po_refreshed_after_401 p \<or> unauthorized e"
    "unauthorized e \<Longrightarrow> \<not> po_refreshed_after_401 p"
    using assms stopped
    by (cases e rule: unauthorized.cases; auto simp: policy_defs case_prod_unfold Let_def split: if_splits)+
qed

lemma policy_run_counts:
  assumes "policy_ok p" "\<And>e. e \<in> set es \<Longrightarrow> \<not> accepted e" "po_stopped (snd (policy_run es p)) = None"
  shows "length (filter retryable es) + unat (po_failures p) < 6 \<and>
    length (filter unauthorized es) + (if po_refreshed_after_401 p then 1 else 0) \<le> 1"
  using assms
proof (induction es arbitrary: p)
  case Nil
  then have "unat (po_failures p) < unat (6 :: u32)"
    unfolding word_less_nat_alt [symmetric] by (simp add: policy_ok_def)
  then show ?case by simp
next
  case (Cons e es)
  let ?p = "snd (policy_step e p)"
  have run: "snd (policy_run (e # es) p) = snd (policy_run es ?p)"
    by (simp add: case_prod_unfold Let_def)
  have step: "po_stopped ?p = None"
    using policy_run_stopped [of ?p _ es] Cons.prems(3) [unfolded run] by (cases "po_stopped ?p") auto
  note counts = policy_step_counts [OF Cons.prems(1) _ step]
  from Cons.IH [of ?p] Cons.prems(2) Cons.prems(3) [unfolded run] policy_step_ok [OF Cons.prems(1), of e]
  have "length (filter retryable es) + unat (po_failures ?p) < 6 \<and>
    length (filter unauthorized es) + (if po_refreshed_after_401 ?p then 1 else 0) \<le> 1"
    by simp
  with counts Cons.prems(2) show ?case by (auto split: if_splits)
qed

text \<open>From any state the policy can be in, six retryable failures or two refused tokens with no
  success between them end telemetry for the page load, whatever other answers, refreshes and stops
  come between; once ended it stays ended for the same reason and never asks to send again.\<close>

theorem policy_gives_up:
  assumes "policy_ok p" and "\<And>e. e \<in> set es \<Longrightarrow> \<not> accepted e"
    and "6 \<le> length (filter retryable es) \<or> 2 \<le> length (filter unauthorized es)"
  shows "\<exists>r. po_stopped (snd (policy_run (es @ later) p)) = Some r \<and>
    po_stopped (snd (policy_run es p)) = Some r \<and> \<not> should_export now (snd (policy_run (es @ later) p))"
proof -
  have append: "snd (policy_run (es @ later) p) = snd (policy_run later (snd (policy_run es p)))"
    by (induction es arbitrary: p) (simp_all add: case_prod_unfold Let_def)
  obtain r where r: "po_stopped (snd (policy_run es p)) = Some r"
    using policy_run_counts [of p es] assms by (cases "po_stopped (snd (policy_run es p))") auto
  with policy_run_stopped [OF r, of later] show ?thesis
    by (auto simp: append should_export_def)
qed

lemma policy_gives_up_witness:
  "\<exists>r. po_stopped (snd (policy_run
     ([Answer EO_Unauthorized 1 (Fin 0) (Fin 0), RefreshDone, Answer (EO_Rejected 400) 1 (Fin 1) (Fin 0),
       Answer EO_Unauthorized 1 (Fin 2) (Fin 0)] @ [Answer EO_Accepted 1 (Fin 3) (Fin 0)]) policy_default)) = Some r"
  using policy_gives_up [of policy_default
     "[Answer EO_Unauthorized 1 (Fin 0) (Fin 0), RefreshDone, Answer (EO_Rejected 400) 1 (Fin 1) (Fin 0),
       Answer EO_Unauthorized 1 (Fin 2) (Fin 0)]" "[Answer EO_Accepted 1 (Fin 3) (Fin 0)]" "Fin 0"]
  by force

section \<open>What is said\<close>

text \<open>A sequence of local lines in which failing and recovery alternate and a stop is the last word.\<close>

fun well_reported :: "bool \<Rightarrow> Transition list \<Rightarrow> bool" where
  "well_reported failing [] = True"
| "well_reported failing (StartedFailing # ts) = (\<not> failing \<and> well_reported True ts)"
| "well_reported failing (Recovered # ts) = (failing \<and> well_reported False ts)"
| "well_reported failing (Stopped _ # ts) = (ts = [])"

lemma policy_step_reports:
  "po_stopped p = None \<Longrightarrow> (case fst (policy_step e p) of
     None \<Rightarrow> po_stopped (snd (policy_step e p)) = None \<and> po_failing (snd (policy_step e p)) = po_failing p
   | Some StartedFailing \<Rightarrow> \<not> po_failing p \<and> po_failing (snd (policy_step e p)) \<and> po_stopped (snd (policy_step e p)) = None
   | Some Recovered \<Rightarrow> po_failing p \<and> \<not> po_failing (snd (policy_step e p)) \<and> po_stopped (snd (policy_step e p)) = None
   | Some (Stopped r) \<Rightarrow> po_stopped (snd (policy_step e p)) = Some r)"
  by (cases e; cases "case e of Answer a _ _ _ \<Rightarrow> a | _ \<Rightarrow> EO_Accepted")
    (auto simp: policy_defs case_prod_unfold Let_def)

lemma policy_step_silent: "po_stopped p \<noteq> None \<Longrightarrow> fst (policy_step e p) = None"
  by (cases e) (auto simp: policy_defs case_prod_unfold Let_def)

lemma policy_run_silent: "po_stopped p \<noteq> None \<Longrightarrow> fst (policy_run es p) = []"
proof (induction es arbitrary: p)
  case (Cons e es)
  then obtain r where "po_stopped p = Some r" by blast
  then have "po_stopped (snd (policy_step e p)) = Some r"
    using policy_run_stopped [of p r "[e]"] by (simp add: case_prod_unfold Let_def)
  with Cons policy_step_silent [of p e] show ?case by (simp add: case_prod_unfold Let_def)
qed simp

lemma policy_run_reports: "po_stopped p = None \<Longrightarrow> well_reported (po_failing p) (fst (policy_run es p))"
proof (induction es arbitrary: p)
  case (Cons e es)
  let ?p = "snd (policy_step e p)"
  have run: "fst (policy_run (e # es) p) =
      (case fst (policy_step e p) of None \<Rightarrow> [] | Some t \<Rightarrow> [t]) @ fst (policy_run es ?p)"
    by (simp add: case_prod_unfold Let_def)
  show ?case
    using policy_step_reports [OF Cons.prems, of e] Cons.IH [of ?p] policy_run_silent [of ?p es]
    by (simp only: run) (auto split: option.splits Transition.splits)
qed simp

text \<open>Whatever answers arrive, the lines the policy asks for are transitions only: a failing line,
  then a recovery, and so on in turn, and at most one stop, which is the last.\<close>

theorem policy_reports_transitions:
  "well_reported False (fst (policy_run es policy_default))"
  using policy_run_reports [of policy_default es] by (simp add: policy_default_def)

section \<open>The lifecycle\<close>

lemma on_config_off: "l = LC_Off r \<Longrightarrow> on_config fetch now_s l = (CO_Off r, l)"
  by (simp add: on_config_def)

text \<open>The failed refreshes of a configured lifecycle stay below the limit, and its token was usable
  when it was handed over.\<close>

fun lifecycle_ok :: "Lifecycle \<Rightarrow> bool" where
  "lifecycle_ok (LC_Configured c failed) = (failed < 6 \<and> (\<exists>now_s. usable_token c now_s \<noteq> None))"
| "lifecycle_ok _ = True"

lemma on_config_ok: "lifecycle_ok l \<Longrightarrow> lifecycle_ok (snd (on_config fetch now_s l))"
  by (cases l; cases fetch) (auto simp: on_config_def settle_def MAX_CONSECUTIVE_FAILURES_def not_le)

lemma expire_ok: "lifecycle_ok l \<Longrightarrow> lifecycle_ok (snd (expire now_ms l))"
  by (cases l) auto

lemma turn_off_ok: "lifecycle_ok l \<Longrightarrow> lifecycle_ok (turn_off reason l)"
  by (simp add: turn_off_def)

lemma on_config_outcome:
  "on_config fetch now_s l = (outcome, l') \<Longrightarrow>
     (is_off l' \<longleftrightarrow> (\<exists>r. outcome = CO_Off r)) \<and>
     (outcome = CO_Configured \<or> outcome = CO_Refreshed \<longrightarrow>
        (\<exists>c. fetch = CF_Configured c \<and> l' = LC_Configured c 0 \<and> usable_token c now_s \<noteq> None)) \<and>
     (outcome = CO_Wait \<longrightarrow> lc_credentials l' = lc_credentials l \<and> fetch = CF_Unavailable) \<and>
     (\<forall>r. outcome = CO_Off r \<longrightarrow> l' = LC_Off r)"
  by (cases l; cases fetch) (auto simp: on_config_def settle_def split: if_splits)

end
