(* ===== verification/Otlp.thy ===== *)
theory Otlp
  imports Hub Text Floats
begin

text \<open>
  The client's spans and log records and their OTLP/JSON form (\<open>frontend/src/telemetry/otlp.rs\<close>,
  \<open>frontend/src/telemetry/span.rs\<close>). A JSON value is a tree; turning it into text is serde_json's.
\<close>

section \<open>Identifiers\<close>

datatype TraceId = TraceId "u8 list"
datatype SpanId = SpanId "u8 list"

definition trace_id_from_random :: "u8 list \<Rightarrow> TraceId" where
  "trace_id_from_random bytes = TraceId (if bytes = replicate 16 0 then bytes[15 := 1] else bytes)"

definition span_id_from_random :: "u8 list \<Rightarrow> SpanId" where
  "span_id_from_random bytes = SpanId (if bytes = replicate 8 0 then bytes[7 := 1] else bytes)"

definition hex :: "u8 list \<Rightarrow> string" where
  "hex bytes = foldl (\<lambda>out byte. out @ [hex_digit (unat byte div 16), hex_digit (unat byte mod 16)]) [] bytes"

fun trace_hex :: "TraceId \<Rightarrow> string" where
  "trace_hex (TraceId bytes) = hex bytes"

fun span_hex :: "SpanId \<Rightarrow> string" where
  "span_hex (SpanId bytes) = hex bytes"

definition traceparent :: "TraceId \<Rightarrow> SpanId \<Rightarrow> string" where
  "traceparent trace_id span_id = ''00-'' @ trace_hex trace_id @ ''-'' @ span_hex span_id @ ''-01''"

section \<open>Spans and log records\<close>

datatype UnixNanos = UnixNanos u64

datatype AnyValue = AV_String string | AV_Int int | AV_Bool bool | AV_Double fp

record KeyValue =
  kv_key :: string
  kv_value :: AnyValue

datatype SpanKind = Internal | Client

record ErrorStatus =
  es_message :: string

record Span =
  sp_trace_id :: TraceId
  sp_span_id :: SpanId
  sp_parent_span_id :: "SpanId option"
  sp_name :: string
  sp_kind :: SpanKind
  sp_start_time_unix_nano :: UnixNanos
  sp_end_time_unix_nano :: UnixNanos
  sp_attributes :: "KeyValue list"
  sp_status :: "ErrorStatus option"

datatype Severity = Sev_Debug | Sev_Info | Sev_Warn | Sev_Error

fun severity_number :: "Severity \<Rightarrow> u8" where
  "severity_number Sev_Debug = 5"
| "severity_number Sev_Info = 9"
| "severity_number Sev_Warn = 13"
| "severity_number Sev_Error = 17"

fun severity_text :: "Severity \<Rightarrow> string" where
  "severity_text Sev_Debug = ''DEBUG''"
| "severity_text Sev_Info = ''INFO''"
| "severity_text Sev_Warn = ''WARN''"
| "severity_text Sev_Error = ''ERROR''"

record LogRecord =
  lr_time :: UnixNanos
  lr_severity :: Severity
  lr_body :: string
  lr_attributes :: "KeyValue list"
  lr_context :: "(TraceId \<times> SpanId) option"

section \<open>The JSON form\<close>

datatype Json =
    J_Bool bool | J_Number nat | J_Double fp | J_String string | J_Array "Json list"
  | J_Object "(string \<times> Json) list"

definition signed_decimal :: "int \<Rightarrow> string" where
  "signed_decimal i = (if i < 0 then CHR ''-'' # decimal (nat (- i)) else decimal (nat i))"

fun nanos_json :: "UnixNanos \<Rightarrow> Json" where
  "nanos_json (UnixNanos n) = J_String (decimal (unat n))"

fun any_value_json :: "AnyValue \<Rightarrow> Json" where
  "any_value_json (AV_String s) = J_Object [(''stringValue'', J_String s)]"
| "any_value_json (AV_Int i) = J_Object [(''intValue'', J_String (signed_decimal i))]"
| "any_value_json (AV_Bool b) = J_Object [(''boolValue'', J_Bool b)]"
| "any_value_json (AV_Double d) = J_Object [(''doubleValue'', J_Double d)]"

definition key_value_json :: "KeyValue \<Rightarrow> Json" where
  "key_value_json kv =
     J_Object [(''key'', J_String (kv_key kv)), (''value'', any_value_json (kv_value kv))]"

fun kind_json :: "SpanKind \<Rightarrow> Json" where
  "kind_json Internal = J_Number 1"
| "kind_json Client = J_Number 3"

definition error_status_json :: "ErrorStatus \<Rightarrow> Json" where
  "error_status_json s = J_Object [(''code'', J_Number 2), (''message'', J_String (es_message s))]"

text \<open>\<open>skip_serializing_if\<close>: an absent option or an empty list leaves no field.\<close>

definition opt_field :: "string \<Rightarrow> ('a \<Rightarrow> Json) \<Rightarrow> 'a option \<Rightarrow> (string \<times> Json) list" where
  "opt_field name f v = (case v of None \<Rightarrow> [] | Some x \<Rightarrow> [(name, f x)])"

definition attributes_field :: "KeyValue list \<Rightarrow> (string \<times> Json) list" where
  "attributes_field kvs = (if kvs = [] then [] else [(''attributes'', J_Array (map key_value_json kvs))])"

definition span_json :: "Span \<Rightarrow> Json" where
  "span_json s = J_Object (
     [(''traceId'', J_String (trace_hex (sp_trace_id s))),
      (''spanId'', J_String (span_hex (sp_span_id s)))] @
     opt_field ''parentSpanId'' (\<lambda>p. J_String (span_hex p)) (sp_parent_span_id s) @
     [(''name'', J_String (sp_name s)),
      (''kind'', kind_json (sp_kind s)),
      (''startTimeUnixNano'', nanos_json (sp_start_time_unix_nano s)),
      (''endTimeUnixNano'', nanos_json (sp_end_time_unix_nano s))] @
     attributes_field (sp_attributes s) @
     opt_field ''status'' error_status_json (sp_status s))"

definition log_json :: "LogRecord \<Rightarrow> Json" where
  "log_json r = J_Object (
     [(''timeUnixNano'', nanos_json (lr_time r)),
      (''severityNumber'', J_Number (unat (severity_number (lr_severity r)))),
      (''severityText'', J_String (severity_text (lr_severity r))),
      (''body'', any_value_json (AV_String (lr_body r)))] @
     attributes_field (lr_attributes r) @
     opt_field ''traceId'' (\<lambda>c. J_String (trace_hex (fst c))) (lr_context r) @
     opt_field ''spanId'' (\<lambda>c. J_String (span_hex (snd c))) (lr_context r))"

definition SDK_VERSION :: string where "SDK_VERSION = ''2''"
definition SERVICE_NAME :: string where "SERVICE_NAME = ''v-note-spa''"
definition SCOPE_NAME :: string where "SCOPE_NAME = ''v-note-spa''"

definition key_string :: "string \<Rightarrow> string \<Rightarrow> KeyValue" where
  "key_string k v = \<lparr>kv_key = k, kv_value = AV_String v\<rparr>"

definition resource_json :: "string \<Rightarrow> Json" where
  "resource_json service_version = J_Object [(''attributes'', J_Array (map key_value_json
     [key_string ''service.name'' SERVICE_NAME,
      key_string ''service.version'' service_version,
      key_string ''telemetry.sdk.name'' ''v-note-spa-otlp'',
      key_string ''telemetry.sdk.language'' ''rust'',
      key_string ''telemetry.sdk.version'' SDK_VERSION]))]"

definition scope_json :: Json where
  "scope_json = J_Object [(''name'', J_String SCOPE_NAME), (''version'', J_String SDK_VERSION)]"

definition traces_json :: "Span list \<Rightarrow> string \<Rightarrow> Json" where
  "traces_json spans service_version = (J_Object [(''resourceSpans'', J_Array [J_Object
     [(''resource'', resource_json service_version),
      (''scopeSpans'', J_Array [J_Object
         [(''scope'', scope_json), (''spans'', J_Array (map span_json spans))]])]])])"

definition logs_json :: "LogRecord list \<Rightarrow> string \<Rightarrow> Json" where
  "logs_json records service_version = (J_Object [(''resourceLogs'', J_Array [J_Object
     [(''resource'', resource_json service_version),
      (''scopeLogs'', J_Array [J_Object
         [(''scope'', scope_json), (''logRecords'', J_Array (map log_json records))]])]])])"

definition traces_request :: "(Json \<Rightarrow> string) \<Rightarrow> Span list \<Rightarrow> string \<Rightarrow> string" where
  "traces_request to_string spans service_version = to_string (traces_json spans service_version)"

definition logs_request :: "(Json \<Rightarrow> string) \<Rightarrow> LogRecord list \<Rightarrow> string \<Rightarrow> string" where
  "logs_request to_string records service_version = to_string (logs_json records service_version)"

section \<open>Open spans\<close>

record Location =
  lo_file :: string
  lo_line :: u32

text \<open>\<open>str::split_once\<close>: around the first occurrence of a non-empty pattern.\<close>

fun split_once :: "string \<Rightarrow> string \<Rightarrow> (string \<times> string) option" where
  "split_once pat [] = None"
| "split_once pat (c # s) =
     (if prefix pat (c # s) then Some ([], drop (length pat) (c # s))
      else map_option (\<lambda>(a, b). (c # a, b)) (split_once pat s))"

definition DEPENDENCY_ROOTS :: "string list" where
  "DEPENDENCY_ROOTS = [''/registry/src/'', ''/git/checkouts/'']"

fun stable_path_in :: "string list \<Rightarrow> string \<Rightarrow> string" where
  "stable_path_in [] file = file"
| "stable_path_in (dir # dirs) file = (case split_once dir file of
     Some (_, rest) \<Rightarrow>
       if dir = ''/registry/src/'' then (case split_once ''/'' rest of None \<Rightarrow> rest | Some (_, krate) \<Rightarrow> krate)
       else rest
   | None \<Rightarrow> stable_path_in dirs file)"

definition stable_path :: "string \<Rightarrow> string" where
  "stable_path file = stable_path_in DEPENDENCY_ROOTS file"

definition code_location :: "Location \<Rightarrow> KeyValue list" where
  "code_location location =
     [\<lparr>kv_key = ''code.file.path'', kv_value = AV_String (stable_path (lo_file location))\<rparr>,
      \<lparr>kv_key = ''code.line.number'', kv_value = AV_Int (uint (lo_line location))\<rparr>]"

definition panic_attributes :: "Location option \<Rightarrow> KeyValue list" where
  "panic_attributes location =
     \<lparr>kv_key = ''exception.type'', kv_value = AV_String ''panic''\<rparr>
     # (case location of None \<Rightarrow> [] | Some l \<Rightarrow> code_location l)"

record Parent =
  pa_trace_id :: TraceId
  pa_span_id :: SpanId

record OpenSpan =
  os_parent :: Parent
  os_id :: SpanId
  os_name :: string
  os_kind :: SpanKind
  os_start :: UnixNanos
  os_attributes :: "KeyValue list"

definition open_span :: "Parent \<Rightarrow> SpanId \<Rightarrow> string \<Rightarrow> SpanKind \<Rightarrow> UnixNanos \<Rightarrow> Location \<Rightarrow> OpenSpan" where
  "open_span parent sid name kind start location =
     \<lparr>os_parent = parent, os_id = sid, os_name = name, os_kind = kind, os_start = start,
      os_attributes = code_location location\<rparr>"

definition span_attr :: "string \<Rightarrow> AnyValue \<Rightarrow> OpenSpan \<Rightarrow> OpenSpan" where
  "span_attr key v s = s\<lparr>os_attributes := os_attributes s @ [\<lparr>kv_key = key, kv_value = v\<rparr>]\<rparr>"

definition span_context :: "OpenSpan \<Rightarrow> Parent" where
  "span_context s = \<lparr>pa_trace_id = pa_trace_id (os_parent s), pa_span_id = os_id s\<rparr>"

definition span_finish :: "OpenSpan \<Rightarrow> UnixNanos \<Rightarrow> ErrorStatus option \<Rightarrow> Span" where
  "span_finish s finish status =
     \<lparr>sp_trace_id = pa_trace_id (os_parent s), sp_span_id = os_id s,
      sp_parent_span_id = Some (pa_span_id (os_parent s)), sp_name = os_name s, sp_kind = os_kind s,
      sp_start_time_unix_nano = os_start s, sp_end_time_unix_nano = finish,
      sp_attributes = os_attributes s, sp_status = status\<rparr>"

section \<open>Identifiers are valid\<close>

lemma hex_foldl: "foldl (\<lambda>out byte. out @ f byte) acc bytes = acc @ concat (map f bytes)"
  by (induction bytes arbitrary: acc) simp_all

lemma hex_random_hex: "hex bytes = random_hex bytes"
  by (simp add: hex_def random_hex_def hex_foldl)

lemma hex_inject [simp]: "hex a = hex b \<longleftrightarrow> a = b"
  using random_hex_injective [of a b] by (simp add: hex_random_hex)

lemma hex_length [simp]: "length (hex a) = 2 * length a"
  using random_hex_injective [of a a] by (simp add: hex_random_hex)

definition lower_hex :: "char \<Rightarrow> bool" where
  "lower_hex c \<longleftrightarrow> c \<in> set ''0123456789abcdef''"

lemma hex_digit_lower: "n < 16 \<Longrightarrow> lower_hex (hex_digit n)"
proof -
  have "list_all (\<lambda>n. lower_hex (hex_digit n)) [0..<16]" by code_simp
  then show "n < 16 \<Longrightarrow> lower_hex (hex_digit n)" by (auto simp: list_all_iff)
qed

lemma hex_lower: "list_all lower_hex (hex bytes)"
proof (induction bytes)
  case (Cons b bytes)
  have "unat b < 256" using unsigned_less [of b] by simp
  then have "unat b div 16 < 16" by (simp add: less_mult_imp_div_less)
  with Cons show ?case by (simp add: hex_random_hex random_hex_Cons hex_digit_lower)
qed (simp add: hex_def)

lemma char_of_48: "char_of (48 :: nat) = CHR ''0''"
  by code_simp

lemma hex_zeros: "hex (replicate n 0) = replicate (2 * n) (CHR ''0'')"
  by (induction n) (simp_all add: hex_random_hex random_hex_Cons hex_digit_def char_of_48, simp add: random_hex_def)

lemma hex_nonzero: "bytes \<noteq> replicate n 0 \<Longrightarrow> hex bytes \<noteq> replicate (2 * n) (CHR ''0'')"
  unfolding hex_zeros [symmetric] by simp

text \<open>The identifiers the telemetry works with: full width and not all zero.\<close>

fun valid_trace_id :: "TraceId \<Rightarrow> bool" where
  "valid_trace_id (TraceId bytes) = (length bytes = 16 \<and> bytes \<noteq> replicate 16 0)"

fun valid_span_id :: "SpanId \<Rightarrow> bool" where
  "valid_span_id (SpanId bytes) = (length bytes = 8 \<and> bytes \<noteq> replicate 8 0)"

lemma from_random_differs: "0 < n \<Longrightarrow> (replicate n (0 :: u8))[n - 1 := 1] \<noteq> replicate n 0"
proof
  assume n: "0 < n" and eq: "(replicate n (0 :: u8))[n - 1 := 1] = replicate n 0"
  from n have "(replicate n (0 :: u8))[n - 1 := 1] ! (n - 1) = 1" by simp
  with n show False by (simp only: eq) simp
qed

lemma trace_id_valid: "length bytes = 16 \<Longrightarrow> valid_trace_id (trace_id_from_random bytes)"
  using from_random_differs [of 16] by (auto simp: trace_id_from_random_def)

lemma span_id_valid: "length bytes = 8 \<Longrightarrow> valid_span_id (span_id_from_random bytes)"
  using from_random_differs [of 8] by (auto simp: span_id_from_random_def)

text \<open>A version 00 \<open>traceparent\<close> of W3C Trace Context, sampled.\<close>

definition valid_traceparent :: "string \<Rightarrow> bool" where
  "valid_traceparent s \<longleftrightarrow> length s = 55 \<and>
     take 3 s = ''00-'' \<and> s ! 35 = CHR ''-'' \<and> drop 52 s = ''-01'' \<and>
     list_all lower_hex (take 32 (drop 3 s)) \<and> take 32 (drop 3 s) \<noteq> replicate 32 (CHR ''0'') \<and>
     list_all lower_hex (take 16 (drop 36 s)) \<and> take 16 (drop 36 s) \<noteq> replicate 16 (CHR ''0'')"

lemma traceparent_parts:
  assumes "length t = 32" "length p = 16" "s = ''00-'' @ t @ ''-'' @ p @ ''-01''"
  shows "length s = 55" "take 3 s = ''00-''" "take 32 (drop 3 s) = t" "s ! 35 = CHR ''-''"
    "take 16 (drop 36 s) = p" "drop 52 s = ''-01''"
  using assms by (simp_all add: nth_append)

lemma traceparent_wellformed:
  assumes "valid_trace_id t" "valid_span_id p"
  shows "valid_traceparent (traceparent t p)"
proof -
  obtain a b where ab: "t = TraceId a" "p = SpanId b" by (cases t; cases p) auto
  with assms have len: "length (hex a) = 32" "length (hex b) = 16"
    and nz: "hex a \<noteq> replicate 32 (CHR ''0'')" "hex b \<noteq> replicate 16 (CHR ''0'')"
    using hex_nonzero [of a 16] hex_nonzero [of b 8] by auto
  note parts = traceparent_parts [OF len, of "traceparent t p", unfolded traceparent_def ab trace_hex.simps span_hex.simps, OF refl]
  show ?thesis
    unfolding valid_traceparent_def ab traceparent_def trace_hex.simps span_hex.simps parts
    using nz hex_lower by simp
qed

text \<open>C33. Whatever bytes the random source gives, all zeros included, the client's trace and span ids
  have their full width and are not the invalid all-zero id, the \<open>traceparent\<close> built from them is a
  well-formed sampled one, and it names exactly those ids.\<close>

theorem identifiers_valid:
  assumes "length a = 16" "length b = 8"
  shows "valid_trace_id (trace_id_from_random a) \<and> valid_span_id (span_id_from_random b) \<and>
    valid_traceparent (traceparent (trace_id_from_random a) (span_id_from_random b)) \<and>
    (\<forall>t p. valid_trace_id t \<longrightarrow> valid_span_id p \<longrightarrow>
       traceparent t p = traceparent (trace_id_from_random a) (span_id_from_random b) \<longrightarrow>
       t = trace_id_from_random a \<and> p = span_id_from_random b)"
proof -
  have "t = t' \<and> p = p'"
    if "valid_trace_id t" "valid_trace_id t'" "traceparent t p = traceparent t' p'" for t t' p p'
    using that by (cases t; cases t'; cases p; cases p') (auto simp: traceparent_def)
  with trace_id_valid [OF assms(1)] span_id_valid [OF assms(2)] traceparent_wellformed show ?thesis
    by blast
qed

lemma identifiers_valid_witness:
  "valid_traceparent (traceparent (trace_id_from_random (replicate 16 0)) (span_id_from_random (replicate 8 0)))"
  using identifiers_valid [of "replicate 16 0" "replicate 8 0"] by simp

section \<open>The wire form loses nothing\<close>

definition undecimal :: "string \<Rightarrow> nat" where
  "undecimal s = foldl (\<lambda>acc c. acc * 10 + (of_char c - 48)) 0 s"

lemma undecimal_decimal: "undecimal (decimal n) = n"
proof (induction n rule: decimal.induct)
  case (1 n)
  then show ?case
    by (subst decimal.simps) (auto simp: undecimal_def)
qed

lemma decimal_inject [simp]: "decimal m = decimal n \<longleftrightarrow> m = n"
  by (metis undecimal_decimal)

lemma digit_no_sign: "n < 10 \<Longrightarrow> char_of (48 + n :: nat) \<noteq> CHR ''-''"
  by (auto dest: arg_cong [where f = "of_char :: char \<Rightarrow> nat"])

lemma decimal_no_sign: "decimal n \<noteq> CHR ''-'' # s"
proof (induction n arbitrary: s rule: decimal.induct)
  case (1 n)
  show ?case
  proof (cases "n < 10")
    case True
    then show ?thesis using digit_no_sign [OF True] by (subst decimal.simps) auto
  next
    case False
    then show ?thesis
      using 1 [OF False] digit_no_sign [of "n mod 10"]
      by (subst decimal.simps) (cases "decimal (n div 10)"; auto)
  qed
qed

lemma signed_decimal_inject [simp]: "signed_decimal i = signed_decimal j \<longleftrightarrow> i = j"
  using decimal_no_sign [of "nat i" "decimal (nat (- j))"] decimal_no_sign [of "nat j" "decimal (nat (- i))"]
  by (auto simp: signed_decimal_def)

lemma any_value_json_inject [simp]: "any_value_json a = any_value_json b \<longleftrightarrow> a = b"
  by (cases a; cases b) auto

lemma key_value_json_inject [simp]: "key_value_json a = key_value_json b \<longleftrightarrow> a = b"
  by (cases a; cases b) (auto simp: key_value_json_def)

lemma key_values_json_inject [simp]: "map key_value_json a = map key_value_json b \<longleftrightarrow> a = b"
  by (rule inj_map_eq_map) (simp add: inj_def)

lemma kind_json_inject [simp]: "kind_json a = kind_json b \<longleftrightarrow> a = b"
  by (cases a; cases b) auto

lemma nanos_json_inject [simp]: "nanos_json a = nanos_json b \<longleftrightarrow> a = b"
  by (cases a; cases b) (auto simp: word_unat_eq_iff)

lemma trace_hex_inject [simp]: "trace_hex a = trace_hex b \<longleftrightarrow> a = b"
  by (cases a; cases b) auto

lemma span_hex_inject [simp]: "span_hex a = span_hex b \<longleftrightarrow> a = b"
  by (cases a; cases b) auto

lemma error_status_json_inject [simp]: "error_status_json a = error_status_json b \<longleftrightarrow> a = b"
  by (cases a; cases b) (auto simp: error_status_json_def)

lemma severity_number_inject [simp]: "severity_number a = severity_number b \<longleftrightarrow> a = b"
  by (cases a; cases b) auto

lemma opt_field_eq [simp]:
  assumes "\<And>x y. f x = f y \<longleftrightarrow> x = y"
  shows "opt_field k f u = opt_field k f v \<longleftrightarrow> u = v"
  using assms by (auto simp: opt_field_def split: option.splits)

lemma attributes_field_eq [simp]: "attributes_field a = attributes_field b \<longleftrightarrow> a = b"
  by (auto simp: attributes_field_def)

text \<open>Fields of an object whose names do not occur elsewhere can be told apart.\<close>

definition named :: "string set \<Rightarrow> (string \<times> Json) list \<Rightarrow> bool" where
  "named ks fs \<longleftrightarrow> fst ` set fs \<subseteq> ks"

lemma fields_split:
  assumes "a @ r = b @ s" "named ks a" "named ks b" "named ls r" "named ls s" "ks \<inter> ls = {}"
  shows "a = b \<and> r = s"
proof -
  have f: "filter (\<lambda>p. fst p \<in> ks) (x @ y) = x" if "named ks x" "named ls y" for x y
  proof -
    have "filter (\<lambda>p. fst p \<in> ks) x = x" "filter (\<lambda>p. fst p \<in> ks) y = []"
      using that assms(6) by (auto simp: named_def filter_id_conv filter_empty_conv)
    then show ?thesis by simp
  qed
  then have "a = b" using f [OF assms(2,4)] f [OF assms(3,5)] assms(1) by metis
  with assms(1) show ?thesis by simp
qed

lemma named_append [simp]: "named ks (a @ b) \<longleftrightarrow> named ks a \<and> named ks b"
  by (auto simp: named_def)

lemma named_Cons [simp]: "named ks (p # b) \<longleftrightarrow> fst p \<in> ks \<and> named ks b"
  by (auto simp: named_def)

lemma named_Nil [simp]: "named ks []"
  by (simp add: named_def)

lemma named_opt_field [simp]: "k \<in> ks \<Longrightarrow> named ks (opt_field k f v)"
  by (auto simp: named_def opt_field_def split: option.splits)

lemma named_attributes_field [simp]: "''attributes'' \<in> ks \<Longrightarrow> named ks (attributes_field a)"
  by (auto simp: named_def attributes_field_def)

lemma span_tail_inject:
  assumes "attributes_field a @ opt_field ''status'' error_status_json u =
    attributes_field b @ opt_field ''status'' error_status_json v"
  shows "a = b \<and> u = v"
  using fields_split [OF assms, of "{''attributes''}" "{''status''}"] by simp

lemma log_tail_inject:
  assumes "attributes_field a @ opt_field ''traceId'' f u @ opt_field ''spanId'' g u =
    attributes_field b @ opt_field ''traceId'' f v @ opt_field ''spanId'' g v"
    and "\<And>x y. f x = f y \<and> g x = g y \<Longrightarrow> x = y"
  shows "a = b \<and> u = v"
proof -
  have *: "a = b \<and> opt_field ''traceId'' f u @ opt_field ''spanId'' g u =
      opt_field ''traceId'' f v @ opt_field ''spanId'' g v"
    using fields_split [OF assms(1), of "{''attributes''}" "{''traceId'', ''spanId''}"] by simp
  then show ?thesis
    using assms(2) by (auto simp: opt_field_def split: option.splits)
qed

lemma span_json_inject: "span_json s = span_json t \<Longrightarrow> s = t"
proof -
  assume eq: "span_json s = span_json t"
  let ?tail = "\<lambda>s. [(''name'', J_String (sp_name s)), (''kind'', kind_json (sp_kind s)),
      (''startTimeUnixNano'', nanos_json (sp_start_time_unix_nano s)),
      (''endTimeUnixNano'', nanos_json (sp_end_time_unix_nano s))] @
     attributes_field (sp_attributes s) @ opt_field ''status'' error_status_json (sp_status s)"
  let ?parent = "\<lambda>s. opt_field ''parentSpanId'' (\<lambda>p. J_String (span_hex p)) (sp_parent_span_id s)"
  have "sp_trace_id s = sp_trace_id t" "sp_span_id s = sp_span_id t"
    and rest: "?parent s @ ?tail s = ?parent t @ ?tail t"
    using eq by (simp_all add: span_json_def)
  moreover have "?parent s = ?parent t \<and> ?tail s = ?tail t"
    by (rule fields_split [OF rest, of "{''parentSpanId''}"
          "{''name'', ''kind'', ''startTimeUnixNano'', ''endTimeUnixNano'', ''attributes'', ''status''}"])
      simp_all
  ultimately show "s = t"
    using span_tail_inject [of "sp_attributes s" "sp_status s" "sp_attributes t" "sp_status t"]
    by (cases s; cases t) auto
qed

lemma log_json_inject: "log_json r = log_json q \<Longrightarrow> r = q"
  using log_tail_inject [of "lr_attributes r" "\<lambda>c. J_String (trace_hex (fst c))" "lr_context r"
      "\<lambda>c. J_String (span_hex (snd c))" "lr_attributes q" "lr_context q"]
  by (cases r; cases q) (auto simp: log_json_def prod_eq_iff unat_eq_nat_uint [symmetric] word_unat_eq_iff [symmetric])


section \<open>Source paths\<close>

lemma split_once_first:
  assumes "pat \<noteq> []" "\<And>n. n < length a \<Longrightarrow> \<not> prefix pat (drop n (a @ pat @ b))"
  shows "split_once pat (a @ pat @ b) = Some (a, b)"
  using assms(2)
proof (induction a)
  case Nil
  then show ?case using assms(1) by (cases pat) auto
next
  case (Cons c a)
  have "\<not> prefix pat (c # a @ pat @ b)" using Cons.prems [of 0] by simp
  moreover have "split_once pat (a @ pat @ b) = Some (a, b)"
    using Cons.prems [of "Suc n" for n] by (intro Cons.IH) simp
  ultimately show ?case by simp
qed

text \<open>A registry path names the same file whatever host built the bundle.\<close>

lemma stable_path_registry:
  assumes "\<And>n. n < length host \<Longrightarrow> \<not> prefix ''/registry/src/'' (drop n (host @ ''/registry/src/'' @ index @ ''/'' @ krate))"
    and "CHR ''/'' \<notin> set index"
  shows "stable_path (host @ ''/registry/src/'' @ index @ ''/'' @ krate) = krate"
proof -
  have "split_once ''/registry/src/'' (host @ ''/registry/src/'' @ index @ ''/'' @ krate) = Some (host, index @ ''/'' @ krate)"
    by (rule split_once_first) (use assms(1) in simp_all)
  moreover have "split_once ''/'' (index @ ''/'' @ krate) = Some (index, krate)"
  proof (rule split_once_first)
    show "\<not> prefix ''/'' (drop n (index @ ''/'' @ krate))" if "n < length index" for n
      using that assms(2) nth_mem [OF that]
      by (auto simp: Cons_nth_drop_Suc [symmetric] prefix_def simp del: nth_mem)
  qed simp
  ultimately show ?thesis by (simp add: stable_path_def DEPENDENCY_ROOTS_def)
qed

end
