(* ===== verification/Exporter.thy ===== *)
theory Exporter
  imports Outbox Otlp Protocol
begin

text \<open>
  The client's telemetry as it runs (\<open>frontend/src/telemetry.rs\<close>): the shared state, the export loop
  and the tasks that interleave with it at every \<open>await\<close>. A \<open>World\<close> is that state, the console, the
  requests handed to the browser, and the tasks that wait for an answer; an event is one stretch of
  code between two waits. Clocks, random numbers, answers and the JSON text are inputs.
\<close>

section \<open>State\<close>

record Pending =
  pe_body :: string
  pe_items :: nat
  pe_attempts :: u32

record Telemetry =
  ts_trace_id :: TraceId
  ts_root :: SpanId
  ts_spans :: "Span Outbox"
  ts_logs :: "LogRecord Outbox"
  ts_lifecycle :: Lifecycle
  ts_policy :: ExportPolicy
  ts_retry_spans :: "Pending option"
  ts_retry_logs :: "Pending option"
  ts_dropped_after_send :: u64
  ts_overflow_reported :: bool
  ts_exporting :: bool
  ts_fetching_config :: bool
  ts_signed_in :: bool

definition total_dropped :: "Telemetry \<Rightarrow> u64" where
  "total_dropped s = ob_dropped (ts_spans s) + ob_dropped (ts_logs s) + ts_dropped_after_send s"

definition discard_everything :: "Telemetry \<Rightarrow> Telemetry" where
  "discard_everything s = s\<lparr>ts_spans := outbox_clear (ts_spans s), ts_logs := outbox_clear (ts_logs s),
     ts_retry_spans := None, ts_retry_logs := None\<rparr>"

definition telemetry_init :: "u8 list \<Rightarrow> u8 list \<Rightarrow> fp \<Rightarrow> Telemetry" where
  "telemetry_init trace_bytes root_bytes now_ms =
     \<lparr>ts_trace_id = trace_id_from_random trace_bytes, ts_root = span_id_from_random root_bytes,
      ts_spans = outbox_new PRE_CONFIG_CAPACITY, ts_logs = outbox_new PRE_CONFIG_CAPACITY,
      ts_lifecycle = lifecycle_new now_ms, ts_policy = policy_default,
      ts_retry_spans = None, ts_retry_logs = None, ts_dropped_after_send = 0,
      ts_overflow_reported = False, ts_exporting = False, ts_fetching_config = False,
      ts_signed_in = False\<rparr>"

text \<open>A request handed to \<open>fetch\<close>, and the batch an export waits on.\<close>

record SentRequest =
  sr_url :: string
  sr_token :: string
  sr_body :: string
  sr_keepalive :: bool

record Batch =
  ba_signal :: Signal
  ba_url :: string
  ba_token :: string
  ba_body :: string
  ba_items :: nat
  ba_attempts :: u32

datatype Origin = ByLoop | BySpawn
datatype Spawned = SpawnRefresh | SpawnExport
datatype LoopState = Sleeping | Awaiting | LoopDone

record ExportTask =
  xt_origin :: Origin
  xt_batch :: Batch
  xt_rest :: "Signal list"

record World =
  we_state :: Telemetry
  we_console :: "(Severity \<times> string) list"
  we_sent :: "SentRequest list"
  we_loop :: LoopState
  we_spawned :: "Spawned list"
  we_fetches :: "Origin list"
  we_exports :: "ExportTask list"

record TelEnv =
  tn_to_string :: "Json \<Rightarrow> string"
  tn_release :: "string option"
  tn_package_version :: string

text \<open>The times one stretch of the exporter reads: on waking, at the gate, before each signal.\<close>

record Clock =
  ck_now :: fp
  ck_gate :: fp
  ck_traces :: fp
  ck_logs :: fp

definition console :: "Severity \<Rightarrow> string \<Rightarrow> World \<Rightarrow> World" where
  "console severity message w = w\<lparr>we_console := we_console w @ [(severity, message)]\<rparr>"

definition with_state :: "(Telemetry \<Rightarrow> Telemetry) \<Rightarrow> World \<Rightarrow> World" where
  "with_state f w = w\<lparr>we_state := f (we_state w)\<rparr>"

definition release_version :: "TelEnv \<Rightarrow> string" where
  "release_version env = (case tn_release env of
     Some release \<Rightarrow> if release \<noteq> [] then release else tn_package_version env
   | None \<Rightarrow> tn_package_version env)"

definition seconds_of :: "fp \<Rightarrow> fp" where
  "seconds_of now_ms = fp_div f64 now_ms (Fin 1000)"

section \<open>Stopping\<close>

fun stop_level :: "OffReason \<Rightarrow> Severity" where
  "stop_level OR_Unauthorized = Sev_Warn"
| "stop_level OR_GaveUp = Sev_Warn"
| "stop_level _ = Sev_Info"

definition stop :: "OffReason \<Rightarrow> World \<Rightarrow> World" where
  "stop reason w =
     (let s = we_state w in
      if is_off (ts_lifecycle s) \<and> po_stopped (ts_policy s) \<noteq> None then w
      else
        (let was_off = is_off (ts_lifecycle s);
             (transition, policy) = policy_stop reason (ts_policy s);
             s = s\<lparr>ts_lifecycle := turn_off reason (ts_lifecycle s), ts_policy := policy\<rparr>;
             dropped = total_dropped s;
             w = w\<lparr>we_state := discard_everything s\<rparr>
         in if \<not> was_off \<or> transition \<noteq> None
            then console (stop_level reason)
              (''client telemetry off for this page: '' @ describe_reason reason @ ''; '' @
               decimal (unat dropped) @ '' item(s) dropped'') w
            else w))"

section \<open>Configuration\<close>

type_synonym ConfigAnswer = "(u16 \<times> TelemetryConfigResponse option) option"

definition fetch_config :: "ConfigAnswer \<Rightarrow> ConfigFetch" where
  "fetch_config answer = (case answer of
     None \<Rightarrow> CF_Unavailable
   | Some (status, body) \<Rightarrow>
       if status = 200 then
         (case body of
            Some config \<Rightarrow>
              if tc_endpoint config \<noteq> [] then
                CF_Configured \<lparr>cr_endpoint = tc_endpoint config, cr_access_token = tc_access_token config,
                  cr_expires_at = fround f64 (of_nat (unat (tc_expires_at config)))\<rparr>
              else CF_Unavailable
          | None \<Rightarrow> CF_Unavailable)
       else if status = 204 \<or> status = 404 then CF_Absent
       else if status = 401 then CF_SignedOut
       else CF_Unavailable)"

definition loop_wakes :: "Origin \<Rightarrow> World \<Rightarrow> World" where
  "loop_wakes origin w = (if origin = ByLoop then w\<lparr>we_loop := Sleeping\<rparr> else w)"

definition loop_waits :: "Origin \<Rightarrow> World \<Rightarrow> World" where
  "loop_waits origin w = (if origin = ByLoop then w\<lparr>we_loop := Awaiting\<rparr> else w)"

definition refresh_begin :: "Origin \<Rightarrow> World \<Rightarrow> World" where
  "refresh_begin origin w =
     (let s = we_state w in
      if ts_fetching_config s \<or> is_off (ts_lifecycle s) then w
      else loop_waits origin
             (w\<lparr>we_state := s\<lparr>ts_fetching_config := True\<rparr>, we_fetches := we_fetches w @ [origin]\<rparr>))"

definition refresh_end :: "Origin \<Rightarrow> ConfigFetch \<Rightarrow> fp \<Rightarrow> World \<Rightarrow> World" where
  "refresh_end origin fetch now_ms w =
     (let endpoint = (case fetch of CF_Configured c \<Rightarrow> cr_endpoint c | _ \<Rightarrow> []);
          s = (we_state w)\<lparr>ts_fetching_config := False\<rparr>;
          (outcome, lifecycle) = on_config fetch (seconds_of now_ms) (ts_lifecycle s);
          s = s\<lparr>ts_lifecycle := lifecycle\<rparr>;
          s = (if outcome = CO_Configured \<or> outcome = CO_Refreshed
               then s\<lparr>ts_policy := policy_refreshed (ts_policy s),
                      ts_spans := set_capacity CAPACITY (ts_spans s),
                      ts_logs := set_capacity CAPACITY (ts_logs s)\<rparr>
               else s);
          w = w\<lparr>we_state := s\<rparr>;
          w = (case outcome of
                 CO_Configured \<Rightarrow> console Sev_Info (''client telemetry: exporting to '' @ endpoint) w
               | CO_Off reason \<Rightarrow> stop reason w
               | _ \<Rightarrow> w)
      in loop_wakes origin w)"

definition set_session :: "bool \<Rightarrow> World \<Rightarrow> World" where
  "set_session signed_in w =
     (if \<not> signed_in then stop OR_SignedOut w
      else (with_state (\<lambda>s. s\<lparr>ts_signed_in := True\<rparr>) w)\<lparr>we_spawned := we_spawned w @ [SpawnRefresh]\<rparr>)"

section \<open>Recording\<close>

definition span_handle_finish :: "OpenSpan \<Rightarrow> UnixNanos \<Rightarrow> ErrorStatus option \<Rightarrow> World \<Rightarrow> World" where
  "span_handle_finish handle now status =
     with_state (\<lambda>s. if is_off (ts_lifecycle s) then s
       else s\<lparr>ts_spans := outbox_push (span_finish handle now status) (ts_spans s)\<rparr>)"

definition screen :: "World \<Rightarrow> Parent" where
  "screen w = \<lparr>pa_trace_id = ts_trace_id (we_state w), pa_span_id = ts_root (we_state w)\<rparr>"

definition screen_span :: "TraceId \<Rightarrow> SpanId \<Rightarrow> string \<Rightarrow> string \<Rightarrow> UnixNanos \<Rightarrow> Location \<Rightarrow> Span" where
  "screen_span trace_id span_id name route start location =
     \<lparr>sp_trace_id = trace_id, sp_span_id = span_id, sp_parent_span_id = None, sp_name = name,
      sp_kind = Internal, sp_start_time_unix_nano = start, sp_end_time_unix_nano = start,
      sp_attributes = code_location location @ [key_string ''vnote.route'' route], sp_status = None\<rparr>"

definition start_screen ::
  "u8 list \<Rightarrow> u8 list \<Rightarrow> string \<Rightarrow> string \<Rightarrow> UnixNanos \<Rightarrow> Location \<Rightarrow> World \<Rightarrow> World" where
  "start_screen trace_bytes root_bytes name route start location =
     with_state (\<lambda>s.
       let trace_id = trace_id_from_random trace_bytes; span_id = span_id_from_random root_bytes;
           s = s\<lparr>ts_trace_id := trace_id, ts_root := span_id\<rparr>
       in if is_off (ts_lifecycle s) then s
          else s\<lparr>ts_spans := outbox_push (screen_span trace_id span_id name route start location) (ts_spans s)\<rparr>)"

definition push_log :: "Parent \<Rightarrow> Severity \<Rightarrow> string \<Rightarrow> KeyValue list \<Rightarrow> UnixNanos \<Rightarrow> World \<Rightarrow> World" where
  "push_log context severity message attributes time w =
     console severity message
       (with_state (\<lambda>s. if is_off (ts_lifecycle s) then s
          else s\<lparr>ts_logs := outbox_push
            \<lparr>lr_time = time, lr_severity = severity, lr_body = message, lr_attributes = attributes,
             lr_context = Some (pa_trace_id context, pa_span_id context)\<rparr> (ts_logs s)\<rparr>) w)"

definition log_at ::
  "Location \<Rightarrow> Parent \<Rightarrow> Severity \<Rightarrow> string \<Rightarrow> KeyValue list \<Rightarrow> UnixNanos \<Rightarrow> World \<Rightarrow> World" where
  "log_at location context severity message attributes time =
     push_log context severity message (attributes @ code_location location) time"

section \<open>Exporting\<close>

definition set_retry :: "Signal \<Rightarrow> Pending option \<Rightarrow> Telemetry \<Rightarrow> Telemetry" where
  "set_retry signal pending s = (case signal of
     Traces \<Rightarrow> s\<lparr>ts_retry_spans := pending\<rparr> | Logs \<Rightarrow> s\<lparr>ts_retry_logs := pending\<rparr>)"

definition retry_of :: "Signal \<Rightarrow> Telemetry \<Rightarrow> Pending option" where
  "retry_of signal s = (case signal of Traces \<Rightarrow> ts_retry_spans s | Logs \<Rightarrow> ts_retry_logs s)"

definition fresh_body :: "TelEnv \<Rightarrow> Signal \<Rightarrow> Telemetry \<Rightarrow> (string \<times> nat) option \<times> Telemetry" where
  "fresh_body env signal s = (case signal of
     Traces \<Rightarrow> (let (spans, q) = take_batch MAX_BATCH (ts_spans s); s = s\<lparr>ts_spans := q\<rparr>
       in (if spans = [] then None
           else Some (traces_request (tn_to_string env) spans (release_version env), length spans), s))
   | Logs \<Rightarrow> (let (logs, q) = take_batch MAX_BATCH (ts_logs s); s = s\<lparr>ts_logs := q\<rparr>
       in (if logs = [] then None
           else Some (logs_request (tn_to_string env) logs (release_version env), length logs), s)))"

definition next_batch :: "TelEnv \<Rightarrow> Signal \<Rightarrow> fp \<Rightarrow> Telemetry \<Rightarrow> Batch option \<times> Telemetry" where
  "next_batch env signal now_s s = (case lc_credentials (ts_lifecycle s) of
     None \<Rightarrow> (None, s)
   | Some c \<Rightarrow> (case usable_token c now_s of
       None \<Rightarrow> (None, s)
     | Some token \<Rightarrow>
         (let batch = (\<lambda>body items attempts.
                \<lparr>ba_signal = signal, ba_url = credentials_url c signal, ba_token = token, ba_body = body,
                 ba_items = items, ba_attempts = attempts + 1\<rparr>)
          in case retry_of signal s of
               Some p \<Rightarrow> (Some (batch (pe_body p) (pe_items p) (pe_attempts p)), set_retry signal None s)
             | None \<Rightarrow> (case fresh_body env signal s of
                 (None, s) \<Rightarrow> (None, s)
               | (Some (body, items), s) \<Rightarrow> (Some (batch body items 0), s)))))"

definition send :: "string \<Rightarrow> string \<Rightarrow> string \<Rightarrow> bool \<Rightarrow> World \<Rightarrow> World" where
  "send url token body keepalive w =
     w\<lparr>we_sent := we_sent w @ [\<lparr>sr_url = url, sr_token = token, sr_body = body, sr_keepalive = keepalive\<rparr>]\<rparr>"

definition export_finish :: "Origin \<Rightarrow> World \<Rightarrow> World" where
  "export_finish origin w =
     (let w = with_state (\<lambda>s. s\<lparr>ts_exporting := False\<rparr>) w;
          w = (case po_stopped (ts_policy (we_state w)) of Some reason \<Rightarrow> stop reason w | None \<Rightarrow> w)
      in loop_wakes origin w)"

fun signal_time :: "Clock \<Rightarrow> Signal \<Rightarrow> fp" where
  "signal_time ck Traces = ck_traces ck"
| "signal_time ck Logs = ck_logs ck"

fun export_signals :: "TelEnv \<Rightarrow> Clock \<Rightarrow> Origin \<Rightarrow> Signal list \<Rightarrow> World \<Rightarrow> World" where
  "export_signals env ck origin [] w = export_finish origin w"
| "export_signals env ck origin (signal # rest) w =
     (case next_batch env signal (seconds_of (signal_time ck signal)) (we_state w) of
        (None, s) \<Rightarrow> export_signals env ck origin rest (w\<lparr>we_state := s\<rparr>)
      | (Some batch, s) \<Rightarrow>
          (send (ba_url batch) (ba_token batch) (ba_body batch) False (w\<lparr>we_state := s\<rparr>))
            \<lparr>we_exports := we_exports w @ [\<lparr>xt_origin = origin, xt_batch = batch, xt_rest = rest\<rparr>]\<rparr>)"

definition export_once :: "TelEnv \<Rightarrow> Clock \<Rightarrow> Origin \<Rightarrow> World \<Rightarrow> World" where
  "export_once env ck origin w =
     (let s = we_state w in
      if \<not> ts_exporting s \<and> should_export (ck_gate ck) (ts_policy s)
      then export_signals env ck origin [Traces, Logs]
             (loop_waits origin (w\<lparr>we_state := s\<lparr>ts_exporting := True\<rparr>\<rparr>))
      else w)"

fun report_transition :: "Transition \<Rightarrow> ExportOutcome \<Rightarrow> string \<Rightarrow> u64 \<Rightarrow> World \<Rightarrow> World" where
  "report_transition StartedFailing outcome url dropped w =
     console Sev_Warn (''client telemetry export failing: '' @ describe_outcome outcome @ '' from '' @ url @
       ''; '' @ decimal (unat dropped) @ '' item(s) dropped so far'') w"
| "report_transition Recovered outcome url dropped w =
     console Sev_Warn (''client telemetry export recovered at '' @ url @ ''; '' @
       decimal (unat dropped) @ '' item(s) dropped while failing'') w"
| "report_transition (Stopped _) outcome url dropped w = w"

definition settle_batch :: "Decision \<Rightarrow> bool \<Rightarrow> Batch \<Rightarrow> Telemetry \<Rightarrow> Telemetry" where
  "settle_batch decision accept batch s =
     (if de_retry_batch decision then
        set_retry (ba_signal batch)
          (Some \<lparr>pe_body = ba_body batch, pe_items = ba_items batch, pe_attempts = ba_attempts batch\<rparr>) s
      else if \<not> accept then
        s\<lparr>ts_dropped_after_send := ts_dropped_after_send s + of_nat (ba_items batch)\<rparr>
      else s)"

definition post_answered ::
  "TelEnv \<Rightarrow> Clock \<Rightarrow> fp \<Rightarrow> ExportOutcome \<Rightarrow> ExportTask \<Rightarrow> World \<Rightarrow> World" where
  "post_answered env ck jitter outcome task w =
     (let batch = xt_batch task; s = we_state w; accept = (outcome = EO_Accepted);
          (decision, policy) = policy_record outcome (ba_attempts batch) (ck_now ck) jitter (ts_policy s);
          s = settle_batch decision accept batch (s\<lparr>ts_policy := policy\<rparr>);
          w = w\<lparr>we_state := s\<rparr>;
          w = (case de_transition decision of
                 None \<Rightarrow> w
               | Some transition \<Rightarrow>
                   report_transition transition outcome (ba_url batch) (total_dropped s) w)
      in if accept then export_signals env ck (xt_origin task) (xt_rest task) w
         else export_finish (xt_origin task) w)"

definition flush :: "World \<Rightarrow> World" where
  "flush w =
     (let s = we_state w in
      if lc_credentials (ts_lifecycle s) \<noteq> None \<and>
         \<not> (outbox_is_empty (ts_spans s) \<and> outbox_is_empty (ts_logs s))
      then w\<lparr>we_spawned := we_spawned w @ [SpawnExport]\<rparr> else w)"

definition panic_hook :: "string \<Rightarrow> Location option \<Rightarrow> UnixNanos \<Rightarrow> World \<Rightarrow> World" where
  "panic_hook info location time w =
     flush (push_log (screen w) Sev_Error (''wasm panic: '' @ info) (panic_attributes location) time w)"

section \<open>The loop\<close>

datatype TickStep = TimedOut | Finished | Wait | Refresh | Export

definition tick_step :: "fp \<Rightarrow> Telemetry \<Rightarrow> TickStep \<times> Telemetry" where
  "tick_step now s =
     (let (expired, lifecycle) = expire now (ts_lifecycle s); s = s\<lparr>ts_lifecycle := lifecycle\<rparr> in
      if expired then (TimedOut, s)
      else if is_off (ts_lifecycle s) \<or> po_stopped (ts_policy s) \<noteq> None then (Finished, s)
      else (case lc_credentials (ts_lifecycle s) of
          None \<Rightarrow>
            (if is_awaiting (ts_lifecycle s) \<and> ts_signed_in s \<and> \<not> ts_fetching_config s then Refresh else Wait, s)
        | Some c \<Rightarrow>
            (if needs_refresh (ts_policy s) \<or> usable_token c (seconds_of now) = None then Refresh else Export, s)))"

definition report_overflow :: "World \<Rightarrow> World" where
  "report_overflow w =
     (let s = we_state w;
          overflowed = ob_dropped (ts_spans s) + ob_dropped (ts_logs s) > 0
      in if overflowed \<and> \<not> ts_overflow_reported s then
           console Sev_Warn (''client telemetry queue full; '' @ decimal (unat (total_dropped s)) @
               '' item(s) dropped so far'')
             (w\<lparr>we_state := s\<lparr>ts_overflow_reported := True\<rparr>\<rparr>)
         else w)"

definition export_loop_tick :: "TelEnv \<Rightarrow> Clock \<Rightarrow> World \<Rightarrow> World" where
  "export_loop_tick env ck w =
     (let (step, s) = tick_step (ck_now ck) (we_state w);
          w = report_overflow (w\<lparr>we_state := s\<rparr>)
      in case step of
           TimedOut \<Rightarrow> stop OR_ConfigTimedOut w
         | Finished \<Rightarrow> (with_state discard_everything w)\<lparr>we_loop := LoopDone\<rparr>
         | Wait \<Rightarrow> w
         | Refresh \<Rightarrow> refresh_begin ByLoop w
         | Export \<Rightarrow> export_once env ck ByLoop w)"

section \<open>Leaving the page\<close>

definition KEEPALIVE_MAX_BYTES :: nat where "KEEPALIVE_MAX_BYTES = 30 * 1024"
definition KEEPALIVE_MAX_ITEMS :: nat where "KEEPALIVE_MAX_ITEMS = 64"

function fit_keepalive :: "('a list \<Rightarrow> string) \<Rightarrow> 'a list \<Rightarrow> string" where
  "fit_keepalive encode items =
     (let body = encode items in
      if length body \<le> KEEPALIVE_MAX_BYTES \<or> length items \<le> 1 then body
      else fit_keepalive encode (take (length items div 2) items))"
  by auto

termination
  by (relation "measure (\<lambda>(_, items). length items)") auto

declare fit_keepalive.simps [simp del]

definition flush_on_pagehide :: "TelEnv \<Rightarrow> fp \<Rightarrow> World \<Rightarrow> World" where
  "flush_on_pagehide env now_ms w =
     (let now_s = seconds_of now_ms; s = we_state w in
      if po_stopped (ts_policy s) \<noteq> None \<or> needs_refresh (ts_policy s) then w
      else case lc_credentials (ts_lifecycle s) of
        None \<Rightarrow> w
      | Some c \<Rightarrow> (case usable_token c now_s of
          None \<Rightarrow> w
        | Some token \<Rightarrow>
            (let (spans, sq) = take_batch KEEPALIVE_MAX_ITEMS (ts_spans s);
                 (logs, lq) = take_batch KEEPALIVE_MAX_ITEMS (ts_logs s);
                 w = w\<lparr>we_state := s\<lparr>ts_spans := sq, ts_logs := lq\<rparr>\<rparr>;
                 version = release_version env;
                 w = (if spans \<noteq> [] then
                        send (credentials_url c Traces) token
                          (fit_keepalive (\<lambda>items. traces_request (tn_to_string env) items version) spans) True w
                      else w)
             in if logs \<noteq> [] then
                  send (credentials_url c Logs) token
                    (fit_keepalive (\<lambda>items. logs_request (tn_to_string env) items version) logs) True w
                else w)))"

section \<open>Interleaving\<close>

datatype TelEvent =
    Tick Clock
  | RunSpawned nat Clock
  | FetchDone nat ConfigAnswer fp
  | PostDone nat "(u16 \<times> string option) option" Clock fp
  | SetSession bool
  | StartScreen "u8 list" "u8 list" string string UnixNanos Location
  | EndSpan OpenSpan UnixNanos "string option"
  | WriteLog Location Parent Severity string "KeyValue list" UnixNanos
  | Panic string "Location option" UnixNanos
  | PageHide fp

definition remove_nth :: "nat \<Rightarrow> 'a list \<Rightarrow> 'a list" where
  "remove_nth n xs = take n xs @ drop (Suc n) xs"

definition post_outcome :: "(u16 \<times> string option) option \<Rightarrow> ExportOutcome" where
  "post_outcome answer = (case answer of
     None \<Rightarrow> from_response None None | Some (status, retry_after) \<Rightarrow> from_response (Some status) retry_after)"

fun tel_step :: "TelEnv \<Rightarrow> TelEvent \<Rightarrow> World \<Rightarrow> World" where
  "tel_step env (Tick ck) w = (if we_loop w = Sleeping then export_loop_tick env ck w else w)"
| "tel_step env (RunSpawned n ck) w =
     (if n < length (we_spawned w) then
        (let task = we_spawned w ! n; w = w\<lparr>we_spawned := remove_nth n (we_spawned w)\<rparr>
         in case task of SpawnRefresh \<Rightarrow> refresh_begin BySpawn w | SpawnExport \<Rightarrow> export_once env ck BySpawn w)
      else w)"
| "tel_step env (FetchDone n answer now_ms) w =
     (if n < length (we_fetches w) then
        refresh_end (we_fetches w ! n) (fetch_config answer) now_ms
          (w\<lparr>we_fetches := remove_nth n (we_fetches w)\<rparr>)
      else w)"
| "tel_step env (PostDone n answer ck jitter) w =
     (if n < length (we_exports w) then
        post_answered env ck jitter (post_outcome answer) (we_exports w ! n)
          (w\<lparr>we_exports := remove_nth n (we_exports w)\<rparr>)
      else w)"
| "tel_step env (SetSession signed_in) w = set_session signed_in w"
| "tel_step env (StartScreen trace_bytes root_bytes name route start location) w =
     start_screen trace_bytes root_bytes name route start location w"
| "tel_step env (EndSpan handle now failure) w =
     span_handle_finish handle now (map_option (\<lambda>message. \<lparr>es_message = message\<rparr>) failure) w"
| "tel_step env (WriteLog location context severity message attributes time) w =
     log_at location context severity message attributes time w"
| "tel_step env (Panic info location time) w = panic_hook info location time w"
| "tel_step env (PageHide now_ms) w = flush_on_pagehide env now_ms w"

definition tel_init :: "u8 list \<Rightarrow> u8 list \<Rightarrow> fp \<Rightarrow> World" where
  "tel_init trace_bytes root_bytes now_ms =
     \<lparr>we_state = telemetry_init trace_bytes root_bytes now_ms, we_console = [], we_sent = [],
      we_loop = Sleeping, we_spawned = [], we_fetches = [], we_exports = []\<rparr>"

definition tel_run :: "TelEnv \<Rightarrow> TelEvent list \<Rightarrow> World \<Rightarrow> World" where
  "tel_run env events w = fold (tel_step env) events w"

section \<open>Invariants\<close>

named_theorems tel_defs \<open>the exporter's small updates, unfolded\<close>

lemmas [tel_defs] = console_def with_state_def loop_wakes_def loop_waits_def send_def

definition silent :: "Telemetry \<Rightarrow> bool" where
  "silent s \<longleftrightarrow> ob_items (ts_spans s) = [] \<and> ob_items (ts_logs s) = [] \<and>
     ts_retry_spans s = None \<and> ts_retry_logs s = None"

fun pending_ok :: "Pending option \<Rightarrow> bool" where
  "pending_ok None = True"
| "pending_ok (Some p) = (pe_attempts p < 3 \<and> pe_items p \<le> MAX_BATCH)"

definition core_ok :: "Telemetry \<Rightarrow> bool" where
  "core_ok s \<longleftrightarrow> outbox_ok (ts_spans s) \<and> ob_capacity (ts_spans s) \<le> CAPACITY \<and>
     outbox_ok (ts_logs s) \<and> ob_capacity (ts_logs s) \<le> CAPACITY \<and>
     pending_ok (ts_retry_spans s) \<and> pending_ok (ts_retry_logs s) \<and>
     policy_ok (ts_policy s) \<and> lifecycle_ok (ts_lifecycle s)"

definition off_ok :: "Telemetry \<Rightarrow> bool" where
  "off_ok s \<longleftrightarrow> (is_off (ts_lifecycle s) \<longleftrightarrow> po_stopped (ts_policy s) \<noteq> None) \<and>
     (is_off (ts_lifecycle s) \<longrightarrow> silent s)"

definition task_ok :: "ExportTask \<Rightarrow> bool" where
  "task_ok t \<longleftrightarrow> ba_attempts (xt_batch t) \<le> 3 \<and> ba_items (xt_batch t) \<le> MAX_BATCH \<and>
     (ba_signal (xt_batch t), xt_rest t) \<in> {(Traces, [Logs]), (Logs, [])}"

definition exports_ok :: "World \<Rightarrow> bool" where
  "exports_ok w \<longleftrightarrow>
     (if ts_exporting (we_state w)
      then \<exists>t. we_exports w = [t] \<and> task_ok t \<and> retry_of (ba_signal (xt_batch t)) (we_state w) = None
      else we_exports w = [])"

definition fetches_ok :: "World \<Rightarrow> bool" where
  "fetches_ok w \<longleftrightarrow> length (we_fetches w) = (if ts_fetching_config (we_state w) then 1 else 0)"

definition loop_tasks :: "World \<Rightarrow> nat" where
  "loop_tasks w = length (filter (\<lambda>o'. o' = ByLoop) (we_fetches w @ map xt_origin (we_exports w)))"

definition loop_ok :: "World \<Rightarrow> bool" where
  "loop_ok w \<longleftrightarrow> loop_tasks w = (if we_loop w = Awaiting then 1 else 0) \<and>
     (we_loop w = LoopDone \<longrightarrow> is_off (ts_lifecycle (we_state w)))"

definition world_ok :: "World \<Rightarrow> bool" where
  "world_ok w \<longleftrightarrow> core_ok (we_state w) \<and> off_ok (we_state w) \<and> exports_ok w \<and> fetches_ok w \<and> loop_ok w"

section \<open>What stopping does\<close>

definition stopped_state :: "OffReason \<Rightarrow> Telemetry \<Rightarrow> Telemetry" where
  "stopped_state reason s =
     (if is_off (ts_lifecycle s) \<and> po_stopped (ts_policy s) \<noteq> None then s
      else discard_everything (s\<lparr>ts_lifecycle := turn_off reason (ts_lifecycle s),
             ts_policy := snd (policy_stop reason (ts_policy s))\<rparr>))"

lemma stop_world: "\<exists>lines. stop reason w = w\<lparr>we_state := stopped_state reason (we_state w), we_console := lines\<rparr>"
  unfolding stop_def Let_def stopped_state_def console_def case_prod_unfold
  by (cases w) auto

lemma stop_parts [simp]:
  "we_state (stop reason w) = stopped_state reason (we_state w)"
  "we_sent (stop reason w) = we_sent w" "we_loop (stop reason w) = we_loop w"
  "we_spawned (stop reason w) = we_spawned w" "we_fetches (stop reason w) = we_fetches w"
  "we_exports (stop reason w) = we_exports w"
  using stop_world [of reason w] by auto

lemma stopped_state_flags [simp]:
  "ts_exporting (stopped_state reason s) = ts_exporting s"
  "ts_fetching_config (stopped_state reason s) = ts_fetching_config s"
  by (simp_all add: stopped_state_def discard_everything_def)

lemma silent_discard [simp]: "silent (discard_everything s)"
  by (simp add: silent_def discard_everything_def outbox_clear_def)

lemma core_ok_discard [simp]: "core_ok s \<Longrightarrow> core_ok (discard_everything s)"
  by (simp add: core_ok_def discard_everything_def)

lemma turn_off_off [simp]: "is_off (turn_off reason l)"
  by (simp add: turn_off_def)

lemma policy_stop_stopped [simp]: "\<exists>r. po_stopped (snd (policy_stop reason p)) = Some r"
  by (auto simp: policy_stop_def)

lemma stopped_state_ok:
  assumes "core_ok s" "is_off (ts_lifecycle s) \<and> po_stopped (ts_policy s) \<noteq> None \<longrightarrow> silent s"
  shows "core_ok (stopped_state reason s)" "off_ok (stopped_state reason s)"
    "is_off (ts_lifecycle (stopped_state reason s))" "silent (stopped_state reason s)"
proof -
  have "core_ok (s\<lparr>ts_lifecycle := turn_off reason (ts_lifecycle s),
      ts_policy := snd (policy_stop reason (ts_policy s))\<rparr>)"
    using assms(1) by (simp add: core_ok_def turn_off_ok policy_stop_ok)
  then show "core_ok (stopped_state reason s)"
    using assms(1) by (simp add: stopped_state_def)
  show off: "is_off (ts_lifecycle (stopped_state reason s))"
    by (auto simp: stopped_state_def discard_everything_def)
  show "silent (stopped_state reason s)" using assms(2) by (auto simp: stopped_state_def)
  with off show "off_ok (stopped_state reason s)"
    by (auto simp: off_ok_def stopped_state_def discard_everything_def policy_stop_def)
qed

lemma silent_retry: "silent s \<Longrightarrow> retry_of signal s = None"
  by (cases signal) (simp_all add: retry_of_def silent_def)

lemma stopped_retry: "retry_of signal s = None \<Longrightarrow> retry_of signal (stopped_state reason s) = None"
  by (cases signal) (simp_all add: retry_of_def stopped_state_def discard_everything_def)

lemma stop_ok:
  assumes "world_ok w"
  shows "world_ok (stop reason w)" "is_off (ts_lifecycle (we_state (stop reason w)))"
proof -
  have "is_off (ts_lifecycle (we_state w)) \<and> po_stopped (ts_policy (we_state w)) \<noteq> None \<longrightarrow> silent (we_state w)"
    using assms by (simp add: world_ok_def off_ok_def)
  note s = stopped_state_ok [OF _ this]
  then show "world_ok (stop reason w)" "is_off (ts_lifecycle (we_state (stop reason w)))"
    using assms by (auto simp: world_ok_def exports_ok_def fetches_ok_def loop_ok_def loop_tasks_def
      silent_retry)
qed

section \<open>Recording keeps the invariants\<close>

text \<open>An update of the shared state that keeps its invariants, the flags and the retries.\<close>

lemma world_ok_state:
  assumes "world_ok w" "core_ok s" "off_ok s"
    and "ts_exporting s = ts_exporting (we_state w)" "ts_fetching_config s = ts_fetching_config (we_state w)"
    and "\<And>signal. retry_of signal (we_state w) = None \<Longrightarrow> retry_of signal s = None"
    and "is_off (ts_lifecycle (we_state w)) \<longrightarrow> is_off (ts_lifecycle s)"
  shows "world_ok (w\<lparr>we_state := s\<rparr>)"
  using assms by (auto simp: world_ok_def exports_ok_def fetches_ok_def loop_ok_def loop_tasks_def)

lemma world_ok_console [simp]: "world_ok (w\<lparr>we_console := lines\<rparr>) \<longleftrightarrow> world_ok w"
  by (simp add: world_ok_def exports_ok_def fetches_ok_def loop_ok_def loop_tasks_def)

lemma world_ok_sent [simp]: "world_ok (w\<lparr>we_sent := requests\<rparr>) \<longleftrightarrow> world_ok w"
  by (simp add: world_ok_def exports_ok_def fetches_ok_def loop_ok_def loop_tasks_def)

lemma world_ok_spawned [simp]: "world_ok (w\<lparr>we_spawned := tasks\<rparr>) \<longleftrightarrow> world_ok w"
  by (simp add: world_ok_def exports_ok_def fetches_ok_def loop_ok_def loop_tasks_def)

lemma retry_of_queues [simp]:
  "retry_of signal (s\<lparr>ts_spans := q\<rparr>) = retry_of signal s"
  "retry_of signal (s\<lparr>ts_logs := p\<rparr>) = retry_of signal s"
  "retry_of signal (s\<lparr>ts_policy := po\<rparr>) = retry_of signal s"
  "retry_of signal (s\<lparr>ts_lifecycle := lc\<rparr>) = retry_of signal s"
  "retry_of signal (s\<lparr>ts_overflow_reported := b\<rparr>) = retry_of signal s"
  "retry_of signal (s\<lparr>ts_signed_in := b\<rparr>) = retry_of signal s"
  "retry_of signal (s\<lparr>ts_trace_id := t, ts_root := r\<rparr>) = retry_of signal s"
  "retry_of signal (s\<lparr>ts_exporting := b\<rparr>) = retry_of signal s"
  "retry_of signal (s\<lparr>ts_fetching_config := b\<rparr>) = retry_of signal s"
  "retry_of signal (s\<lparr>ts_dropped_after_send := n\<rparr>) = retry_of signal s"
  by (simp_all add: retry_of_def split: Signal.split)

lemma span_handle_finish_ok: "world_ok w \<Longrightarrow> world_ok (span_handle_finish handle now status w)"
  unfolding span_handle_finish_def with_state_def
  by (rule world_ok_state) (auto simp: world_ok_def core_ok_def off_ok_def outbox_push_ok)

lemma start_screen_ok: "world_ok w \<Longrightarrow> world_ok (start_screen tb rb name route start location w)"
  unfolding start_screen_def with_state_def Let_def
  by (rule world_ok_state) (auto simp: world_ok_def core_ok_def off_ok_def outbox_push_ok silent_def)

lemma push_log_ok: "world_ok w \<Longrightarrow> world_ok (push_log context severity message attributes time w)"
  unfolding push_log_def with_state_def console_def world_ok_console
  by (rule world_ok_state) (auto simp: world_ok_def core_ok_def off_ok_def outbox_push_ok)

lemma flush_ok: "world_ok w \<Longrightarrow> world_ok (flush w)"
  by (simp add: flush_def Let_def)

lemma panic_hook_ok: "world_ok w \<Longrightarrow> world_ok (panic_hook info location time w)"
  by (simp add: panic_hook_def flush_ok push_log_ok)

lemma set_session_ok: "world_ok w \<Longrightarrow> world_ok (set_session b w)"
proof -
  assume w: "world_ok w"
  then have "world_ok (w\<lparr>we_state := (we_state w)\<lparr>ts_signed_in := True\<rparr>\<rparr>)"
    by (intro world_ok_state) (auto simp: world_ok_def core_ok_def off_ok_def silent_def)
  with stop_ok(1) [OF w] show ?thesis by (simp add: set_session_def with_state_def)
qed

lemma flush_on_pagehide_ok:
  assumes "world_ok w"
  shows "world_ok (flush_on_pagehide env now_ms w)"
proof -
  let ?s = "we_state w"
  have "world_ok (w\<lparr>we_state := ?s\<lparr>ts_spans := snd (take_batch m (ts_spans ?s)),
      ts_logs := snd (take_batch m (ts_logs ?s))\<rparr>\<rparr>)" for m
    using assms
    by (intro world_ok_state)
      (auto simp: world_ok_def core_ok_def off_ok_def silent_def take_batch_ok, simp_all add: take_batch_def)
  then show ?thesis
    using assms
    by (simp add: flush_on_pagehide_def Let_def case_prod_unfold send_def split: option.split)
qed

section \<open>Refreshes keep the invariants\<close>

text \<open>A task taken off its list, before its code runs: the loop it belongs to is about to wake.\<close>

lemma remove_nth_single [simp]: "remove_nth 0 [x] = []"
  by (simp add: remove_nth_def)

lemma refresh_begin_ok: "world_ok w \<Longrightarrow> we_loop w = Sleeping \<or> origin = BySpawn \<Longrightarrow> world_ok (refresh_begin origin w)"
  by (cases origin) (auto simp: refresh_begin_def Let_def loop_waits_def world_ok_def core_ok_def
      off_ok_def silent_def exports_ok_def fetches_ok_def loop_ok_def loop_tasks_def)

lemma refresh_core:
  assumes "core_ok s" "on_config fetch now_s (ts_lifecycle s) = (outcome, lifecycle)"
  shows "core_ok (s\<lparr>ts_lifecycle := lifecycle\<rparr>)"
    and "core_ok (s\<lparr>ts_lifecycle := lifecycle, ts_policy := policy_refreshed (ts_policy s),
      ts_spans := set_capacity CAPACITY (ts_spans s), ts_logs := set_capacity CAPACITY (ts_logs s)\<rparr>)"
  using assms on_config_ok [of "ts_lifecycle s" fetch now_s]
  by (simp_all add: core_ok_def policy_refreshed_ok)

definition refreshed_state :: "ConfigFetch \<Rightarrow> fp \<Rightarrow> Telemetry \<Rightarrow> Telemetry" where
  "refreshed_state fetch now_s s =
     (let (outcome, lifecycle) = on_config fetch now_s (ts_lifecycle s); s' = s\<lparr>ts_fetching_config := False, ts_lifecycle := lifecycle\<rparr>
      in case outcome of
           CO_Off reason \<Rightarrow> stopped_state reason s'
         | CO_Wait \<Rightarrow> s'
         | _ \<Rightarrow> s'\<lparr>ts_policy := policy_refreshed (ts_policy s),
                   ts_spans := set_capacity CAPACITY (ts_spans s), ts_logs := set_capacity CAPACITY (ts_logs s)\<rparr>)"

lemma refresh_end_world:
  "\<exists>lines. refresh_end origin fetch now_ms w =
     loop_wakes origin (w\<lparr>we_state := refreshed_state fetch (seconds_of now_ms) (we_state w), we_console := lines\<rparr>)"
proof -
  obtain outcome lifecycle where oc: "on_config fetch (seconds_of now_ms) (ts_lifecycle (we_state w)) = (outcome, lifecycle)"
    by fastforce
  show ?thesis
    by (rule exI [where x = "we_console (refresh_end origin fetch now_ms w)"], rule World.equality)
      (simp_all add: refresh_end_def refreshed_state_def oc Let_def loop_wakes_def console_def split: ConfigOutcome.split)
qed

lemma refreshed_state_ok:
  assumes "core_ok s" "off_ok s"
  shows "core_ok (refreshed_state fetch now_s s)" "off_ok (refreshed_state fetch now_s s)"
    and "is_off (ts_lifecycle s) \<Longrightarrow> is_off (ts_lifecycle (refreshed_state fetch now_s s))"
    and "ts_exporting (refreshed_state fetch now_s s) = ts_exporting s"
    and "\<not> ts_fetching_config (refreshed_state fetch now_s s)"
    and "retry_of signal s = None \<Longrightarrow> retry_of signal (refreshed_state fetch now_s s) = None"
proof -
  obtain outcome lifecycle where oc: "on_config fetch now_s (ts_lifecycle s) = (outcome, lifecycle)"
    by fastforce
  let ?s = "s\<lparr>ts_fetching_config := False, ts_lifecycle := lifecycle\<rparr>"
  note out = on_config_outcome [OF oc]
  have core: "core_ok ?s" using refresh_core(1) [OF assms(1) oc] by (simp add: core_ok_def)
  have both: "is_off (ts_lifecycle ?s) \<and> po_stopped (ts_policy ?s) \<noteq> None \<longrightarrow> silent ?s"
    using assms(2) by (auto simp: off_ok_def silent_def)
  note st = stopped_state_ok [OF core both]
  have on: "\<not> is_off (ts_lifecycle s)" if "\<nexists>r. outcome = CO_Off r"
    using that oc on_config_off by (cases "ts_lifecycle s") auto
  show "core_ok (refreshed_state fetch now_s s)"
    using st(1) core refresh_core(2) [OF assms(1) oc]
    by (auto simp: refreshed_state_def oc Let_def core_ok_def split: ConfigOutcome.split)
  show "off_ok (refreshed_state fetch now_s s)"
  proof (cases "\<exists>r. outcome = CO_Off r")
    case True
    then show ?thesis using st(2) by (auto simp: refreshed_state_def oc)
  next
    case False
    with on assms(2) out have "po_stopped (ts_policy s) = None" "\<not> is_off lifecycle" by (auto simp: off_ok_def)
    then show ?thesis
      using False by (cases outcome) (auto simp: refreshed_state_def oc off_ok_def policy_refreshed_def)
  qed
  show "is_off (ts_lifecycle (refreshed_state fetch now_s s))" if "is_off (ts_lifecycle s)"
  proof -
    have "\<exists>r. outcome = CO_Off r" using that on by blast
    then show ?thesis using st(3) by (auto simp: refreshed_state_def oc)
  qed
  show "ts_exporting (refreshed_state fetch now_s s) = ts_exporting s"
    "\<not> ts_fetching_config (refreshed_state fetch now_s s)"
    by (auto simp: refreshed_state_def oc Let_def split: ConfigOutcome.split)
  show "retry_of signal (refreshed_state fetch now_s s) = None" if "retry_of signal s = None"
    using that by (auto simp: refreshed_state_def oc Let_def stopped_retry split: ConfigOutcome.split)
qed

lemma fetch_done_world:
  assumes "exports_ok w" "loop_ok w" "we_fetches w = [origin]" "core_ok s" "off_ok s"
    and "ts_exporting s = ts_exporting (we_state w)" "\<not> ts_fetching_config s"
    and "is_off (ts_lifecycle (we_state w)) \<Longrightarrow> is_off (ts_lifecycle s)"
    and "\<And>signal. retry_of signal (we_state w) = None \<Longrightarrow> retry_of signal s = None"
  shows "world_ok (loop_wakes origin (w\<lparr>we_fetches := [], we_state := s, we_console := lines\<rparr>))"
    (is "world_ok ?w")
proof -
  have "exports_ok ?w"
    using assms(1,6,9) by (auto simp: exports_ok_def loop_wakes_def)
  moreover have "fetches_ok ?w" using assms(7) by (simp add: fetches_ok_def loop_wakes_def)
  moreover have "loop_ok ?w"
    using assms(2,3,8) by (cases origin; cases "we_loop w") (auto simp: loop_ok_def loop_tasks_def loop_wakes_def)
  ultimately show ?thesis using assms(4,5) by (simp add: world_ok_def loop_wakes_def)
qed

lemma fetch_done_ok:
  assumes "world_ok w" "n < length (we_fetches w)"
  shows "world_ok (refresh_end (we_fetches w ! n) fetch now_ms (w\<lparr>we_fetches := remove_nth n (we_fetches w)\<rparr>))"
proof -
  from assms obtain origin where f: "we_fetches w = [origin]" and n: "n = 0"
    by (cases "we_fetches w") (auto simp: world_ok_def fetches_ok_def split: if_splits)
  have ok: "core_ok (we_state w)" "off_ok (we_state w)" "exports_ok w" "loop_ok w"
    using assms by (simp_all add: world_ok_def)
  obtain lines where r: "refresh_end origin fetch now_ms (w\<lparr>we_fetches := []\<rparr>) =
      loop_wakes origin (w\<lparr>we_fetches := [], we_state := refreshed_state fetch (seconds_of now_ms) (we_state w),
        we_console := lines\<rparr>)"
    using refresh_end_world [of origin fetch now_ms "w\<lparr>we_fetches := []\<rparr>"] by auto
  have "world_ok (refresh_end origin fetch now_ms (w\<lparr>we_fetches := []\<rparr>))"
    unfolding r
    by (rule fetch_done_world [OF ok(3,4) f]) (use refreshed_state_ok [OF ok(1,2)] in blast)+
  then show ?thesis by (simp add: f n)
qed

section \<open>Exports keep the invariants\<close>

lemma retry_set [simp]: "retry_of signal (set_retry signal p s) = p"
  by (cases signal) (simp_all add: retry_of_def set_retry_def)

lemma set_retry_fields [simp]:
  "ts_lifecycle (set_retry signal p s) = ts_lifecycle s" "ts_policy (set_retry signal p s) = ts_policy s"
  "ts_exporting (set_retry signal p s) = ts_exporting s"
  "ts_fetching_config (set_retry signal p s) = ts_fetching_config s"
  "ts_spans (set_retry signal p s) = ts_spans s" "ts_logs (set_retry signal p s) = ts_logs s"
  by (cases signal; simp add: set_retry_def)+

lemma core_ok_retry: "core_ok s \<Longrightarrow> pending_ok (retry_of signal s)"
  by (cases signal) (simp_all add: core_ok_def retry_of_def)

lemma core_ok_set_retry: "core_ok s \<Longrightarrow> pending_ok p \<Longrightarrow> core_ok (set_retry signal p s)"
  by (cases signal) (simp_all add: core_ok_def set_retry_def)

lemma fresh_body_ok:
  assumes "fresh_body env signal s = (b, s')" "core_ok s"
  shows "core_ok s' \<and> ts_lifecycle s' = ts_lifecycle s \<and> ts_policy s' = ts_policy s \<and>
    ts_exporting s' = ts_exporting s \<and> ts_fetching_config s' = ts_fetching_config s \<and>
    retry_of signal s' = retry_of signal s \<and> (\<forall>body items. b = Some (body, items) \<longrightarrow> items \<le> MAX_BATCH)"
  using assms take_batch_length [of MAX_BATCH "ts_spans s"] take_batch_length [of MAX_BATCH "ts_logs s"]
  by (cases signal)
    (auto simp: fresh_body_def Let_def case_prod_unfold core_ok_def take_batch_ok split: if_splits)

lemma attempt_bound: "(n::u32) < 3 \<Longrightarrow> n + 1 \<le> 3"
  using inc_le by blast

text \<open>What the next batch takes from the state, and where it goes.\<close>

lemma next_batch_ok:
  assumes "next_batch env signal now_s s = (b, s')" "core_ok s"
  shows "core_ok s' \<and> ts_lifecycle s' = ts_lifecycle s \<and> ts_policy s' = ts_policy s \<and>
      ts_exporting s' = ts_exporting s \<and> ts_fetching_config s' = ts_fetching_config s"
    and "is_off (ts_lifecycle s) \<Longrightarrow> b = None \<and> s' = s"
    and "b = Some batch \<Longrightarrow> ba_signal batch = signal \<and> ba_attempts batch \<le> 3 \<and> ba_items batch \<le> MAX_BATCH \<and>
      retry_of signal s' = None \<and>
      (\<exists>c. lc_credentials (ts_lifecycle s) = Some c \<and> ba_url batch = credentials_url c signal \<and>
         usable_token c now_s = Some (ba_token batch))"
proof -
  consider "b = None" "s' = s" | c token where "lc_credentials (ts_lifecycle s) = Some c"
      "usable_token c now_s = Some token"
    using assms(1) by (auto simp: next_batch_def split: option.splits)
  then have all: "(core_ok s' \<and> ts_lifecycle s' = ts_lifecycle s \<and> ts_policy s' = ts_policy s \<and>
      ts_exporting s' = ts_exporting s \<and> ts_fetching_config s' = ts_fetching_config s) \<and>
    (is_off (ts_lifecycle s) \<longrightarrow> b = None \<and> s' = s) \<and>
    (\<forall>batch. b = Some batch \<longrightarrow> ba_signal batch = signal \<and> ba_attempts batch \<le> 3 \<and> ba_items batch \<le> MAX_BATCH \<and>
      retry_of signal s' = None \<and>
      (\<exists>c. lc_credentials (ts_lifecycle s) = Some c \<and> ba_url batch = credentials_url c signal \<and>
         usable_token c now_s = Some (ba_token batch)))"
  proof cases
    case 1
    then show ?thesis using assms(2) by simp
  next
    case (2 c token)
    have on: "\<not> is_off (ts_lifecycle s)" using 2(1) by (cases "ts_lifecycle s") auto
    show ?thesis
    proof (cases "retry_of signal s")
      case (Some p)
      then show ?thesis
        using assms 2 on core_ok_retry [OF assms(2), of signal] attempt_bound [of "pe_attempts p"]
        by (auto simp: next_batch_def Let_def core_ok_set_retry)
    next
      case None
      obtain body s'' where f: "fresh_body env signal s = (body, s'')" by fastforce
      show ?thesis
        using assms 2 on None fresh_body_ok [OF f assms(2)] f
        by (auto simp: next_batch_def Let_def split: option.splits prod.splits)
    qed
  qed
  show "core_ok s' \<and> ts_lifecycle s' = ts_lifecycle s \<and> ts_policy s' = ts_policy s \<and>
      ts_exporting s' = ts_exporting s \<and> ts_fetching_config s' = ts_fetching_config s"
    and "is_off (ts_lifecycle s) \<Longrightarrow> b = None \<and> s' = s"
    and "b = Some batch \<Longrightarrow> ba_signal batch = signal \<and> ba_attempts batch \<le> 3 \<and> ba_items batch \<le> MAX_BATCH \<and>
      retry_of signal s' = None \<and>
      (\<exists>c. lc_credentials (ts_lifecycle s) = Some c \<and> ba_url batch = credentials_url c signal \<and>
         usable_token c now_s = Some (ba_token batch))"
    using all by blast+
qed

text \<open>The world while an export runs: its gate is closed and it waits on no batch.\<close>

definition exporting_ok :: "Origin \<Rightarrow> World \<Rightarrow> bool" where
  "exporting_ok origin w \<longleftrightarrow> core_ok (we_state w) \<and> ts_exporting (we_state w) \<and> we_exports w = [] \<and>
     fetches_ok w \<and>
     length (filter (\<lambda>o'. o' = ByLoop) (origin # we_fetches w)) = (if we_loop w = Awaiting then 1 else 0) \<and>
     (we_loop w = LoopDone \<longrightarrow> is_off (ts_lifecycle (we_state w))) \<and>
     (is_off (ts_lifecycle (we_state w)) \<longrightarrow> po_stopped (ts_policy (we_state w)) \<noteq> None \<and> silent (we_state w))"

lemma export_finish_world:
  "\<exists>lines. export_finish origin w = loop_wakes origin (w\<lparr>we_state :=
     (let s = (we_state w)\<lparr>ts_exporting := False\<rparr>
      in case po_stopped (ts_policy s) of Some reason \<Rightarrow> stopped_state reason s | None \<Rightarrow> s), we_console := lines\<rparr>)"
  by (rule exI [where x = "we_console (export_finish origin w)"], rule World.equality)
    (simp_all add: export_finish_def with_state_def loop_wakes_def Let_def split: option.split)

lemma export_finish_ok:
  assumes "exporting_ok origin w"
  shows "world_ok (export_finish origin w)"
proof -
  let ?s = "(we_state w)\<lparr>ts_exporting := False\<rparr>"
  let ?s' = "case po_stopped (ts_policy ?s) of Some reason \<Rightarrow> stopped_state reason ?s | None \<Rightarrow> ?s"
  have core: "core_ok ?s" and sil: "is_off (ts_lifecycle ?s) \<and> po_stopped (ts_policy ?s) \<noteq> None \<longrightarrow> silent ?s"
    using assms by (auto simp: exporting_ok_def core_ok_def silent_def)
  note st = stopped_state_ok [OF core sil]
  have s': "core_ok ?s'" "off_ok ?s'" "\<not> ts_exporting ?s'"
    "ts_fetching_config ?s' = ts_fetching_config (we_state w)"
    "is_off (ts_lifecycle (we_state w)) \<longrightarrow> is_off (ts_lifecycle ?s')"
    using st core assms by (auto simp: exporting_ok_def off_ok_def split: option.split)
  obtain lines where r: "export_finish origin w = loop_wakes origin (w\<lparr>we_state := ?s', we_console := lines\<rparr>)"
    using export_finish_world [of origin w] by (auto simp: Let_def)
  have "we_exports w = []" "fetches_ok w" "we_loop w = LoopDone \<longrightarrow> is_off (ts_lifecycle (we_state w))"
    "length (filter (\<lambda>o'. o' = ByLoop) (origin # we_fetches w)) = (if we_loop w = Awaiting then 1 else 0)"
    using assms by (simp_all add: exporting_ok_def)
  with s' show ?thesis
    unfolding r world_ok_def exports_ok_def fetches_ok_def loop_ok_def loop_tasks_def loop_wakes_def
    by (cases origin; cases "we_loop w") (simp_all split: if_splits)
qed

lemma export_signals_ok:
  assumes "exporting_ok origin w" "signals \<in> {[Traces, Logs], [Logs], []}"
    "po_stopped (ts_policy (we_state w)) = None \<or> is_off (ts_lifecycle (we_state w))"
  shows "world_ok (export_signals env ck origin signals w)"
  using assms
proof (induction env ck origin signals w rule: export_signals.induct)
  case (1 env ck origin w)
  then show ?case by (simp add: export_finish_ok)
next
  case (2 env ck origin signal rest w)
  obtain b s where nb: "next_batch env signal (seconds_of (signal_time ck signal)) (we_state w) = (b, s)"
    by fastforce
  have core: "core_ok (we_state w)" using "2.prems" by (simp add: exporting_ok_def)
  note facts = next_batch_ok [OF nb core]
  show ?case
  proof (cases b)
    case None
    have "exporting_ok origin (w\<lparr>we_state := s\<rparr>)"
      using "2.prems"(1) facts(1,2) by (auto simp: exporting_ok_def fetches_ok_def)
    moreover have "po_stopped (ts_policy s) = None \<or> is_off (ts_lifecycle s)"
      using "2.prems"(3) facts(1) by simp
    ultimately show ?thesis
      using "2.IH" [OF nb [symmetric] None] "2.prems"(2) by (auto simp: nb None)
  next
    case (Some batch)
    have on: "\<not> is_off (ts_lifecycle (we_state w))" using facts(2) Some by auto
    then have off: "off_ok s" using "2.prems"(3) facts(1) by (simp add: off_ok_def)
    show ?thesis
      using "2.prems" facts(1) facts(3) [OF Some] off on
      by (cases origin)
        (auto simp: nb Some send_def world_ok_def exporting_ok_def exports_ok_def fetches_ok_def
          loop_ok_def loop_tasks_def task_ok_def)
  qed
qed

lemma export_once_ok:
  assumes "world_ok w" "we_loop w = Sleeping \<or> origin = BySpawn"
  shows "world_ok (export_once env ck origin w)"
proof (cases "\<not> ts_exporting (we_state w) \<and> should_export (ck_gate ck) (ts_policy (we_state w))")
  case True
  let ?w = "loop_waits origin (w\<lparr>we_state := (we_state w)\<lparr>ts_exporting := True\<rparr>\<rparr>)"
  have p: "po_stopped (ts_policy (we_state w)) = None" using True by (simp add: should_export_def)
  have "core_ok ((we_state w)\<lparr>ts_exporting := True\<rparr>)" using assms(1) by (simp add: world_ok_def core_ok_def)
  moreover have "\<not> is_off (ts_lifecycle (we_state w))" using assms(1) p by (simp add: world_ok_def off_ok_def)
  ultimately have "exporting_ok origin ?w"
    using assms True
    by (cases origin)
      (auto simp: exporting_ok_def world_ok_def exports_ok_def fetches_ok_def loop_ok_def loop_tasks_def loop_waits_def)
  moreover have "po_stopped (ts_policy (we_state ?w)) = None" using p by (simp add: loop_waits_def)
  ultimately show ?thesis
    using True export_signals_ok [of origin ?w "[Traces, Logs]" env ck] by (simp add: export_once_def Let_def)
next
  case False
  with assms show ?thesis by (auto simp: export_once_def Let_def)
qed

lemma report_transition_world: "\<exists>lines. report_transition t outcome url n w = w\<lparr>we_console := lines\<rparr>"
proof (cases t)
  case (Stopped r)
  then show ?thesis by (intro exI [of _ "we_console w"]) simp
qed (auto simp: console_def)

lemma exporting_ok_console [simp]: "exporting_ok origin (w\<lparr>we_console := lines\<rparr>) \<longleftrightarrow> exporting_ok origin w"
  by (simp add: exporting_ok_def fetches_ok_def)

lemma no_retry_no_record:
  "de_retry_batch (fst (policy_record outcome attempts now jitter p)) \<Longrightarrow>
     attempts < MAX_BATCH_ATTEMPTS \<and> po_stopped (snd (policy_record outcome attempts now jitter p)) = None"
  by (cases outcome) (auto simp: policy_defs Let_def split: if_splits)

lemma accepted_keeps_stopped:
  "po_stopped (snd (policy_record EO_Accepted attempts now jitter p)) = po_stopped p"
  by (simp add: policy_defs Let_def)

lemma stopped_stays: "po_stopped p \<noteq> None \<Longrightarrow> snd (policy_record outcome attempts now jitter p) = p"
  by (simp add: policy_record_def)

definition settled_state :: "ExportOutcome \<Rightarrow> fp \<Rightarrow> fp \<Rightarrow> Batch \<Rightarrow> Telemetry \<Rightarrow> Telemetry" where
  "settled_state outcome now jitter batch s =
     (let r = policy_record outcome (ba_attempts batch) now jitter (ts_policy s)
      in settle_batch (fst r) (outcome = EO_Accepted) batch (s\<lparr>ts_policy := snd r\<rparr>))"

lemma settled_fields [simp]:
  "ts_lifecycle (settled_state outcome now jitter batch s) = ts_lifecycle s"
  "ts_exporting (settled_state outcome now jitter batch s) = ts_exporting s"
  "ts_fetching_config (settled_state outcome now jitter batch s) = ts_fetching_config s"
  "ts_policy (settled_state outcome now jitter batch s) =
     snd (policy_record outcome (ba_attempts batch) now jitter (ts_policy s))"
  by (simp_all add: settled_state_def settle_batch_def Let_def)

lemma settled_state_ok:
  assumes "core_ok s" "off_ok s" "ba_items batch \<le> MAX_BATCH"
  shows "core_ok (settled_state outcome now jitter batch s)"
    and "is_off (ts_lifecycle s) \<Longrightarrow> silent (settled_state outcome now jitter batch s)"
proof -
  let ?r = "policy_record outcome (ba_attempts batch) now jitter (ts_policy s)"
  have core: "core_ok (s\<lparr>ts_policy := snd ?r\<rparr>)" using assms(1) by (simp add: core_ok_def policy_record_ok)
  show "core_ok (settled_state outcome now jitter batch s)"
    using core assms(3) no_retry_no_record [of outcome "ba_attempts batch" now jitter "ts_policy s"]
    by (auto simp: settled_state_def settle_batch_def Let_def MAX_BATCH_ATTEMPTS_def intro!: core_ok_set_retry)
      (simp_all add: core_ok_def)
  assume off: "is_off (ts_lifecycle s)"
  then have "po_stopped (ts_policy s) \<noteq> None" "silent s" using assms(2) by (simp_all add: off_ok_def)
  then show "silent (settled_state outcome now jitter batch s)"
    by (auto simp: settled_state_def settle_batch_def Let_def policy_record_def no_decision_def silent_def)
qed

lemma post_answered_world:
  "\<exists>lines. post_answered env ck jitter outcome task w =
     (if outcome = EO_Accepted then export_signals env ck (xt_origin task) (xt_rest task)
      else export_finish (xt_origin task))
       (w\<lparr>we_state := settled_state outcome (ck_now ck) jitter (xt_batch task) (we_state w), we_console := lines\<rparr>)"
proof -
  let ?r = "policy_record outcome (ba_attempts (xt_batch task)) (ck_now ck) jitter (ts_policy (we_state w))"
  let ?w = "w\<lparr>we_state := settled_state outcome (ck_now ck) jitter (xt_batch task) (we_state w)\<rparr>"
  let ?said = "case de_transition (fst ?r) of None \<Rightarrow> ?w
    | Some t \<Rightarrow> report_transition t outcome (ba_url (xt_batch task)) (total_dropped (we_state ?w)) ?w"
  have "\<exists>lines. ?said = ?w\<lparr>we_console := lines\<rparr>"
  proof (cases "de_transition (fst ?r)")
    case None
    then show ?thesis by (intro exI [of _ "we_console w"]) simp
  next
    case (Some t)
    then show ?thesis using report_transition_world by simp
  qed
  then obtain lines where "?said = ?w\<lparr>we_console := lines\<rparr>" ..
  moreover have "post_answered env ck jitter outcome task w =
     (if outcome = EO_Accepted then export_signals env ck (xt_origin task) (xt_rest task)
      else export_finish (xt_origin task)) ?said"
    unfolding post_answered_def settled_state_def Let_def case_prod_unfold
    by (cases "outcome = EO_Accepted") (simp_all cong: option.case_cong)
  ultimately show ?thesis by auto
qed

lemma post_done_ok:
  assumes "world_ok w" "n < length (we_exports w)"
  shows "world_ok (post_answered env ck jitter outcome (we_exports w ! n)
    (w\<lparr>we_exports := remove_nth n (we_exports w)\<rparr>))"
proof -
  from assms obtain task where x: "we_exports w = [task]" "n = 0" "task_ok task"
      "ts_exporting (we_state w)" "retry_of (ba_signal (xt_batch task)) (we_state w) = None"
    by (cases "ts_exporting (we_state w)") (auto simp: world_ok_def exports_ok_def)
  let ?s = "settled_state outcome (ck_now ck) jitter (xt_batch task) (we_state w)"
  obtain lines where r: "post_answered env ck jitter outcome task (w\<lparr>we_exports := []\<rparr>) =
     (if outcome = EO_Accepted then export_signals env ck (xt_origin task) (xt_rest task)
      else export_finish (xt_origin task)) (w\<lparr>we_exports := [], we_state := ?s, we_console := lines\<rparr>)"
    using post_answered_world [of env ck jitter outcome task "w\<lparr>we_exports := []\<rparr>"] by auto
  have ok: "core_ok (we_state w)" "off_ok (we_state w)" "ba_items (xt_batch task) \<le> MAX_BATCH"
    using assms(1) x(3) by (simp_all add: world_ok_def task_ok_def)
  note s = settled_state_ok [OF ok, of outcome "ck_now ck" jitter]
  let ?w = "w\<lparr>we_exports := [], we_state := ?s, we_console := lines\<rparr>"
  have stopped: "po_stopped (ts_policy ?s) \<noteq> None" if "is_off (ts_lifecycle (we_state w))"
    using that ok(2) stopped_stays by (simp add: off_ok_def)
  have "fetches_ok ?w" using assms(1) by (simp add: world_ok_def fetches_ok_def)
  moreover have "length (filter (\<lambda>o'. o' = ByLoop) (xt_origin task # we_fetches w)) =
      (if we_loop w = Awaiting then 1 else 0)" "we_loop w = LoopDone \<longrightarrow> is_off (ts_lifecycle (we_state w))"
    using assms(1) by (auto simp: world_ok_def loop_ok_def loop_tasks_def x(1) split: if_splits)
  ultimately have e: "exporting_ok (xt_origin task) ?w"
    using s x(4) stopped by (auto simp: exporting_ok_def fetches_ok_def)
  have "world_ok (export_signals env ck (xt_origin task) (xt_rest task) ?w)" if "outcome = EO_Accepted"
  proof (rule export_signals_ok [OF e])
    show "xt_rest task \<in> {[Traces, Logs], [Logs], []}" using x(3) by (auto simp: task_ok_def)
    show "po_stopped (ts_policy (we_state ?w)) = None \<or> is_off (ts_lifecycle (we_state ?w))"
      using ok(2) that by (auto simp: accepted_keeps_stopped off_ok_def)
  qed
  with export_finish_ok [OF e] show ?thesis by (simp add: x r)
qed

lemma tick_state_ok:
  assumes "world_ok w" "tick_step now (we_state w) = (step, s)" "step \<noteq> TimedOut"
  shows "s = we_state w"
  using assms(2,3) by (cases "ts_lifecycle (we_state w)")
    (auto simp: tick_step_def Let_def split: if_splits option.splits)

lemma report_overflow_world:
  "\<exists>lines b. report_overflow w =
     w\<lparr>we_state := (we_state w)\<lparr>ts_overflow_reported := b\<rparr>, we_console := lines\<rparr>"
  by (rule exI [where x = "we_console (report_overflow w)"],
      rule exI [where x = "ts_overflow_reported (we_state (report_overflow w))"], rule World.equality)
    (simp_all add: report_overflow_def Let_def console_def)

lemma report_overflow_ok: "world_ok w \<Longrightarrow> world_ok (report_overflow w)"
proof -
  assume w: "world_ok w"
  obtain lines b where r: "report_overflow w =
      w\<lparr>we_state := (we_state w)\<lparr>ts_overflow_reported := b\<rparr>, we_console := lines\<rparr>"
    using report_overflow_world by blast
  have "world_ok (w\<lparr>we_state := (we_state w)\<lparr>ts_overflow_reported := b\<rparr>\<rparr>)"
    using w by (intro world_ok_state) (auto simp: world_ok_def core_ok_def off_ok_def silent_def)
  then show ?thesis by (simp add: r)
qed

lemma discard_fields [simp]:
  "ts_exporting (discard_everything s) = ts_exporting s"
  "ts_fetching_config (discard_everything s) = ts_fetching_config s"
  "ts_lifecycle (discard_everything s) = ts_lifecycle s" "ts_policy (discard_everything s) = ts_policy s"
  by (simp_all add: discard_everything_def)

lemma finished_ok:
  assumes "world_ok w" "we_loop w = Sleeping" "is_off (ts_lifecycle (we_state w))"
  shows "world_ok ((with_state discard_everything w)\<lparr>we_loop := LoopDone\<rparr>)"
proof -
  have "core_ok (we_state w)" "off_ok (we_state w)" "exports_ok w" "fetches_ok w" "loop_tasks w = 0"
    using assms(1,2) by (simp_all add: world_ok_def loop_ok_def)
  with assms(3) show ?thesis
    unfolding world_ok_def with_state_def
    by (auto simp: off_ok_def exports_ok_def fetches_ok_def loop_ok_def loop_tasks_def silent_retry)
qed

lemma export_loop_tick_ok:
  assumes "world_ok w" "we_loop w = Sleeping"
  shows "world_ok (export_loop_tick env ck w)"
proof -
  obtain step s where t: "tick_step (ck_now ck) (we_state w) = (step, s)" by fastforce
  let ?w = "report_overflow (w\<lparr>we_state := s\<rparr>)"
  obtain lines b where r: "?w = w\<lparr>we_state := s\<lparr>ts_overflow_reported := b\<rparr>, we_console := lines\<rparr>"
    using report_overflow_world [of "w\<lparr>we_state := s\<rparr>"] by auto
  show ?thesis
  proof (cases "step = TimedOut")
    case True
    then have s: "s = (we_state w)\<lparr>ts_lifecycle := LC_Off OR_ConfigTimedOut\<rparr>"
        and aw: "\<not> is_off (ts_lifecycle (we_state w))"
      using t by (cases "ts_lifecycle (we_state w)"; auto simp: tick_step_def Let_def split: if_splits option.splits)+
    let ?s = "s\<lparr>ts_overflow_reported := b\<rparr>"
    have core: "core_ok ?s" using assms(1) by (simp add: s world_ok_def core_ok_def)
    have p: "po_stopped (ts_policy ?s) = None" using assms(1) aw by (simp add: s world_ok_def off_ok_def)
    then have "is_off (ts_lifecycle ?s) \<and> po_stopped (ts_policy ?s) \<noteq> None \<longrightarrow> silent ?s" by simp
    note st = stopped_state_ok [OF core this, of OR_ConfigTimedOut]
    have "world_ok (w\<lparr>we_state := stopped_state OR_ConfigTimedOut ?s\<rparr>)"
      by (rule world_ok_state [OF assms(1) st(1,2)]) (use st in \<open>simp_all add: s silent_retry\<close>)
    moreover obtain lines' where "stop OR_ConfigTimedOut ?w =
        ?w\<lparr>we_state := stopped_state OR_ConfigTimedOut ?s, we_console := lines'\<rparr>"
      using stop_world [of OR_ConfigTimedOut ?w] by (auto simp: r)
    ultimately show ?thesis using True by (simp add: export_loop_tick_def t r)
  next
    case False
    have s: "s = we_state w" by (rule tick_state_ok [OF assms(1) t False])
    have ok: "world_ok ?w" "we_loop ?w = Sleeping"
      using report_overflow_ok [OF assms(1)] assms(2) r by (simp_all add: s)
    have off: "is_off (ts_lifecycle (we_state ?w))" if "step = Finished"
    proof -
      have "is_off (ts_lifecycle s) \<or> po_stopped (ts_policy s) \<noteq> None"
        using t that by (auto simp: tick_step_def Let_def split: if_splits option.splits prod.splits)
      then have "is_off (ts_lifecycle (we_state w))" using assms(1) by (auto simp: s world_ok_def off_ok_def)
      then show ?thesis unfolding r by (simp add: s)
    qed
    have "world_ok ((with_state discard_everything ?w)\<lparr>we_loop := LoopDone\<rparr>)" if "step = Finished"
      by (rule finished_ok [OF ok off [OF that]])
    with ok False show ?thesis
      by (cases step) (simp_all add: export_loop_tick_def t refresh_begin_ok export_once_ok)
  qed
qed

section \<open>Every run keeps the invariants\<close>

lemma log_at_ok: "world_ok w \<Longrightarrow> world_ok (log_at location context severity message attributes time w)"
  by (simp add: log_at_def push_log_ok)

lemma tel_step_ok: "world_ok w \<Longrightarrow> world_ok (tel_step env e w)"
proof (cases e)
  case (RunSpawned n ck)
  assume "world_ok w"
  then have "world_ok (w\<lparr>we_spawned := remove_nth n (we_spawned w)\<rparr>)" by simp
  then show ?thesis
    using RunSpawned \<open>world_ok w\<close> refresh_begin_ok export_once_ok
    by (cases "we_spawned w ! n") (simp_all add: Let_def)
qed (simp_all add: export_loop_tick_ok fetch_done_ok post_done_ok set_session_ok start_screen_ok
    span_handle_finish_ok log_at_ok panic_hook_ok flush_on_pagehide_ok)

lemma tel_init_ok: "world_ok (tel_init tb rb now)"
  by (simp add: tel_init_def telemetry_init_def world_ok_def core_ok_def off_ok_def exports_ok_def
      fetches_ok_def loop_ok_def loop_tasks_def lifecycle_new_def outbox_new_def outbox_ok_def
      CAPACITY_def PRE_CONFIG_CAPACITY_def policy_default_def policy_ok_def)

lemma tel_run_ok: "world_ok w \<Longrightarrow> world_ok (tel_run env events w)"
  unfolding tel_run_def by (induction events arbitrary: w) (simp_all add: tel_step_ok)

lemma tel_run_append: "tel_run env (es @ fs) w = tel_run env fs (tel_run env es w)"
  by (simp add: tel_run_def)



section \<open>Where requests go\<close>

definition from_credentials :: "Lifecycle \<Rightarrow> SentRequest \<Rightarrow> bool" where
  "from_credentials l r \<longleftrightarrow> (\<exists>c signal. lc_credentials l = Some c \<and> sr_url r = credentials_url c signal \<and>
     sr_token r = cr_access_token c \<and> sr_token r \<noteq> [])"

text \<open>One stretch of code: what it sends goes out under the credentials it started with, credentials
  change only to those just fetched, and an end is final.\<close>

definition evolves :: "Credentials option \<Rightarrow> World \<Rightarrow> World \<Rightarrow> bool" where
  "evolves fetched w w' \<longleftrightarrow>
     (\<exists>new. we_sent w' = we_sent w @ new \<and> (\<forall>r\<in>set new. from_credentials (ts_lifecycle (we_state w)) r)) \<and>
     (\<forall>c. lc_credentials (ts_lifecycle (we_state w')) = Some c \<longrightarrow>
        lc_credentials (ts_lifecycle (we_state w)) = Some c \<or> fetched = Some c) \<and>
     (is_off (ts_lifecycle (we_state w)) \<longrightarrow> ts_lifecycle (we_state w') = ts_lifecycle (we_state w))"

lemma off_no_credentials: "is_off l \<Longrightarrow> lc_credentials l = None"
  by (cases l) simp_all

lemma evolves_same:
  "we_sent w' = we_sent w \<Longrightarrow> ts_lifecycle (we_state w') = ts_lifecycle (we_state w) \<Longrightarrow> evolves f w w'"
  by (simp add: evolves_def)

lemma evolves_before: "ts_lifecycle (we_state v) = ts_lifecycle (we_state w) \<Longrightarrow> we_sent v = we_sent w \<Longrightarrow>
    evolves f v w' \<longleftrightarrow> evolves f w w'"
  by (simp add: evolves_def)

lemma stopped_state_lifecycle:
  "ts_lifecycle (stopped_state reason s) = turn_off reason (ts_lifecycle s)"
  by (simp add: stopped_state_def discard_everything_def turn_off_def)

lemma evolves_stop: "evolves f w (stop reason w)"
  by (auto simp: evolves_def stopped_state_lifecycle turn_off_def)

lemma evolves_stopped:
  "we_sent w' = we_sent w \<Longrightarrow> ts_lifecycle (we_state w') = turn_off reason (ts_lifecycle (we_state w)) \<Longrightarrow>
     evolves f w w'"
  by (auto simp: evolves_def turn_off_def)

lemma evolves_export_finish: "evolves f w (export_finish origin w)"
proof (cases "po_stopped (ts_policy (we_state w))")
  case None
  then show ?thesis
    by (intro evolves_same) (simp_all add: export_finish_def Let_def with_state_def loop_wakes_def)
next
  case (Some r)
  then show ?thesis
    by (intro evolves_stopped [where reason = r])
      (simp_all add: export_finish_def Let_def with_state_def loop_wakes_def stopped_state_lifecycle)
qed

lemma usable_token_some: "usable_token c t = Some token \<Longrightarrow> token = cr_access_token c \<and> token \<noteq> []"
  by (auto simp: usable_token_def split: if_splits)

lemma next_batch_lifecycle: "next_batch env signal t s = (b, s') \<Longrightarrow> ts_lifecycle s' = ts_lifecycle s"
  by (cases signal) (auto simp: next_batch_def Let_def fresh_body_def case_prod_unfold split: option.splits if_splits)

lemma next_batch_credentials:
  "next_batch env signal t s = (Some batch, s') \<Longrightarrow>
     from_credentials (ts_lifecycle s) \<lparr>sr_url = ba_url batch, sr_token = ba_token batch, sr_body = body, sr_keepalive = k\<rparr>"
  by (auto simp: next_batch_def Let_def from_credentials_def dest: usable_token_some split: option.splits prod.splits)

lemma evolves_export_signals: "evolves None w (export_signals env ck origin signals w)"
proof (induction env ck origin signals w rule: export_signals.induct)
  case (1 env ck origin w)
  then show ?case by (simp add: evolves_export_finish)
next
  case (2 env ck origin signal rest w)
  obtain b s where nb: "next_batch env signal (seconds_of (signal_time ck signal)) (we_state w) = (b, s)"
    by fastforce
  note lc = next_batch_lifecycle [OF nb]
  show ?case
  proof (cases b)
    case None
    have "evolves None (w\<lparr>we_state := s\<rparr>) (export_signals env ck origin rest (w\<lparr>we_state := s\<rparr>))"
      by (rule "2.IH" [OF nb [symmetric] None])
    then show ?thesis by (simp add: nb None evolves_before [of "w\<lparr>we_state := s\<rparr>" w] lc)
  next
    case (Some batch)
    show ?thesis
      using next_batch_credentials [OF nb [unfolded Some]]
      by (simp add: nb Some evolves_def send_def lc)
  qed
qed

declare export_signals.simps [simp del]

lemma evolves_export_once: "evolves None w (export_once env ck origin w)"
proof -
  let ?w = "loop_waits origin (w\<lparr>we_state := (we_state w)\<lparr>ts_exporting := True\<rparr>\<rparr>)"
  have "ts_lifecycle (we_state ?w) = ts_lifecycle (we_state w)" "we_sent ?w = we_sent w"
    by (simp_all add: loop_waits_def)
  note same = evolves_before [OF this]
  have "evolves None w (export_signals env ck origin [Traces, Logs] ?w)"
    using evolves_export_signals [of ?w env ck origin "[Traces, Logs]"] unfolding same .
  then show ?thesis by (simp add: export_once_def Let_def evolves_same)
qed

lemma evolves_refresh_begin: "evolves None w (refresh_begin origin w)"
  by (rule evolves_same) (simp_all add: refresh_begin_def Let_def loop_waits_def)

fun configured_by :: "ConfigFetch \<Rightarrow> Credentials option" where
  "configured_by (CF_Configured c) = Some c"
| "configured_by _ = None"

lemma evolves_refresh_end: "evolves (configured_by fetch) w (refresh_end origin fetch now_ms w)"
proof -
  obtain lines where r: "refresh_end origin fetch now_ms w =
      loop_wakes origin (w\<lparr>we_state := refreshed_state fetch (seconds_of now_ms) (we_state w), we_console := lines\<rparr>)"
    using refresh_end_world by blast
  obtain outcome lifecycle where oc:
      "on_config fetch (seconds_of now_ms) (ts_lifecycle (we_state w)) = (outcome, lifecycle)" by fastforce
  note out = on_config_outcome [OF oc]
  have "ts_lifecycle (refreshed_state fetch (seconds_of now_ms) (we_state w)) = lifecycle"
    unfolding refreshed_state_def oc
    using out by (cases outcome) (auto simp: stopped_state_lifecycle turn_off_def)
  moreover have "lc_credentials (ts_lifecycle (we_state w)) = Some c \<or> configured_by fetch = Some c"
    if "lc_credentials lifecycle = Some c" for c
    using that out by (cases outcome) auto
  moreover have "lifecycle = ts_lifecycle (we_state w)" if "is_off (ts_lifecycle (we_state w))"
    using that oc on_config_off by (cases "ts_lifecycle (we_state w)") auto
  ultimately show ?thesis by (simp add: r evolves_def loop_wakes_def)
qed

lemma evolves_post_answered: "evolves None w (post_answered env ck jitter outcome task w)"
proof -
  obtain lines where r: "post_answered env ck jitter outcome task w =
     (if outcome = EO_Accepted then export_signals env ck (xt_origin task) (xt_rest task)
      else export_finish (xt_origin task))
       (w\<lparr>we_state := settled_state outcome (ck_now ck) jitter (xt_batch task) (we_state w), we_console := lines\<rparr>)"
    using post_answered_world by blast
  let ?w = "w\<lparr>we_state := settled_state outcome (ck_now ck) jitter (xt_batch task) (we_state w), we_console := lines\<rparr>"
  have "evolves None w (export_signals env ck (xt_origin task) (xt_rest task) ?w)"
    "evolves None w (export_finish (xt_origin task) ?w)"
    using evolves_export_signals [of ?w env ck "xt_origin task" "xt_rest task"]
      evolves_export_finish [of None ?w "xt_origin task"]
    by (simp_all add: evolves_before [of ?w w])
  then show ?thesis unfolding r by (cases "outcome = EO_Accepted") simp_all
qed

lemma evolves_pagehide: "evolves None w (flush_on_pagehide env now_ms w)"
proof -
  have "from_credentials (ts_lifecycle (we_state w))
      \<lparr>sr_url = credentials_url c signal, sr_token = token, sr_body = body, sr_keepalive = True\<rparr>"
    if "lc_credentials (ts_lifecycle (we_state w)) = Some c" "usable_token c t = Some token" for c t token signal body
    using that usable_token_some [OF that(2)] by (auto simp: from_credentials_def)
  then show ?thesis
    by (auto simp: flush_on_pagehide_def evolves_def Let_def case_prod_unfold send_def split: option.split)
qed

fun fetched_by :: "TelEvent \<Rightarrow> Credentials option" where
  "fetched_by (FetchDone n answer now_ms) = configured_by (fetch_config answer)"
| "fetched_by _ = None"

lemma tick_step_lifecycle:
  "tick_step now s = (step, s') \<Longrightarrow>
     (step = TimedOut \<longrightarrow> \<not> is_off (ts_lifecycle s) \<and> ts_lifecycle s' = LC_Off OR_ConfigTimedOut) \<and>
     (step \<noteq> TimedOut \<longrightarrow> s' = s)"
  by (cases "ts_lifecycle s") (auto simp: tick_step_def Let_def split: if_splits option.splits)

lemma evolves_tick: "evolves None w (export_loop_tick env ck w)"
proof -
  obtain step s where t: "tick_step (ck_now ck) (we_state w) = (step, s)" by fastforce
  obtain lines b where r: "report_overflow (w\<lparr>we_state := s\<rparr>) =
      w\<lparr>we_state := s\<lparr>ts_overflow_reported := b\<rparr>, we_console := lines\<rparr>" (is "_ = ?w")
    using report_overflow_world [of "w\<lparr>we_state := s\<rparr>"] by auto
  note lc = tick_step_lifecycle [OF t]
  have same: "ts_lifecycle (we_state ?w) = ts_lifecycle (we_state w)" "we_sent ?w = we_sent w" if "step \<noteq> TimedOut"
    using lc that by simp_all
  show ?thesis
  proof (cases step)
    case TimedOut
    then show ?thesis
      using lc by (auto simp: export_loop_tick_def t r evolves_def stopped_state_lifecycle turn_off_def)
  next
    case Finished
    then show ?thesis
      using same by (intro evolves_same) (simp_all add: export_loop_tick_def t r with_state_def)
  next
    case Wait
    then show ?thesis using same by (intro evolves_same) (simp_all add: export_loop_tick_def t r)
  next
    case Refresh
    then show ?thesis
      using evolves_refresh_begin [of ?w ByLoop] same evolves_before [of ?w w] by (simp add: export_loop_tick_def t r)
  next
    case Export
    then show ?thesis
      using evolves_export_once [of ?w env ck ByLoop] same evolves_before [of ?w w] by (simp add: export_loop_tick_def t r)
  qed
qed

lemma evolves_same_refl [simp]: "evolves f w w"
  by (simp add: evolves_def)

lemma evolves_step: "evolves (fetched_by e) w (tel_step env e w)"
proof (cases e)
  case (Tick ck)
  then show ?thesis by (simp add: evolves_tick)
next
  case (RunSpawned n ck)
  let ?w = "w\<lparr>we_spawned := remove_nth n (we_spawned w)\<rparr>"
  show ?thesis
    using RunSpawned evolves_refresh_begin [of ?w BySpawn] evolves_export_once [of ?w env ck BySpawn]
      evolves_before [of ?w w]
    by (auto simp: Let_def split: Spawned.split)
next
  case (FetchDone n answer now_ms)
  let ?w = "w\<lparr>we_fetches := remove_nth n (we_fetches w)\<rparr>"
  show ?thesis
    using FetchDone evolves_refresh_end [of "fetch_config answer" ?w "we_fetches w ! n" now_ms]
      evolves_before [of ?w w] by simp
next
  case (PostDone n answer ck jitter)
  let ?w = "w\<lparr>we_exports := remove_nth n (we_exports w)\<rparr>"
  show ?thesis
    using PostDone evolves_post_answered [of ?w env ck jitter "post_outcome answer" "we_exports w ! n"]
      evolves_before [of ?w w] by simp
next
  case (SetSession b)
  then show ?thesis by (simp add: set_session_def evolves_stop evolves_same with_state_def)
next
  case (PageHide now_ms)
  then show ?thesis by (simp add: evolves_pagehide)
qed (auto intro!: evolves_same simp: start_screen_def span_handle_finish_def log_at_def push_log_def
    panic_hook_def flush_def with_state_def console_def Let_def)

text \<open>The credentials the server has handed over in a history.\<close>

definition handed_over :: "TelEvent list \<Rightarrow> Credentials list" where
  "handed_over events = List.map_filter fetched_by events"

lemma handed_over_snoc: "set (handed_over (events @ [e])) = set (handed_over events) \<union> set_option (fetched_by e)"
  by (cases "fetched_by e") (auto simp: handed_over_def map_filter_def)

lemma requests_traced:
  "(\<forall>c. lc_credentials (ts_lifecycle (we_state (tel_run env events (tel_init tb rb now)))) = Some c \<longrightarrow>
      c \<in> set (handed_over events)) \<and>
   (\<forall>r\<in>set (we_sent (tel_run env events (tel_init tb rb now))).
      \<exists>c\<in>set (handed_over events). \<exists>signal. sr_url r = credentials_url c signal \<and>
        sr_token r = cr_access_token c \<and> sr_token r \<noteq> [])"
proof (induction events rule: rev_induct)
  case Nil
  then show ?case by (simp add: tel_run_def tel_init_def telemetry_init_def lifecycle_new_def)
next
  case (snoc e events)
  let ?w = "tel_run env events (tel_init tb rb now)"
  have run: "tel_run env (events @ [e]) (tel_init tb rb now) = tel_step env e ?w" by (simp add: tel_run_def)
  obtain new where "we_sent (tel_step env e ?w) = we_sent ?w @ new"
      "\<forall>r\<in>set new. from_credentials (ts_lifecycle (we_state ?w)) r"
    using evolves_step [of e ?w env] by (auto simp: evolves_def)
  moreover have "\<forall>c. lc_credentials (ts_lifecycle (we_state (tel_step env e ?w))) = Some c \<longrightarrow>
      lc_credentials (ts_lifecycle (we_state ?w)) = Some c \<or> fetched_by e = Some c"
    using evolves_step [of e ?w env] by (simp add: evolves_def)
  ultimately show ?case
    using snoc.IH unfolding run handed_over_snoc from_credentials_def by (fastforce simp: Un_iff)
qed

text \<open>C12. No configuration, no telemetry: every request the client's telemetry ever makes goes to the
  traces or logs route of an endpoint the server has handed over before, with the token handed over
  with it and never an empty one; before the first configuration nothing is sent.\<close>

theorem sends_only_where_told:
  "list_all (\<lambda>r. list_ex (\<lambda>c. (sr_url r = credentials_url c Traces \<or> sr_url r = credentials_url c Logs) \<and>
       sr_token r = cr_access_token c \<and> sr_token r \<noteq> []) (handed_over events))
     (we_sent (tel_run env events (tel_init trace_bytes root_bytes now)))"
proof -
  have "sr_url r = credentials_url c Traces \<or> sr_url r = credentials_url c Logs"
    if "sr_url r = credentials_url c signal" for r c signal
    using that by (cases signal) simp_all
  then show ?thesis
    using requests_traced [of env events trace_bytes root_bytes now]
    unfolding list_all_iff list_ex_iff by blast
qed

lemma off_run:
  assumes "is_off (ts_lifecycle (we_state w))"
  shows "we_sent (tel_run env events w) = we_sent w \<and>
    ts_lifecycle (we_state (tel_run env events w)) = ts_lifecycle (we_state w)"
  using assms
proof (induction events arbitrary: w)
  case (Cons e events)
  have "from_credentials (ts_lifecycle (we_state w)) r \<longleftrightarrow> False" for r
    using off_no_credentials [OF Cons.prems] by (simp add: from_credentials_def)
  then have "we_sent (tel_step env e w) = we_sent w" "ts_lifecycle (we_state (tel_step env e w)) = ts_lifecycle (we_state w)"
    using evolves_step [of e w env] Cons.prems by (auto simp: evolves_def)
  with Cons.IH [of "tel_step env e w"] Cons.prems show ?case by (simp add: tel_run_def)
qed (simp add: tel_run_def)

lemma off_tick:
  assumes "is_off (ts_lifecycle (we_state w))" "we_loop w = Sleeping"
  shows "we_loop (tel_step env (Tick ck) w) = LoopDone"
proof -
  have "tick_step (ck_now ck) (we_state w) = (Finished, we_state w)"
    using assms(1) by (cases "ts_lifecycle (we_state w)") (simp_all add: tick_step_def)
  then show ?thesis using assms(2) by (simp add: export_loop_tick_def with_state_def Let_def)
qed

text \<open>Off is final: once telemetry is off, for whatever reason, nothing is sent again, the reason
  stays, nothing is held however much is recorded, and the loop ends the next time it wakes.\<close>

theorem telemetry_off_is_final:
  assumes "ts_lifecycle (we_state (tel_run env before (tel_init trace_bytes root_bytes now))) = LC_Off reason"
  shows "we_sent (tel_run env (before @ later) (tel_init trace_bytes root_bytes now)) =
      we_sent (tel_run env before (tel_init trace_bytes root_bytes now)) \<and>
    ts_lifecycle (we_state (tel_run env (before @ later) (tel_init trace_bytes root_bytes now))) = LC_Off reason \<and>
    silent (we_state (tel_run env (before @ later) (tel_init trace_bytes root_bytes now))) \<and>
    (we_loop (tel_run env (before @ later) (tel_init trace_bytes root_bytes now)) = Sleeping \<longrightarrow>
       we_loop (tel_run env (before @ later @ [Tick ck]) (tel_init trace_bytes root_bytes now)) = LoopDone)"
proof -
  let ?w = "tel_run env (before @ later) (tel_init trace_bytes root_bytes now)"
  have "is_off (ts_lifecycle (we_state (tel_run env before (tel_init trace_bytes root_bytes now))))"
    using assms by simp
  note run = off_run [OF this, of env later, folded tel_run_append]
  then have off: "is_off (ts_lifecycle (we_state ?w))" using assms by simp
  have "world_ok ?w" by (intro tel_run_ok tel_init_ok)
  with off have "silent (we_state ?w)" by (simp add: world_ok_def off_ok_def)
  moreover have "we_loop (tel_run env (before @ later @ [Tick ck]) (tel_init trace_bytes root_bytes now)) = LoopDone"
    if "we_loop ?w = Sleeping"
    using off_tick [OF off that, of env ck] by (simp add: tel_run_def)
  ultimately show ?thesis using run assms by simp
qed

lemma telemetry_off_is_final_witness:
  "we_sent (tel_run \<lparr>tn_to_string = (\<lambda>_. ''{}''), tn_release = None, tn_package_version = ''1''\<rparr>
     ([SetSession False] @ [PageHide (Fin 1)]) (tel_init [] [] (Fin 0))) = []"
proof -
  let ?env = "\<lparr>tn_to_string = (\<lambda>_. ''{}''), tn_release = None, tn_package_version = ''1''\<rparr>"
  have "ts_lifecycle (we_state (tel_run ?env [SetSession False] (tel_init [] [] (Fin 0)))) = LC_Off OR_SignedOut"
    by (simp add: tel_run_def set_session_def stopped_state_lifecycle tel_init_def telemetry_init_def
        lifecycle_new_def turn_off_def)
  from telemetry_off_is_final [OF this, of "[PageHide (Fin 1)]"] show ?thesis
    by (simp add: tel_run_def set_session_def tel_init_def)
qed

section \<open>Every item is accounted for\<close>

definition queue_total :: "'a Outbox \<Rightarrow> u64" where
  "queue_total q = of_nat (length (ob_items q)) + ob_dropped q"

fun waiting :: "Pending option \<Rightarrow> nat" where
  "waiting None = 0"
| "waiting (Some p) = pe_items p"

definition account :: "Telemetry \<Rightarrow> u64" where
  "account s = queue_total (ts_spans s) + queue_total (ts_logs s) + of_nat (waiting (ts_retry_spans s)) +
     of_nat (waiting (ts_retry_logs s)) + ts_dropped_after_send s"

definition in_flight :: "World \<Rightarrow> nat" where
  "in_flight w = sum_list (map (\<lambda>t. ba_items (xt_batch t)) (we_exports w))"

definition world_total :: "World \<Rightarrow> u64" where
  "world_total w = account (we_state w) + of_nat (in_flight w)"

lemma queue_total_push: "outbox_ok q \<Longrightarrow> queue_total (outbox_push x q) = queue_total q + 1"
  using of_nat_parts [of "Suc (length (ob_items q))" "ob_capacity q"]
  by (simp add: queue_total_def outbox_push_effect algebra_simps)

lemma queue_total_capacity: "queue_total (set_capacity n q) = queue_total q"
  using of_nat_parts [of "length (ob_items q)" n]
  by (simp add: queue_total_def set_capacity_effect algebra_simps)

lemma queue_total_take: "take_batch m q = (b, q') \<Longrightarrow> queue_total q' + of_nat (length b) = queue_total q"
  by (auto simp: queue_total_def take_batch_def Let_def of_nat_add [symmetric] simp del: of_nat_add)

lemma queue_total_new [simp]: "queue_total (outbox_new n) = 0"
  by (simp add: queue_total_def outbox_new_def)

lemma account_set_retry:
  "account (set_retry signal p s) + of_nat (waiting (retry_of signal s)) = account s + of_nat (waiting p)"
  by (cases signal) (simp_all add: account_def set_retry_def retry_of_def algebra_simps)

lemma fresh_body_account:
  "fresh_body env signal s = (b, s') \<Longrightarrow>
     account s' + of_nat (case b of None \<Rightarrow> 0 | Some (_, items) \<Rightarrow> items) = account s"
  using queue_total_take [of MAX_BATCH "ts_spans s"] queue_total_take [of MAX_BATCH "ts_logs s"]
  by (cases signal; cases "take_batch MAX_BATCH (ts_spans s)"; cases "take_batch MAX_BATCH (ts_logs s)")
    (auto simp: fresh_body_def account_def Let_def algebra_simps split: if_splits)

lemma next_batch_account:
  assumes "next_batch env signal now_s s = (b, s')"
  shows "account s' + of_nat (case b of None \<Rightarrow> 0 | Some batch \<Rightarrow> ba_items batch) = account s"
proof -
  obtain body s'' where f: "fresh_body env signal s = (body, s'')" by fastforce
  note fresh = fresh_body_account [OF f]
  show ?thesis
    using assms fresh account_set_retry [of signal None s]
    by (cases "retry_of signal s") (auto simp: next_batch_def Let_def f split: option.splits)
qed

lemma world_total_wakes [simp]: "world_total (loop_wakes origin w) = world_total w"
  "world_total (loop_waits origin w) = world_total w"
  by (simp_all add: world_total_def in_flight_def loop_wakes_def loop_waits_def)

lemma account_flags [simp]:
  "account (s\<lparr>ts_exporting := b\<rparr>) = account s" "account (s\<lparr>ts_fetching_config := b\<rparr>) = account s"
  "account (s\<lparr>ts_overflow_reported := b\<rparr>) = account s" "account (s\<lparr>ts_signed_in := b\<rparr>) = account s"
  "account (s\<lparr>ts_policy := p\<rparr>) = account s" "account (s\<lparr>ts_lifecycle := l\<rparr>) = account s"
  by (simp_all add: account_def)

text \<open>On: telemetry is not off after the step.\<close>

abbreviation on :: "World \<Rightarrow> bool" where
  "on w \<equiv> \<not> is_off (ts_lifecycle (we_state w))"

lemma stop_off: "\<not> on (stop reason w)"
  by (simp add: stopped_state_lifecycle)

lemma export_finish_total: "on (export_finish origin w) \<Longrightarrow> world_total (export_finish origin w) = world_total w"
proof -
  assume "on (export_finish origin w)"
  moreover obtain lines where "export_finish origin w = loop_wakes origin (w\<lparr>we_state :=
      (let s = (we_state w)\<lparr>ts_exporting := False\<rparr>
       in case po_stopped (ts_policy s) of Some reason \<Rightarrow> stopped_state reason s | None \<Rightarrow> s), we_console := lines\<rparr>)"
    using export_finish_world by blast
  ultimately show ?thesis
    by (cases "po_stopped (ts_policy (we_state w))")
      (simp_all add: stopped_state_lifecycle loop_wakes_def world_total_def in_flight_def split: if_splits)
qed

lemma export_signals_total:
  "on (export_signals env ck origin signals w) \<Longrightarrow>
     world_total (export_signals env ck origin signals w) = world_total w"
proof (induction env ck origin signals w rule: export_signals.induct)
  case (1 env ck origin w)
  then show ?case by (simp add: export_signals.simps export_finish_total)
next
  case (2 env ck origin signal rest w)
  obtain b s where nb: "next_batch env signal (seconds_of (signal_time ck signal)) (we_state w) = (b, s)"
    by fastforce
  note total = next_batch_account [OF nb]
  show ?case
  proof (cases b)
    case None
    then have "world_total (w\<lparr>we_state := s\<rparr>) = world_total w"
      using total by (simp add: world_total_def in_flight_def)
    then show ?thesis
      using "2.IH" [OF nb [symmetric] None] "2.prems" by (simp add: export_signals.simps nb None)
  next
    case (Some batch)
    then show ?thesis
      using total by (simp add: export_signals.simps nb send_def world_total_def in_flight_def algebra_simps)
  qed
qed

lemma export_once_total:
  "on (export_once env ck origin w) \<Longrightarrow> world_total (export_once env ck origin w) = world_total w"
proof -
  let ?w = "loop_waits origin (w\<lparr>we_state := (we_state w)\<lparr>ts_exporting := True\<rparr>\<rparr>)"
  have "world_total ?w = world_total w" by simp (simp add: world_total_def in_flight_def)
  moreover assume "on (export_once env ck origin w)"
  ultimately show ?thesis
    using export_signals_total [of env ck origin "[Traces, Logs]" ?w]
    by (auto simp: export_once_def Let_def split: if_splits)
qed

lemma settled_account:
  assumes "retry_of (ba_signal batch) s = None"
  shows "account (settled_state outcome now jitter batch s) =
    account s + (if outcome = EO_Accepted then 0 else of_nat (ba_items batch))"
proof -
  have "\<not> de_retry_batch (fst (policy_record EO_Accepted n now jitter p))" for n p
    by (simp add: policy_defs Let_def)
  moreover have "account (s\<lparr>ts_policy := p, ts_dropped_after_send := ts_dropped_after_send s + n\<rparr>) = account s + n" for p n
    by (simp add: account_def algebra_simps)
  ultimately show ?thesis
    using assms account_set_retry [of "ba_signal batch" _ "s\<lparr>ts_policy := p\<rparr>" for p]
    by (auto simp: settled_state_def settle_batch_def Let_def)
qed

lemma post_done_total:
  assumes "world_ok w" "n < length (we_exports w)"
    and "on (post_answered env ck jitter outcome (we_exports w ! n) (w\<lparr>we_exports := remove_nth n (we_exports w)\<rparr>))"
  shows "world_total (post_answered env ck jitter outcome (we_exports w ! n)
      (w\<lparr>we_exports := remove_nth n (we_exports w)\<rparr>)) +
    (if outcome = EO_Accepted then of_nat (ba_items (xt_batch (we_exports w ! n))) else 0) = world_total w"
proof -
  from assms(1,2) obtain task where x: "we_exports w = [task]" "n = 0"
      "retry_of (ba_signal (xt_batch task)) (we_state w) = None"
    by (cases "ts_exporting (we_state w)") (auto simp: world_ok_def exports_ok_def)
  let ?s = "settled_state outcome (ck_now ck) jitter (xt_batch task) (we_state w)"
  obtain lines where r: "post_answered env ck jitter outcome task (w\<lparr>we_exports := []\<rparr>) =
     (if outcome = EO_Accepted then export_signals env ck (xt_origin task) (xt_rest task)
      else export_finish (xt_origin task)) (w\<lparr>we_exports := [], we_state := ?s, we_console := lines\<rparr>)"
    using post_answered_world [of env ck jitter outcome task "w\<lparr>we_exports := []\<rparr>"] by auto
  let ?w = "w\<lparr>we_exports := [], we_state := ?s, we_console := lines\<rparr>"
  have "world_total (post_answered env ck jitter outcome task (w\<lparr>we_exports := []\<rparr>)) = world_total ?w"
    using assms(3) unfolding x(1,2) remove_nth_single nth_Cons_0 r
    by (cases "outcome = EO_Accepted") (simp_all add: export_signals_total export_finish_total)
  then show ?thesis
    using settled_account [OF x(3), of outcome "ck_now ck" jitter]
    by (simp add: x world_total_def in_flight_def)
qed

lemma refreshed_account:
  "\<not> is_off (ts_lifecycle (refreshed_state fetch now_s s)) \<Longrightarrow> account (refreshed_state fetch now_s s) = account s"
proof -
  assume on: "\<not> is_off (ts_lifecycle (refreshed_state fetch now_s s))"
  obtain outcome lifecycle where oc: "on_config fetch now_s (ts_lifecycle s) = (outcome, lifecycle)" by fastforce
  show ?thesis
    using on by (cases outcome)
      (simp_all add: refreshed_state_def oc stopped_state_lifecycle, simp_all add: account_def queue_total_capacity)
qed

lemma refresh_begin_total: "world_total (refresh_begin origin w) = world_total w"
  by (simp add: refresh_begin_def Let_def) (simp add: world_total_def in_flight_def)

lemma fetch_done_total:
  assumes "on (refresh_end origin fetch now_ms (w\<lparr>we_fetches := fs\<rparr>))"
  shows "world_total (refresh_end origin fetch now_ms (w\<lparr>we_fetches := fs\<rparr>)) = world_total w"
proof -
  obtain lines where r: "refresh_end origin fetch now_ms (w\<lparr>we_fetches := fs\<rparr>) =
      loop_wakes origin (w\<lparr>we_fetches := fs, we_state := refreshed_state fetch (seconds_of now_ms) (we_state w),
        we_console := lines\<rparr>)"
    using refresh_end_world [of origin fetch now_ms "w\<lparr>we_fetches := fs\<rparr>"] by auto
  have "\<not> is_off (ts_lifecycle (refreshed_state fetch (seconds_of now_ms) (we_state w)))"
    using assms unfolding r by (simp add: loop_wakes_def split: if_splits)
  then show ?thesis
    unfolding r by simp (simp add: world_total_def in_flight_def refreshed_account)
qed

lemma tick_total:
  assumes "world_ok w" "on (export_loop_tick env ck w)"
  shows "world_total (export_loop_tick env ck w) = world_total w"
proof -
  obtain step s where t: "tick_step (ck_now ck) (we_state w) = (step, s)" by fastforce
  obtain lines b where r: "report_overflow (w\<lparr>we_state := s\<rparr>) =
      w\<lparr>we_state := s\<lparr>ts_overflow_reported := b\<rparr>, we_console := lines\<rparr>" (is "_ = ?w")
    using report_overflow_world [of "w\<lparr>we_state := s\<rparr>"] by auto
  have total: "world_total ?w = world_total w" if "step \<noteq> TimedOut"
    using tick_step_lifecycle [OF t] that by (simp add: world_total_def in_flight_def)
  show ?thesis
  proof (cases step)
    case TimedOut
    then show ?thesis using assms(2) stop_off by (simp add: export_loop_tick_def t)
  next
    case Finished
    then have "is_off (ts_lifecycle s) \<or> po_stopped (ts_policy s) \<noteq> None" and s: "s = we_state w"
      using t tick_step_lifecycle [OF t]
      by (cases "ts_lifecycle (we_state w)"; auto simp: tick_step_def Let_def split: if_splits option.splits)+
    then have "is_off (ts_lifecycle (we_state w))" using assms(1) by (auto simp: world_ok_def off_ok_def)
    then have "is_off (ts_lifecycle s)" by (simp add: s)
    then have "\<not> on (export_loop_tick env ck w)"
      using Finished by (simp add: export_loop_tick_def t r with_state_def)
    with assms(2) show ?thesis by blast
  next
    case Wait
    then show ?thesis using total by (simp add: export_loop_tick_def t r)
  next
    case Refresh
    then show ?thesis using total by (simp add: export_loop_tick_def t r refresh_begin_total)
  next
    case Export
    then show ?thesis using total assms(2) export_once_total [of env ck ByLoop ?w] by (simp add: export_loop_tick_def t r)
  qed
qed

lemma recorded_total:
  "core_ok (we_state w) \<Longrightarrow> on w \<Longrightarrow> world_total (span_handle_finish handle now status w) = world_total w + 1"
  "core_ok (we_state w) \<Longrightarrow> on w \<Longrightarrow> world_total (start_screen tb rb name route start location w) = world_total w + 1"
  "core_ok (we_state w) \<Longrightarrow> on w \<Longrightarrow> world_total (push_log context severity message attributes time w) = world_total w + 1"
  by (simp_all add: span_handle_finish_def start_screen_def push_log_def with_state_def console_def Let_def
      world_total_def in_flight_def core_ok_def account_def queue_total_push)

text \<open>What an event records, and what it delivers: a batch the ingest accepted, or what is handed to
  the browser as the page goes away.\<close>

fun recorded :: "TelEvent \<Rightarrow> nat" where
  "recorded (StartScreen _ _ _ _ _ _) = 1"
| "recorded (EndSpan _ _ _) = 1"
| "recorded (WriteLog _ _ _ _ _ _) = 1"
| "recorded (Panic _ _ _) = 1"
| "recorded _ = 0"

definition queued :: "World \<Rightarrow> nat" where
  "queued w = length (ob_items (ts_spans (we_state w))) + length (ob_items (ts_logs (we_state w)))"

fun delivered :: "TelEnv \<Rightarrow> TelEvent \<Rightarrow> World \<Rightarrow> nat" where
  "delivered env (PostDone n answer ck jitter) w =
     (if n < length (we_exports w) \<and> post_outcome answer = EO_Accepted
      then ba_items (xt_batch (we_exports w ! n)) else 0)"
| "delivered env (PageHide now_ms) w = queued w - queued (flush_on_pagehide env now_ms w)"
| "delivered env _ w = 0"

lemma queue_total_taken:
  "of_nat (length (ob_items q) - length (ob_items (snd (take_batch m q)))) + queue_total (snd (take_batch m q))
    = queue_total q"
  using queue_total_take [of m q, OF prod.collapse [symmetric]]
  by (simp add: take_batch_def Let_def algebra_simps)

lemma taken_shorter: "length (ob_items (snd (take_batch m q))) \<le> length (ob_items q)"
  by (simp add: take_batch_def Let_def)

lemma pagehide_total:
  "world_total (flush_on_pagehide env now_ms w) + of_nat (queued w - queued (flush_on_pagehide env now_ms w)) = world_total w"
proof -
  let ?s = "we_state w" and ?w = "flush_on_pagehide env now_ms w"
  let ?sq = "snd (take_batch KEEPALIVE_MAX_ITEMS (ts_spans ?s))" and ?lq = "snd (take_batch KEEPALIVE_MAX_ITEMS (ts_logs ?s))"
  have world: "we_exports ?w = we_exports w" "we_state ?w = ?s \<or> we_state ?w = ?s\<lparr>ts_spans := ?sq, ts_logs := ?lq\<rparr>"
    by (simp_all add: flush_on_pagehide_def Let_def case_prod_unfold send_def split: option.split)
  show ?thesis
  proof (cases "we_state ?w = ?s")
    case True
    then show ?thesis using world(1) by (simp add: world_total_def in_flight_def queued_def)
  next
    case False
    with world(2) have s: "we_state ?w = ?s\<lparr>ts_spans := ?sq, ts_logs := ?lq\<rparr>" by blast
    have "queued w - queued ?w = (length (ob_items (ts_spans ?s)) - length (ob_items ?sq)) +
        (length (ob_items (ts_logs ?s)) - length (ob_items ?lq))"
      using taken_shorter [of KEEPALIVE_MAX_ITEMS "ts_spans ?s"] taken_shorter [of KEEPALIVE_MAX_ITEMS "ts_logs ?s"]
      by (simp add: queued_def s)
    then have eq: "(of_nat (queued w - queued ?w) :: u64) =
        of_nat (length (ob_items (ts_spans ?s)) - length (ob_items ?sq)) +
        of_nat (length (ob_items (ts_logs ?s)) - length (ob_items ?lq))"
      by (simp only: of_nat_add)
    show ?thesis
      unfolding eq using world(1)
      by (simp add: world_total_def in_flight_def account_def s algebra_simps
          queue_total_taken [of "ts_spans ?s" KEEPALIVE_MAX_ITEMS, symmetric]
          queue_total_taken [of "ts_logs ?s" KEEPALIVE_MAX_ITEMS, symmetric])
  qed
qed

lemma tel_step_total:
  assumes "world_ok w" "on (tel_step env e w)"
  shows "world_total (tel_step env e w) + of_nat (delivered env e w) = world_total w + of_nat (recorded e)"
proof -
  have core: "core_ok (we_state w)" using assms(1) by (simp add: world_ok_def)
  have before: "on w" using assms(2) evolves_step [of e w env] by (auto simp: evolves_def)
  show ?thesis
  proof (cases e)
    case (Tick ck)
    then show ?thesis using assms tick_total [of w env ck] by (cases "we_loop w = Sleeping") simp_all
  next
    case (RunSpawned n ck)
    let ?w = "w\<lparr>we_spawned := remove_nth n (we_spawned w)\<rparr>"
    have "world_total ?w = world_total w" by (simp add: world_total_def in_flight_def)
    then show ?thesis
      using RunSpawned assms(2) export_once_total [of env ck BySpawn ?w]
      by (cases "we_spawned w ! n") (auto simp: Let_def refresh_begin_total)
  next
    case (FetchDone n answer now_ms)
    then show ?thesis using assms(2) fetch_done_total by (cases "n < length (we_fetches w)") simp_all
  next
    case (PostDone n answer ck jitter)
    then show ?thesis
      using assms post_done_total [OF assms(1), of n env ck jitter "post_outcome answer"]
      by (cases "n < length (we_exports w)"; cases "post_outcome answer = EO_Accepted") simp_all
  next
    case (SetSession b)
    then show ?thesis
      using assms(2) stop_off by (cases b) (simp_all add: set_session_def with_state_def world_total_def in_flight_def)
  next
    case (PageHide now_ms)
    then show ?thesis by (simp add: pagehide_total)
  next
    case (Panic info location time)
    have "world_total (flush v) = world_total v" for v
      by (simp add: flush_def Let_def) (simp add: world_total_def in_flight_def)
    then show ?thesis using Panic recorded_total(3) [OF core before] by (simp add: panic_hook_def)
  qed (simp_all add: log_at_def recorded_total [OF core before])
qed

fun tally :: "TelEnv \<Rightarrow> TelEvent list \<Rightarrow> World \<Rightarrow> nat \<times> nat" where
  "tally env [] w = (0, 0)"
| "tally env (e # es) w =
     (let (r, d) = tally env es (tel_step env e w) in (recorded e + r, delivered env e w + d))"

lemma tel_run_total:
  assumes "world_ok w" "on (tel_run env events w)"
  shows "world_total (tel_run env events w) + of_nat (snd (tally env events w)) =
    world_total w + of_nat (fst (tally env events w))"
  using assms
proof (induction events arbitrary: w)
  case (Cons e events)
  let ?w = "tel_step env e w"
  have run: "tel_run env (e # events) w = tel_run env events ?w" by (simp add: tel_run_def)
  have on: "on ?w" using Cons.prems(2) off_run [of ?w env events] by (auto simp: run)
  note step = tel_step_total [OF Cons.prems(1) on]
  have "world_total (tel_run env events ?w) + of_nat (snd (tally env events ?w)) =
      world_total ?w + of_nat (fst (tally env events ?w))"
    using Cons.IH [OF tel_step_ok [OF Cons.prems(1)]] Cons.prems(2) by (simp add: run)
  then show ?case
    using step by (simp add: run case_prod_unfold Let_def algebra_simps)
qed (simp add: tel_run_def)



section \<open>The page-exit body\<close>

text \<open>The oldest items, as many as halving leaves: it fits the budget, or a single item is left.\<close>

lemma fit_keepalive_fits:
  "\<exists>k. fit_keepalive encode items = encode (take k items) \<and> (items \<noteq> [] \<longrightarrow> 0 < k) \<and>
     (length (fit_keepalive encode items) \<le> KEEPALIVE_MAX_BYTES \<or> k = 1 \<or> items = [])"
proof (induction encode items rule: fit_keepalive.induct)
  case (1 encode items)
  show ?case
  proof (cases "length (encode items) \<le> KEEPALIVE_MAX_BYTES \<or> length items \<le> 1")
    case True
    then have "fit_keepalive encode items = encode (take (length items) items)"
      by (simp add: fit_keepalive.simps [of encode items])
    moreover have "length (encode items) \<le> KEEPALIVE_MAX_BYTES \<or> length items = 1 \<or> items = []"
      using True by (cases items) auto
    ultimately show ?thesis by (intro exI [of _ "length items"]) auto
  next
    case False
    then have step: "fit_keepalive encode items = fit_keepalive encode (take (length items div 2) items)"
      by (subst fit_keepalive.simps) simp
    obtain k where k: "fit_keepalive encode (take (length items div 2) items) =
        encode (take k (take (length items div 2) items))"
      "take (length items div 2) items \<noteq> [] \<longrightarrow> 0 < k"
      "length (fit_keepalive encode (take (length items div 2) items)) \<le> KEEPALIVE_MAX_BYTES \<or> k = 1 \<or>
         take (length items div 2) items = []"
      using 1 [OF refl False] by blast
    have "0 < length items div 2" "items \<noteq> []" using False by auto
    with k show ?thesis
      unfolding step by (intro exI [of _ "min k (length items div 2)"]) auto
  qed
qed

end
