(* ===== verification/Raster.thy ===== *)
theory Raster
  imports Protocol
begin

text \<open>
  Drawing one thumbnail (\<open>render\<close> and what it calls in \<open>crates/server/src/thumbnails.rs\<close>): the fit
  of the ink into the image in \<open>f32\<close>, the paper and its grain, the strokes, and the box filter
  down to the delivered size. \<open>tiny_skia\<close> itself is the record \<open>skia\<close> of the operations the code
  calls, a parameter; a pixmap is its size and its premultiplied pixels, row by row.
\<close>

section \<open>The raster library\<close>

type_synonym rgb = "u8 \<times> u8 \<times> u8"
type_synonym rgba = "u8 \<times> u8 \<times> u8 \<times> u8"

record Pixmap =
  pm_width :: nat
  pm_height :: nat
  pm_pixels :: "rgba list"

text \<open>A transform as it is built: the library composes it.\<close>

datatype Transform =
    From_scale fp fp
  | Post_translate Transform fp fp
  | Post_scale Transform fp fp

datatype LineCap = Cap_Butt | Cap_Round
datatype LineJoin = Join_Miter | Join_Round

record SkiaStroke =
  pen_width :: fp
  pen_line_cap :: LineCap
  pen_line_join :: LineJoin

record 'path skia =
  sk_new :: "nat \<Rightarrow> nat \<Rightarrow> Pixmap option"
  sk_fill_white :: "Pixmap \<Rightarrow> Pixmap"
  sk_line :: "fp \<times> fp \<Rightarrow> fp \<times> fp \<Rightarrow> 'path option"
  sk_circle :: "fp \<Rightarrow> fp \<Rightarrow> fp \<Rightarrow> 'path option"
  sk_stroke_path :: "'path \<Rightarrow> rgb \<Rightarrow> SkiaStroke \<Rightarrow> Transform \<Rightarrow> Pixmap \<Rightarrow> Pixmap"
  sk_fill_path :: "'path \<Rightarrow> rgb \<Rightarrow> Transform \<Rightarrow> Pixmap \<Rightarrow> Pixmap"
  sk_premultiply :: "rgba \<Rightarrow> rgba"
  sk_premultiplied :: "rgba \<Rightarrow> rgba option"
  sk_encode_png :: "Pixmap \<Rightarrow> string + u8 list"

definition WIDTH :: nat where "WIDTH = 240"
definition HEIGHT :: nat where "HEIGHT = 160"
definition PADDING :: fp where "PADDING = Fin 12"
definition SUPERSAMPLE :: nat where "SUPERSAMPLE = 2"
definition MIN_THUMBNAIL_STROKE_WIDTH :: fp where "MIN_THUMBNAIL_STROKE_WIDTH = Fin 1"

text \<open>The cast \<open>as f32\<close> of an \<open>f64\<close>; \<open>as f64\<close> of an \<open>f32\<close> keeps the value.\<close>

fun as_f32 :: "fp \<Rightarrow> fp" where
  "as_f32 (Fin x) = fround f32 x"
| "as_f32 a = a"

definition draw_transform :: "fp \<Rightarrow> fp \<Rightarrow> fp \<Rightarrow> Transform" where
  "draw_transform scale offset_x offset_y =
     (let factor = Fin (of_nat SUPERSAMPLE)
      in Post_scale (Post_translate (From_scale scale scale) offset_x offset_y) factor factor)"

section \<open>The box filter\<close>

text \<open>Collecting fallible elements, stopping at the first error.\<close>

fun collect :: "('e + 'a) list \<Rightarrow> 'e + 'a list" where
  "collect [] = Inr []"
| "collect (r # rs) = bindr r (\<lambda>x. bindr (collect rs) (\<lambda>xs. Inr (x # xs)))"

definition block_samples :: "Pixmap \<Rightarrow> nat \<Rightarrow> nat \<Rightarrow> rgba list" where
  "block_samples source y x =
     concat (map (\<lambda>row.
       let start = (y * SUPERSAMPLE + row) * (WIDTH * SUPERSAMPLE) + x * SUPERSAMPLE
       in take SUPERSAMPLE (drop start (pm_pixels source))) [0..<SUPERSAMPLE])"

definition mean_channel :: "u32 \<Rightarrow> u8" where
  "mean_channel s =
     (let samples = of_nat (SUPERSAMPLE * SUPERSAMPLE) in ucast ((s + samples div 2) div samples))"

definition sum_channel :: "(rgba \<Rightarrow> u8) \<Rightarrow> rgba list \<Rightarrow> u32" where
  "sum_channel channel pixels = fold (\<lambda>pixel acc. acc + ucast (channel pixel)) pixels 0"

definition mean_pixel :: "rgba list \<Rightarrow> rgba" where
  "mean_pixel pixels =
     (mean_channel (sum_channel fst pixels),
      mean_channel (sum_channel (fst \<circ> snd) pixels),
      mean_channel (sum_channel (fst \<circ> snd \<circ> snd) pixels),
      mean_channel (sum_channel (snd \<circ> snd \<circ> snd) pixels))"

definition ok_or :: "'e \<Rightarrow> 'a option \<Rightarrow> 'e + 'a" where
  "ok_or e r = (case r of None \<Rightarrow> Inl e | Some x \<Rightarrow> Inr x)"

definition downsample :: "'path skia \<Rightarrow> Pixmap \<Rightarrow> string + Pixmap" where
  "downsample sk source =
     (if (pm_width source, pm_height source) \<noteq> (WIDTH * SUPERSAMPLE, HEIGHT * SUPERSAMPLE)
      then Inl ''downsample source is not the supersampled size''
      else bindr (ok_or ''could not allocate thumbnail'' (sk_new sk WIDTH HEIGHT)) (\<lambda>target.
        bindr (collect (concat (map (\<lambda>y. map (\<lambda>x.
            ok_or ''downsampled pixel is not premultiplied''
              (sk_premultiplied sk (mean_pixel (block_samples source y x))))
          [0..<WIDTH]) [0..<HEIGHT]))) (\<lambda>pixels.
        Inr (target\<lparr>pm_pixels := pixels\<rparr>))))"

section \<open>Paper\<close>

definition blend :: "u8 \<Rightarrow> u8 \<Rightarrow> u8 \<Rightarrow> u8" where
  "blend alpha dst src =
     (let d = (ucast dst :: u32); s = (ucast src :: u32); a = (ucast alpha :: u32)
      in ucast ((s * a + d * (255 - a) + 127) div 255))"

definition grain_pixel :: "'path skia \<Rightarrow> u8 \<Rightarrow> rgba \<Rightarrow> rgba" where
  "grain_pixel sk alpha base =
     (if alpha = 0 then base
      else case (base, PAPER_TEXTURE_COLOR_RGB) of ((red, green, blue, _), (grain_r, grain_g, grain_b)) \<Rightarrow>
        sk_premultiply sk (blend alpha red grain_r, blend alpha green grain_g, blend alpha blue grain_b, 255))"

definition draw_paper_texture :: "'path skia \<Rightarrow> Paper \<Rightarrow> Pixmap \<Rightarrow> Pixmap" where
  "draw_paper_texture sk paper pixmap =
     (if \<not> paper_has_texture paper then pixmap
      else let tile = paper_texture_tile; width = pm_width pixmap
        in pixmap\<lparr>pm_pixels := concat (map (\<lambda>y. map (\<lambda>x.
             let alpha = tile ! (((y div SUPERSAMPLE) mod PAPER_TEXTURE_TILE_SIZE) * PAPER_TEXTURE_TILE_SIZE
                   + ((x div SUPERSAMPLE) mod PAPER_TEXTURE_TILE_SIZE))
             in grain_pixel sk alpha (pm_pixels pixmap ! (y * width + x))) [0..<width])
           [0..<pm_height pixmap])\<rparr>)"

definition mark_pen :: "fp \<Rightarrow> PaperMarkKind \<Rightarrow> SkiaStroke" where
  "mark_pen scale kind =
     \<lparr>pen_width = fp_div f32 (as_f32 (paper_mark_device_width (kind_world_width kind) scale)) scale,
      pen_line_cap = Cap_Butt, pen_line_join = Join_Miter\<rparr>"

definition draw_mark :: "'path skia \<Rightarrow> fp \<Rightarrow> WorldViewport \<Rightarrow> Transform \<Rightarrow> PaperMark \<Rightarrow> Pixmap \<Rightarrow> Pixmap" where
  "draw_mark sk scale viewport transform mark pixmap =
     (let kind = (if mark_kind mark = Margin then Margin else Rule);
          position = as_f32 (mark_position mark);
          path = (if is_horizontal (mark_kind mark)
            then sk_line sk (as_f32 (vp_min_x viewport), position) (as_f32 (vp_max_x viewport), position)
            else sk_line sk (position, as_f32 (vp_min_y viewport)) (position, as_f32 (vp_max_y viewport)))
      in case path of
           None \<Rightarrow> pixmap
         | Some p \<Rightarrow> sk_stroke_path sk p (kind_color_rgb kind) (mark_pen scale kind) transform pixmap)"

definition to_world :: "fp \<Rightarrow> fp \<Rightarrow> fp \<Rightarrow> fp" where
  "to_world scale device offset = fp_div f32 (fp_sub f32 device offset) scale"

definition draw_paper :: "'path skia \<Rightarrow> Paper \<Rightarrow> fp \<Rightarrow> fp \<Rightarrow> fp \<Rightarrow> Pixmap \<Rightarrow> Pixmap" where
  "draw_paper sk paper scale offset_x offset_y pixmap =
     (if paper = Paper_None \<or> fp_le scale (Fin 0) \<or> \<not> fp_finite scale then pixmap
      else let pixmap1 = draw_paper_texture sk paper pixmap;
               viewport = viewport_new
                 (to_world scale (Fin 0) offset_x) (to_world scale (Fin 0) offset_y)
                 (to_world scale (Fin (of_nat WIDTH)) offset_x) (to_world scale (Fin (of_nat HEIGHT)) offset_y)
                 scale;
               transform = draw_transform scale offset_x offset_y
        in fold (draw_mark sk scale viewport transform) (visit_paper_marks paper viewport) pixmap1)"

section \<open>Strokes\<close>

definition point_bounds :: "StrokePoint list \<Rightarrow> fp \<times> fp \<times> fp \<times> fp" where
  "point_bounds points =
     fold (\<lambda>point (min_x, max_x, min_y, max_y).
       (fp_min min_x (pt_x point), fp_max max_x (pt_x point),
        fp_min min_y (pt_y point), fp_max max_y (pt_y point))) points (PInf, NInf, PInf, NInf)"

definition stroke_boost :: "StrokeStyle \<Rightarrow> fp \<Rightarrow> fp" where
  "stroke_boost style scale =
     (let full_width_px = fp_mul f32 (as_f32 (srp_width (sty_parameters style))) scale
      in if fp_lt (Fin 0) full_width_px
         then fp_max (fp_div f32 MIN_THUMBNAIL_STROKE_WIDTH full_width_px) (Fin 1)
         else Fin 1)"

definition nib_px :: "StrokeStyle \<Rightarrow> fp \<Rightarrow> fp option \<Rightarrow> fp" where
  "nib_px style scale pressure =
     fp_mul f32 (fp_mul f32 (as_f32 (rendered_width style pressure)) scale) (stroke_boost style scale)"

fun draw_segments :: "'path skia \<Rightarrow> StrokeStyle \<Rightarrow> rgb \<Rightarrow> Transform \<Rightarrow> fp \<Rightarrow> StrokePoint list \<Rightarrow> Pixmap \<Rightarrow> Pixmap" where
  "draw_segments sk style paint transform scale (a # b # points) pixmap =
     (let seg_width = fp_div f32
            (fp_add f32 (nib_px style scale (pt_pressure a)) (nib_px style scale (pt_pressure b)))
            (fp_mul f32 (Fin 2) scale);
          pen = \<lparr>pen_width = seg_width, pen_line_cap = Cap_Round, pen_line_join = Join_Round\<rparr>;
          pixmap1 = (case sk_line sk (as_f32 (pt_x a), as_f32 (pt_y a)) (as_f32 (pt_x b), as_f32 (pt_y b)) of
              None \<Rightarrow> pixmap
            | Some path \<Rightarrow> sk_stroke_path sk path paint pen transform pixmap)
      in draw_segments sk style paint transform scale (b # points) pixmap1)"
| "draw_segments sk style paint transform scale _ pixmap = pixmap"

definition is_dot :: "Stroke \<Rightarrow> fp \<Rightarrow> fp \<Rightarrow> bool" where
  "is_dot stroke scale max_nib =
     (let (min_x, max_x, min_y, max_y) = point_bounds (stroke_points stroke);
          extent = as_f32 (fp_max (fp_sub f64 max_x min_x) (fp_sub f64 max_y min_y))
      in length (stroke_points stroke) = 1 \<or>
         fp_lt (fp_mul f32 extent scale) (fp_div f32 max_nib (stroke_boost (stroke_style stroke) scale)))"

definition render_stroke :: "'path skia \<Rightarrow> Stroke \<Rightarrow> rgb \<Rightarrow> Transform \<Rightarrow> fp \<Rightarrow> Pixmap \<Rightarrow> Pixmap" where
  "render_stroke sk stroke paint transform scale pixmap =
     (let style = stroke_style stroke;
          max_nib = fold (\<lambda>nib m. fp_max m nib)
            (map (\<lambda>point. nib_px style scale (pt_pressure point)) (stroke_points stroke)) (Fin 0)
      in if is_dot stroke scale max_nib
         then let (min_x, max_x, min_y, max_y) = point_bounds (stroke_points stroke);
                  center_x = as_f32 (fp_div f64 (fp_add f64 min_x max_x) (Fin 2));
                  center_y = as_f32 (fp_div f64 (fp_add f64 min_y max_y) (Fin 2))
           in case sk_circle sk center_x center_y (fp_div f32 max_nib (fp_mul f32 (Fin 2) scale)) of
                None \<Rightarrow> pixmap
              | Some dot \<Rightarrow> sk_fill_path sk dot paint transform pixmap
         else draw_segments sk style paint transform scale (stroke_points stroke) pixmap)"

subsection \<open>Colors\<close>

text \<open>\<open>u8::from_str_radix(.., 16)\<close>: an optional plus sign and hexadecimal digits of either case;
  and the slice of a string, which panics out of range. The render runs on a blocking task, so a
  panic is an error of that task.\<close>

definition hex_value :: "char \<Rightarrow> nat option" where
  "hex_value c =
     (if CHR ''0'' \<le> c \<and> c \<le> CHR ''9'' then Some (of_char c - 48)
      else if CHR ''A'' \<le> c \<and> c \<le> CHR ''F'' then Some (of_char c - 55)
      else if CHR ''a'' \<le> c \<and> c \<le> CHR ''f'' then Some (of_char c - 87)
      else None)"

fun parse_digits :: "nat \<Rightarrow> string \<Rightarrow> string + u8" where
  "parse_digits n [] = Inr (of_nat n)"
| "parse_digits n (c # cs) =
     (case hex_value c of
        None \<Rightarrow> Inl ''invalid digit found in string''
      | Some v \<Rightarrow> if 255 < n * 16 + v then Inl ''number too large to fit in target type''
          else parse_digits (n * 16 + v) cs)"

definition from_str_radix_16 :: "string \<Rightarrow> string + u8" where
  "from_str_radix_16 s =
     (case s of
        [] \<Rightarrow> Inl ''cannot parse integer from empty string''
      | c # cs \<Rightarrow>
          if c = CHR ''+'' then
            (if cs = [] then Inl ''invalid digit found in string'' else parse_digits 0 cs)
          else parse_digits 0 s)"

definition str_slice :: "nat \<Rightarrow> nat \<Rightarrow> string \<Rightarrow> string + string" where
  "str_slice from to s =
     (if to \<le> length s then Inr (take (to - from) (drop from s)) else Inl ''task panicked'')"

definition parse_color :: "string \<Rightarrow> string + rgb" where
  "parse_color color =
     bindr (bindr (str_slice 1 3 color) from_str_radix_16) (\<lambda>red.
     bindr (bindr (str_slice 3 5 color) from_str_radix_16) (\<lambda>green.
     bindr (bindr (str_slice 5 7 color) from_str_radix_16) (\<lambda>blue.
     Inr (red, green, blue))))"

section \<open>The image\<close>

definition drawable_points :: "Stroke list \<Rightarrow> StrokePoint list" where
  "drawable_points strokes =
     concat (map stroke_points
       (filter (\<lambda>stroke. stroke_points stroke \<noteq> [] \<and> stroke_validate stroke = Inr ()) strokes))"

definition fit_content :: "fp \<times> fp \<times> fp \<times> fp \<Rightarrow> fp \<times> fp \<times> fp" where
  "fit_content bounds =
     (case bounds of (min_x, max_x, min_y, max_y) \<Rightarrow>
      let bounds_w = as_f32 (fp_sub f64 max_x min_x);
          bounds_h = as_f32 (fp_sub f64 max_y min_y);
          content_w = fp_max bounds_w (Fin 1);
          content_h = fp_max bounds_h (Fin 1);
          width = Fin (of_nat WIDTH);
          height = Fin (of_nat HEIGHT);
          scale = (if fp_eq bounds_w (Fin 0) \<and> fp_eq bounds_h (Fin 0) then Fin 1
            else fp_min
              (fp_div f32 (fp_sub f32 width (fp_mul f32 PADDING (Fin 2))) content_w)
              (fp_div f32 (fp_sub f32 height (fp_mul f32 PADDING (Fin 2))) content_h));
          content_min_x = fp_sub f32 (as_f32 min_x)
            (if fp_eq bounds_w (Fin 0) then fp_div f32 content_w (Fin 2) else Fin 0);
          content_min_y = fp_sub f32 (as_f32 min_y)
            (if fp_eq bounds_h (Fin 0) then fp_div f32 content_h (Fin 2) else Fin 0);
          offset_x = fp_sub f32 (fp_div f32 (fp_sub f32 width (fp_mul f32 content_w scale)) (Fin 2))
            (fp_mul f32 content_min_x scale);
          offset_y = fp_sub f32 (fp_div f32 (fp_sub f32 height (fp_mul f32 content_h scale)) (Fin 2))
            (fp_mul f32 content_min_y scale)
      in (scale, offset_x, offset_y))"

fun draw_strokes :: "'path skia \<Rightarrow> fp \<times> fp \<times> fp \<Rightarrow> Stroke list \<Rightarrow> Pixmap \<Rightarrow> string + Pixmap" where
  "draw_strokes sk fit [] pixmap = Inr pixmap"
| "draw_strokes sk fit (stroke # strokes) pixmap =
     (if stroke_points stroke = [] then draw_strokes sk fit strokes pixmap
      else if isl (stroke_validate stroke) then draw_strokes sk fit strokes pixmap
      else bindr (parse_color (srp_color (sty_parameters (stroke_style stroke)))) (\<lambda>paint.
        case fit of (scale, offset_x, offset_y) \<Rightarrow>
          draw_strokes sk fit strokes
            (render_stroke sk stroke paint (draw_transform scale offset_x offset_y) scale pixmap)))"

definition render :: "'path skia \<Rightarrow> Paper \<Rightarrow> Stroke list \<Rightarrow> string + u8 list" where
  "render sk paper strokes =
     (let points = drawable_points strokes in
      if points = []
      then bindr (ok_or ''could not allocate thumbnail'' (sk_new sk WIDTH HEIGHT)) (\<lambda>blank.
        sk_encode_png sk (sk_fill_white sk blank))
      else bindr (ok_or ''could not allocate thumbnail'' (sk_new sk (WIDTH * SUPERSAMPLE) (HEIGHT * SUPERSAMPLE)))
        (\<lambda>surface.
        let pixmap = sk_fill_white sk surface;
            fit = fit_content (point_bounds points)
        in case fit of (scale, offset_x, offset_y) \<Rightarrow>
          bindr (draw_strokes sk fit strokes (draw_paper sk paper scale offset_x offset_y pixmap)) (\<lambda>drawn.
          bindr (downsample sk drawn) (sk_encode_png sk))))"


section \<open>What the library promises\<close>

text \<open>A premultiplied pixel has no channel above its alpha; a pixmap has one pixel per position.\<close>

fun premultiplied :: "rgba \<Rightarrow> bool" where
  "premultiplied (r, g, b, a) \<longleftrightarrow> r \<le> a \<and> g \<le> a \<and> b \<le> a"

definition pixmap_ok :: "nat \<Rightarrow> nat \<Rightarrow> Pixmap \<Rightarrow> bool" where
  "pixmap_ok w h p \<longleftrightarrow> pm_width p = w \<and> pm_height p = h \<and> length (pm_pixels p) = h * w \<and>
     list_all premultiplied (pm_pixels p)"

text \<open>\<open>tiny_skia\<close>'s documented behaviour, as far as it is used: a pixmap of a positive, moderate size
  can be allocated, drawing keeps its size, its pixels stay premultiplied, a color with no channel
  above its alpha is a premultiplied color, and encoding to memory does not fail.\<close>

definition skia_ok :: "'path skia \<Rightarrow> bool" where
  "skia_ok sk \<longleftrightarrow>
     (\<forall>w h. 0 < w \<and> w \<le> 1000 \<and> 0 < h \<and> h \<le> 1000 \<longrightarrow> (\<exists>p. sk_new sk w h = Some p \<and> pixmap_ok w h p)) \<and>
     (\<forall>w h p. pixmap_ok w h p \<longrightarrow> pixmap_ok w h (sk_fill_white sk p)) \<and>
     (\<forall>w h p path c pen t. pixmap_ok w h p \<longrightarrow> pixmap_ok w h (sk_stroke_path sk path c pen t p)) \<and>
     (\<forall>w h p path c t. pixmap_ok w h p \<longrightarrow> pixmap_ok w h (sk_fill_path sk path c t p)) \<and>
     (\<forall>c. premultiplied (sk_premultiply sk c)) \<and>
     (\<forall>c. sk_premultiplied sk c = (if premultiplied c then Some c else None)) \<and>
     (\<forall>p. \<exists>png. sk_encode_png sk p = Inr png)"

lemma skia_okD:
  assumes "skia_ok sk"
  shows "0 < w \<Longrightarrow> w \<le> 1000 \<Longrightarrow> 0 < h \<Longrightarrow> h \<le> 1000 \<Longrightarrow> \<exists>p. sk_new sk w h = Some p \<and> pixmap_ok w h p"
    "pixmap_ok w h p \<Longrightarrow> pixmap_ok w h (sk_fill_white sk p)"
    "pixmap_ok w h p \<Longrightarrow> pixmap_ok w h (sk_stroke_path sk path c pen t p)"
    "pixmap_ok w h p \<Longrightarrow> pixmap_ok w h (sk_fill_path sk path c t p)"
    "premultiplied (sk_premultiply sk px)"
    "sk_premultiplied sk px = (if premultiplied px then Some px else None)"
    "\<exists>png. sk_encode_png sk p = Inr png"
proof -
  note c = assms [unfolded skia_ok_def]
  show "0 < w \<Longrightarrow> w \<le> 1000 \<Longrightarrow> 0 < h \<Longrightarrow> h \<le> 1000 \<Longrightarrow> \<exists>p. sk_new sk w h = Some p \<and> pixmap_ok w h p"
    using c [THEN conjunct1] by blast
  show "pixmap_ok w h p \<Longrightarrow> pixmap_ok w h (sk_fill_white sk p)" using c [THEN conjunct2, THEN conjunct1] by blast
  show "pixmap_ok w h p \<Longrightarrow> pixmap_ok w h (sk_stroke_path sk path c pen t p)" using c [THEN conjunct2, THEN conjunct2, THEN conjunct1] by blast
  show "pixmap_ok w h p \<Longrightarrow> pixmap_ok w h (sk_fill_path sk path c t p)" using c [THEN conjunct2, THEN conjunct2, THEN conjunct2, THEN conjunct1] by blast
  show "premultiplied (sk_premultiply sk px)" using c [THEN conjunct2, THEN conjunct2, THEN conjunct2, THEN conjunct2, THEN conjunct1] by blast
  show "sk_premultiplied sk px = (if premultiplied px then Some px else None)" using c [THEN conjunct2, THEN conjunct2, THEN conjunct2, THEN conjunct2, THEN conjunct2, THEN conjunct1] by blast
  show "\<exists>png. sk_encode_png sk p = Inr png" using c [THEN conjunct2, THEN conjunct2, THEN conjunct2, THEN conjunct2, THEN conjunct2, THEN conjunct2] by blast
qed

lemma ok_or_Some [simp]: "ok_or e (Some x) = Inr x"
  by (simp add: ok_or_def)

section \<open>The box filter is the rounded mean\<close>

lemma uint_sum_channel:
  "length ps \<le> 4 \<Longrightarrow> uint (sum_channel ch ps) = (\<Sum>p\<leftarrow>ps. uint (ch p)) \<and> (\<Sum>p\<leftarrow>ps. uint (ch p)) \<le> 255 * int (length ps)"
proof (induction ps rule: rev_induct)
  case (snoc p ps)
  have ch: "uint (ch p) < 256" using uint_lt2p [of "ch p"] by simp
  have IH: "uint (sum_channel ch ps) = (\<Sum>p\<leftarrow>ps. uint (ch p))" "(\<Sum>p\<leftarrow>ps. uint (ch p)) \<le> 255 * int (length ps)"
    using snoc by simp_all
  have small: "(\<Sum>p\<leftarrow>ps. uint (ch p)) + uint (ch p) < 2 ^ 32" using IH(2) ch snoc.prems by simp
  have nonneg: "0 \<le> (\<Sum>p\<leftarrow>ps. uint (ch p))" by (rule sum_list_nonneg) auto
  have "sum_channel ch (ps @ [p]) = sum_channel ch ps + ucast (ch p)" by (simp add: sum_channel_def)
  also have "uint \<dots> = uint (sum_channel ch ps) + uint (ch p)"
    using small nonneg ch by (simp add: uint_word_ariths unsigned_ucast_eq IH(1) take_bit_eq_mod)
  finally have "uint (sum_channel ch (ps @ [p])) = uint (sum_channel ch ps) + uint (ch p)" .
  with IH ch show ?case by simp
qed (simp add: sum_channel_def)

lemma uint_mean_channel:
  assumes "uint s \<le> 1020"
  shows "uint (mean_channel s) = (uint s + 2) div 4"
proof -
  have "uint (s + 2) = uint s + 2" using assms by (simp add: uint_word_ariths)
  then have "uint ((s + 2) div 4) = (uint s + 2) div 4" by (simp add: uint_div)
  moreover have "(uint s + 2) div 4 < 256" "0 \<le> (uint s + 2) div 4"
    using assms by (auto simp: pos_imp_zdiv_nonneg_iff)
  ultimately show ?thesis
    by (simp add: mean_channel_def SUPERSAMPLE_def Let_def unsigned_ucast_eq take_bit_eq_mod)
qed

definition rounded_mean :: "(rgba \<Rightarrow> u8) \<Rightarrow> rgba list \<Rightarrow> int" where
  "rounded_mean ch ps = ((\<Sum>p\<leftarrow>ps. uint (ch p)) + 2) div 4"

lemma mean_pixel_rounded:
  assumes "length ps \<le> 4"
  shows "uint (mean_channel (sum_channel ch ps)) = rounded_mean ch ps"
proof -
  have "uint (sum_channel ch ps) \<le> 1020" using uint_sum_channel [OF assms, of ch] assms by simp
  from uint_mean_channel [OF this] show ?thesis
    using uint_sum_channel [OF assms, of ch] by (simp add: rounded_mean_def)
qed

lemma mean_premultiplied:
  assumes "length ps \<le> 4" "list_all premultiplied ps"
  shows "premultiplied (mean_pixel ps)"
proof -
  have le: "mean_channel (sum_channel ch ps) \<le> mean_channel (sum_channel (snd \<circ> snd \<circ> snd) ps)"
    if "\<And>p. premultiplied p \<Longrightarrow> ch p \<le> (snd \<circ> snd \<circ> snd) p" for ch
  proof -
    have "(\<Sum>p\<leftarrow>ps. uint (ch p)) \<le> (\<Sum>p\<leftarrow>ps. uint ((snd \<circ> snd \<circ> snd) p))"
      using assms(2) that by (intro sum_list_mono) (simp add: word_le_def list_all_iff)
    then show ?thesis
      by (simp add: word_le_def mean_pixel_rounded [OF assms(1)] rounded_mean_def zdiv_mono1)
  qed
  show ?thesis
    unfolding mean_pixel_def premultiplied.simps by (intro conjI; rule le) auto
qed

lemma block_samples_sub: "length (block_samples source y x) \<le> 4"
  "set (block_samples source y x) \<subseteq> set (pm_pixels source)"
  by (auto simp: block_samples_def SUPERSAMPLE_def numeral_2_eq_2 Let_def dest: in_set_takeD in_set_dropD)

lemma collect_Inr: "collect (map Inr xs) = Inr xs"
  by (induction xs) simp_all


lemma downsample_Inr:
  assumes sk: "skia_ok sk" and src: "pixmap_ok (WIDTH * SUPERSAMPLE) (HEIGHT * SUPERSAMPLE) source"
  obtains target where "sk_new sk WIDTH HEIGHT = Some target"
    "downsample sk source = Inr (target\<lparr>pm_pixels :=
       concat (map (\<lambda>y. map (\<lambda>x. mean_pixel (block_samples source y x)) [0..<WIDTH]) [0..<HEIGHT])\<rparr>)"
proof -
  obtain target where new: "sk_new sk WIDTH HEIGHT = Some target"
    using skia_okD(1) [OF sk, of WIDTH HEIGHT] by (auto simp: WIDTH_def HEIGHT_def)
  have "sk_premultiplied sk (mean_pixel (block_samples source y x)) = Some (mean_pixel (block_samples source y x))"
    for y x
  proof -
    have "list_all premultiplied (block_samples source y x)"
      using src block_samples_sub(2) [of source y x] by (auto simp: pixmap_ok_def list_all_iff)
    then show ?thesis
      by (simp add: skia_okD(6) [OF sk] mean_premultiplied block_samples_sub(1))
  qed
  then have "concat (map (\<lambda>y. map (\<lambda>x. ok_or ''downsampled pixel is not premultiplied''
        (sk_premultiplied sk (mean_pixel (block_samples source y x)))) [0..<WIDTH]) [0..<HEIGHT]) =
      map Inr (concat (map (\<lambda>y. map (\<lambda>x. mean_pixel (block_samples source y x)) [0..<WIDTH]) [0..<HEIGHT]))"
    by (simp add: map_concat comp_def)
  then have "downsample sk source = Inr (target\<lparr>pm_pixels :=
       concat (map (\<lambda>y. map (\<lambda>x. mean_pixel (block_samples source y x)) [0..<WIDTH]) [0..<HEIGHT])\<rparr>)"
    using src by (simp add: downsample_def new collect_Inr pixmap_ok_def)
  with new show ?thesis by (rule that)
qed

section \<open>Drawing keeps the surface whole\<close>

lemma length_concat_rows: "(\<forall>y < h. length (f y) = w) \<Longrightarrow> length (concat (map f [0..<h])) = h * w"
  by (induction h) simp_all

lemma nth_concat_rows:
  "(\<forall>y < h. length (f y) = w) \<Longrightarrow> y < h \<Longrightarrow> x < w \<Longrightarrow> concat (map f [0..<h]) ! (y * w + x) = f y ! x"
proof (induction h arbitrary: y)
  case (Suc h)
  have len: "length (concat (map f [0..<h])) = h * w"
    by (rule length_concat_rows) (use Suc.prems(1) in simp)
  show ?case
  proof (cases "y < h")
    case True
    then have "y * w + x < h * w"
      using Suc.prems(3) mult_le_mono1 [of "Suc y" h w] by simp
    with True Suc show ?thesis by (simp add: nth_append len)
  next
    case False
    then have "y = h" using Suc.prems(2) by simp
    then show ?thesis by (simp add: nth_append len)
  qed
qed simp

lemma grain_premultiplied: "skia_ok sk \<Longrightarrow> premultiplied base \<Longrightarrow> premultiplied (grain_pixel sk alpha base)"
  by (auto simp: grain_pixel_def skia_okD(5) PAPER_TEXTURE_COLOR_RGB_def simp del: premultiplied.simps split: prod.split)

lemma texture_ok:
  assumes "skia_ok sk" "pixmap_ok w h p"
  shows "pixmap_ok w h (draw_paper_texture sk paper p)"
proof (cases "paper_has_texture paper")
  case True
  have "premultiplied (grain_pixel sk a (pm_pixels p ! (y * w + x)))" if "y < h" "x < w" for a y x
  proof -
    have "y * w + x < h * w" using that mult_le_mono1 [of "Suc y" h w] by simp
    then have "pm_pixels p ! (y * w + x) \<in> set (pm_pixels p)" using assms(2) by (simp add: pixmap_ok_def)
    then show ?thesis using assms grain_premultiplied [OF assms(1)] by (simp add: pixmap_ok_def list_all_iff)
  qed
  then show ?thesis
    using assms(2) True
    by (auto simp: draw_paper_texture_def pixmap_ok_def Let_def list_all_iff length_concat_rows
        simp del: premultiplied.simps)
qed (simp add: draw_paper_texture_def assms)

lemma draw_mark_ok: "skia_ok sk \<Longrightarrow> pixmap_ok w h p \<Longrightarrow> pixmap_ok w h (draw_mark sk scale viewport t mark p)"
  by (auto simp: draw_mark_def Let_def skia_okD(3) split: option.split)

lemma draw_paper_ok:
  assumes "skia_ok sk" "pixmap_ok w h p"
  shows "pixmap_ok w h (draw_paper sk paper scale ox oy p)"
proof -
  have "pixmap_ok w h (fold (draw_mark sk scale viewport t) marks p)" if "pixmap_ok w h p" for marks viewport t p
    using that by (induction marks arbitrary: p) (simp_all add: draw_mark_ok [OF assms(1)])
  then show ?thesis using assms by (simp add: draw_paper_def Let_def texture_ok)
qed

lemma draw_segments_ok:
  "skia_ok sk \<Longrightarrow> pixmap_ok w h p \<Longrightarrow> pixmap_ok w h (draw_segments sk style paint t scale points p)"
  by (induction sk style paint t scale points p rule: draw_segments.induct)
    (auto simp: Let_def skia_okD(3) split: option.splits)

lemma render_stroke_ok: "skia_ok sk \<Longrightarrow> pixmap_ok w h p \<Longrightarrow> pixmap_ok w h (render_stroke sk stroke paint t scale p)"
  by (auto simp: render_stroke_def Let_def skia_okD(4) draw_segments_ok split: option.split prod.split)

section \<open>An accepted color parses\<close>

lemma hex_value_upper: "is_upper_hex_byte c \<Longrightarrow> \<exists>v < 16. hex_value c = Some v"
  by (auto simp: is_upper_hex_byte_def hex_value_def less_eq_char_def)

lemma from_str_radix_upper:
  assumes "is_upper_hex_byte c" "is_upper_hex_byte d"
  shows "\<exists>v. from_str_radix_16 [c, d] = Inr v"
proof -
  obtain v w where v: "v < 16" "hex_value c = Some v" and w: "w < 16" "hex_value d = Some w"
    using assms hex_value_upper by blast
  have "c \<noteq> CHR ''+''" using assms(1) by (auto simp: is_upper_hex_byte_def less_eq_char_def)
  with v w show ?thesis by (simp add: from_str_radix_16_def)
qed

lemma parse_color_accepted:
  assumes "style_validate style = Inr ()"
  shows "\<exists>c. parse_color (srp_color (sty_parameters style)) = Inr c"
proof -
  define color where "color = srp_color (sty_parameters style)"
  have "length color = 7" "list_all is_upper_hex_byte (drop 1 color)"
    using assms by (auto simp: style_validate_def Let_def color_def split: if_splits)
  then obtain h a b c d e f where color: "color = [h, a, b, c, d, e, f]"
    "is_upper_hex_byte a" "is_upper_hex_byte b" "is_upper_hex_byte c" "is_upper_hex_byte d"
    "is_upper_hex_byte e" "is_upper_hex_byte f"
    by (auto simp: length_Suc_conv numeral_eq_Suc)
  obtain u v w where "from_str_radix_16 [a, b] = Inr u" "from_str_radix_16 [c, d] = Inr v"
    "from_str_radix_16 [e, f] = Inr w"
    using from_str_radix_upper color(2-) by meson
  then have "parse_color color = Inr (u, v, w)"
    by (simp add: parse_color_def str_slice_def color(1) numeral_eq_Suc)
  then show ?thesis by (auto simp: color_def)
qed

lemma draw_strokes_Inr:
  "skia_ok sk \<Longrightarrow> pixmap_ok w h p \<Longrightarrow> \<exists>p'. draw_strokes sk fit strokes p = Inr p' \<and> pixmap_ok w h p'"
proof (induction strokes arbitrary: p)
  case (Cons stroke strokes)
  show ?case
  proof (cases "stroke_points stroke = [] \<or> isl (stroke_validate stroke)")
    case False
    then have "style_validate (stroke_style stroke) = Inr ()"
      by (auto simp: stroke_validate_def split: sum.splits)
    from parse_color_accepted [OF this] obtain c where
      "parse_color (srp_color (sty_parameters (stroke_style stroke))) = Inr c" by blast
    with False Cons show ?thesis by (auto simp: render_stroke_ok split: prod.split)
  qed (use Cons in auto)
qed simp


section \<open>Properties\<close>

definition channels :: "(rgba \<Rightarrow> u8) list" where
  "channels = [fst, fst \<circ> snd, fst \<circ> snd \<circ> snd, snd \<circ> snd \<circ> snd]"

lemma channel_mean_pixel:
  "ch \<in> set channels \<Longrightarrow> ch (mean_pixel ps) = mean_channel (sum_channel ch ps)"
  by (auto simp: channels_def mean_pixel_def)

lemma take2_drop: "Suc i < length xs \<Longrightarrow> take 2 (drop i xs) = [xs ! i, xs ! Suc i]"
  by (simp add: numeral_2_eq_2 take_Suc_conv_app_nth hd_drop_conv_nth)

lemma block_samples_nth:
  assumes "length (pm_pixels source) = 320 * 480" "y < 160" "x < 240"
  shows "block_samples source y x =
    (let px = (\<lambda>i. pm_pixels source ! i); i = 2 * y * 480 + 2 * x
     in [px i, px (i + 1), px (i + 480), px (i + 481)])"
proof -
  have two: "take 2 (drop i (pm_pixels source)) = [pm_pixels source ! i, pm_pixels source ! Suc i]"
    if "Suc i < 320 * 480" for i
    using that assms(1) by (intro take2_drop) simp
  have idx: "(y * 2 + 0) * (240 * 2) + x * 2 = 2 * y * 480 + 2 * x"
    "(y * 2 + 1) * (240 * 2) + x * 2 = 2 * y * 480 + 2 * x + 480"
    by simp_all
  have "[0..<2] = [0, 1]" by (simp add: upt_rec)
  then have "block_samples source y x =
      take 2 (drop (2 * y * 480 + 2 * x) (pm_pixels source)) @
      take 2 (drop (2 * y * 480 + 2 * x + 480) (pm_pixels source))"
    unfolding block_samples_def SUPERSAMPLE_def WIDTH_def Let_def by (simp only: idx list.map concat.simps append_Nil2)
  moreover have "Suc (2 * y * 480 + 2 * x) < 320 * 480" "Suc (2 * y * 480 + 2 * x + 480) < 320 * 480"
    using assms(2,3) by linarith+
  ultimately show ?thesis by (simp add: two Let_def add.commute)
qed

text \<open>C40. The supersampled surface is reduced by the exact box filter: for a surface of twice the
  delivered size the filter succeeds, and every channel of every delivered pixel is the mean of the
  four pixels under it, rounded to nearest, with no wrap-around in the sums.\<close>

theorem downsample_is_mean:
  assumes sk: "skia_ok sk" and src: "pixmap_ok 480 320 source"
  shows "\<exists>target. downsample sk source = Inr target \<and> pixmap_ok 240 160 target \<and>
    (\<forall>y < 160. \<forall>x < 240. \<forall>ch \<in> set channels. \<forall>i. i = 2 * y * 480 + 2 * x \<longrightarrow>
      uint (ch (pm_pixels target ! (y * 240 + x))) =
        (uint (ch (pm_pixels source ! i)) + uint (ch (pm_pixels source ! (i + 1))) +
         uint (ch (pm_pixels source ! (i + 480))) + uint (ch (pm_pixels source ! (i + 481))) + 2) div 4)"
proof -
  define rows where "rows = (\<lambda>y. map (\<lambda>x. mean_pixel (block_samples source y x)) [0..<240])"
  obtain target where new: "sk_new sk 240 160 = Some target"
    and down: "downsample sk source = Inr (target\<lparr>pm_pixels := concat (map rows [0..<160])\<rparr>)"
    by (rule downsample_Inr [OF sk, of source])
      (use src in \<open>simp_all add: rows_def WIDTH_def HEIGHT_def SUPERSAMPLE_def\<close>)
  have size: "pm_width target = 240" "pm_height target = 160"
    using skia_okD(1) [OF sk, of 240 160] new by (auto simp: pixmap_ok_def)
  have len: "length (pm_pixels source) = 320 * 480" using src by (simp add: pixmap_ok_def)
  have "premultiplied (mean_pixel (block_samples source y x))" for y x
    using src block_samples_sub [of source y x] by (intro mean_premultiplied) (auto simp: pixmap_ok_def list_all_iff)
  then have ok: "pixmap_ok 240 160 (target\<lparr>pm_pixels := concat (map rows [0..<160])\<rparr>)"
    unfolding pixmap_ok_def rows_def
    by (auto simp: size list_all_iff length_concat_rows [where w = 240] simp del: premultiplied.simps upt_rec_numeral)
  have mean: "uint (ch (concat (map rows [0..<160]) ! (y * 240 + x))) = rounded_mean ch (block_samples source y x)"
    if "y < 160" "x < 240" "ch \<in> set channels" for y x ch
  proof -
    have "concat (map rows [0..<160]) ! (y * 240 + x) = rows y ! x"
      by (rule nth_concat_rows) (use that in \<open>simp_all add: rows_def\<close>)
    then show ?thesis
      using that by (simp add: rows_def channel_mean_pixel mean_pixel_rounded block_samples_sub(1))
  qed
  show ?thesis
    by (intro exI [of _ "target\<lparr>pm_pixels := concat (map rows [0..<160])\<rparr>"] conjI allI ballI impI)
      (simp_all add: down ok mean block_samples_nth [OF len] rounded_mean_def Let_def add.assoc)
qed

text \<open>No stored ink can fail a preview: whatever strokes a page holds, valid or not, with any
  points, widths and colors, drawing them and their paper yields an image; the only sources of an
  error are the raster library's own.\<close>

theorem render_total:
  assumes sk: "skia_ok sk"
  shows "\<exists>png. render sk paper strokes = Inr png"
proof (cases "drawable_points strokes = []")
  case True
  then show ?thesis
    using skia_okD(1) [OF sk, of WIDTH HEIGHT] skia_okD(7) [OF sk]
    by (auto simp: render_def WIDTH_def HEIGHT_def)
next
  case False
  obtain surface where surface: "sk_new sk (WIDTH * SUPERSAMPLE) (HEIGHT * SUPERSAMPLE) = Some surface"
    "pixmap_ok (WIDTH * SUPERSAMPLE) (HEIGHT * SUPERSAMPLE) surface"
    using skia_okD(1) [OF sk, of "WIDTH * SUPERSAMPLE" "HEIGHT * SUPERSAMPLE"]
    by (auto simp: WIDTH_def HEIGHT_def SUPERSAMPLE_def)
  obtain scale ox oy where fit: "fit_content (point_bounds (drawable_points strokes)) = (scale, ox, oy)"
    using prod_cases3 by blast
  have "pixmap_ok (WIDTH * SUPERSAMPLE) (HEIGHT * SUPERSAMPLE)
      (draw_paper sk paper scale ox oy (sk_fill_white sk surface))"
    by (intro draw_paper_ok skia_okD(2) sk surface)
  from draw_strokes_Inr [OF sk this] obtain drawn where drawn:
    "draw_strokes sk (scale, ox, oy) strokes (draw_paper sk paper scale ox oy (sk_fill_white sk surface)) = Inr drawn"
    "pixmap_ok (WIDTH * SUPERSAMPLE) (HEIGHT * SUPERSAMPLE) drawn" by blast
  obtain small where "downsample sk drawn = Inr small" by (rule downsample_Inr [OF sk drawn(2)])
  with drawn False surface fit skia_okD(7) [OF sk, of small] show ?thesis
    by (auto simp: render_def Let_def)
qed

subsection \<open>A raster library that keeps the promises\<close>

definition example_skia :: "unit skia" where
  "example_skia = \<lparr>
     sk_new = (\<lambda>w h. Some \<lparr>pm_width = w, pm_height = h, pm_pixels = replicate (h * w) (0, 0, 0, 0)\<rparr>),
     sk_fill_white = (\<lambda>p. p\<lparr>pm_pixels := map (\<lambda>_. (255, 255, 255, 255)) (pm_pixels p)\<rparr>),
     sk_line = (\<lambda>a b. Some ()), sk_circle = (\<lambda>x y r. Some ()),
     sk_stroke_path = (\<lambda>path c pen t p. p), sk_fill_path = (\<lambda>path c t p. p),
     sk_premultiply = (\<lambda>(r, g, b, a). (min r a, min g a, min b a, a)),
     sk_premultiplied = (\<lambda>c. if premultiplied c then Some c else None),
     sk_encode_png = (\<lambda>p. Inr [])\<rparr>"

lemma example_skia_ok: "skia_ok example_skia"
  by (simp add: skia_ok_def example_skia_def pixmap_ok_def list_all_iff)

lemma downsample_is_mean_witness:
  "\<exists>target. downsample example_skia
      \<lparr>pm_width = 480, pm_height = 320, pm_pixels = replicate (320 * 480) (7, 8, 9, 255)\<rparr> = Inr target \<and>
    fst (pm_pixels target ! 0) = 7"
proof -
  have src: "pixmap_ok 480 320 \<lparr>pm_width = 480, pm_height = 320, pm_pixels = replicate (320 * 480) (7, 8, 9, 255)\<rparr>"
    by (simp add: pixmap_ok_def list_all_iff)
  obtain target where t: "downsample example_skia
      \<lparr>pm_width = 480, pm_height = 320, pm_pixels = replicate (320 * 480) (7, 8, 9, 255)\<rparr> = Inr target"
    and mean: "uint (fst (pm_pixels target ! (0 * 240 + 0))) = 7"
    using downsample_is_mean [OF example_skia_ok src] by (fastforce simp: channels_def)
  from mean have "fst (pm_pixels target ! 0) = 7" by (simp add: word_uint_eq_iff)
  with t show ?thesis by blast
qed

lemma render_total_witness:
  "\<exists>png. render example_skia RuledWide [\<lparr>stroke_id = ''s'', stroke_style = default_solid_round_pressure,
     stroke_points = [\<lparr>pt_x = Fin 1, pt_y = NaN, pt_t = 0, pt_pressure = None\<rparr>]\<rparr>] = Inr png"
  by (rule render_total [OF example_skia_ok])

end
