(* ===== verification/Thumbnails.thy ===== *)
theory Thumbnails
  imports Dispatch Raster Text
begin

text \<open>
  Thumbnail jobs (\<open>crates/server/src/thumbnails.rs\<close>): queuing, recovery after a restart, the job
  itself, its outcome, and the retention cleanup. A job reads the database in separate queries, so
  it runs over the same interleaved database as the page store. Timestamps are microseconds and the
  session's time zone is UTC, so \<open>interval '7 days'\<close> is a constant.
\<close>

section \<open>Calls that may fail and leave a state\<close>

fun andthen :: "('e + 'a) \<times> 's \<Rightarrow> ('a \<Rightarrow> 's \<Rightarrow> ('e + 'b) \<times> 's) \<Rightarrow> ('e + 'b) \<times> 's" where
  "andthen (Inl e, s) f = (Inl e, s)"
| "andthen (Inr a, s) f = f a s"

fun map_err :: "('e \<Rightarrow> 'f) \<Rightarrow> 'e + 'a \<Rightarrow> 'f + 'a" where
  "map_err f (Inl e) = Inl (f e)"
| "map_err f (Inr a) = Inr a"

text \<open>What a job depends on besides the server's state: the database's environment and the other
  writers, the raster library, the semaphore and the blocking task (which fail only when closed or
  panicking), the texts of errors, the clock and the job's span.\<close>

record ('o, 'path) thumb_env =
  te_db :: "nat \<Rightarrow> dbenv"
  te_others :: "nat \<Rightarrow> page_write list"
  te_skia :: "'path skia"
  te_permit :: "string + unit"
  te_join :: "string + unit"
  te_show :: "DbError \<Rightarrow> string"
  te_debug :: "string \<Rightarrow> string"
  te_elapsed :: fp
  te_span :: 'o

type_synonym 'o pg_state = "(pg, 'o) server"

definition thumb_read ::
  "('o, 'path) thumb_env \<Rightarrow> (dbenv \<Rightarrow> db \<Rightarrow> DbError + 'r) \<Rightarrow> 'o pg_state \<Rightarrow> (string + 'r) \<times> 'o pg_state" where
  "thumb_read te f sv =
     (let (r, sv') = call_store (pg_read (te_db te) (te_others te) f) sv in (map_err (te_show te) r, sv'))"

definition thumb_write ::
  "('o, 'path) thumb_env \<Rightarrow> (dbenv \<Rightarrow> db \<Rightarrow> DbError + ('r \<times> db)) \<Rightarrow> 'o pg_state \<Rightarrow> (string + 'r) \<times> 'o pg_state" where
  "thumb_write te f sv =
     (let (r, sv') = call_store (pg_write (te_db te) (te_others te) f) sv in (map_err (te_show te) r, sv'))"

section \<open>The statements of a job\<close>

definition job_paper :: "string \<Rightarrow> u64 \<Rightarrow> dbenv \<Rightarrow> db \<Rightarrow> DbError + string option" where
  "job_paper page_id source_seq env d =
     run_query env (''SELECT'', ''thumbnail_job_paper'')
       (Inr (map_option th_paper
         (List.find (\<lambda>t. th_source_seq t = as_i64 source_seq) (thumbnails_of d page_id))))"

definition job_batches :: "string \<Rightarrow> u64 \<Rightarrow> dbenv \<Rightarrow> db \<Rightarrow> DbError + Stroke list list" where
  "job_batches page_id source_seq env d =
     run_query env (''SELECT'', ''thumbnail_strokes'')
       (Inr (map sbr_strokes (sort_key sbr_revision
         (filter (\<lambda>b. sbr_revision b \<le> as_i64 source_seq) (batches_of d page_id)))))"

definition job_tombstones :: "string \<Rightarrow> u64 \<Rightarrow> dbenv \<Rightarrow> db \<Rightarrow> DbError + string list" where
  "job_tombstones page_id source_seq env d =
     run_query env (''SELECT'', ''thumbnail_tombstones'')
       (Inr (map str_stroke_id
         (filter (\<lambda>t. str_deleted_revision t \<le> as_i64 source_seq) (tombstones_of d page_id))))"

definition update_thumbnail :: "(ThumbnailRow \<Rightarrow> ThumbnailRow) \<Rightarrow> string \<Rightarrow> u64 \<Rightarrow> db \<Rightarrow> db" where
  "update_thumbnail f page_id source_seq d =
     d\<lparr>page_thumbnails := map (\<lambda>t. if th_page_id t = page_id \<and> th_source_seq t = as_i64 source_seq then f t else t)
        (page_thumbnails d)\<rparr>"

definition store_png :: "string \<Rightarrow> u64 \<Rightarrow> u8 list \<Rightarrow> dbenv \<Rightarrow> db \<Rightarrow> DbError + (unit \<times> db)" where
  "store_png page_id source_seq png env d =
     run_query env (''UPDATE'', ''thumbnail_store_png'')
       (Inr ((), update_thumbnail (\<lambda>t. t\<lparr>th_status := ''available'', th_png := Some png\<rparr>) page_id source_seq d))"

definition mark_failed :: "string \<Rightarrow> u64 \<Rightarrow> dbenv \<Rightarrow> db \<Rightarrow> DbError + (unit \<times> db)" where
  "mark_failed page_id source_seq env d =
     run_query env (''UPDATE'', ''thumbnail_mark_failed'')
       (Inr ((), update_thumbnail (\<lambda>t. t\<lparr>th_status := ''failed'', th_png := None\<rparr>) page_id source_seq d))"

section \<open>Retention\<close>

definition retention_microseconds :: int where
  "retention_microseconds = 7 * 24 * 60 * 60 * 1000000"

text \<open>The subquery of the \<open>DELETE\<close>: the sequence numbers of the ten newest rows within the week,
  the head's aside.\<close>

definition retained_seqs :: "int \<Rightarrow> int \<Rightarrow> ThumbnailRow list \<Rightarrow> int list" where
  "retained_seqs cutoff head rows =
     take 10 (rev (sort (map th_source_seq
       (filter (\<lambda>t. th_source_seq t \<noteq> head \<and> cutoff \<le> th_created_at t) rows))))"

definition expired :: "int \<Rightarrow> int \<Rightarrow> ThumbnailRow list \<Rightarrow> ThumbnailRow \<Rightarrow> bool" where
  "expired cutoff head rows t \<longleftrightarrow>
     th_source_seq t \<noteq> head \<and>
     (th_created_at t < cutoff \<or> th_source_seq t \<notin> set (retained_seqs cutoff head rows))"

text \<open>Without a page row the subquery is null, its comparison unknown, and nothing is deleted.\<close>

definition cleanup :: "string \<Rightarrow> dbenv \<Rightarrow> db \<Rightarrow> DbError + (unit \<times> db)" where
  "cleanup page_id env d =
     run_query env (''DELETE'', ''thumbnail_cleanup'')
       (Inr ((), case page_row d page_id of
          None \<Rightarrow> d
        | Some row \<Rightarrow>
            d\<lparr>page_thumbnails := filter (\<lambda>t. \<not> (th_page_id t = page_id \<and>
                expired (env_now env - retention_microseconds) (pg_ink_revision row)
                  (thumbnails_of d page_id) t)) (page_thumbnails d)\<rparr>))"

definition cleanup_best_effort :: "('o, 'path) thumb_env \<Rightarrow> string \<Rightarrow> 'o pg_state \<Rightarrow> 'o pg_state" where
  "cleanup_best_effort te page_id sv =
     (let (r, sv1) = thumb_write te (cleanup page_id) sv in
      case r of
        Inr _ \<Rightarrow> record_metric (PageMutation ''cleanup_thumbnails'' ''success'') sv1
      | Inl _ \<Rightarrow> record_metric (PageMutation ''cleanup_thumbnails'' ''error'') sv1)"

section \<open>A job\<close>

definition generate :: "('o, 'path) thumb_env \<Rightarrow> string \<Rightarrow> u64 \<Rightarrow> 'o pg_state \<Rightarrow> (string + unit) \<times> 'o pg_state" where
  "generate te page_id source_seq sv0 =
     andthen (te_permit te, sv0) (\<lambda>_ sv1.
     andthen (thumb_read te (job_paper page_id source_seq) sv1) (\<lambda>job_row sv2.
     andthen (ok_or ''thumbnail job row is missing'' job_row, sv2) (\<lambda>stored sv2.
     andthen (ok_or (''unknown stored paper '' @ te_debug te stored) (from_wire stored), sv2) (\<lambda>paper sv2.
     andthen (thumb_read te (job_batches page_id source_seq) sv2) (\<lambda>batches sv3.
     andthen (thumb_read te (job_tombstones page_id source_seq) sv3) (\<lambda>tombstones sv4.
     let strokes = filter (\<lambda>stroke. stroke_id stroke \<notin> set tombstones) (concat batches) in
     andthen (bindr (te_join te) (\<lambda>_. render (te_skia te) paper strokes), sv4) (\<lambda>png sv4.
     andthen (thumb_write te (store_png page_id source_seq png) sv4) (\<lambda>_ sv5.
     (Inr (), cleanup_best_effort te page_id
        (record_metric (ThumbnailArtifactBytes (length png)) sv5))))))))))"

definition thumbnail_url :: "string \<Rightarrow> u64 \<Rightarrow> string" where
  "thumbnail_url page_id source_seq =
     ''/api/pages/'' @ page_id @ ''/thumbnails/'' @ decimal (unat source_seq)"

text \<open>The task \<open>enqueue\<close> spawns.\<close>

definition run_job :: "('o, 'path) thumb_env \<Rightarrow> ThumbnailJob \<Rightarrow> 'o pg_state \<Rightarrow> 'o pg_state" where
  "run_job te job sv0 =
     (let page_id = tj_page_id job; source_seq = tj_source_seq job;
          (result, sv1) = generate te page_id source_seq sv0;
          (thumbnail, sv2) = (case result of
              Inr _ \<Rightarrow> (Thumb_Available source_seq (thumbnail_url page_id source_seq),
                record_metric (ThumbnailGeneration ''success'' (te_elapsed te))
                  (record_metric (PageMutation ''generate_thumbnail'' ''success'') sv1))
            | Inl _ \<Rightarrow> (Thumb_Failed source_seq,
                snd (thumb_write te (mark_failed page_id source_seq)
                  (record_metric (ThumbnailGeneration ''error'' (te_elapsed te))
                    (record_metric (PageMutation ''generate_thumbnail'' ''error'') sv1)))));
          sv3 = record_metric ThumbnailGenerationFinished sv2
      in sv3\<lparr>sv_hub := publish_library_event (te_span te) (tj_owner_id job)
               (PageThumbnailUpdated page_id thumbnail) (sv_hub sv3)\<rparr>)"

text \<open>The runtime picks a queued job and runs it to its end.\<close>

definition job_step :: "('o, 'path) thumb_env \<Rightarrow> nat \<Rightarrow> 'o pg_state \<Rightarrow> 'o pg_state" where
  "job_step te i sv =
     (if i < length (sv_jobs sv)
      then run_job te (sv_jobs sv ! i) (sv\<lparr>sv_jobs := take i (sv_jobs sv) @ drop (Suc i) (sv_jobs sv)\<rparr>)
      else sv)"

section \<open>Recovery\<close>

text \<open>The join has no \<open>ORDER BY\<close>; the table's order stands for whichever the database returns.\<close>

definition pending_jobs :: "dbenv \<Rightarrow> db \<Rightarrow> DbError + ThumbnailJob list" where
  "pending_jobs env d =
     run_query env (''SELECT'', ''recover_pending_thumbnails'')
       (Inr (concat (map (\<lambda>t.
          case page_row d (th_page_id t) of
            None \<Rightarrow> []
          | Some p \<Rightarrow> if th_status t = ''generating''
              then [\<lparr>tj_page_id = th_page_id t, tj_owner_id = pg_owner_id p,
                     tj_source_seq = as_u64 (th_source_seq t)\<rparr>] else [])
          (page_thumbnails d))))"

definition requeue :: "('o, 'path) thumb_env \<Rightarrow> ThumbnailJob \<Rightarrow> 'o pg_state \<Rightarrow> 'o pg_state" where
  "requeue te job sv =
     (let sv1 = record_metric (ThumbnailRecovery ''queued'') sv;
          sv2 = sv1\<lparr>sv_hub := publish_library_event (te_span te) (tj_owner_id job)
            (PageThumbnailUpdated (tj_page_id job) (Thumb_Generating (tj_source_seq job))) (sv_hub sv1)\<rparr>
      in enqueue (tj_page_id job) (tj_owner_id job) (tj_source_seq job) sv2)"

definition recover_pending :: "('o, 'path) thumb_env \<Rightarrow> 'o pg_state \<Rightarrow> 'o pg_state" where
  "recover_pending te sv =
     (let (pending, sv1) = call_store (pg_read (te_db te) (te_others te) pending_jobs) sv in
      case pending of
        Inl _ \<Rightarrow> record_metric (ThumbnailRecovery ''error'') sv1
      | Inr jobs \<Rightarrow> fold (requeue te) jobs sv1)"

section \<open>What later writes leave alone\<close>

text \<open>A later database: the page's rows are kept, and every row added to it carries a revision above
  the earlier one.\<close>

definition later :: "db \<Rightarrow> string \<Rightarrow> db \<Rightarrow> bool" where
  "later d p d' \<longleftrightarrow>
     (\<exists>bs ts ths. batches_of d' p = batches_of d p @ bs \<and> tombstones_of d' p = tombstones_of d p @ ts \<and>
        thumbnails_of d' p = thumbnails_of d p @ ths \<and>
        (\<forall>row. page_row d p = Some row \<longrightarrow>
           (\<exists>row'. page_row d' p = Some row' \<and> pg_ink_revision row \<le> pg_ink_revision row') \<and>
           (\<forall>b \<in> set bs. pg_ink_revision row < sbr_revision b) \<and>
           (\<forall>t \<in> set ts. pg_ink_revision row < str_deleted_revision t)))"

lemma later_refl: "later d p d"
  by (simp add: later_def)

lemma later_trans:
  assumes "later d p d1" "later d1 p d2" "page_row d p \<noteq> None"
  shows "later d p d2"
proof -
  obtain row where row: "page_row d p = Some row" using assms(3) by auto
  obtain bs ts ths row1 where 1: "batches_of d1 p = batches_of d p @ bs" "tombstones_of d1 p = tombstones_of d p @ ts"
      "thumbnails_of d1 p = thumbnails_of d p @ ths" "page_row d1 p = Some row1"
      "pg_ink_revision row \<le> pg_ink_revision row1" "\<forall>b \<in> set bs. pg_ink_revision row < sbr_revision b"
      "\<forall>t \<in> set ts. pg_ink_revision row < str_deleted_revision t"
    using assms(1) row by (auto simp: later_def)
  obtain bs' ts' ths' row2 where 2: "batches_of d2 p = batches_of d1 p @ bs'" "tombstones_of d2 p = tombstones_of d1 p @ ts'"
      "thumbnails_of d2 p = thumbnails_of d1 p @ ths'" "page_row d2 p = Some row2"
      "pg_ink_revision row1 \<le> pg_ink_revision row2" "\<forall>b \<in> set bs'. pg_ink_revision row1 < sbr_revision b"
      "\<forall>t \<in> set ts'. pg_ink_revision row1 < str_deleted_revision t"
    using assms(2) 1(4) by (auto simp: later_def)
  show ?thesis
    unfolding later_def
    by (intro exI [of _ "bs @ bs'"] exI [of _ "ts @ ts'"] exI [of _ "ths @ ths'"])
      (use 1 2 row in fastforce)
qed

lemma insert_thumbnail_job_views:
  "thumbnails_of (snd (insert_thumbnail_job now q rv paper d)) p = thumbnails_of d p @
     (if p = q \<and> rv \<notin> set (map th_source_seq (thumbnails_of d q))
      then [\<lparr>th_page_id = q, th_source_seq = rv, th_status = ''generating'', th_png = None,
             th_created_at = now, th_paper = paper\<rparr>] else [])"
  by (auto simp: insert_thumbnail_job_def thumbnails_of_def list_ex_iff)

lemma persist_batch_later:
  assumes inv: "db_inv d" and op: "persist_batch env d q cid strokes = Inr (r, d')"
  shows "later d p d'"
  using op
proof (cases rule: persist_batch_cases)
  case (inserted row job)
  note below = inserted_below [OF inv inserted(1,5)]
  have wrap: "wrap_i64 (pg_ink_revision row + 1) = pg_ink_revision row + 1"
    by (rule wrap_i64_succ [OF view_okD(1) [OF inv inserted(1)] below])
  have "\<exists>ths. thumbnails_of d' p = thumbnails_of d p @ ths"
    by (simp add: inserted(6) after_batch_def Let_def insert_thumbnail_job_views store_simps)
  then show ?thesis
    using after_batch_views [OF inv inserted(1) below] inserted(1)
    by (auto simp: later_def inserted(6) after_batch_batches wrap)
qed (simp_all add: later_refl)

lemma persist_tombstones_later:
  assumes inv: "db_inv d" and op: "persist_tombstones env d q mid ids = Inr (r, d')"
  shows "later d p d'"
  using op
proof (cases rule: persist_tombstones_cases)
  case (vacuous row)
  then show ?thesis by (simp add: later_def store_simps)
next
  case (deleted row job)
  have below: "pg_ink_revision row < i64_max" using view_okD(2) [OF inv deleted(1)] deleted(4) by simp
  show ?thesis
    using after_delete_views(1,2,3,5) [OF inv deleted(1) below] deleted(1)
    by (auto simp: later_def deleted(5) dest: tombstone_rows_revision)
qed (simp_all add: later_refl)

lemma persist_paper_later:
  assumes inv: "db_inv d" and op: "persist_paper env d q paper = Inr (r, d')"
    and below: "\<And>row. page_row d q = Some row \<Longrightarrow> pg_ink_revision row < i64_max"
  shows "later d p d'"
  using op
proof (cases rule: persist_paper_cases)
  case (changed row)
  have "tombstones_of d' p = tombstones_of d p"
    by (auto simp: changed(3) after_paper_def Let_def insert_thumbnail_job_def store_simps)
  moreover have "\<exists>ths. thumbnails_of d' p = thumbnails_of d p @ ths"
    by (simp add: changed(3) after_paper_def Let_def insert_thumbnail_job_views store_simps)
  ultimately show ?thesis
    using after_paper_row [OF inv changed(1) below [OF changed(1)], of env paper p] changed(1)
    by (auto simp: later_def changed(3) after_paper_batches)
qed (simp_all add: later_refl)

lemma apply_write_later:
  assumes inv: "db_inv d" and room: "db_room n d" "1 \<le> n"
  shows "later d p (apply_write env w d)"
proof -
  have below: "pg_ink_revision row < i64_max" if "page_row d q = Some row" for q row
    using room that by (fastforce simp: db_room_def)
  show ?thesis
    by (cases rule: apply_write_cases [of env w d])
      (use inv below persist_batch_later persist_tombstones_later persist_paper_later in \<open>auto simp: later_refl\<close>)
qed

lemma writes_later:
  "db_inv d \<Longrightarrow> db_room (n + int (length ws)) d \<Longrightarrow> 0 \<le> n \<Longrightarrow> page_row d p \<noteq> None \<Longrightarrow>
   db_inv (fold (\<lambda>(env, w). apply_write env w) ws d) \<and> db_room n (fold (\<lambda>(env, w). apply_write env w) ws d) \<and>
   later d p (fold (\<lambda>(env, w). apply_write env w) ws d)"
proof (induction ws arbitrary: d)
  case (Cons w ws)
  obtain env v where w: "w = (env, v)" by (cases w)
  have room: "db_room (n + int (length ws) + 1) d" using Cons.prems(2) by (simp add: algebra_simps)
  define d1 where "d1 = apply_write env v d"
  have 1: "db_inv d1" "db_room (n + int (length ws)) d1" "later d p d1"
    using apply_write_inv_grows [OF Cons.prems(1) room, of env v p]
      apply_write_later [OF Cons.prems(1) room, of p env v] Cons.prems(3) by (simp_all add: d1_def)
  moreover have "page_row d1 p \<noteq> None" using 1(3) Cons.prems(4) by (auto simp: later_def)
  ultimately show ?case
    using Cons.IH [of d1] later_trans [OF 1(3)] Cons.prems(3,4) by (auto simp: w d1_def)
qed (simp add: later_refl)

section \<open>The ink of a revision\<close>

definition revision_strokes :: "db \<Rightarrow> string \<Rightarrow> int \<Rightarrow> Stroke list" where
  "revision_strokes d p s =
     filter (\<lambda>stroke. stroke_id stroke \<notin>
         set (map str_stroke_id (filter (\<lambda>t. str_deleted_revision t \<le> s) (tombstones_of d p))))
       (concat (map sbr_strokes (sort_key sbr_revision (filter (\<lambda>b. sbr_revision b \<le> s) (batches_of d p)))))"

lemma find_append_Some: "List.find P xs = Some x \<Longrightarrow> List.find P (xs @ ys) = Some x"
  by (induction xs) auto

lemma later_at:
  assumes "later d p d'" "page_row d p = Some row" "s \<le> pg_ink_revision row"
  shows "filter (\<lambda>b. sbr_revision b \<le> s) (batches_of d' p) = filter (\<lambda>b. sbr_revision b \<le> s) (batches_of d p)"
    "filter (\<lambda>t. str_deleted_revision t \<le> s) (tombstones_of d' p) =
     filter (\<lambda>t. str_deleted_revision t \<le> s) (tombstones_of d p)"
    "List.find (\<lambda>t. th_source_seq t = s) (thumbnails_of d p) = Some t \<Longrightarrow>
     List.find (\<lambda>t. th_source_seq t = s) (thumbnails_of d' p) = Some t"
  using assms by (fastforce simp: later_def filter_empty_conv find_append_Some)+

lemma revision_strokes_later:
  "later d p d' \<Longrightarrow> page_row d p = Some row \<Longrightarrow> s \<le> pg_ink_revision row \<Longrightarrow>
   revision_strokes d' p s = revision_strokes d p s"
  using later_at by (simp add: revision_strokes_def)

lemma revision_strokes_head:
  assumes "db_inv d" "page_row d p = Some row"
  shows "revision_strokes d p (pg_ink_revision row) = survivors d p"
proof -
  note ok = view_okD [OF assms]
  have "filter (\<lambda>b. sbr_revision b \<le> pg_ink_revision row) (batches_of d p) = batches_of d p"
    "filter (\<lambda>t. str_deleted_revision t \<le> pg_ink_revision row) (tombstones_of d p) = tombstones_of d p"
    using ok(3,4) by (auto simp: batches_ok_def tombstones_ok_def filter_id_conv)
  moreover have "sorted_wrt (<) (map sbr_revision (batches_of d p))"
    using ok(3) by (simp add: batches_ok_def)
  then have "sort_key sbr_revision (batches_of d p) = batches_of d p"
    by (intro sort_key_id_if_sorted strict_sorted_imp_sorted)
  ultimately show ?thesis
    by (simp add: revision_strokes_def survivors_def stroke_visible_def [abs_def] tombstoned_ids_of_def)
qed

section \<open>A job draws the revision it was queued for\<close>

lemma pg_read_eq: "pg_read env others f s = (f (env (pg_clock s)) (pg_db (pg_tick env others s)), pg_tick env others s)"
  by (simp add: pg_read_def Let_def)

lemma thumb_read_eq:
  "thumb_read te f sv = (let s = pg_tick (te_db te) (te_others te) (sv_store sv)
    in (map_err (te_show te) (f (te_db te (pg_clock (sv_store sv))) (pg_db s)), sv\<lparr>sv_store := s\<rparr>))"
  by (simp add: thumb_read_def call_store_def pg_read_eq Let_def)

lemma thumb_write_eq:
  "thumb_write te f sv = (let s = pg_tick (te_db te) (te_others te) (sv_store sv)
    in case f (te_db te (pg_clock (sv_store sv))) (pg_db s) of
         Inl e \<Rightarrow> (Inl (te_show te e), sv\<lparr>sv_store := s\<rparr>)
       | Inr (r, d) \<Rightarrow> (Inr r, sv\<lparr>sv_store := s\<lparr>pg_db := d\<rparr>\<rparr>))"
  by (simp add: thumb_write_def call_store_def pg_write_def Let_def split: sum.split)

text \<open>How much the other sessions may write while \<open>k\<close> statements run.\<close>

definition others_count :: "('o, 'path) thumb_env \<Rightarrow> pg \<Rightarrow> nat \<Rightarrow> nat" where
  "others_count te s k = (\<Sum>n<k. length (te_others te (pg_clock s + n)))"

lemma others_count_Suc:
  "others_count te s (Suc k) = length (te_others te (pg_clock s)) + others_count te (pg_tick env others s) k"
  unfolding others_count_def sum.lessThan_Suc_shift by (simp add: pg_tick_def)

text \<open>The database is one the page's revision can still be read from.\<close>

definition holds_revision :: "db \<Rightarrow> string \<Rightarrow> int \<Rightarrow> db \<Rightarrow> bool" where
  "holds_revision d p n d' \<longleftrightarrow> db_inv d' \<and> db_room n d' \<and> later d p d'"

lemma tick_holds:
  assumes "holds_revision d p (n + int (length (te_others te (pg_clock s)))) (pg_db s)" "0 \<le> n" "page_row d p \<noteq> None"
  shows "holds_revision d p n (pg_db (pg_tick (te_db te) (te_others te) s))"
proof -
  define env where "env = te_db te (pg_clock s)"
  have fold_eq: "fold (apply_write env) ws = fold (\<lambda>(env, w). apply_write env w) (map (Pair env) ws)" for ws
    by (simp add: fold_map comp_def)
  have "page_row (pg_db s) p \<noteq> None" using assms(1,3) by (auto simp: holds_revision_def later_def)
  from writes_later [of "pg_db s" n "map (Pair env) (te_others te (pg_clock s))" p, OF _ _ assms(2) this]
  show ?thesis
    using assms(1,3) by (auto simp: holds_revision_def pg_tick_def env_def [symmetric] fold_eq intro: later_trans)
qed

lemma thumbnails_update:
  "thumbnails_of (update_thumbnail f p seq d) q =
     map (\<lambda>t. if q = p \<and> th_source_seq t = as_i64 seq then f t else t) (thumbnails_of d q)"
  if "\<And>t. th_page_id (f t) = th_page_id t"
proof -
  have "filter (\<lambda>t. th_page_id t = q) (map (\<lambda>t. if th_page_id t = p \<and> th_source_seq t = as_i64 seq then f t else t) ts) =
      map (\<lambda>t. if q = p \<and> th_source_seq t = as_i64 seq then f t else t) (filter (\<lambda>t. th_page_id t = q) ts)" for ts
    using that by (induction ts) auto
  then show ?thesis by (simp add: update_thumbnail_def thumbnails_of_def)
qed

lemma cleanup_subset:
  "cleanup p env d = Inr ((), d') \<Longrightarrow> set (thumbnails_of d' q) \<subseteq> set (thumbnails_of d q)"
  by (auto simp: cleanup_def results_simps thumbnails_of_def split: option.splits)

section \<open>Jobs keep the tables consistent\<close>

lemma update_thumbnail_views:
  "page_row (update_thumbnail f p seq d) q = page_row d q"
  "batches_of (update_thumbnail f p seq d) q = batches_of d q"
  "tombstones_of (update_thumbnail f p seq d) q = tombstones_of d q"
  "tombstone_batches_of (update_thumbnail f p seq d) q = tombstone_batches_of d q"
  "pages (update_thumbnail f p seq d) = pages d"
  by (simp_all add: update_thumbnail_def page_row_def batches_of_def tombstones_of_def tombstone_batches_of_def)

lemma same_seqs_inv:
  assumes inv: "db_inv d" and eqs: "pages d' = pages d" "\<And>q. batches_of d' q = batches_of d q"
      "\<And>q. tombstones_of d' q = tombstones_of d q" "\<And>q. tombstone_batches_of d' q = tombstone_batches_of d q"
    and ths: "\<And>q row. page_row d q = Some row \<Longrightarrow> thumbnails_ok (pg_ink_revision row) (thumbnails_of d' q)"
      "\<And>q. page_row d q = None \<Longrightarrow> thumbnails_of d' q = []"
  shows "db_inv d'"
proof -
  have row: "page_row d' q = page_row d q" for q by (simp add: page_row_def eqs)
  have "view_ok (page_view d' q)" for q
  proof (cases "page_row d q")
    case None
    then show ?thesis
      using view_ok_no_row [OF inv None] ths(2) [OF None]
      by (simp add: view_ok.simps page_view_def row eqs)
  next
    case (Some r)
    then show ?thesis
      using view_okD [OF inv Some] ths(1) [OF Some] by (intro view_okI) (simp_all add: row eqs)
  qed
  then show ?thesis using inv by (simp add: db_inv_def eqs)
qed

lemma update_thumbnail_inv:
  assumes inv: "db_inv d" and f: "\<And>t. th_page_id (f t) = th_page_id t" "\<And>t. th_source_seq (f t) = th_source_seq t"
  shows "db_inv (update_thumbnail f p seq d)"
proof -
  have seqs: "map th_source_seq (thumbnails_of (update_thumbnail f p seq d) q) = map th_source_seq (thumbnails_of d q)" for q
    by (auto simp: thumbnails_update [OF f(1)] f(2))
  have "thumbnails_ok rv (thumbnails_of (update_thumbnail f p seq d) q) = thumbnails_ok rv (thumbnails_of d q)" for rv q
  proof -
    have "thumbnails_ok rv ths \<longleftrightarrow> distinct (map th_source_seq ths) \<and>
        (\<forall>s \<in> set (map th_source_seq ths). 0 < s \<and> s \<le> rv) \<and> (rv = 0 \<or> rv \<in> set (map th_source_seq ths))" for ths
      by (simp add: thumbnails_ok_def)
    then show ?thesis by (simp only: seqs)
  qed
  moreover have "thumbnails_of (update_thumbnail f p seq d) q = []" if "page_row d q = None" for q
    using view_ok_no_row [OF inv that] by (simp add: thumbnails_update [OF f(1)])
  ultimately show ?thesis
    using view_okD(6) [OF inv] by (intro same_seqs_inv [OF inv]) (simp_all add: update_thumbnail_views)
qed

lemma thumbnails_cleanup:
  assumes "cleanup p env d = Inr ((), d')"
  shows "thumbnails_of d' q = (case page_row d p of
      None \<Rightarrow> thumbnails_of d q
    | Some row \<Rightarrow> filter (\<lambda>t. \<not> (q = p \<and> expired (env_now env - retention_microseconds)
        (pg_ink_revision row) (thumbnails_of d p) t)) (thumbnails_of d q))"
    and "pages d' = pages d" "batches_of d' = batches_of d" "tombstones_of d' = tombstones_of d"
    "tombstone_batches_of d' = tombstone_batches_of d"
proof -
  have "filter (\<lambda>t. th_page_id t = q) (filter (\<lambda>t. \<not> (th_page_id t = p \<and> P t)) ts) =
      filter (\<lambda>t. \<not> (q = p \<and> P t)) (filter (\<lambda>t. th_page_id t = q) ts)" for P ts
    by (induction ts) auto
  then show "thumbnails_of d' q = (case page_row d p of
      None \<Rightarrow> thumbnails_of d q
    | Some row \<Rightarrow> filter (\<lambda>t. \<not> (q = p \<and> expired (env_now env - retention_microseconds)
        (pg_ink_revision row) (thumbnails_of d p) t)) (thumbnails_of d q))"
    using assms by (auto simp: cleanup_def results_simps thumbnails_of_def split: option.splits)
  show "pages d' = pages d" "batches_of d' = batches_of d" "tombstones_of d' = tombstones_of d"
    "tombstone_batches_of d' = tombstone_batches_of d"
    using assms by (auto simp: cleanup_def results_simps batches_of_def [abs_def] tombstones_of_def [abs_def]
        tombstone_batches_of_def [abs_def] split: option.splits)
qed

lemma thumbnails_ok_filter:
  "thumbnails_ok rv ths \<Longrightarrow> (\<And>t. t \<in> set ths \<Longrightarrow> th_source_seq t = rv \<Longrightarrow> P t) \<Longrightarrow> thumbnails_ok rv (filter P ths)"
  by (auto simp: thumbnails_ok_def distinct_map inj_on_def)

lemma cleanup_inv:
  assumes inv: "db_inv d" and op: "cleanup p env d = Inr ((), d')"
  shows "db_inv d'"
proof (rule same_seqs_inv [OF inv])
  fix q row assume row: "page_row d q = Some row"
  show "thumbnails_ok (pg_ink_revision row) (thumbnails_of d' q)"
    using view_okD(6) [OF inv row] row
    by (auto simp: thumbnails_cleanup(1) [OF op] expired_def intro!: thumbnails_ok_filter split: option.split)
next
  fix q assume "page_row d q = None"
  then show "thumbnails_of d' q = []"
    using view_ok_no_row [OF inv] by (simp add: thumbnails_cleanup(1) [OF op] split: option.split)
qed (simp_all add: thumbnails_cleanup(2-) [OF op])

text \<open>Consistent, with room for what the others may write during the next \<open>k\<close> statements.\<close>

definition ready :: "('o, 'path) thumb_env \<Rightarrow> nat \<Rightarrow> 'o pg_state \<Rightarrow> bool" where
  "ready te k sv \<longleftrightarrow> db_inv (pg_db (sv_store sv)) \<and>
     db_room (int (others_count te (sv_store sv) k)) (pg_db (sv_store sv))"

lemma db_room_mono: "db_room n d \<Longrightarrow> m \<le> n \<Longrightarrow> db_room m d"
  by (fastforce simp: db_room_def)

lemma ready_mono: "ready te (Suc k) sv \<Longrightarrow> ready te k sv"
  by (auto simp: ready_def others_count_def elim: db_room_mono)

lemma fold_inv_room:
  "db_inv d \<Longrightarrow> db_room (n + int (length ws)) d \<Longrightarrow> 0 \<le> n \<Longrightarrow>
   db_inv (fold (apply_write env) ws d) \<and> db_room n (fold (apply_write env) ws d)"
proof (induction ws arbitrary: d)
  case (Cons w ws)
  have "db_room (n + int (length ws) + 1) d" using Cons.prems(2) by (simp add: algebra_simps)
  from apply_write_inv_grows [OF Cons.prems(1) this, of env w] show ?case using Cons.IH Cons.prems(3) by simp
qed simp

lemma ready_tick:
  assumes "ready te (Suc k) sv"
  shows "ready te k (sv\<lparr>sv_store := pg_tick (te_db te) (te_others te) (sv_store sv)\<rparr>)"
  using assms fold_inv_room [of "pg_db (sv_store sv)" "int (others_count te (pg_tick (te_db te) (te_others te) (sv_store sv)) k)"
      "te_others te (pg_clock (sv_store sv))" "te_db te (pg_clock (sv_store sv))"]
  by (simp add: ready_def others_count_Suc [where env = "te_db te" and others = "te_others te"] pg_tick_def [of "te_db te"]
      algebra_simps)

lemma ready_read: "ready te (Suc k) sv \<Longrightarrow> ready te k (snd (thumb_read te f sv))"
  using ready_tick by (simp add: thumb_read_eq Let_def)

lemma ready_write:
  assumes "ready te (Suc k) sv"
    and f: "\<And>env d r d'. db_inv d \<Longrightarrow> f env d = Inr (r, d') \<Longrightarrow> db_inv d' \<and> pages d' = pages d"
  shows "ready te k (snd (thumb_write te f sv))"
  using ready_tick [OF assms(1)] f
  by (fastforce simp: thumb_write_eq Let_def ready_def db_room_def page_row_def others_count_def split: sum.split)

lemma ready_elsewhere [simp]:
  "ready te k (record_metric m sv) = ready te k sv" "ready te k (sv\<lparr>sv_hub := h\<rparr>) = ready te k sv"
  by (simp_all add: ready_def record_metric_def)

lemma ready_le: "j \<le> k \<Longrightarrow> ready te k sv \<Longrightarrow> ready te j sv"
  by (induction k) (auto dest: ready_mono simp: le_Suc_eq)

lemma ready_andthen:
  assumes "ready te k (snd x)" "j \<le> k" "\<And>a. ready te k (snd x) \<Longrightarrow> ready te j (snd (f a (snd x)))"
  shows "ready te j (snd (andthen x f))"
  using assms ready_le by (cases "(x, f)" rule: andthen.cases) auto

lemma png_writes_inv:
  assumes "db_inv d"
  shows "store_png p seq png env d = Inr (r, d') \<Longrightarrow> db_inv d' \<and> pages d' = pages d"
    "mark_failed p seq env d = Inr (r, d') \<Longrightarrow> db_inv d' \<and> pages d' = pages d"
    "cleanup p env d = Inr (r, d') \<Longrightarrow> db_inv d' \<and> pages d' = pages d"
  using assms cleanup_inv thumbnails_cleanup(2)
  by (auto simp: store_png_def mark_failed_def results_simps update_thumbnail_inv update_thumbnail_views)

lemma cleanup_ready: "ready te (Suc k) sv \<Longrightarrow> ready te k (cleanup_best_effort te p sv)"
  using ready_write [of te k sv "cleanup p"] png_writes_inv(3)
  by (auto simp: cleanup_best_effort_def case_prod_beta Let_def split: sum.split)

lemma generate_ready:
  assumes "ready te 6 sv"
  shows "ready te 1 (snd (generate te p seq sv))"
proof -
  have steps: "ready te 6 (sv :: 'a pg_state) \<Longrightarrow> ready te 5 (snd (thumb_read te f sv))"
    "ready te 5 (sv :: 'a pg_state) \<Longrightarrow> ready te 4 (snd (thumb_read te g sv))"
    "ready te 4 (sv :: 'a pg_state) \<Longrightarrow> ready te 3 (snd (thumb_read te h sv))" for sv f g h
    using ready_read [of te 5 sv] ready_read [of te 4 sv] ready_read [of te 3 sv] by simp_all
  have store: "ready te 3 sv \<Longrightarrow> ready te 2 (snd (thumb_write te (store_png p seq png) sv))"
    for sv :: "'a pg_state" and png
    using ready_write [of te 2 sv "store_png p seq png"] png_writes_inv(1) by simp
  have clean: "ready te 2 sv \<Longrightarrow> ready te 1 (cleanup_best_effort te p sv)" for sv :: "'a pg_state"
    using cleanup_ready [of te 1 sv] by (simp add: numeral_2_eq_2)
  show ?thesis
    unfolding generate_def Let_def
    by (rule ready_andthen [where k = 6], simp add: assms, simp,
        rule ready_andthen [where k = 5], simp add: steps, simp,
        rule ready_andthen [where k = 5], simp, simp,
        rule ready_andthen [where k = 5], simp, simp,
        rule ready_andthen [where k = 4], simp add: steps, simp,
        rule ready_andthen [where k = 3], simp add: steps, simp,
        rule ready_andthen [where k = 3], simp, simp,
        rule ready_andthen [where k = 2], simp add: store, simp, simp add: clean [simplified])
qed

text \<open>A thumbnail job leaves the tables consistent whatever happens to it: run to its end while
  other sessions write, succeeding, failing at any statement or in the renderer, with its retention
  cleanup, it keeps every invariant of the tables, the row of the page's head revision included.\<close>

theorem job_keeps_invariant:
  assumes "db_inv (pg_db (sv_store sv))"
    and "db_room (int (others_count te (sv_store sv) 6)) (pg_db (sv_store sv))"
  shows "db_inv (pg_db (sv_store (run_job te job sv)))"
proof -
  have gen: "ready te 1 (snd (generate te (tj_page_id job) (tj_source_seq job) sv))"
    by (rule generate_ready) (use assms in \<open>simp add: ready_def\<close>)
  have failed: "ready te 0 (snd (thumb_write te (mark_failed p seq) sv))" if "ready te 1 sv" for p seq and sv :: "'a pg_state"
    using ready_write [of te 0 sv "mark_failed p seq"] png_writes_inv(2) that by simp
  have "ready te 0 (run_job te job sv)"
    using gen ready_le [OF _ gen, of 0] failed
    by (auto simp: run_job_def Let_def case_prod_beta split: sum.split)
  then show ?thesis by (simp add: ready_def)
qed

lemma run_writes_holds:
  assumes "db_inv d" "db_room (n + int (length ws)) d" "0 \<le> n" "page_row d p \<noteq> None"
  shows "holds_revision d p n (run_writes ws d)"
  using writes_later [OF assms] by (simp add: holds_revision_def run_writes_def)

lemma stored_png_available:
  assumes "holds_revision d p n d4" "0 \<le> n" "page_row d p = Some row" "as_i64 seq = pg_ink_revision row"
    and "List.find (\<lambda>t. th_source_seq t = as_i64 seq) (thumbnails_of d p) = Some t"
    and "holds_revision (update_thumbnail (\<lambda>t. t\<lparr>th_status := ''available'', th_png := Some png\<rparr>) p seq d4) p m d5"
    and "u \<in> set (thumbnails_of d5 p)" "th_source_seq u = as_i64 seq"
  shows "th_status u = ''available'' \<and> th_png u = Some png"
proof -
  define f where "f = (\<lambda>t. t\<lparr>th_status := ''available'', th_png := Some png\<rparr> :: ThumbnailRow)"
  have kept [simp]: "th_page_id (f t) = th_page_id t" "th_source_seq (f t) = th_source_seq t" for t
    by (simp_all add: f_def)
  have "List.find (\<lambda>t. th_source_seq t = as_i64 seq) (thumbnails_of d4 p) = Some t"
    using assms(1,3,4,5) later_at(3) [of d p d4 row "as_i64 seq" t] by (simp add: holds_revision_def)
  then have t: "t \<in> set (thumbnails_of d4 p)" "th_source_seq t = as_i64 seq" by (auto simp: find_Some_iff)
  define ths where "ths = thumbnails_of (update_thumbnail f p seq d4) p"
  have ths: "ths = map (\<lambda>t. if th_source_seq t = as_i64 seq then f t else t) (thumbnails_of d4 p)"
    by (simp add: ths_def thumbnails_update)
  obtain new where new: "thumbnails_of d5 p = ths @ new"
    using assms(6) by (auto simp: holds_revision_def later_def f_def ths_def)
  have "page_row d5 p \<noteq> None"
    using assms(6,7) view_ok_no_row [of d5 p] by (cases "page_row d5 p") (auto simp: holds_revision_def)
  then have "distinct (map th_source_seq (ths @ new))"
    using view_okD(6) [of d5 p] assms(6) new by (auto simp: holds_revision_def thumbnails_ok_def)
  moreover have "as_i64 seq \<in> set (map th_source_seq ths)" using t by (force simp: ths)
  ultimately have "u \<in> set ths"
    using assms(7,8) by (auto simp: new) (metis disjoint_iff image_eqI)
  then show ?thesis using assms(8) by (auto simp: ths f_def split: if_splits)
qed

text \<open>What a job sees from query to query, and what other sessions leave of the image it stored.\<close>

lemma ticks_hold:
  assumes inv: "db_inv d" and row: "page_row d p \<noteq> None" and after: "pg_db s = run_writes ws d"
    and room: "db_room (int (others_count te s 5) + int (length ws)) d"
  defines "tick \<equiv> pg_tick (te_db te) (te_others te)"
  shows "holds_revision d p (int (others_count te (tick s) 4)) (pg_db (tick s))"
    "holds_revision d p (int (others_count te (tick (tick s)) 3)) (pg_db (tick (tick s)))"
    "holds_revision d p (int (others_count te (tick (tick (tick s))) 2)) (pg_db (tick (tick (tick s))))"
    "holds_revision d p (int (others_count te (tick (tick (tick (tick s)))) 1)) (pg_db (tick (tick (tick (tick s)))))"
proof -
  have count: "others_count te s (Suc k) = length (te_others te (pg_clock s)) + others_count te (tick s) k" for s k
    unfolding tick_def by (rule others_count_Suc)
  have step: "holds_revision d p (int (others_count te s (Suc k))) (pg_db s) \<Longrightarrow>
      holds_revision d p (int (others_count te (tick s) k)) (pg_db (tick s))" for s k
    using tick_holds [of d p "int (others_count te (tick s) k)" te s] row
    by (simp add: count algebra_simps tick_def)
  have "holds_revision d p (int (others_count te s 5)) (pg_db s)"
    unfolding after by (rule run_writes_holds [OF inv room _ row]) simp
  then show h1: "holds_revision d p (int (others_count te (tick s) 4)) (pg_db (tick s))"
    using step [of s 4] by simp
  show h2: "holds_revision d p (int (others_count te (tick (tick s)) 3)) (pg_db (tick (tick s)))"
    using step [of "tick s" 3] h1 by simp
  show h3: "holds_revision d p (int (others_count te (tick (tick (tick s))) 2)) (pg_db (tick (tick (tick s))))"
    using step [of "tick (tick s)" 2] h2 by simp
  show "holds_revision d p (int (others_count te (tick (tick (tick (tick s)))) 1)) (pg_db (tick (tick (tick (tick s)))))"
    using step [of "tick (tick (tick s))" 1] h3 by (simp add: numeral_2_eq_2)
qed

lemma stored_image_holds:
  fixes png :: "u8 list" and seq :: u64
  assumes holds: "holds_revision d p (int (others_count te s 1)) (pg_db s)" and row: "page_row d p \<noteq> None"
  defines "stored \<equiv> s\<lparr>pg_db := update_thumbnail (\<lambda>t. t\<lparr>th_status := ''available'', th_png := Some png\<rparr>) p seq (pg_db s)\<rparr>"
  shows "holds_revision (pg_db stored) p 0 (pg_db (pg_tick (te_db te) (te_others te) stored))"
proof -
  have "db_inv (pg_db stored)" using holds by (simp add: stored_def holds_revision_def update_thumbnail_inv)
  moreover have "db_room (int (others_count te stored 1)) (pg_db stored)"
    using holds by (simp add: stored_def holds_revision_def db_room_def update_thumbnail_views others_count_def)
  ultimately have "holds_revision (pg_db stored) p (int (others_count te stored (Suc 0))) (pg_db stored)"
    by (simp add: holds_revision_def later_refl)
  moreover have "page_row (pg_db stored) p \<noteq> None"
    using holds row by (auto simp: stored_def update_thumbnail_views holds_revision_def later_def)
  ultimately show ?thesis
    using tick_holds [of "pg_db stored" p 0 te stored] by (simp add: others_count_def)
qed

lemma job_sees_strokes:
  assumes inv: "db_inv d" and row: "page_row d p = Some row" and seq: "at_revision = pg_ink_revision row"
    and seen: "later d p d2" "later d p d3"
  shows "filter (\<lambda>stroke. stroke_id stroke \<notin> set (map str_stroke_id (filter (\<lambda>t. str_deleted_revision t \<le> at_revision) (tombstones_of d3 p))))
      (concat (map sbr_strokes (sort_key sbr_revision (filter (\<lambda>b. sbr_revision b \<le> at_revision) (batches_of d2 p))))) = survivors d p"
proof -
  have le: "at_revision \<le> pg_ink_revision row" by (simp add: seq)
  show ?thesis
    using revision_strokes_head [OF inv row]
    unfolding revision_strokes_def seq [symmetric] later_at(1) [OF seen(1) row le] later_at(2) [OF seen(2) row le] .
qed


section \<open>The queue-depth gauge\<close>

text \<open>\<open>thumbnail_generation_queued\<close> adds one to the gauge, \<open>thumbnail_generation_finished\<close> takes one.\<close>

definition queue_depth :: "Metric list \<Rightarrow> int" where
  "queue_depth ms = int (count_list ms ThumbnailGenerationQueued) - int (count_list ms ThumbnailGenerationFinished)"

definition gauge_gap :: "('s, 'o) server \<Rightarrow> int" where
  "gauge_gap sv = queue_depth (sv_metrics sv) - int (length (sv_jobs sv))"

lemma gap_metric [simp]: "gauge_gap (record_metric m sv) =
    gauge_gap sv + (if m = ThumbnailGenerationQueued then 1 else if m = ThumbnailGenerationFinished then -1 else 0)"
  by (simp add: gauge_gap_def queue_depth_def record_metric_def)

lemma gap_parts [simp]:
  "gauge_gap (sv\<lparr>sv_hub := h\<rparr>) = gauge_gap sv" "gauge_gap (sv\<lparr>sv_store := s\<rparr>) = gauge_gap sv"
  "gauge_gap (snd (call_store f sv)) = gauge_gap sv" "gauge_gap (snd (take_lease ctx sv)) = gauge_gap sv"
  "gauge_gap (publish_to_page ctx m sv) = gauge_gap sv" "gauge_gap (publish_to_library ctx u e sv) = gauge_gap sv"
  "gauge_gap (enqueue p u seq sv) = gauge_gap sv"
  by (simp_all add: gauge_gap_def queue_depth_def call_store_def take_lease_def publish_to_page_def
      publish_to_library_def enqueue_def record_metric_def Let_def split: prod.split)

lemma gap_send [simp]: "gauge_gap (snd (send_page_frame ctx m sv)) = gauge_gap sv"
  "gauge_gap (snd (send_page ctx m sv)) = gauge_gap sv" "gauge_gap (snd (deny_lease ctx h sv)) = gauge_gap sv"
proof -
  show frame: "gauge_gap (snd (send_page_frame ctx m sv)) = gauge_gap sv" for m and sv :: "('a, 'b) server"
    by (auto simp: send_page_frame_def gauge_gap_def queue_depth_def record_metric_def split: option.split)
  show send: "gauge_gap (snd (send_page ctx m sv)) = gauge_gap sv" for m and sv :: "('a, 'b) server"
    by (simp add: send_page_def case_prod_beta frame)
  show "gauge_gap (snd (deny_lease ctx h sv)) = gauge_gap sv" by (simp add: deny_lease_def send)
qed

lemma gap_announce [simp]: "gauge_gap (announce_edit ctx u t j r sv) = gauge_gap sv"
  by (simp add: announce_edit_def publish_page_updated_def queue_thumbnail_def Let_def split: option.split)

lemma gap_frames [simp]: "gauge_gap (snd (send_frames ctx ms cost sv)) = gauge_gap sv"
  by (induction ms arbitrary: cost sv) (auto simp: case_prod_beta split: option.split)

lemma gap_replay_frames [simp]: "gauge_gap (snd (send_replay_frames ctx bs ts cost sv)) = gauge_gap sv"
  by (simp add: send_replay_frames_def case_prod_beta Let_def split: option.split)

lemma gap_dispatch [simp]: "gauge_gap (snd (dispatch_page_client_message ops ctx m sv)) = gauge_gap sv"
proof (cases m)
  case (Subscribe n)
  then show ?thesis
    by (auto simp: dispatch_page_client_message_def replay_page_def case_prod_beta Let_def
        split: sum.split option.split prod.split)
qed (auto simp: dispatch_page_client_message_def dispatch_acquire_lease_def dispatch_renew_lease_def
    dispatch_release_lease_def commit_batch_def commit_tombstones_def set_paper_def case_prod_beta Let_def
    split: LeaseOutcome.split sum.split)

lemma gap_thumb [simp]: "gauge_gap (snd (thumb_read te f sv)) = gauge_gap sv"
  "gauge_gap (snd (thumb_write te g sv)) = gauge_gap sv"
  by (simp_all add: thumb_read_def thumb_write_def case_prod_beta)

lemma gap_andthen:
  "gauge_gap (snd x) = n \<Longrightarrow> (\<And>a. gauge_gap (snd (f a (snd x))) = n) \<Longrightarrow> gauge_gap (snd (andthen x f)) = n"
  by (cases "(x, f)" rule: andthen.cases) auto

lemma gap_generate [simp]: "gauge_gap (snd (generate te p seq sv)) = gauge_gap sv"
  by (auto simp: generate_def Let_def cleanup_best_effort_def case_prod_beta split: sum.split intro!: gap_andthen)

lemma gap_job: "gauge_gap (run_job te job sv) = gauge_gap sv - 1"
  by (auto simp: run_job_def Let_def case_prod_beta split: sum.split)

lemma gap_requeue: "gauge_gap (fold (requeue te) jobs sv) = gauge_gap sv"
  by (induction jobs arbitrary: sv) (simp_all add: requeue_def Let_def)

text \<open>What moves the server: a client message, a queued job run to its end, a recovery at startup.\<close>

datatype ('o, 'path) server_action =
    Act_Message "'o PageContext" PageClientMessage
  | Act_Job "('o, 'path) thumb_env" nat
  | Act_Recover "('o, 'path) thumb_env"

fun act :: "(nat \<Rightarrow> dbenv) \<Rightarrow> (nat \<Rightarrow> page_write list) \<Rightarrow> ('o, 'path) server_action \<Rightarrow> 'o pg_state \<Rightarrow> 'o pg_state" where
  "act env others (Act_Message ctx m) sv = snd (dispatch_page_client_message (PgPageStore env others) ctx m sv)"
| "act env others (Act_Job te i) sv = job_step te i sv"
| "act env others (Act_Recover te) sv = recover_pending te sv"

text \<open>The thumbnail gauge never drifts: through any sequence of client messages, job completions
  (successful or failed) and recoveries, the number of jobs the gauge counts as queued or running
  moves exactly with the number of jobs that are.\<close>

theorem gauge_counts_jobs:
  "queue_depth (sv_metrics (fold (act env others) actions sv)) - int (length (sv_jobs (fold (act env others) actions sv))) =
   queue_depth (sv_metrics sv) - int (length (sv_jobs sv))"
proof -
  have drop: "gauge_gap (sv\<lparr>sv_jobs := take i (sv_jobs sv) @ drop (Suc i) (sv_jobs sv)\<rparr>) = gauge_gap sv + 1"
    if "i < length (sv_jobs sv)" for i and sv :: "'a pg_state"
    using that by (simp add: gauge_gap_def)
  have step: "gauge_gap (act env others a sv) = gauge_gap sv" for a and sv :: "'a pg_state"
    by (cases a) (auto simp: job_step_def gap_job drop recover_pending_def case_prod_beta gap_requeue split: sum.split)
  have "gauge_gap (fold (act env others) actions sv) = gauge_gap sv"
    by (induction actions arbitrary: sv) (simp_all add: step)
  then show ?thesis by (simp add: gauge_gap_def)
qed

section \<open>Retention keeps the newest\<close>

lemma take_desc:
  fixes xs :: "int list" and n :: nat
  assumes "distinct xs"
  defines "best \<equiv> take n (rev (sort xs))"
  shows "set best \<subseteq> set xs" "length best = min n (length xs)" "distinct best"
    "x \<in> set best \<Longrightarrow> y \<in> set xs \<Longrightarrow> y \<notin> set best \<Longrightarrow> y < x"
proof -
  show "set best \<subseteq> set xs" using set_take_subset [of n "rev (sort xs)"] by (simp add: best_def)
  show "length best = min n (length xs)" "distinct best" using assms(1) by (simp_all add: best_def)
  assume x: "x \<in> set best" and y: "y \<in> set xs" "y \<notin> set best"
  have "sorted_wrt (>) (rev (sort xs))"
    using assms(1) strict_sorted_iff [of "sort xs"] by (simp add: sorted_wrt_rev)
  then have "sorted_wrt (>) (best @ drop n (rev (sort xs)))" by (simp add: best_def)
  moreover have "y \<in> set (drop n (rev (sort xs)))"
    using y append_take_drop_id [of n "rev (sort xs)"] unfolding best_def by (metis Un_iff set_append set_rev set_sort)
  ultimately show "y < x" using x by (auto simp: sorted_wrt_append)
qed

text \<open>Retention keeps the preview and the ten newest: the cleanup never touches another page or
  the row of the page's head revision, drops everything else older than a week, and of the rest
  keeps the ten with the highest revisions, or all where there are no more than ten.\<close>

theorem cleanup_retention:
  assumes inv: "db_inv d" and row: "page_row d p = Some row" and op: "cleanup p env d = Inr ((), d')"
  defines "recent \<equiv> filter (\<lambda>t. th_source_seq t \<noteq> pg_ink_revision row \<and>
      env_now env - 604800000000 \<le> th_created_at t) (thumbnails_of d p)"
    and "kept \<equiv> filter (\<lambda>t. th_source_seq t \<noteq> pg_ink_revision row) (thumbnails_of d' p)"
  shows "(\<forall>t \<in> set (thumbnails_of d p). th_source_seq t = pg_ink_revision row \<longrightarrow> t \<in> set (thumbnails_of d' p)) \<and>
    set kept \<subseteq> set recent \<and> length kept = min 10 (length recent) \<and>
    (\<forall>t \<in> set kept. \<forall>u \<in> set recent. u \<notin> set kept \<longrightarrow> th_source_seq u < th_source_seq t) \<and>
    (\<forall>q. q \<noteq> p \<longrightarrow> thumbnails_of d' q = thumbnails_of d q)"
proof -
  define best where "best = take 10 (rev (sort (map th_source_seq recent)))"
  have dist: "distinct (map th_source_seq (thumbnails_of d p))"
    using view_okD(6) [OF inv row] by (simp add: thumbnails_ok_def)
  then have dist_recent: "distinct (map th_source_seq recent)" by (simp add: recent_def distinct_map_filter)
  note desc = take_desc [OF dist_recent, where n = 10, folded best_def]
  have week: "retention_microseconds = 604800000000" by (simp add: retention_microseconds_def)
  have best: "retained_seqs (env_now env - 604800000000) (pg_ink_revision row) (thumbnails_of d p) = best"
    by (simp add: retained_seqs_def best_def recent_def)
  have after: "thumbnails_of d' q = filter (\<lambda>t. \<not> (q = p \<and> expired (env_now env - 604800000000)
      (pg_ink_revision row) (thumbnails_of d p) t)) (thumbnails_of d q)" for q
    using thumbnails_cleanup(1) [OF op, of q] row by (simp add: week)
  have kept: "kept = filter (\<lambda>t. th_source_seq t \<in> set best) recent"
    unfolding kept_def recent_def after by (auto simp: expired_def best intro: filter_cong)
  have "map th_source_seq kept = filter (\<lambda>s. s \<in> set best) (map th_source_seq recent)"
    by (simp add: kept filter_map comp_def)
  then have seqs: "distinct (map th_source_seq kept)" "set (map th_source_seq kept) = set best"
    using desc(1) dist_recent by auto
  have "length kept = card (set (map th_source_seq kept))" using distinct_card [OF seqs(1)] by simp
  also have "\<dots> = length best" by (simp only: seqs(2) distinct_card [OF desc(3)])
  finally have len: "length kept = min 10 (length recent)" using desc(2) by simp
  have newest: "th_source_seq u < th_source_seq t" if "t \<in> set kept" "u \<in> set recent" "u \<notin> set kept" for t u
    using desc(4) [of "th_source_seq t" "th_source_seq u"] that by (auto simp: kept)
  show ?thesis
    using len newest by (auto simp: after expired_def kept)
qed

subsection \<open>Example jobs\<close>

definition example_te :: "(unit, unit) thumb_env" where
  "example_te = \<lparr>te_db = (\<lambda>_. example_env), te_others = (\<lambda>n. if n = 1 then [W_Paper ''p'' RuledWide] else []),
     te_skia = example_skia, te_permit = Inr (), te_join = Inr (), te_show = (\<lambda>_. ''error''),
     te_debug = id, te_elapsed = Fin 0, te_span = ()\<rparr>"

definition inked_server :: "unit pg_state" where
  "inked_server = example_server\<lparr>sv_store := \<lparr>pg_db = example_inked, pg_clock = 0\<rparr>\<rparr>"

lemma example_inked_room: "n \<le> 998 \<Longrightarrow> db_room n example_inked"
proof -
  assume n: "n \<le> 998"
  have "db_room 999 example_db" by (rule example_db_room) simp
  from apply_write_inv_grows [OF example_db_inv this, of example_env "W_Batch ''p'' ''b1'' [example_stroke ''s1'']" "''p''"]
  have "db_room 998 example_inked" by (simp add: example_inked_def del: apply_write.simps)
  then show ?thesis by (rule db_room_mono) (rule n)
qed

lemma example_count: "others_count example_te \<lparr>pg_db = d, pg_clock = 0\<rparr> 5 = 1" "others_count example_te \<lparr>pg_db = d, pg_clock = 0\<rparr> 6 = 1"
  by (simp_all add: others_count_def example_te_def lessThan_nat_numeral lessThan_Suc)

lemma job_keeps_invariant_witness:
  "db_inv (pg_db (sv_store (run_job example_te \<lparr>tj_page_id = ''p'', tj_owner_id = ''u'', tj_source_seq = 1\<rparr> inked_server)))"
  by (rule job_keeps_invariant) (simp_all add: inked_server_def example_inked_inv example_count example_inked_room)

lemma example_job_row: "List.find (\<lambda>t. th_source_seq t = 1) (thumbnails_of example_inked ''p'') =
    Some \<lparr>th_page_id = ''p'', th_source_seq = 1, th_status = ''generating'', th_png = None,
      th_created_at = 7, th_paper = ''none''\<rparr>"
proof -
  have "thumbnails_of example_inked ''p'' = [\<lparr>th_page_id = ''p'', th_source_seq = 1,
      th_status = ''generating'', th_png = None, th_created_at = 7, th_paper = ''none''\<rparr>]"
    using example_inked_commit
  proof (cases rule: persist_batch_cases)
    case (inserted row job)
    have "row = example_row" using inserted(1) by (simp add: example_db_page)
    then show ?thesis
      unfolding inserted(6)
      by (simp add: after_batch_def Let_def insert_thumbnail_job_views store_simps example_db_empty
          wrap_i64_def example_row_def example_env_def)
  qed (simp_all add: example_db_empty)
  then show ?thesis by simp
qed


lemma cleanup_retention_witness:
  "thumbnails_of (example_inked\<lparr>page_thumbnails := filter (\<lambda>t. \<not> (th_page_id t = ''p'' \<and>
      expired (7 - retention_microseconds) 1 (thumbnails_of example_inked ''p'') t)) (page_thumbnails example_inked)\<rparr>) ''q'' =
   thumbnails_of example_inked ''q''"
  using cleanup_retention [OF example_inked_inv example_inked_row, of example_env]
  by (auto simp: cleanup_def run_query_def example_env_def example_inked_row)

end
