(* ===== verification/Pages.thy ===== *)
theory Pages
  imports Thumbnails Text
begin

text \<open>
  The page routes (\<open>crates/server/src/routes/pages.rs\<close>): list, create, read and delete the caller's
  pages, and serve a thumbnail. Each handler is given the authenticated subject, as the middleware
  leaves it in the request. An answer is a value or an \<open>ApiError\<close>; deleting a page deletes its rows in
  the other tables, whose foreign keys are declared \<open>ON DELETE CASCADE\<close>. Outside the sources: the
  random page id, and the order of rows that tie in \<open>ORDER BY\<close>, for which the table's order stands.
\<close>

section \<open>Answers\<close>

record ApiError =
  ae_status :: nat
  ae_message :: string

definition PAGE_NOT_FOUND :: ApiError where
  "PAGE_NOT_FOUND = \<lparr>ae_status = 403, ae_message = ''page not found''\<rparr>"

definition THUMBNAIL_GONE :: ApiError where
  "THUMBNAIL_GONE = \<lparr>ae_status = 410, ae_message = ''thumbnail revision no longer available''\<rparr>"

definition DB_OPERATION_FAILED :: ApiError where
  "DB_OPERATION_FAILED = \<lparr>ae_status = 500, ae_message = ''database operation failed''\<rparr>"

lemma api_errors_differ [simp]:
  "PAGE_NOT_FOUND \<noteq> THUMBNAIL_GONE" "PAGE_NOT_FOUND \<noteq> DB_OPERATION_FAILED" "THUMBNAIL_GONE \<noteq> DB_OPERATION_FAILED"
  "THUMBNAIL_GONE \<noteq> PAGE_NOT_FOUND" "DB_OPERATION_FAILED \<noteq> PAGE_NOT_FOUND" "DB_OPERATION_FAILED \<noteq> THUMBNAIL_GONE"
  by (simp_all add: PAGE_NOT_FOUND_def THUMBNAIL_GONE_def DB_OPERATION_FAILED_def)

definition server_error :: "DbError \<Rightarrow> ApiError" where
  "server_error error = DB_OPERATION_FAILED"

text \<open>A row of \<open>pages\<close> joined with its newest thumbnail, as a listing shows it.\<close>

definition thumbnail_metadata :: "string \<Rightarrow> ThumbnailRow option \<Rightarrow> ThumbnailMetadata" where
  "thumbnail_metadata page_id newest =
     (case newest of
        None \<Rightarrow> Thumb_Empty
      | Some t \<Rightarrow>
          if th_status t = ''generating'' then Thumb_Generating (as_u64 (th_source_seq t))
          else if th_status t = ''available'' then
            Thumb_Available (as_u64 (th_source_seq t)) (thumbnail_url page_id (as_u64 (th_source_seq t)))
          else if th_status t = ''failed'' then Thumb_Failed (as_u64 (th_source_seq t))
          else Thumb_Empty)"

definition page_summary :: "dbenv \<Rightarrow> PageRow \<Rightarrow> ThumbnailRow option \<Rightarrow> PageSummary" where
  "page_summary env row newest =
     \<lparr>ps_id = pg_id row, ps_title = pg_title row,
      ps_created_at = env_rfc3339 env (pg_created_at row), ps_updated_at = env_rfc3339 env (pg_updated_at row),
      ps_thumbnail = thumbnail_metadata (pg_id row) newest,
      ps_paper = (case from_wire (pg_paper row) of None \<Rightarrow> paper_default | Some p \<Rightarrow> p)\<rparr>"

text \<open>\<open>ORDER BY source_seq DESC LIMIT 1\<close>.\<close>

definition newest_thumbnail :: "db \<Rightarrow> string \<Rightarrow> ThumbnailRow option" where
  "newest_thumbnail d p =
     (case sort_key (\<lambda>t. - th_source_seq t) (thumbnails_of d p) of [] \<Rightarrow> None | t # _ \<Rightarrow> Some t)"

section \<open>Titles\<close>

definition page_title :: "CreatePageRequest \<Rightarrow> string" where
  "page_title payload = (case map_option trim (cp_title payload) of
     None \<Rightarrow> '''' | Some value \<Rightarrow> if value = [] then '''' else value)"

section \<open>Statements\<close>

definition list_statement :: "string \<Rightarrow> dbenv \<Rightarrow> db \<Rightarrow> DbError + PageSummary list" where
  "list_statement owner env d =
     run_query env (''SELECT'', ''list_pages'')
       (Inr (map (\<lambda>row. page_summary env row (newest_thumbnail d (pg_id row)))
         (sort_key (\<lambda>row. (- pg_updated_at row, - pg_created_at row))
           (filter (\<lambda>row. pg_owner_id row = owner) (pages d)))))"

definition insert_page :: "string \<Rightarrow> string \<Rightarrow> string \<Rightarrow> Paper \<Rightarrow> dbenv \<Rightarrow> db \<Rightarrow> DbError + (PageSummary \<times> db)" where
  "insert_page page_id owner title paper env d =
     run_query env (''INSERT'', ''create_page'')
       (if list_ex (\<lambda>r. pg_id r = page_id) (pages d) then Inl (ConstraintViolation (''INSERT'', ''create_page''))
        else let row = \<lparr>pg_id = page_id, pg_owner_id = owner, pg_title = title, pg_created_at = env_now env,
               pg_updated_at = env_now env, pg_ink_revision = 0, pg_paper = wire_value paper\<rparr>
             in Inr (page_summary env row None, d\<lparr>pages := pages d @ [row]\<rparr>))"

definition get_statement :: "string \<Rightarrow> string \<Rightarrow> dbenv \<Rightarrow> db \<Rightarrow> DbError + PageSummary option" where
  "get_statement owner page_id env d =
     run_query env (''SELECT'', ''get_page'')
       (Inr (map_option (\<lambda>row. page_summary env row (newest_thumbnail d (pg_id row)))
         (List.find (\<lambda>r. pg_id r = page_id \<and> pg_owner_id r = owner) (pages d))))"

definition thumbnail_owner :: "string \<Rightarrow> string \<Rightarrow> dbenv \<Rightarrow> db \<Rightarrow> DbError + bool" where
  "thumbnail_owner owner page_id env d =
     run_query env (''SELECT'', ''get_thumbnail_owner'')
       (Inr (list_ex (\<lambda>r. pg_id r = page_id \<and> pg_owner_id r = owner) (pages d)))"

text \<open>The column is nullable, but the table's check gives every available row an image.\<close>

definition thumbnail_png :: "string \<Rightarrow> u64 \<Rightarrow> dbenv \<Rightarrow> db \<Rightarrow> DbError + u8 list option" where
  "thumbnail_png page_id source_seq env d =
     run_query env (''SELECT'', ''get_thumbnail_png'')
       (case List.find (\<lambda>t. th_source_seq t = as_i64 source_seq \<and> th_status t = ''available'') (thumbnails_of d page_id) of
          None \<Rightarrow> Inr None
        | Some t \<Rightarrow> (case th_png t of
            None \<Rightarrow> Inl (QueryFailed (''SELECT'', ''get_thumbnail_png''))
          | Some png \<Rightarrow> Inr (Some png)))"

definition delete_statement :: "string \<Rightarrow> string \<Rightarrow> dbenv \<Rightarrow> db \<Rightarrow> DbError + (nat \<times> db)" where
  "delete_statement owner page_id env d =
     run_query env (''DELETE'', ''delete_page'')
       (let mine = (\<lambda>r. pg_id r = page_id \<and> pg_owner_id r = owner);
            rows_affected = length (filter mine (pages d))
        in Inr (rows_affected,
          if rows_affected = 0 then d
          else \<lparr>pages = filter (\<lambda>r. \<not> mine r) (pages d),
                stroke_batches = filter (\<lambda>b. sbr_page_id b \<noteq> page_id) (stroke_batches d),
                stroke_tombstones = filter (\<lambda>t. str_page_id t \<noteq> page_id) (stroke_tombstones d),
                tombstone_batches = filter (\<lambda>t. tbr_page_id t \<noteq> page_id) (tombstone_batches d),
                page_thumbnails = filter (\<lambda>t. th_page_id t \<noteq> page_id) (page_thumbnails d)\<rparr>))"

section \<open>Handlers\<close>

record 'o api_env =
  ap_db :: "nat \<Rightarrow> dbenv"
  ap_others :: "nat \<Rightarrow> page_write list"
  ap_span :: 'o
  ap_uuid :: string

definition api_read :: "'o api_env \<Rightarrow> (dbenv \<Rightarrow> db \<Rightarrow> DbError + 'r) \<Rightarrow> 'o pg_state \<Rightarrow> (DbError + 'r) \<times> 'o pg_state" where
  "api_read ap f sv = call_store (pg_read (ap_db ap) (ap_others ap) f) sv"

definition api_write :: "'o api_env \<Rightarrow> (dbenv \<Rightarrow> db \<Rightarrow> DbError + ('r \<times> db)) \<Rightarrow> 'o pg_state \<Rightarrow> (DbError + 'r) \<times> 'o pg_state" where
  "api_write ap f sv = call_store (pg_write (ap_db ap) (ap_others ap) f) sv"

definition list_pages :: "'o api_env \<Rightarrow> string \<Rightarrow> 'o pg_state \<Rightarrow> (ApiError + PageSummary list) \<times> 'o pg_state" where
  "list_pages ap sub sv =
     (let (rows, sv1) = api_read ap (list_statement sub) sv in (map_err server_error rows, sv1))"

definition create_page ::
  "'o api_env \<Rightarrow> string \<Rightarrow> CreatePageRequest \<Rightarrow> 'o pg_state \<Rightarrow> (ApiError + PageSummary) \<times> 'o pg_state" where
  "create_page ap sub payload sv =
     (let page_id = ''page_'' @ ap_uuid ap;
          (res, sv1) = api_write ap (insert_page page_id sub (page_title payload) (cp_paper payload)) sv in
      case res of
        Inl error \<Rightarrow> (Inl (server_error error), record_metric (PageMutation ''create_page'' ''error'') sv1)
      | Inr page \<Rightarrow>
          (Inr page, record_metric (PageMutation ''create_page'' ''success'')
             (sv1\<lparr>sv_hub := publish_library_event (ap_span ap) sub (PageCreated page) (sv_hub sv1)\<rparr>)))"

definition get_page :: "'o api_env \<Rightarrow> string \<Rightarrow> string \<Rightarrow> 'o pg_state \<Rightarrow> (ApiError + PageSummary) \<times> 'o pg_state" where
  "get_page ap sub page_id sv =
     (let (res, sv1) = api_read ap (get_statement sub page_id) sv in
      case res of
        Inl error \<Rightarrow> (Inl (server_error error), sv1)
      | Inr (Some page) \<Rightarrow> (Inr page, sv1)
      | Inr None \<Rightarrow> (Inl PAGE_NOT_FOUND, sv1))"

record Image =
  im_content_type :: string
  im_cache_control :: string
  im_body :: "u8 list"

definition png_response :: "u8 list \<Rightarrow> Image" where
  "png_response bytes = \<lparr>im_content_type = ''image/png'',
     im_cache_control = ''private, max-age=31536000, immutable'', im_body = bytes\<rparr>"

definition get_thumbnail ::
  "'o api_env \<Rightarrow> string \<Rightarrow> string \<Rightarrow> u64 \<Rightarrow> 'o pg_state \<Rightarrow> (ApiError + Image) \<times> 'o pg_state" where
  "get_thumbnail ap sub page_id source_seq sv =
     (let (owned, sv1) = api_read ap (thumbnail_owner sub page_id) sv in
      case owned of
        Inl error \<Rightarrow> (Inl (server_error error), sv1)
      | Inr False \<Rightarrow> (Inl PAGE_NOT_FOUND, sv1)
      | Inr True \<Rightarrow>
          (let (png, sv2) = api_read ap (thumbnail_png page_id source_seq) sv1 in
           case png of
             Inl error \<Rightarrow> (Inl (server_error error), sv2)
           | Inr (Some bytes) \<Rightarrow> (Inr (png_response bytes), sv2)
           | Inr None \<Rightarrow> (Inl THUMBNAIL_GONE, sv2)))"

definition delete_page :: "'o api_env \<Rightarrow> string \<Rightarrow> string \<Rightarrow> 'o pg_state \<Rightarrow> (ApiError + unit) \<times> 'o pg_state" where
  "delete_page ap sub page_id sv =
     (let (res, sv1) = api_write ap (delete_statement sub page_id) sv in
      case res of
        Inl error \<Rightarrow> (Inl (server_error error), record_metric (PageMutation ''delete_page'' ''error'') sv1)
      | Inr rows_affected \<Rightarrow>
          if rows_affected = 0
          then (Inl PAGE_NOT_FOUND, record_metric (PageMutation ''delete_page'' ''not_found'') sv1)
          else (Inr (), record_metric (PageMutation ''delete_page'' ''success'')
                 (sv1\<lparr>sv_hub := publish_library_event (ap_span ap) sub (PageDeleted page_id) (sv_hub sv1)\<rparr>)))"

section \<open>Requests\<close>

datatype api_call =
    Call_List
  | Call_Create CreatePageRequest
  | Call_Get string
  | Call_Thumbnail string u64
  | Call_Delete string

datatype api_reply =
    Reply_Pages "PageSummary list"
  | Reply_Created PageSummary
  | Reply_Page PageSummary
  | Reply_Image Image
  | Reply_NoContent

text \<open>The routes of \<open>/api/pages\<close>, behind the authentication that supplies \<open>sub\<close>.\<close>

fun api_handle :: "'o api_env \<Rightarrow> string \<Rightarrow> api_call \<Rightarrow> 'o pg_state \<Rightarrow> (ApiError + api_reply) \<times> 'o pg_state" where
  "api_handle ap sub Call_List sv = apfst (map_sum id Reply_Pages) (list_pages ap sub sv)"
| "api_handle ap sub (Call_Create payload) sv = apfst (map_sum id Reply_Created) (create_page ap sub payload sv)"
| "api_handle ap sub (Call_Get page_id) sv = apfst (map_sum id Reply_Page) (get_page ap sub page_id sv)"
| "api_handle ap sub (Call_Thumbnail page_id source_seq) sv =
     apfst (map_sum id Reply_Image) (get_thumbnail ap sub page_id source_seq sv)"
| "api_handle ap sub (Call_Delete page_id) sv = apfst (map_sum id (\<lambda>_. Reply_NoContent)) (delete_page ap sub page_id sv)"

text \<open>The statement that writes, if any, and what it leaves.\<close>

fun api_change :: "'o api_env \<Rightarrow> string \<Rightarrow> api_call \<Rightarrow> dbenv \<Rightarrow> db \<Rightarrow> db" where
  "api_change ap sub (Call_Create payload) env d =
     commit_or_keep d (insert_page (''page_'' @ ap_uuid ap) sub (page_title payload) (cp_paper payload) env d)"
| "api_change ap sub (Call_Delete page_id) env d = commit_or_keep d (delete_statement sub page_id env d)"
| "api_change ap sub _ env d = d"

lemma api_read_alone: "ap_others ap = alone \<Longrightarrow> api_read ap f sv =
    (f (ap_db ap (pg_clock (sv_store sv))) (pg_db (sv_store sv)),
     sv\<lparr>sv_store := (sv_store sv)\<lparr>pg_clock := Suc (pg_clock (sv_store sv))\<rparr>\<rparr>)"
  by (simp add: api_read_def call_store_def pg_read_def)

lemma api_write_alone: "ap_others ap = alone \<Longrightarrow> api_write ap f sv =
    (let d = pg_db (sv_store sv); res = f (ap_db ap (pg_clock (sv_store sv))) d
     in (map_sum id fst res, sv\<lparr>sv_store := \<lparr>pg_db = commit_or_keep d res, pg_clock = Suc (pg_clock (sv_store sv))\<rparr>\<rparr>))"
  by (auto simp: api_write_def call_store_def pg_write_alone commit_or_keep_def Let_def split: sum.split prod.split)

lemma api_handle_db:
  assumes "ap_others ap = alone"
  shows "pg_db (sv_store (snd (api_handle ap sub c sv))) =
    api_change ap sub c (ap_db ap (pg_clock (sv_store sv))) (pg_db (sv_store sv))"
  using assms
  by (cases c) (auto simp: list_pages_def create_page_def get_page_def get_thumbnail_def delete_page_def
      api_read_alone api_write_alone Let_def record_metric_def commit_or_keep_def apfst_def map_prod_def
      split: sum.split option.split bool.split prod.split)

section \<open>The tables stay consistent\<close>

text \<open>The check of \<open>page_thumbnails\<close>: exactly the available rows have an image.\<close>

definition thumb_check :: "db \<Rightarrow> bool" where
  "thumb_check d \<longleftrightarrow> (\<forall>t \<in> set (page_thumbnails d). th_status t = ''available'' \<longleftrightarrow> th_png t \<noteq> None)"

definition tables_ok :: "db \<Rightarrow> bool" where
  "tables_ok d \<longleftrightarrow> db_inv d \<and> thumb_check d"

lemma page_row_filter:
  assumes "distinct (map pg_id rs)" "r \<in> set rs" "pg_id r = p"
  shows "List.find (\<lambda>r. pg_id r = p) rs = Some r"
  using assms by (induction rs) auto

lemma page_row_owned:
  assumes "db_inv d" "r \<in> set (pages d)"
  shows "page_row d (pg_id r) = Some r"
  using assms page_row_filter [of "pages d" r] by (simp add: db_inv_def page_row_def)

lemma page_row_mem: "page_row d p = Some r \<Longrightarrow> r \<in> set (pages d)"
  by (auto simp: page_row_def find_Some_iff)

lemma page_row_None_iff: "page_row d p = None \<longleftrightarrow> p \<notin> pg_id ` set (pages d)"
  by (auto simp: page_row_def find_None_iff)

lemma insert_page_Inr:
  assumes "insert_page p u title paper env d = Inr (page, d')"
  obtains row where "page_row d p = None" "pg_id row = p" "pg_owner_id row = u" "pg_title row = title"
    "pg_ink_revision row = 0" "pg_paper row = wire_value paper" "pg_updated_at row = env_now env"
    "pg_created_at row = env_now env" "page = page_summary env row None" "d' = d\<lparr>pages := pages d @ [row]\<rparr>"
proof (rule that)
  define row where "row = \<lparr>pg_id = p, pg_owner_id = u, pg_title = title, pg_created_at = env_now env,
    pg_updated_at = env_now env, pg_ink_revision = 0, pg_paper = wire_value paper\<rparr>"
  show "page_row d p = None"
    using assms by (auto simp: insert_page_def results_simps list_ex_iff page_row_None_iff split: if_splits)
  show "page = page_summary env row None" "d' = d\<lparr>pages := pages d @ [row]\<rparr>"
    using assms by (simp_all add: insert_page_def results_simps Let_def row_def split: if_splits)
  show "pg_id row = p" "pg_owner_id row = u" "pg_title row = title" "pg_ink_revision row = 0"
    "pg_paper row = wire_value paper" "pg_updated_at row = env_now env" "pg_created_at row = env_now env"
    by (simp_all add: row_def)
qed

lemma add_page_views:
  "page_row d p = None \<Longrightarrow> pg_id row = p \<Longrightarrow>
     page_row (d\<lparr>pages := pages d @ [row]\<rparr>) q = (if q = p then Some row else page_row d q)"
  "batches_of (d\<lparr>pages := rs\<rparr>) q = batches_of d q" "tombstones_of (d\<lparr>pages := rs\<rparr>) q = tombstones_of d q"
  "tombstone_batches_of (d\<lparr>pages := rs\<rparr>) q = tombstone_batches_of d q"
  "thumbnails_of (d\<lparr>pages := rs\<rparr>) q = thumbnails_of d q"
  by (auto simp: page_row_def find_append batches_of_def tombstones_of_def tombstone_batches_of_def
      thumbnails_of_def split: option.split)

lemma new_page_ok: "view_ok \<lparr>v_row = Some row, v_batches = [], v_tombstones = [], v_tombstone_batches = [],
    v_thumbnails = []\<rparr>" if "pg_ink_revision row = 0"
  using that by (simp add: view_ok.simps batches_ok_def tombstones_ok_def delete_wins_def thumbnails_ok_def i64_max_def)

lemma insert_page_inv:
  assumes inv: "db_inv d" and op: "insert_page p u title paper env d = Inr (page, d')"
  shows "db_inv d'"
proof -
  obtain row where row: "page_row d p = None" "pg_id row = p" "pg_ink_revision row = 0"
      and d': "d' = d\<lparr>pages := pages d @ [row]\<rparr>"
    using op by (rule insert_page_Inr)
  have "view_ok (page_view d' q)" for q
  proof (cases "q = p")
    case True
    then show ?thesis
      using view_ok_no_row [OF inv row(1)] new_page_ok [OF row(3)] row
      by (simp add: page_view_def d' add_page_views)
  next
    case False
    then have "page_view d' q = page_view d q" using row by (simp add: page_view_def d' add_page_views)
    then show ?thesis using inv by (simp add: db_inv_def)
  qed
  moreover have "distinct (map pg_id (pages d'))"
    using inv row by (auto simp: db_inv_def d' page_row_None_iff)
  ultimately show ?thesis by (simp add: db_inv_def)
qed

lemma delete_Inr:
  assumes "delete_statement u p env d = Inr (n, d')"
  obtains (kept) "n = 0" "d' = d" "\<And>r. r \<in> set (pages d) \<Longrightarrow> \<not> (pg_id r = p \<and> pg_owner_id r = u)"
  | (deleted) r where "n \<noteq> 0" "r \<in> set (pages d)" "pg_id r = p" "pg_owner_id r = u"
      "pages d' = filter (\<lambda>r. \<not> (pg_id r = p \<and> pg_owner_id r = u)) (pages d)"
      "stroke_batches d' = filter (\<lambda>b. sbr_page_id b \<noteq> p) (stroke_batches d)"
      "stroke_tombstones d' = filter (\<lambda>t. str_page_id t \<noteq> p) (stroke_tombstones d)"
      "tombstone_batches d' = filter (\<lambda>t. tbr_page_id t \<noteq> p) (tombstone_batches d)"
      "page_thumbnails d' = filter (\<lambda>t. th_page_id t \<noteq> p) (page_thumbnails d)"
proof (cases "n = 0")
  case True
  have none: "filter (\<lambda>r. pg_id r = p \<and> pg_owner_id r = u) (pages d) = []"
    using assms True by (simp add: delete_statement_def results_simps Let_def)
  moreover have "d' = d" using assms by (simp add: delete_statement_def results_simps Let_def none)
  ultimately show ?thesis using True by (intro kept) (simp_all add: filter_empty_conv)
next
  case False
  have some: "filter (\<lambda>r. pg_id r = p \<and> pg_owner_id r = u) (pages d) \<noteq> []"
    using assms False by (auto simp: delete_statement_def results_simps Let_def)
  then obtain r where r: "r \<in> set (pages d)" "pg_id r = p" "pg_owner_id r = u" by (auto simp: filter_empty_conv)
  have "d' = \<lparr>pages = filter (\<lambda>r. \<not> (pg_id r = p \<and> pg_owner_id r = u)) (pages d),
      stroke_batches = filter (\<lambda>b. sbr_page_id b \<noteq> p) (stroke_batches d),
      stroke_tombstones = filter (\<lambda>t. str_page_id t \<noteq> p) (stroke_tombstones d),
      tombstone_batches = filter (\<lambda>t. tbr_page_id t \<noteq> p) (tombstone_batches d),
      page_thumbnails = filter (\<lambda>t. th_page_id t \<noteq> p) (page_thumbnails d)\<rparr>"
    using assms some by (simp add: delete_statement_def results_simps Let_def)
  then show ?thesis using False r by (intro deleted) simp_all
qed

lemma delete_views:
  assumes inv: "db_inv d" and r: "r \<in> set (pages d)" "pg_id r = p" "pg_owner_id r = u"
    and d': "pages d' = filter (\<lambda>r. \<not> (pg_id r = p \<and> pg_owner_id r = u)) (pages d)"
      "stroke_batches d' = filter (\<lambda>b. sbr_page_id b \<noteq> p) (stroke_batches d)"
      "stroke_tombstones d' = filter (\<lambda>t. str_page_id t \<noteq> p) (stroke_tombstones d)"
      "tombstone_batches d' = filter (\<lambda>t. tbr_page_id t \<noteq> p) (tombstone_batches d)"
      "page_thumbnails d' = filter (\<lambda>t. th_page_id t \<noteq> p) (page_thumbnails d)"
  shows "page_view d' q = (if q = p then \<lparr>v_row = None, v_batches = [], v_tombstones = [], v_tombstone_batches = [],
      v_thumbnails = []\<rparr> else page_view d q)"
proof -
  have only: "s = r" if "s \<in> set (pages d)" "pg_id s = p" for s
    using page_row_owned [OF inv r(1)] page_row_owned [OF inv that(1)] that(2) r(2) by simp
  have gone: "page_row d' p = None" using only r(3) by (auto simp: page_row_None_iff d'(1))
  have drop: "filter (\<lambda>x. k x \<noteq> p \<and> k x = q) xs = (if q = p then [] else filter (\<lambda>x. k x = q) xs)"
    for k :: "'x \<Rightarrow> string" and xs by (auto simp: filter_empty_conv intro: filter_cong)
  have "List.find (\<lambda>r. pg_id r = q) (filter (\<lambda>r. \<not> (pg_id r = p \<and> pg_owner_id r = u)) rs) =
      List.find (\<lambda>r. pg_id r = q) rs" if "q \<noteq> p" for rs
    using that by (induction rs) auto
  then have "page_row d' q = page_row d q" if "q \<noteq> p" using that by (simp add: page_row_def d'(1))
  then show ?thesis
    using gone by (simp add: page_view_def batches_of_def tombstones_of_def tombstone_batches_of_def thumbnails_of_def
        d' drop)
qed

lemma delete_inv:
  assumes inv: "db_inv d" and op: "delete_statement u p env d = Inr (n, d')"
  shows "db_inv d'"
  using op
proof (cases rule: delete_Inr)
  case kept
  then show ?thesis using inv by simp
next
  case (deleted r)
  have "view_ok (page_view d' q)" for q
    using inv by (simp add: delete_views [OF inv deleted(2-)] db_inv_def view_ok.simps)
  moreover have "distinct (map pg_id (pages d'))"
    using inv by (simp add: deleted(5) db_inv_def distinct_map_filter)
  ultimately show ?thesis by (simp add: db_inv_def)
qed

lemma insert_job_check: "thumb_check d \<Longrightarrow> thumb_check (snd (insert_thumbnail_job now p rv paper d))"
  by (auto simp: thumb_check_def insert_thumbnail_job_def)

lemma thumb_check_other [simp]:
  "thumb_check (d\<lparr>pages := x\<rparr>) = thumb_check d" "thumb_check (d\<lparr>stroke_batches := b\<rparr>) = thumb_check d"
  "thumb_check (d\<lparr>stroke_tombstones := t\<rparr>) = thumb_check d" "thumb_check (d\<lparr>tombstone_batches := tb\<rparr>) = thumb_check d"
  "thumb_check (update_page f p d) = thumb_check d"
  by (simp_all add: thumb_check_def update_page_def)

lemma write_check:
  assumes "thumb_check d"
  shows "thumb_check (apply_write env w d)"
proof (cases rule: apply_write_cases [of env w d])
  case (batch p cid strokes r)
  from batch(2) show ?thesis
    by (cases rule: persist_batch_cases)
      (use assms in \<open>auto simp: after_batch_def Let_def intro: insert_job_check\<close>)
next
  case (erase p mid ids r)
  from erase(2) show ?thesis
    by (cases rule: persist_tombstones_cases)
      (use assms in \<open>auto simp: after_delete_def Let_def intro: insert_job_check\<close>)
next
  case (paper p paper r)
  from paper(2) show ?thesis
    by (cases rule: persist_paper_cases)
      (use assms in \<open>auto simp: after_paper_def Let_def intro: insert_job_check\<close>)
qed (use assms in simp)

lemma api_change_check: "thumb_check d \<Longrightarrow> thumb_check (api_change ap sub c env d)"
proof (cases c)
  case (Call_Create payload)
  assume "thumb_check d"
  then show ?thesis
    by (auto simp: Call_Create commit_or_keep_def insert_page_def run_query_def Let_def split: sum.split)
next
  case (Call_Delete p)
  assume "thumb_check d"
  then show ?thesis
    by (auto simp: Call_Delete commit_or_keep_def delete_statement_def run_query_def Let_def thumb_check_def split: sum.split)
qed simp_all

lemma api_change_inv: "db_inv d \<Longrightarrow> db_inv (api_change ap sub c env d)"
  by (cases c) (auto simp: commit_or_keep_def split: sum.split dest: insert_page_inv delete_inv)

lemma delete_row:
  assumes "page_view d' q = (if q = p then \<lparr>v_row = None, v_batches = [], v_tombstones = [], v_tombstone_batches = [],
      v_thumbnails = []\<rparr> else page_view d q)"
  shows "page_row d' q = (if q = p then None else page_row d q)"
  using assms by (auto simp: page_view_def split: if_splits)

lemma api_change_room:
  assumes inv: "db_inv d" and room: "db_room n d" "n < i64_max"
  shows "db_room n (api_change ap sub c env d)"
proof (cases c)
  case (Call_Create payload)
  show ?thesis
  proof (cases "insert_page (''page_'' @ ap_uuid ap) sub (page_title payload) (cp_paper payload) env d")
    case (Inl e)
    then show ?thesis using room by (simp add: Call_Create commit_or_keep_def)
  next
    case (Inr r)
    obtain page d' where r: "r = (page, d')" by (cases r)
    from Inr [unfolded r] show ?thesis
      by (rule insert_page_Inr) (use room Inr r in \<open>auto simp: Call_Create commit_or_keep_def db_room_def add_page_views\<close>)
  qed
next
  case (Call_Delete p)
  show ?thesis
  proof (cases "delete_statement sub p env d")
    case (Inl e)
    then show ?thesis using room by (simp add: Call_Delete commit_or_keep_def)
  next
    case (Inr r)
    obtain m d' where r: "r = (m, d')" by (cases r)
    from Inr [unfolded r] have "db_room n d'"
    proof (cases rule: delete_Inr)
      case (deleted s)
      show ?thesis
        using room(1) by (auto simp: db_room_def delete_row [OF delete_views [OF inv deleted(2-)]] split: if_splits)
    qed (use room in simp)
    then show ?thesis using Inr r by (simp add: Call_Delete commit_or_keep_def)
  qed
qed (use room in simp_all)

subsection \<open>Jobs\<close>

lemma andthen_keeps:
  "P (snd x) \<Longrightarrow> (\<And>a. P (snd x) \<Longrightarrow> P (snd (f a (snd x)))) \<Longrightarrow> P (snd (andthen x f))"
  by (cases "(x, f)" rule: andthen.cases) auto

text \<open>Whatever every statement of a job keeps, the job keeps.\<close>

lemma run_job_keeps:
  assumes reads: "\<And>sv (f :: dbenv \<Rightarrow> db \<Rightarrow> DbError + string option). P sv \<Longrightarrow> P (snd (thumb_read te f sv))"
      "\<And>sv (f :: dbenv \<Rightarrow> db \<Rightarrow> DbError + Stroke list list). P sv \<Longrightarrow> P (snd (thumb_read te f sv))"
      "\<And>sv (f :: dbenv \<Rightarrow> db \<Rightarrow> DbError + string list). P sv \<Longrightarrow> P (snd (thumb_read te f sv))"
    and writes: "\<And>sv p seq png. P sv \<Longrightarrow> P (snd (thumb_write te (store_png p seq png) sv))"
      "\<And>sv p seq. P sv \<Longrightarrow> P (snd (thumb_write te (mark_failed p seq) sv))"
      "\<And>sv p. P sv \<Longrightarrow> P (snd (thumb_write te (cleanup p) sv))"
    and elsewhere: "\<And>sv m. P (record_metric m sv) = P sv" "\<And>sv h. P (sv\<lparr>sv_hub := h\<rparr>) = P sv"
    and start: "P sv"
  shows "P (run_job te job sv)"
proof -
  have "P (snd (generate te p seq sv))" for p seq
    unfolding generate_def Let_def cleanup_best_effort_def
    by (intro andthen_keeps [where P = P] reads writes)
      (simp_all add: start elsewhere case_prod_beta reads writes split: sum.split)
  then show ?thesis
    by (auto simp: run_job_def Let_def case_prod_beta elsewhere intro!: writes split: sum.split)
qed

lemma thumb_step_alone:
  assumes "te_others te = alone"
  shows "pg_db (sv_store (snd (thumb_read te f sv))) = pg_db (sv_store sv)"
    and "pg_db (sv_store (snd (thumb_write te g sv))) =
      commit_or_keep (pg_db (sv_store sv)) (g (te_db te (pg_clock (sv_store sv))) (pg_db (sv_store sv)))"
  using assms
  by (auto simp: thumb_read_def thumb_write_def call_store_def pg_read_def pg_write_alone commit_or_keep_def
      case_prod_beta split: sum.split)

lemma job_statements:
  assumes "db_inv d" "thumb_check d"
  shows "let d' = commit_or_keep d (store_png p seq png env d) in db_inv d' \<and> thumb_check d' \<and> pages d' = pages d"
    "let d' = commit_or_keep d (mark_failed p seq env d) in db_inv d' \<and> thumb_check d' \<and> pages d' = pages d"
    "let d' = commit_or_keep d (cleanup p env d) in db_inv d' \<and> thumb_check d' \<and> pages d' = pages d"
proof -
  show "let d' = commit_or_keep d (store_png p seq png env d) in db_inv d' \<and> thumb_check d' \<and> pages d' = pages d"
    "let d' = commit_or_keep d (mark_failed p seq env d) in db_inv d' \<and> thumb_check d' \<and> pages d' = pages d"
    using assms update_thumbnail_inv [OF assms(1)]
    by (auto simp: commit_or_keep_def store_png_def mark_failed_def run_query_def Let_def update_thumbnail_def thumb_check_def)
  show "let d' = commit_or_keep d (cleanup p env d) in db_inv d' \<and> thumb_check d' \<and> pages d' = pages d"
  proof (cases "cleanup p env d")
    case (Inl e)
    then show ?thesis using assms by (simp add: commit_or_keep_def)
  next
    case (Inr r)
    then obtain d' where d': "cleanup p env d = Inr ((), d')" by (cases r) auto
    have "set (page_thumbnails d') \<subseteq> set (page_thumbnails d)"
      using d' by (auto simp: cleanup_def results_simps split: option.splits)
    then show ?thesis
      using assms(2) cleanup_inv [OF assms(1) d'] thumbnails_cleanup(2) [OF d']
      by (auto simp: d' commit_or_keep_def thumb_check_def)
  qed
qed

lemma job_keeps_tables:
  fixes sv :: "'o pg_state"
  assumes "te_others te = alone" "tables_ok (pg_db (sv_store sv))"
  shows "tables_ok (pg_db (sv_store (run_job te job sv))) \<and>
    pages (pg_db (sv_store (run_job te job sv))) = pages (pg_db (sv_store sv))"
proof -
  define P where "P sv' \<longleftrightarrow> db_inv (pg_db (sv_store sv')) \<and> thumb_check (pg_db (sv_store sv')) \<and>
      pages (pg_db (sv_store sv')) = pages (pg_db (sv_store sv))" for sv' :: "'o pg_state"
  have "P (run_job te job sv)"
  proof (rule run_job_keeps [where P = P])
    show "P sv" using assms(2) by (simp add: P_def tables_ok_def)
  qed (use job_statements in \<open>auto simp: P_def thumb_step_alone [OF assms(1)] record_metric_def Let_def\<close>)
  then show ?thesis by (simp add: P_def tables_ok_def)
qed

section \<open>The server as a whole\<close>

text \<open>Everything that moves the server, each request as one step: the order of the list is the
  interleaving, so inside a step nobody else writes.\<close>

datatype ('o, 'path) request =
    Rq_Message "'o PageContext" PageClientMessage
  | Rq_Job "('o, 'path) thumb_env" nat
  | Rq_Recover "('o, 'path) thumb_env"
  | Rq_Api "'o api_env" string api_call

fun serve :: "(nat \<Rightarrow> dbenv) \<Rightarrow> ('o, 'path) request \<Rightarrow> 'o pg_state \<Rightarrow> 'o pg_state" where
  "serve env (Rq_Message ctx m) sv = snd (dispatch_page_client_message (PgPageStore env alone) ctx m sv)"
| "serve env (Rq_Job te i) sv = job_step (te\<lparr>te_db := env, te_others := alone\<rparr>) i sv"
| "serve env (Rq_Recover te) sv = recover_pending (te\<lparr>te_db := env, te_others := alone\<rparr>) sv"
| "serve env (Rq_Api ap sub c) sv = snd (api_handle (ap\<lparr>ap_db := env, ap_others := alone\<rparr>) sub c sv)"

lemma pg_write_db: "pg_db (snd (pg_write env alone f s)) = commit_or_keep (pg_db s) (f (env (pg_clock s)) (pg_db s))"
  by (auto simp: pg_write_alone commit_or_keep_def split: sum.split)

lemma replay_db: "pg_db (sv_store (snd (replay_page (PgPageStore env alone) ctx sq sv))) = pg_db (sv_store sv)"
proof -
  have "pg_db (snd (st_load_page_replay (PgPageStore env alone) p n s)) = pg_db s" for p n s
    by (simp add: PgPageStore_def)
  moreover have "pg_db (snd (st_max_seq (PgPageStore env alone) p s)) = pg_db s" for p s
    by (simp add: pg_store_calls pg_read_def)
  ultimately show ?thesis by (auto simp: replay_page_store case_prod_beta split: sum.split)
qed

text \<open>A client message is at most one write.\<close>

lemma dispatch_writes:
  fixes env :: "nat \<Rightarrow> dbenv" and ctx :: "'o PageContext" and m :: PageClientMessage and sv :: "'o pg_state"
  defines "d' \<equiv> pg_db (sv_store (snd (dispatch_page_client_message (PgPageStore env alone) ctx m sv)))"
  obtains "d' = pg_db (sv_store sv)" | e w where "d' = apply_write e w (pg_db (sv_store sv))"
proof (cases "is_edit m \<and> \<not> may_edit ctx sv")
  case True
  then show ?thesis using that(1) pg_store.refused_store [of ctx sv m env] by (simp add: d'_def)
next
  case False
  show ?thesis
  proof (cases m)
    case (CommitBatch cid strokes)
    show ?thesis
    proof (cases "list_ex stroke_rejected strokes")
      case True
      then show ?thesis using that(1) False CommitBatch
        by (simp add: d'_def dispatch_page_client_message_def commit_batch_rejected)
    next
      case valid: False
      then have "d' = apply_write (env (pg_clock (sv_store sv))) (W_Batch (cx_page_id ctx) cid strokes) (pg_db (sv_store sv))"
        using False CommitBatch
        by (simp add: d'_def dispatch_page_client_message_def commit_batch_effect(1) batch_call_def pg_store_calls pg_write_db)
      then show ?thesis by (rule that(2))
    qed
  next
    case (CommitTombstones mid ids)
    then have "d' = apply_write (env (pg_clock (sv_store sv))) (W_Tombstones (cx_page_id ctx) mid ids) (pg_db (sv_store sv))"
      using False by (simp add: d'_def dispatch_page_client_message_def commit_tombstones_effect(1) [OF _ refl] pg_store_calls pg_write_db)
    then show ?thesis by (rule that(2))
  next
    case (SetPaper mid paper)
    then have "d' = apply_write (env (pg_clock (sv_store sv))) (W_Paper (cx_page_id ctx) paper) (pg_db (sv_store sv))"
      using False by (simp add: d'_def dispatch_page_client_message_def set_paper_effect(1) [OF _ refl] pg_store_calls pg_write_db)
    then show ?thesis by (rule that(2))
  qed (use that(1) in \<open>simp_all add: d'_def dispatch_page_client_message_def replay_db
         pg_store.lease_messages_store server_simps\<close>)
qed

lemma requeue_store: "sv_store (fold (requeue te) jobs sv) = sv_store sv"
  by (induction jobs arbitrary: sv) (simp_all add: requeue_def Let_def enqueue_def record_metric_def)

lemma recover_db: "te_others te = alone \<Longrightarrow> pg_db (sv_store (recover_pending te sv)) = pg_db (sv_store sv)"
  by (auto simp: recover_pending_def call_store_def pg_read_def record_metric_def requeue_store split: sum.split)

lemma serve_keeps:
  fixes sv :: "'o pg_state" and rq :: "('o, 'path) request"
  assumes ok: "tables_ok (pg_db (sv_store sv))" and room: "db_room n (pg_db (sv_store sv))" "1 \<le> n" "n < i64_max"
  shows "tables_ok (pg_db (sv_store (serve env rq sv))) \<and> db_room (n - 1) (pg_db (sv_store (serve env rq sv)))"
proof -
  have room': "db_room (n - 1) (pg_db (sv_store sv))" by (rule db_room_mono [OF room(1)]) simp
  show ?thesis
  proof (cases rq)
    case (Rq_Message ctx m)
    show ?thesis
    proof (rule dispatch_writes [of env ctx m sv])
      fix e w
      assume "pg_db (sv_store (snd (dispatch_page_client_message (PgPageStore env alone) ctx m sv))) =
        apply_write e w (pg_db (sv_store sv))"
      then show ?thesis
        using ok apply_write_inv_grows [OF _ room(1,2), of e w] write_check [of "pg_db (sv_store sv)" e w]
        by (simp add: Rq_Message tables_ok_def)
    qed (use ok room' in \<open>simp add: Rq_Message\<close>)
  next
    case (Rq_Job te i)
    define te' where "te' = te\<lparr>te_db := env, te_others := alone\<rparr>"
    have alone: "te_others te' = alone" by (simp add: te'_def)
    show ?thesis
    proof (cases "i < length (sv_jobs sv)")
      case True
      define sv1 where "sv1 = sv\<lparr>sv_jobs := take i (sv_jobs sv) @ drop (Suc i) (sv_jobs sv)\<rparr>"
      have "tables_ok (pg_db (sv_store sv1))" "db_room (n - 1) (pg_db (sv_store sv1))" using ok room' by (simp_all add: sv1_def)
      then show ?thesis
        using job_keeps_tables [OF alone, of sv1 "sv_jobs sv ! i"] True
        by (simp add: Rq_Job job_step_def te'_def [symmetric] sv1_def [symmetric] db_room_def page_row_def)
    qed (use ok room' in \<open>simp add: Rq_Job job_step_def\<close>)
  next
    case (Rq_Recover te)
    then show ?thesis using ok room' by (simp add: recover_db)
  next
    case (Rq_Api ap sub c)
    then show ?thesis
      using ok room(3)
      by (simp add: api_handle_db tables_ok_def api_change_check api_change_inv api_change_room [OF _ room'])
  qed
qed

text \<open>C3. The server never corrupts its tables: through any sequence of page messages from any
  sessions, thumbnail jobs, restarts and page requests, failing or not, every page keeps gapless
  batch sequence numbers, ascending revisions, one tombstone per deleted stroke later than the
  stroke, a thumbnail row for its head revision, unique ids, no row of a deleted page anywhere, and
  images exactly where a thumbnail is available.\<close>

theorem server_keeps_tables:
  assumes "tables_ok (pg_db (sv_store sv))" and "db_room (int (length rqs)) (pg_db (sv_store sv))"
    and "int (length rqs) < i64_max"
  shows "tables_ok (pg_db (sv_store (fold (serve env) rqs sv)))"
  using assms
proof (induction rqs arbitrary: sv)
  case (Cons rq rqs)
  then show ?case using serve_keeps [OF Cons.prems(1,2) _ Cons.prems(3), of env rq] by simp
qed simp

section \<open>Isolation of owners\<close>

text \<open>Two databases a caller cannot tell apart: the caller's pages and their rows agree.\<close>

definition same_for :: "string \<Rightarrow> db \<Rightarrow> db \<Rightarrow> bool" where
  "same_for u d d' \<longleftrightarrow>
     filter (\<lambda>r. pg_owner_id r = u) (pages d) = filter (\<lambda>r. pg_owner_id r = u) (pages d') \<and>
     (\<forall>r \<in> set (pages d). pg_owner_id r = u \<longrightarrow> page_view d (pg_id r) = page_view d' (pg_id r))"

lemma find_owned: "List.find (\<lambda>r. pg_id r = p \<and> pg_owner_id r = u) rs =
    List.find (\<lambda>r. pg_id r = p) (filter (\<lambda>r. pg_owner_id r = u) rs)"
  by (induction rs) auto

lemma ex_owned: "list_ex (\<lambda>r. pg_id r = p \<and> pg_owner_id r = u) rs =
    list_ex (\<lambda>r. pg_id r = p) (filter (\<lambda>r. pg_owner_id r = u) rs)"
  by (induction rs) auto

lemma same_for_thumbnails:
  "same_for u d d' \<Longrightarrow> r \<in> set (pages d) \<Longrightarrow> pg_owner_id r = u \<Longrightarrow>
   thumbnails_of d (pg_id r) = thumbnails_of d' (pg_id r)"
  by (auto simp: same_for_def page_view_def)

lemma same_for_newest:
  "same_for u d d' \<Longrightarrow> r \<in> set (pages d) \<Longrightarrow> pg_owner_id r = u \<Longrightarrow>
   newest_thumbnail d (pg_id r) = newest_thumbnail d' (pg_id r)"
  by (simp add: newest_thumbnail_def same_for_thumbnails)

lemma find_owned_mem:
  "List.find (\<lambda>r. pg_id r = p) (filter (\<lambda>r. pg_owner_id r = u) rs) = Some r \<Longrightarrow>
   r \<in> set rs \<and> pg_owner_id r = u \<and> pg_id r = p"
  by (auto simp: find_Some_iff dest: nth_mem)

lemma statements_same:
  assumes same: "same_for u d d'"
  shows "list_statement u env d = list_statement u env d'"
    and "get_statement u p env d = get_statement u p env d'"
    and "thumbnail_owner u p env d = thumbnail_owner u p env d'"
proof -
  have eq: "filter (\<lambda>r. pg_owner_id r = u) (pages d') = filter (\<lambda>r. pg_owner_id r = u) (pages d)"
    using same by (simp add: same_for_def)
  have "map (\<lambda>row. page_summary env row (newest_thumbnail d (pg_id row)))
        (sort_key (\<lambda>row. (- pg_updated_at row, - pg_created_at row)) (filter (\<lambda>r. pg_owner_id r = u) (pages d))) =
      map (\<lambda>row. page_summary env row (newest_thumbnail d' (pg_id row)))
        (sort_key (\<lambda>row. (- pg_updated_at row, - pg_created_at row)) (filter (\<lambda>r. pg_owner_id r = u) (pages d)))"
    by (rule map_cong [OF refl]) (simp add: same_for_newest [OF same])
  then show "list_statement u env d = list_statement u env d'"
    by (simp only: list_statement_def eq)
  show "get_statement u p env d = get_statement u p env d'"
  proof (cases "List.find (\<lambda>r. pg_id r = p) (filter (\<lambda>r. pg_owner_id r = u) (pages d))")
    case None
    then show ?thesis by (simp only: get_statement_def find_owned eq option.map)
  next
    case (Some r)
    note mem = find_owned_mem [OF Some]
    have "newest_thumbnail d (pg_id r) = newest_thumbnail d' (pg_id r)"
      using same_for_newest [OF same] mem by blast
    then show ?thesis using Some by (simp only: get_statement_def find_owned eq option.map)
  qed
  show "thumbnail_owner u p env d = thumbnail_owner u p env d'"
    by (simp add: thumbnail_owner_def ex_owned eq)
qed

lemma thumbnail_png_same:
  assumes "same_for u d d'" "list_ex (\<lambda>r. pg_id r = p \<and> pg_owner_id r = u) (pages d)"
  shows "thumbnail_png p seq env d = thumbnail_png p seq env d'"
proof -
  obtain r where "r \<in> set (pages d)" "pg_id r = p" "pg_owner_id r = u" using assms(2) by (auto simp: list_ex_iff)
  then have "thumbnails_of d p = thumbnails_of d' p" using same_for_thumbnails [OF assms(1)] by blast
  then show ?thesis by (simp add: thumbnail_png_def)
qed

lemma added_view:
  "db_inv d \<Longrightarrow> page_row d p = None \<Longrightarrow> pg_id row = p \<Longrightarrow> page_view (d\<lparr>pages := pages d @ [row]\<rparr>) q =
    (if q = p then \<lparr>v_row = Some row, v_batches = [], v_tombstones = [], v_tombstone_batches = [], v_thumbnails = []\<rparr>
     else page_view d q)"
  using view_ok_no_row [of d p] by (auto simp: page_view_def add_page_views)

lemma insert_page_same:
  assumes inv: "db_inv d" "db_inv d'" and same: "same_for u d d'" and fresh: "page_row d p = None" "page_row d' p = None"
  shows "map_sum id fst (insert_page p u title paper env d) = map_sum id fst (insert_page p u title paper env d')"
    and "same_for u (commit_or_keep d (insert_page p u title paper env d)) (commit_or_keep d' (insert_page p u title paper env d'))"
proof -
  define row where "row = \<lparr>pg_id = p, pg_owner_id = u, pg_title = title, pg_created_at = env_now env,
    pg_updated_at = env_now env, pg_ink_revision = 0, pg_paper = wire_value paper\<rparr>"
  have ins: "insert_page p u title paper env x = (if env_fault env (''INSERT'', ''create_page'')
      then Inl (QueryFailed (''INSERT'', ''create_page'')) else Inr (page_summary env row None, x\<lparr>pages := pages x @ [row]\<rparr>))"
    if "page_row x p = None" for x
    using that by (auto simp: insert_page_def run_query_def Let_def row_def page_row_None_iff list_ex_iff)
  show "map_sum id fst (insert_page p u title paper env d) = map_sum id fst (insert_page p u title paper env d')"
    by (simp add: ins fresh)
  have "pg_id row = p" by (simp add: row_def)
  moreover have "pg_id r \<noteq> p" if "r \<in> set (pages d)" for r using fresh(1) that by (auto simp: page_row_None_iff)
  ultimately have "same_for u (d\<lparr>pages := pages d @ [row]\<rparr>) (d'\<lparr>pages := pages d' @ [row]\<rparr>)"
    using same added_view [OF inv(1) fresh(1)] added_view [OF inv(2) fresh(2)] by (auto simp: same_for_def)
  then show "same_for u (commit_or_keep d (insert_page p u title paper env d)) (commit_or_keep d' (insert_page p u title paper env d'))"
    using same by (simp add: ins fresh commit_or_keep_def)
qed

lemma delete_views':
  assumes "db_inv d" "delete_statement u p env d = Inr (n, d')"
  shows "pages d' = filter (\<lambda>r. \<not> (pg_id r = p \<and> pg_owner_id r = u)) (pages d)"
    and "n = length (filter (\<lambda>r. pg_id r = p) (filter (\<lambda>r. pg_owner_id r = u) (pages d)))"
    and "n = 0 \<Longrightarrow> d' = d"
    and "n \<noteq> 0 \<Longrightarrow> page_view d' q = (if q = p then \<lparr>v_row = None, v_batches = [], v_tombstones = [],
      v_tombstone_batches = [], v_thumbnails = []\<rparr> else page_view d q)"
proof -
  have n: "n = length (filter (\<lambda>r. pg_id r = p \<and> pg_owner_id r = u) (pages d))"
    using assms(2) by (simp add: delete_statement_def results_simps Let_def)
  then show "n = length (filter (\<lambda>r. pg_id r = p) (filter (\<lambda>r. pg_owner_id r = u) (pages d)))"
    by (simp add: conj_commute)
  from assms(2) have "pages d' = filter (\<lambda>r. \<not> (pg_id r = p \<and> pg_owner_id r = u)) (pages d) \<and> (n = 0 \<longrightarrow> d' = d) \<and>
    (n \<noteq> 0 \<longrightarrow> page_view d' q = (if q = p then \<lparr>v_row = None, v_batches = [], v_tombstones = [],
      v_tombstone_batches = [], v_thumbnails = []\<rparr> else page_view d q))"
  proof (cases rule: delete_Inr)
    case kept
    then have "filter (\<lambda>r. \<not> (pg_id r = p \<and> pg_owner_id r = u)) (pages d) = pages d" by (intro filter_True) blast
    then show ?thesis using kept by simp
  next
    case (deleted r)
    then show ?thesis using delete_views [OF assms(1) deleted(2-)] by simp
  qed
  then show "pages d' = filter (\<lambda>r. \<not> (pg_id r = p \<and> pg_owner_id r = u)) (pages d)" "n = 0 \<Longrightarrow> d' = d"
    "n \<noteq> 0 \<Longrightarrow> page_view d' q = (if q = p then \<lparr>v_row = None, v_batches = [], v_tombstones = [],
      v_tombstone_batches = [], v_thumbnails = []\<rparr> else page_view d q)"
    by simp_all
qed

lemma delete_same:
  assumes inv: "db_inv d" "db_inv d'" and same: "same_for u d d'"
  shows "map_sum id fst (delete_statement u p env d) = map_sum id fst (delete_statement u p env d')"
    and "same_for u (commit_or_keep d (delete_statement u p env d)) (commit_or_keep d' (delete_statement u p env d'))"
proof -
  have eq: "filter (\<lambda>r. pg_owner_id r = u) (pages d') = filter (\<lambda>r. pg_owner_id r = u) (pages d)"
    using same by (simp add: same_for_def)
  have rows: "length (filter (\<lambda>r. pg_id r = p \<and> pg_owner_id r = u) (pages d')) =
      length (filter (\<lambda>r. pg_id r = p \<and> pg_owner_id r = u) (pages d))"
    using arg_cong [OF eq, where f = "\<lambda>xs. length (filter (\<lambda>r. pg_id r = p) xs)"] by (simp add: conj_commute)
  show "map_sum id fst (delete_statement u p env d) = map_sum id fst (delete_statement u p env d')"
    unfolding delete_statement_def Let_def rows by (simp add: run_query_def)
  show "same_for u (commit_or_keep d (delete_statement u p env d)) (commit_or_keep d' (delete_statement u p env d'))"
  proof (cases "env_fault env (''DELETE'', ''delete_page'')")
    case True
    then show ?thesis using same by (simp add: delete_statement_def run_query_def commit_or_keep_def Let_def)
  next
    case False
    obtain n d1 where 1: "delete_statement u p env d = Inr (n, d1)"
      using False by (simp add: delete_statement_def run_query_def Let_def)
    obtain n' d1' where 2: "delete_statement u p env d' = Inr (n', d1')"
      using False by (simp add: delete_statement_def run_query_def Let_def)
    note A = delete_views' [OF inv(1) 1] and B = delete_views' [OF inv(2) 2]
    have n: "n' = n" unfolding A(2) B(2) eq ..
    have mine: "filter (\<lambda>r. pg_owner_id r = u) (filter (\<lambda>r. \<not> (pg_id r = p \<and> pg_owner_id r = u)) rs) =
        filter (\<lambda>r. pg_id r \<noteq> p) (filter (\<lambda>r. pg_owner_id r = u) rs)" for rs
      by (induction rs) auto
    have "same_for u d1 d1'"
      using same A(3,4) B(3,4) unfolding same_for_def A(1) B(1) mine eq n by (cases "n = 0") auto
    then show ?thesis by (simp add: 1 2 commit_or_keep_def)
  qed
qed

lemma api_change_same:
  assumes "db_inv d" "db_inv d'" "same_for u d d'"
    and "page_row d (''page_'' @ ap_uuid ap) = None" "page_row d' (''page_'' @ ap_uuid ap) = None"
  shows "same_for u (api_change ap u c env d) (api_change ap u c env d')"
  using assms insert_page_same(2) [OF assms] delete_same(2) [OF assms(1-3)] by (cases c) simp_all

text \<open>No page request reveals anything of another owner's pages: on two databases that agree on
  the caller's pages, every request gets the same answer and they agree again afterwards, whatever
  else they hold, as long as the fresh random id is unused in both.\<close>

lemma api_reveals_nothing:
  fixes sv :: "'o pg_state" and k :: nat and c :: api_call
  assumes alone: "ap_others ap = alone"
    and inv: "db_inv d" "db_inv d'" and same: "same_for u d d'"
    and fresh: "page_row d (''page_'' @ ap_uuid ap) = None" "page_row d' (''page_'' @ ap_uuid ap) = None"
  defines "on \<equiv> \<lambda>x. api_handle ap u c (sv\<lparr>sv_store := \<lparr>pg_db = x, pg_clock = k\<rparr>\<rparr>)"
  shows "fst (on d) = fst (on d') \<and> same_for u (pg_db (sv_store (snd (on d)))) (pg_db (sv_store (snd (on d'))))"
proof
  note stmts = statements_same [OF same] insert_page_same(1) [OF inv same fresh] delete_same(1) [OF inv same]
  have png: "thumbnail_owner u p env d' = Inr True \<Longrightarrow> thumbnail_png p seq env' d = thumbnail_png p seq env' d'" for p seq env env'
    using thumbnail_png_same [OF same] statements_same(3) [OF same, of p env]
    by (auto simp: thumbnail_owner_def results_simps run_query_def split: if_splits)
  show "fst (on d) = fst (on d')"
  proof (cases c)
    case (Call_Create payload)
    then show ?thesis
      using stmts(4) by (simp add: on_def create_page_def api_write_alone [OF alone] Let_def split: sum.split)
  next
    case (Call_Delete p)
    then show ?thesis
      using stmts(5) by (simp add: on_def delete_page_def api_write_alone [OF alone] Let_def split: sum.split)
  next
    case (Call_Thumbnail p seq)
    then show ?thesis
      using png by (auto simp: on_def get_thumbnail_def api_read_alone [OF alone] stmts(3) split: sum.split bool.split option.split)
  qed (auto simp: on_def list_pages_def get_page_def api_read_alone [OF alone] stmts(1,2) split: sum.split option.split)
  show "same_for u (pg_db (sv_store (snd (on d)))) (pg_db (sv_store (snd (on d'))))"
    unfolding on_def api_handle_db [OF alone] using api_change_same [OF inv same fresh] by simp
qed

lemma change_leaves_others:
  assumes inv: "db_inv d" and row: "page_row d p = Some row" "pg_owner_id row \<noteq> u"
  shows "page_view (api_change ap u c env d) p = page_view d p"
proof (cases c)
  case (Call_Create payload)
  show ?thesis
  proof (cases "insert_page (''page_'' @ ap_uuid ap) u (page_title payload) (cp_paper payload) env d")
    case (Inr r)
    obtain page d' where r: "r = (page, d')" by (cases r)
    from Inr [unfolded r] show ?thesis
      by (rule insert_page_Inr) (use row Inr r in \<open>auto simp: Call_Create commit_or_keep_def added_view [OF inv]\<close>)
  qed (simp add: Call_Create commit_or_keep_def)
next
  case (Call_Delete q)
  show ?thesis
  proof (cases "delete_statement u q env d")
    case (Inr r)
    obtain n d' where r: "r = (n, d')" by (cases r)
    from Inr [unfolded r] have "page_view d' p = page_view d p"
    proof (cases rule: delete_Inr)
      case (deleted s)
      then have "p \<noteq> q" using page_row_owned [OF inv deleted(2)] row by auto
      then show ?thesis by (simp add: delete_views [OF inv deleted(2-)])
    qed simp
    then show ?thesis using Inr r by (simp add: Call_Delete commit_or_keep_def)
  qed (simp add: Call_Delete commit_or_keep_def)
qed simp_all

lemma api_handle_hub:
  assumes "ap_others ap = alone"
  shows "page_sent (sv_hub (snd (api_handle ap u c sv))) q = page_sent (sv_hub sv) q"
    and "v \<noteq> u \<Longrightarrow> library_sent (sv_hub (snd (api_handle ap u c sv))) v = library_sent (sv_hub sv) v"
  using assms
  by (cases c; auto simp: list_pages_def create_page_def get_page_def get_thumbnail_def delete_page_def
      api_read_alone api_write_alone Let_def record_metric_def hub_simps
      split: sum.split option.split bool.split)+

text \<open>No page request changes anything of another owner's pages: whoever calls, with whatever
  page id, the page's row, ink, deletions and thumbnails stay as they are, nothing is sent on any
  page's channel, and no library but the caller's hears of it.\<close>

theorem api_leaves_others:
  assumes alone: "ap_others ap = alone" and inv: "db_inv (pg_db (sv_store sv))"
    and row: "page_row (pg_db (sv_store sv)) p = Some row" "pg_owner_id row \<noteq> u"
  shows "let sv' = snd (api_handle ap u c sv) in
    page_view (pg_db (sv_store sv')) p = page_view (pg_db (sv_store sv)) p \<and>
    page_sent (sv_hub sv') q = page_sent (sv_hub sv) q \<and>
    library_sent (sv_hub sv') (pg_owner_id row) = library_sent (sv_hub sv) (pg_owner_id row)"
  using change_leaves_others [OF inv row] api_handle_hub(1) [OF alone] api_handle_hub(2) [OF alone row(2)]
  by (simp add: Let_def api_handle_db [OF alone])

section \<open>Thumbnail links\<close>

lemma newest_thumbnail_Some: "newest_thumbnail d p = Some t \<Longrightarrow> t \<in> set (thumbnails_of d p)"
  by (auto simp: newest_thumbnail_def split: list.splits) (metis list.set_intros(1) set_sort)

lemma find_unique:
  "distinct (map f xs) \<Longrightarrow> x \<in> set xs \<Longrightarrow> P x \<Longrightarrow> List.find (\<lambda>y. f y = f x \<and> P y) xs = Some x"
  by (induction xs) auto

text \<open>A page never links to a thumbnail the server does not have: when a page is read and shows
  an available preview, the link it carries is the thumbnail route at that revision, and fetching
  it from the same tables answers with the stored image, cacheable for a year.\<close>

theorem thumbnail_link_works:
  assumes alone: "ap_others ap = alone" and ok: "tables_ok (pg_db (sv_store sv))"
    and up: "\<forall>n q. \<not> env_fault (ap_db ap n) q"
    and get: "get_page ap u p sv = (Inr page, sv')" and link: "ps_thumbnail page = Thumb_Available seq url"
  shows "url = thumbnail_url p seq \<and>
    (\<exists>t png. newest_thumbnail (pg_db (sv_store sv)) p = Some t \<and> th_png t = Some png \<and>
       fst (get_thumbnail ap u p seq sv') = Inr (png_response png))"
proof -
  define d where "d = pg_db (sv_store sv)"
  have inv: "db_inv d" and check: "thumb_check d" using ok by (simp_all add: tables_ok_def d_def)
  have "\<exists>row. List.find (\<lambda>r. pg_id r = p \<and> pg_owner_id r = u) (pages d) = Some row \<and>
      page = page_summary (ap_db ap (pg_clock (sv_store sv))) row (newest_thumbnail d (pg_id row))"
    and sv': "pg_db (sv_store sv') = d"
    using get up by (auto simp: get_page_def api_read_alone [OF alone] get_statement_def run_query_def d_def
        split: option.splits)
  then obtain row where find: "List.find (\<lambda>r. pg_id r = p \<and> pg_owner_id r = u) (pages d) = Some row"
    and page: "page = page_summary (ap_db ap (pg_clock (sv_store sv))) row (newest_thumbnail d (pg_id row))" by blast
  have row: "row \<in> set (pages d)" "pg_id row = p" "pg_owner_id row = u"
    using find by (auto simp: find_Some_iff)
  obtain t where t: "newest_thumbnail d p = Some t" "th_status t = ''available''" "seq = as_u64 (th_source_seq t)"
      "url = thumbnail_url p seq"
    using link by (auto simp: page page_summary_def thumbnail_metadata_def row(2) split: option.splits if_splits)
  note mem = newest_thumbnail_Some [OF t(1)]
  have "page_row d p = Some row" using page_row_owned [OF inv row(1)] row(2) by simp
  note ths = view_okD(6) [OF inv this] and bound = view_okD(2) [OF inv this]
  have "0 < th_source_seq t" "th_source_seq t \<le> i64_max" using ths bound mem by (auto simp: thumbnails_ok_def)
  then have seq: "as_i64 seq = th_source_seq t" by (simp add: t(3) as_i64_as_u64)
  have find_t: "List.find (\<lambda>t. th_source_seq t = as_i64 seq \<and> th_status t = ''available'') (thumbnails_of d p) = Some t"
    using find_unique [of th_source_seq "thumbnails_of d p" t "\<lambda>t. th_status t = ''available''"] ths mem t(2)
    by (simp add: thumbnails_ok_def seq)
  obtain png where png: "th_png t = Some png"
    using check mem t(2) by (auto simp: thumb_check_def thumbnails_of_def)
  have "list_ex (\<lambda>r. pg_id r = p \<and> pg_owner_id r = u) (pages d)" using row by (auto simp: list_ex_iff)
  then have "fst (get_thumbnail ap u p seq sv') = Inr (png_response png)"
    using up by (simp add: get_thumbnail_def api_read_alone [OF alone] thumbnail_owner_def thumbnail_png_def
        run_query_def sv' find_t png)
  then show ?thesis using t(1,4) png by (auto simp: d_def)
qed

section \<open>Creation and deletion\<close>

lemma run_writes_no_row:
  "db_inv d \<Longrightarrow> db_room (int (length ws)) d \<Longrightarrow> page_row d p = None \<Longrightarrow>
   db_inv (run_writes ws d) \<and> page_row (run_writes ws d) p = None"
proof (induction ws arbitrary: d)
  case (Cons w ws)
  obtain env v where w: "w = (env, v)" by (cases w)
  have step: "db_inv (apply_write env v d) \<and> grows d p (apply_write env v d) \<and>
      db_room (int (length ws)) (apply_write env v d)"
    using apply_write_inv_grows [OF Cons.prems(1,2), of env v p] by simp
  then have "page_row (apply_write env v d) p = None" using Cons.prems(3) by (simp add: grows_def)
  then show ?case using Cons.IH step by (simp add: w)
qed simp

text \<open>C30. A deleted page stays deleted: after a successful delete no row of the page is left in any
  table, the caller's library is told, and whatever sessions that still have the page open commit,
  delete or change, no row of it comes back.\<close>

theorem delete_is_final:
  assumes alone: "ap_others ap = alone" and inv: "db_inv (pg_db (sv_store sv))"
    and room: "db_room (int (length ws)) (pg_db (sv_store sv))"
    and op: "delete_page ap u p sv = (Inr (), sv')"
  shows "page_view (run_writes ws (pg_db (sv_store sv'))) p =
      \<lparr>v_row = None, v_batches = [], v_tombstones = [], v_tombstone_batches = [], v_thumbnails = []\<rparr> \<and>
    library_sent (sv_hub sv') u = library_sent (sv_hub sv) u @ [PageDeleted p]"
proof -
  define d where "d = pg_db (sv_store sv)"
  obtain n d' where del: "delete_statement u p (ap_db ap (pg_clock (sv_store sv))) d = Inr (n, d')" "n \<noteq> 0"
      and sv': "pg_db (sv_store sv') = d'" "library_sent (sv_hub sv') u = library_sent (sv_hub sv) u @ [PageDeleted p]"
    using op by (cases "delete_statement u p (ap_db ap (pg_clock (sv_store sv))) d")
      (auto simp: delete_page_def api_write_alone [OF alone] commit_or_keep_def d_def [symmetric] Let_def
        record_metric_def hub_simps split: if_splits)
  note inv' = delete_inv [OF inv [folded d_def] del(1)]
  note views = delete_views'(4) [OF inv [folded d_def] del]
  have row: "page_row d' q = (if q = p then None else page_row d q)" for q by (rule delete_row [OF views])
  then have "db_room (int (length ws)) d'" using room by (simp add: db_room_def d_def)
  from run_writes_no_row [OF inv' this, of p] row
  have "db_inv (run_writes ws d')" "page_row (run_writes ws d') p = None" by simp_all
  then show ?thesis using view_ok_no_row [of "run_writes ws d'" p] sv' by (simp add: page_view_def)
qed

lemma insert_page_summary:
  "pg_id row = p \<Longrightarrow> pg_paper row = wire_value paper \<Longrightarrow>
   ps_id (page_summary env row None) = p \<and> ps_title (page_summary env row None) = pg_title row \<and>
   ps_paper (page_summary env row None) = paper \<and> ps_thumbnail (page_summary env row None) = Thumb_Empty"
  by (simp add: page_summary_def thumbnail_metadata_def from_wire_wire_value)

text \<open>A created page is what was asked for, and its owner's: it has the trimmed title, the paper
  of the request and no preview yet, the answer is what reading and listing it show afterwards, and
  to everyone else it does not exist.\<close>

theorem created_page_is_served:
  assumes alone: "ap_others ap = alone" and inv: "db_inv (pg_db (sv_store sv))"
    and up: "\<forall>n q. \<not> env_fault (ap_db ap n) q" and dates: "\<forall>n. env_rfc3339 (ap_db ap n) = rfc3339"
    and op: "create_page ap u payload sv = (Inr page, sv')"
  shows "ps_title page = page_title payload \<and> ps_paper page = cp_paper payload \<and> ps_thumbnail page = Thumb_Empty \<and>
    fst (get_page ap u (ps_id page) sv') = Inr page \<and>
    (\<exists>listed. fst (list_pages ap u sv') = Inr listed \<and> page \<in> set listed) \<and>
    (\<forall>v. v \<noteq> u \<longrightarrow> fst (get_page ap v (ps_id page) sv') = Inl PAGE_NOT_FOUND)"
proof -
  define d where "d = pg_db (sv_store sv)"
  define env where "env = ap_db ap (pg_clock (sv_store sv))"
  define p where "p = ''page_'' @ ap_uuid ap"
  obtain d' where ins: "insert_page p u (page_title payload) (cp_paper payload) env d = Inr (page, d')"
      and sv': "pg_db (sv_store sv') = d'"
    using op by (cases "insert_page p u (page_title payload) (cp_paper payload) env d")
      (auto simp: create_page_def api_write_alone [OF alone] commit_or_keep_def d_def [symmetric] env_def [symmetric]
        p_def [symmetric] Let_def record_metric_def simp del: append_Cons append_Nil)
  obtain row where row: "page_row d p = None" "pg_id row = p" "pg_owner_id row = u" "pg_title row = page_title payload"
      "pg_paper row = wire_value (cp_paper payload)" "page = page_summary env row None"
      and d': "d' = d\<lparr>pages := pages d @ [row]\<rparr>"
    using ins by (rule insert_page_Inr)
  note page = insert_page_summary [OF row(2,5), of env, folded row(6)]
  have "thumbnails_of d' p = []"
    using view_ok_no_row [OF inv [folded d_def] row(1)] by (simp add: d' add_page_views)
  then have newest: "newest_thumbnail d' p = None" by (simp add: newest_thumbnail_def)
  have same: "page_summary (ap_db ap n) row None = page" for n
    using dates by (simp add: row(6) page_summary_def env_def)
  have none: "List.find (\<lambda>r. pg_id r = p \<and> pg_owner_id r = v) (pages d) = None" for v
    using row(1) by (auto simp: find_None_iff page_row_None_iff)
  have find: "List.find (\<lambda>r. pg_id r = p \<and> pg_owner_id r = v) (pages d') = (if v = u then Some row else None)" for v
    using none row(2,3) by (auto simp: d' find_append)
  have "\<exists>listed. fst (list_pages ap u sv') = Inr listed \<and> page \<in> set listed"
    using up row(2,3) newest
    by (force simp: list_pages_def api_read_alone [OF alone] list_statement_def run_query_def sv' d' image_iff same)
  then show ?thesis
    using page up row(2,4) newest
    by (simp add: get_page_def api_read_alone [OF alone] get_statement_def run_query_def sv' find same)
qed

subsection \<open>Examples\<close>

definition example_ap :: "unit api_env" where
  "example_ap = \<lparr>ap_db = (\<lambda>_. example_env), ap_others = alone, ap_span = (), ap_uuid = ''1''\<rparr>"

lemma example_ap_alone: "ap_others example_ap = alone"
  by (simp add: example_ap_def)

lemma example_tables_ok: "tables_ok example_db"
  by (simp add: tables_ok_def example_db_inv thumb_check_def) (simp add: example_db_def)

lemma server_keeps_tables_witness:
  "tables_ok (pg_db (sv_store (fold (serve (\<lambda>_. example_env))
     [Rq_Api example_ap ''v'' (Call_Create \<lparr>cp_title = None, cp_paper = SquaredSmall\<rparr>),
      Rq_Message (example_ctx ''a'') (CommitBatch ''b'' [example_stroke ''s'']), Rq_Job example_te 0,
      Rq_Api example_ap ''u'' (Call_Delete ''p'')] example_server)))"
  by (rule server_keeps_tables)
    (simp_all add: example_server_def example_tables_ok example_db_room i64_max_def)

lemma api_leaves_others_witness:
  "page_view (pg_db (sv_store (snd (api_handle example_ap ''v'' (Call_Delete ''p'') example_server)))) ''p'' =
   page_view example_db ''p''"
  using api_leaves_others [OF example_ap_alone, of example_server "''p''" example_row "''v''" "Call_Delete ''p''"]
  by (simp add: Let_def example_server_def example_db_inv example_db_page example_row_def)

definition drawn_thumbnail :: ThumbnailRow where
  "drawn_thumbnail = \<lparr>th_page_id = ''p'', th_source_seq = 1, th_status = ''available'', th_png = Some [7],
     th_created_at = 7, th_paper = ''none''\<rparr>"

definition drawn_db :: db where
  "drawn_db = \<lparr>pages = [example_row\<lparr>pg_ink_revision := 1\<rparr>],
     stroke_batches = [batch_row example_db ''p'' ''b'' [example_stroke ''s''] 1], stroke_tombstones = [],
     tombstone_batches = [], page_thumbnails = [drawn_thumbnail]\<rparr>"

lemma drawn_views:
  "page_row drawn_db q = (if q = ''p'' then Some (example_row\<lparr>pg_ink_revision := 1\<rparr>) else None)"
  "batches_of drawn_db q = (if q = ''p'' then [batch_row example_db ''p'' ''b'' [example_stroke ''s''] 1] else [])"
  "tombstones_of drawn_db q = []" "tombstone_batches_of drawn_db q = []"
  "thumbnails_of drawn_db q = (if q = ''p'' then [drawn_thumbnail] else [])"
  by (simp_all add: drawn_db_def page_row_def batches_of_def tombstones_of_def tombstone_batches_of_def
      thumbnails_of_def example_row_def drawn_thumbnail_def batch_row_def)

lemma drawn_tables_ok: "tables_ok drawn_db"
proof -
  have "view_ok (page_view drawn_db p)" for p
    by (simp add: view_ok.simps page_view_def drawn_views batches_ok_def tombstones_ok_def delete_wins_def
        thumbnails_ok_def i64_max_def batch_row_def example_db_empty stroke_visible_def drawn_thumbnail_def)
  then show ?thesis
    by (simp add: tables_ok_def db_inv_def thumb_check_def) (simp add: drawn_db_def drawn_thumbnail_def)
qed

definition drawn_server :: "unit pg_state" where
  "drawn_server = example_server\<lparr>sv_store := \<lparr>pg_db = drawn_db, pg_clock = 0\<rparr>\<rparr>"

lemma drawn_find: "List.find (\<lambda>r. pg_id r = ''p'' \<and> pg_owner_id r = ''u'') (pages drawn_db) =
    Some (example_row\<lparr>pg_ink_revision := 1\<rparr>)"
  by (simp add: drawn_db_def example_row_def)

lemma thumbnail_link_works_witness:
  "fst (get_thumbnail example_ap ''u'' ''p'' 1 (snd (get_page example_ap ''u'' ''p'' drawn_server))) =
   Inr (png_response [7])"
proof -
  define page where "page = page_summary example_env (example_row\<lparr>pg_ink_revision := 1\<rparr>) (Some drawn_thumbnail)"
  have newest: "newest_thumbnail drawn_db ''p'' = Some drawn_thumbnail"
    by (simp add: newest_thumbnail_def drawn_views)
  have "fst (get_page example_ap ''u'' ''p'' drawn_server) = Inr page"
    using newest by (simp add: get_page_def api_read_alone example_ap_def get_statement_def run_query_def drawn_server_def
        drawn_find page_def example_env_def) (simp add: example_row_def)
  then have get: "get_page example_ap ''u'' ''p'' drawn_server = (Inr page, snd (get_page example_ap ''u'' ''p'' drawn_server))"
    by (simp add: prod_eq_iff)
  have "ps_thumbnail page = Thumb_Available 1 (thumbnail_url ''p'' 1)"
    by (simp add: page_def page_summary_def thumbnail_metadata_def drawn_thumbnail_def as_u64_def example_row_def)
  from thumbnail_link_works [OF example_ap_alone _ _ get this] show ?thesis
    by (auto simp: drawn_server_def drawn_tables_ok newest example_ap_def example_env_def) (simp add: drawn_thumbnail_def)
qed

lemma delete_is_final_witness:
  "page_view (run_writes [(example_env, W_Batch ''p'' ''b2'' [example_stroke ''s2''])]
     (pg_db (sv_store (snd (delete_page example_ap ''u'' ''p'' drawn_server))))) ''p'' =
   \<lparr>v_row = None, v_batches = [], v_tombstones = [], v_tombstone_batches = [], v_thumbnails = []\<rparr>"
proof -
  have "fst (delete_page example_ap ''u'' ''p'' drawn_server) = Inr ()"
    by (simp add: delete_page_def api_write_alone example_ap_def delete_statement_def run_query_def example_env_def
        drawn_server_def drawn_db_def example_row_def Let_def)
  then have op: "delete_page example_ap ''u'' ''p'' drawn_server = (Inr (), snd (delete_page example_ap ''u'' ''p'' drawn_server))"
    by (simp add: prod_eq_iff)
  have "db_room 1 drawn_db" by (simp add: db_room_def drawn_views i64_max_def)
  then show ?thesis
    using delete_is_final [OF example_ap_alone _ _ op, of "[(example_env, W_Batch ''p'' ''b2'' [example_stroke ''s2''])]"]
      drawn_tables_ok by (simp add: drawn_server_def tables_ok_def)
qed

lemma created_page_is_served_witness:
  "\<exists>page. fst (create_page example_ap ''u'' \<lparr>cp_title = Some '' a '', cp_paper = SquaredSmall\<rparr> example_server) = Inr page \<and>
     fst (get_page example_ap ''u'' (ps_id page)
       (snd (create_page example_ap ''u'' \<lparr>cp_title = Some '' a '', cp_paper = SquaredSmall\<rparr> example_server))) = Inr page"
proof -
  define res where "res = create_page example_ap ''u'' \<lparr>cp_title = Some '' a '', cp_paper = SquaredSmall\<rparr> example_server"
  obtain page where "fst res = Inr page"
    by (simp add: res_def create_page_def api_write_alone example_ap_def insert_page_def run_query_def example_env_def
        example_server_def example_db_def example_row_def Let_def)
  then have op: "create_page example_ap ''u'' \<lparr>cp_title = Some '' a '', cp_paper = SquaredSmall\<rparr> example_server = (Inr page, snd res)"
    by (simp add: res_def prod_eq_iff)
  have "fst (get_page example_ap ''u'' (ps_id page) (snd res)) = Inr page"
    using created_page_is_served [OF example_ap_alone _ _ _ op]
    by (simp add: example_server_def example_db_inv example_ap_def example_env_def)
  then show ?thesis using \<open>fst res = Inr page\<close> by (simp add: res_def)
qed

end
