(* ===== verification/Library.thy ===== *)
theory Library
  imports Pages "HOL-Library.Multiset"
begin

text \<open>
  The page library of the client (\<open>frontend/src/library.rs\<close>): titles and ages, the recent-first list,
  the reducer that applies library events, and how the list follows the server's. The browser's
  \<open>Date\<close> is a parameter.
\<close>

section \<open>Comparing and sorting\<close>

text \<open>The order of Rust strings: bytes, lexicographically.\<close>

fun str_less :: "string \<Rightarrow> string \<Rightarrow> bool" where
  "str_less _ [] = False"
| "str_less [] (_ # _) = True"
| "str_less (a # s) (b # t) = ((of_char a :: nat) < of_char b \<or> a = b \<and> str_less s t)"

definition str_le :: "string \<Rightarrow> string \<Rightarrow> bool" where
  "str_le a b \<longleftrightarrow> \<not> str_less b a"

text \<open>\<open>sort_by\<close>, which is stable: an element goes before the first one it does not exceed.\<close>

fun insert_by :: "('a \<Rightarrow> 'a \<Rightarrow> bool) \<Rightarrow> 'a \<Rightarrow> 'a list \<Rightarrow> 'a list" where
  "insert_by le x [] = [x]"
| "insert_by le x (y # ys) = (if le x y then x # y # ys else y # insert_by le x ys)"

definition sort_by :: "('a \<Rightarrow> 'a \<Rightarrow> bool) \<Rightarrow> 'a list \<Rightarrow> 'a list" where
  "sort_by le xs = foldr (insert_by le) xs []"

section \<open>Titles and ages\<close>

definition UNTITLED_PAGE :: string where "UNTITLED_PAGE = ''Untitled page''"

definition page_has_title :: "PageSummary \<Rightarrow> bool" where
  "page_has_title page = (let title = trim (ps_title page) in title \<noteq> [] \<and> title \<noteq> UNTITLED_PAGE)"

definition take_chars :: "nat \<Rightarrow> string \<Rightarrow> string" where
  "take_chars n s = (if n < char_count s then take (char_indices s ! n) s else s)"

definition compact_datetime :: "string \<Rightarrow> string" where
  "compact_datetime value = take_chars 16 (replace_str ''T'' '' '' (trim_end_char (CHR ''Z'') value))"

definition age_text :: "u64 \<Rightarrow> string" where
  "age_text elapsed_seconds =
     (if elapsed_seconds \<le> 89 then ''just now''
      else let (amount, name) =
             (if elapsed_seconds \<le> 5399 then ((elapsed_seconds + 30) div 60, ''minute'')
              else if elapsed_seconds \<le> 129599 then ((elapsed_seconds + 1800) div 3600, ''hour'')
              else if elapsed_seconds \<le> 3887999 then ((elapsed_seconds + 43200) div 86400, ''day'')
              else ((elapsed_seconds + 1296000) div 2592000, ''month''));
             ending = (if amount = 1 then '''' else ''s'')
           in decimal (unat amount) @ '' '' @ name @ ending @ '' ago'')"

definition approximate_relative_datetime :: "(string \<Rightarrow> fp) \<Rightarrow> fp \<Rightarrow> string \<Rightarrow> string" where
  "approximate_relative_datetime date_parse date_now value =
     (let written = date_parse value in
      if written = NaN then compact_datetime value
      else age_text (of_nat (fp_as_nat (2 ^ 64 - 1)
             (fp_round (fp_max (fp_div f64 (fp_sub f64 date_now written) (Fin 1000)) (Fin 0))))))"

definition page_display_title :: "(string \<Rightarrow> fp) \<Rightarrow> fp \<Rightarrow> PageSummary \<Rightarrow> string" where
  "page_display_title date_parse date_now page =
     (if page_has_title page then ps_title page
      else approximate_relative_datetime date_parse date_now (ps_updated_at page))"

section \<open>The list\<close>

definition recent_first :: "PageSummary \<Rightarrow> PageSummary \<Rightarrow> bool" where
  "recent_first left right = str_le (ps_updated_at right) (ps_updated_at left)"

definition sort_pages_recent_first :: "PageSummary list \<Rightarrow> PageSummary list" where
  "sort_pages_recent_first items = sort_by recent_first items"

fun thumbnail_seq :: "ThumbnailMetadata \<Rightarrow> u64" where
  "thumbnail_seq Thumb_Empty = 0"
| "thumbnail_seq (Thumb_Generating source_seq) = source_seq"
| "thumbnail_seq (Thumb_Available source_seq _) = source_seq"
| "thumbnail_seq (Thumb_Failed source_seq) = source_seq"

fun thumbnail_key :: "ThumbnailMetadata \<Rightarrow> string" where
  "thumbnail_key Thumb_Empty = ''empty''"
| "thumbnail_key (Thumb_Generating source_seq) = ''generating:'' @ decimal (unat source_seq)"
| "thumbnail_key (Thumb_Available source_seq url) = ''available:'' @ decimal (unat source_seq) @ '':'' @ url"
| "thumbnail_key (Thumb_Failed source_seq) = ''failed:'' @ decimal (unat source_seq)"

text \<open>\<open>iter_mut().find\<close>: the first page with the id is changed in place.\<close>

fun update_first :: "string \<Rightarrow> (PageSummary \<Rightarrow> PageSummary) \<Rightarrow> PageSummary list \<Rightarrow> PageSummary list" where
  "update_first page_id f [] = []"
| "update_first page_id f (p # ps) = (if ps_id p = page_id then f p # ps else p # update_first page_id f ps)"

fun apply_library_event_to_pages :: "LibraryEvent \<Rightarrow> PageSummary list \<Rightarrow> PageSummary list" where
  "apply_library_event_to_pages (PageCreated page) items =
     sort_pages_recent_first (filter (\<lambda>p. ps_id p \<noteq> ps_id page) items @ [page])"
| "apply_library_event_to_pages (PageDeleted page_id) items = filter (\<lambda>p. ps_id p \<noteq> page_id) items"
| "apply_library_event_to_pages (PageThumbnailUpdated page_id thumbnail) items =
     update_first page_id
       (\<lambda>p. if thumbnail_seq thumbnail \<ge> thumbnail_seq (ps_thumbnail p) then p\<lparr>ps_thumbnail := thumbnail\<rparr> else p) items"
| "apply_library_event_to_pages (PageUpdated page_id updated_at) items =
     (case List.find (\<lambda>p. ps_id p = page_id) items of
        None \<Rightarrow> items
      | Some p \<Rightarrow>
          if str_le updated_at (ps_updated_at p) then items
          else sort_pages_recent_first (update_first page_id (\<lambda>p. p\<lparr>ps_updated_at := updated_at\<rparr>) items))"

section \<open>The order of strings is total\<close>

lemma str_less_irrefl [simp]: "\<not> str_less a a"
  by (induction a) simp_all

lemma str_less_trans: "str_less a b \<Longrightarrow> str_less b c \<Longrightarrow> str_less a c"
proof (induction a b arbitrary: c rule: str_less.induct)
  case (3 a s b t)
  then show ?case by (cases c) auto
qed (auto elim: str_less.elims)

lemma of_char_eq_nat: "(of_char a :: nat) = of_char b \<longleftrightarrow> a = b"
  by simp

lemma str_less_linear: "str_less a b \<or> a = b \<or> str_less b a"
proof (induction a b rule: str_less.induct)
  case (1 a)
  then show ?case by (cases a) simp_all
next
  case (3 a s b t)
  then show ?case
    using linorder_less_linear [of "of_char a :: nat" "of_char b"] by (auto simp: of_char_eq_nat)
qed simp

lemma str_le_refl [simp]: "str_le a a"
  by (simp add: str_le_def)

lemma str_le_trans: "str_le a b \<Longrightarrow> str_le b c \<Longrightarrow> str_le a c"
  unfolding str_le_def using str_less_linear str_less_trans by metis

lemma str_le_linear: "str_le a b \<or> str_le b a"
  unfolding str_le_def using str_less_trans str_less_irrefl by blast

lemma str_le_antisym: "str_le a b \<Longrightarrow> str_le b a \<Longrightarrow> a = b"
  unfolding str_le_def using str_less_linear by blast

section \<open>Sorting\<close>

text \<open>What a stable sort by a total preorder delivers.\<close>

locale preorder_sort =
  fixes le :: "'a \<Rightarrow> 'a \<Rightarrow> bool"
  assumes linear: "le x y \<or> le y x"
    and transitive: "le x y \<Longrightarrow> le y z \<Longrightarrow> le x z"
begin

lemma set_insert_by: "set (insert_by le x xs) = insert x (set xs)"
  by (induction xs) auto

lemma mset_insert_by: "mset (insert_by le x xs) = add_mset x (mset xs)"
  by (induction xs) auto

lemma mset_sort_by: "mset (sort_by le xs) = mset xs"
  by (induction xs) (simp_all add: sort_by_def mset_insert_by)

lemma sorted_insert_by: "sorted_wrt le xs \<Longrightarrow> sorted_wrt le (insert_by le x xs)"
proof (induction xs)
  case (Cons y ys)
  then show ?case
    using linear [of x y] transitive [of x y] by (auto simp: set_insert_by)
qed simp

lemma sorted_sort_by: "sorted_wrt le (sort_by le xs)"
  by (induction xs) (simp_all add: sort_by_def sorted_insert_by)

lemma sort_by_sorted: "sorted_wrt le xs \<Longrightarrow> sort_by le xs = xs"
proof (induction xs)
  case (Cons x xs)
  then have "sort_by le (x # xs) = insert_by le x xs" by (simp add: sort_by_def)
  with Cons.prems show ?case by (cases xs) simp_all
qed (simp add: sort_by_def)

text \<open>An element no other is before, put at the end of a sorted list, comes first.\<close>

lemma sort_by_new_first:
  assumes "sorted_wrt le (xs @ zs)" "\<forall>y \<in> set (xs @ zs). \<not> le y x"
  shows "sort_by le (xs @ x # zs) = x # xs @ zs"
proof -
  have "sorted_wrt le (x # zs)"
    using assms linear [of x] by (auto simp: sorted_wrt_append)
  then have "sort_by le (xs @ x # zs) = foldr (insert_by le) xs (x # zs)"
    using sort_by_sorted [of "x # zs"] by (simp add: sort_by_def)
  also have "\<dots> = x # xs @ zs"
    using assms
  proof (induction xs)
    case (Cons y ys)
    then have "foldr (insert_by le) (y # ys) (x # zs) = x # insert_by le y (ys @ zs)" by simp
    moreover have "insert_by le y (ys @ zs) = y # ys @ zs"
      using Cons.prems(1) by (cases "ys @ zs") auto
    ultimately show ?case by simp
  qed simp
  finally show ?thesis .
qed

end

interpretation recent: preorder_sort recent_first
  by unfold_locales (use str_le_linear in \<open>auto simp: recent_first_def intro: str_le_trans\<close>)

section \<open>The list stays sorted, one tile a page\<close>

definition list_ok :: "PageSummary list \<Rightarrow> bool" where
  "list_ok items \<longleftrightarrow> distinct (map ps_id items) \<and> sorted_wrt recent_first items"

lemma ids_sorted: "mset (map ps_id (sort_pages_recent_first items)) = mset (map ps_id items)"
  by (simp add: sort_pages_recent_first_def recent.mset_sort_by)

lemma distinct_sorted [simp]:
  "distinct (map ps_id (sort_pages_recent_first items)) \<longleftrightarrow> distinct (map ps_id items)"
  using ids_sorted [of items] mset_eq_imp_distinct_iff by blast

lemma set_sorted [simp]: "set (sort_pages_recent_first items) = set items"
  by (simp add: sort_pages_recent_first_def flip: set_mset_mset) (simp add: recent.mset_sort_by)

lemma update_first_ids: "(\<And>p. ps_id (f p) = ps_id p) \<Longrightarrow> map ps_id (update_first page_id f items) = map ps_id items"
  by (induction items) simp_all

lemma update_first_times:
  "(\<And>p. ps_updated_at (f p) = ps_updated_at p) \<Longrightarrow>
     map ps_updated_at (update_first page_id f items) = map ps_updated_at items"
  by (induction items) simp_all

lemma update_first_absent: "page_id \<notin> ps_id ` set items \<Longrightarrow> update_first page_id f items = items"
  by (induction items) auto

lemma sorted_times: "sorted_wrt recent_first items \<longleftrightarrow> sorted_wrt (\<lambda>a b. str_le b a) (map ps_updated_at items)"
  by (simp add: sorted_wrt_map recent_first_def [abs_def])

lemma list_ok_event: "list_ok items \<Longrightarrow> list_ok (apply_library_event_to_pages event items)"
proof (cases event)
  case (PageCreated page)
  assume "list_ok items"
  then have "distinct (map ps_id (filter (\<lambda>p. ps_id p \<noteq> ps_id page) items @ [page]))"
    by (auto simp: list_ok_def distinct_map_filter)
  then show ?thesis
    using PageCreated recent.sorted_sort_by by (simp add: list_ok_def flip: sort_pages_recent_first_def)
next
  case (PageDeleted page_id)
  assume "list_ok items"
  with PageDeleted show ?thesis by (simp add: list_ok_def distinct_map_filter sorted_wrt_filter)
next
  case (PageThumbnailUpdated page_id thumbnail)
  assume "list_ok items"
  then show ?thesis
    using PageThumbnailUpdated by (simp add: list_ok_def sorted_times update_first_ids update_first_times)
next
  case (PageUpdated page_id updated_at)
  assume "list_ok items"
  then show ?thesis
    using PageUpdated recent.sorted_sort_by
    by (auto simp: list_ok_def update_first_ids simp flip: sort_pages_recent_first_def split: option.split)
qed

text \<open>Through any sequence of library events, duplicated, stale or about pages it does not hold,
  the library keeps one entry a page and the most recently edited page first.\<close>

theorem library_stays_sorted:
  assumes "distinct (map ps_id items)" "sorted_wrt recent_first items"
  shows "distinct (map ps_id (fold apply_library_event_to_pages events items)) \<and>
    sorted_wrt recent_first (fold apply_library_event_to_pages events items)"
proof -
  have "list_ok (fold apply_library_event_to_pages events items)"
    using assms list_ok_event by (induction events arbitrary: items rule: rev_induct) (simp_all add: list_ok_def)
  then show ?thesis by (simp add: list_ok_def)
qed

definition example_page :: "string \<Rightarrow> string \<Rightarrow> PageSummary" where
  "example_page page_id updated_at = \<lparr>ps_id = page_id, ps_title = page_id, ps_created_at = ''2026'',
     ps_updated_at = updated_at, ps_thumbnail = Thumb_Empty, ps_paper = Paper_None\<rparr>"

lemma library_stays_sorted_witness:
  "sorted_wrt recent_first (fold apply_library_event_to_pages [PageUpdated ''b'' ''2026-09'']
     [example_page ''a'' ''2026-08'', example_page ''b'' ''2026-07''])"
  using library_stays_sorted [of "[example_page ''a'' ''2026-08'', example_page ''b'' ''2026-07'']"
      "[PageUpdated ''b'' ''2026-09'']"]
  by (simp add: example_page_def recent_first_def str_le_def)

section \<open>Late and repeated events do no harm\<close>

definition str_max :: "string \<Rightarrow> string \<Rightarrow> string" where
  "str_max a b = (if str_le b a then a else b)"

text \<open>What a page's entry becomes of events that neither create nor delete it, event by event.\<close>

fun entry_event :: "string \<Rightarrow> LibraryEvent \<Rightarrow> PageSummary \<Rightarrow> PageSummary" where
  "entry_event page_id (PageUpdated q updated_at) p =
     (if q = page_id then p\<lparr>ps_updated_at := str_max (ps_updated_at p) updated_at\<rparr> else p)"
| "entry_event page_id (PageThumbnailUpdated q thumbnail) p =
     (if q = page_id \<and> thumbnail_seq thumbnail \<ge> thumbnail_seq (ps_thumbnail p) then p\<lparr>ps_thumbnail := thumbnail\<rparr> else p)"
| "entry_event page_id _ p = p"

definition entry :: "string \<Rightarrow> PageSummary list \<Rightarrow> PageSummary option" where
  "entry page_id items = List.find (\<lambda>p. ps_id p = page_id) items"

lemma entry_iff: "distinct (map ps_id items) \<Longrightarrow> entry page_id items = Some p \<longleftrightarrow> p \<in> set items \<and> ps_id p = page_id"
proof (induction items)
  case (Cons q items)
  then show ?case by (auto simp: entry_def image_iff)
qed (simp add: entry_def)

lemma entry_event_other [simp]: "map_option (entry_event page_id (PageCreated page)) x = x"
  "map_option (entry_event page_id (PageDeleted q)) x = x"
  "q \<noteq> page_id \<Longrightarrow> map_option (entry_event page_id (PageUpdated q updated_at)) x = x"
  by (cases x; simp)+

lemma entry_none: "entry page_id items = None \<longleftrightarrow> page_id \<notin> ps_id ` set items"
  by (auto simp: entry_def find_None_iff)

lemma entry_sorted:
  assumes "distinct (map ps_id items)"
  shows "entry page_id (sort_pages_recent_first items) = entry page_id items"
proof -
  have "entry page_id (sort_pages_recent_first items) = Some p \<longleftrightarrow> entry page_id items = Some p" for p
    using assms by (simp add: entry_iff)
  then show ?thesis by (metis not_None_eq)
qed

lemma entry_update_first:
  "(\<And>p. ps_id (f p) = ps_id p) \<Longrightarrow>
     entry page_id (update_first q f items) = (if q = page_id then map_option f (entry page_id items) else entry page_id items)"
  by (induction items) (auto simp: entry_def)

fun about_other :: "string \<Rightarrow> LibraryEvent \<Rightarrow> bool" where
  "about_other page_id (PageCreated page) = (ps_id page \<noteq> page_id)"
| "about_other page_id (PageDeleted q) = (q \<noteq> page_id)"
| "about_other page_id _ = True"

lemma entry_filter: "q \<noteq> page_id \<Longrightarrow> entry page_id (filter (\<lambda>p. ps_id p \<noteq> q) items) = entry page_id items"
  by (induction items) (auto simp: entry_def)

lemma entry_snoc: "ps_id p \<noteq> page_id \<Longrightarrow> entry page_id (items @ [p]) = entry page_id items"
  by (induction items) (auto simp: entry_def)

lemma entry_event_applied:
  assumes "list_ok items" "about_other page_id event"
  shows "entry page_id (apply_library_event_to_pages event items) = map_option (entry_event page_id event) (entry page_id items)"
proof (cases event)
  case (PageCreated page)
  have "distinct (map ps_id (filter (\<lambda>p. ps_id p \<noteq> ps_id page) items @ [page]))"
    using assms(1) by (auto simp: list_ok_def distinct_map_filter)
  then show ?thesis
    using assms(2) PageCreated by (simp add: entry_sorted entry_snoc entry_filter option.map_ident)
next
  case (PageUpdated q updated_at)
  have d: "distinct (map ps_id (update_first q (\<lambda>p. p\<lparr>ps_updated_at := updated_at\<rparr>) items))" for q
    using assms(1) by (simp add: list_ok_def update_first_ids)
  show ?thesis
    using PageUpdated by (cases "q = page_id")
      (auto simp: entry_sorted [OF d] entry_update_first str_max_def option.map_ident simp flip: entry_def split: option.split)
next
  case (PageThumbnailUpdated q thumbnail)
  then show ?thesis by (cases "entry page_id items") (simp_all add: entry_update_first)
next
  case (PageDeleted q)
  then show ?thesis using assms(2) by (simp add: entry_filter)
qed

text \<open>A listed page shows the newest edit time and the newest preview it was told of, in whatever
  order and however often the events arrive; its title, creation time and paper never change.\<close>

theorem library_shows_newest:
  assumes "distinct (map ps_id items)" "sorted_wrt recent_first items" "p \<in> set items"
    and "\<And>e. e \<in> set events \<Longrightarrow> about_other (ps_id p) e"
  shows "\<exists>q \<in> set (fold apply_library_event_to_pages events items).
    ps_id q = ps_id p \<and> ps_title q = ps_title p \<and> ps_created_at q = ps_created_at p \<and> ps_paper q = ps_paper p \<and>
    ps_updated_at q \<in> insert (ps_updated_at p) {t. PageUpdated (ps_id p) t \<in> set events} \<and>
    (\<forall>t. t = ps_updated_at p \<or> PageUpdated (ps_id p) t \<in> set events \<longrightarrow> str_le t (ps_updated_at q)) \<and>
    (\<forall>t. t = ps_thumbnail p \<or> PageThumbnailUpdated (ps_id p) t \<in> set events \<longrightarrow>
       thumbnail_seq t \<le> thumbnail_seq (ps_thumbnail q))"
  using assms(4)
proof (induction events rule: rev_induct)
  case Nil
  with assms(3) show ?case by auto
next
  case (snoc e events)
  then obtain q where q: "q \<in> set (fold apply_library_event_to_pages events items)" "ps_id q = ps_id p"
    and keeps: "ps_title q = ps_title p \<and> ps_created_at q = ps_created_at p \<and> ps_paper q = ps_paper p"
    and times: "ps_updated_at q \<in> insert (ps_updated_at p) {t. PageUpdated (ps_id p) t \<in> set events}"
      "\<forall>t. t = ps_updated_at p \<or> PageUpdated (ps_id p) t \<in> set events \<longrightarrow> str_le t (ps_updated_at q)"
    and thumbs: "\<forall>t. t = ps_thumbnail p \<or> PageThumbnailUpdated (ps_id p) t \<in> set events \<longrightarrow>
       thumbnail_seq t \<le> thumbnail_seq (ps_thumbnail q)"
    by auto
  have ok: "list_ok (fold apply_library_event_to_pages events items)"
    using library_stays_sorted [OF assms(1,2), of events] by (simp add: list_ok_def)
  then have "entry (ps_id p) (fold apply_library_event_to_pages events items) = Some q"
    using q by (simp add: list_ok_def entry_iff)
  then have "entry (ps_id p) (fold apply_library_event_to_pages (events @ [e]) items) = Some (entry_event (ps_id p) e q)"
    using entry_event_applied [OF ok, of "ps_id p" e] snoc.prems by simp
  then have "entry_event (ps_id p) e q \<in> set (fold apply_library_event_to_pages (events @ [e]) items)"
    by (auto simp: entry_def find_Some_iff)
  moreover have "str_le t (str_max a b)" if "str_le t a \<or> t = b" for t a b
    using that str_le_linear [of a b] str_le_trans [of t a b] by (auto simp: str_max_def)
  ultimately show ?case
    using q keeps times thumbs
    by (intro bexI [of _ "entry_event (ps_id p) e q"]; cases e)
      (auto simp: str_max_def split: if_splits intro: order_trans)
qed

lemma library_shows_newest_witness:
  "\<exists>q \<in> set (fold apply_library_event_to_pages [PageUpdated ''a'' ''2026-09'', PageUpdated ''a'' ''2026-08'']
     [example_page ''a'' ''2026-07'']). str_le ''2026-09'' (ps_updated_at q)"
proof -
  let ?p = "example_page ''a'' ''2026-07''" and ?es = "[PageUpdated ''a'' ''2026-09'', PageUpdated ''a'' ''2026-08'']"
  have "about_other (ps_id ?p) e" if "e \<in> set ?es" for e using that by auto
  from library_shows_newest [of "[?p]" ?p ?es, OF _ _ _ this]
  obtain q where "q \<in> set (fold apply_library_event_to_pages ?es [?p])"
    "\<forall>t. t = ps_updated_at ?p \<or> PageUpdated (ps_id ?p) t \<in> set ?es \<longrightarrow> str_le t (ps_updated_at q)" by auto
  moreover have "PageUpdated (ps_id ?p) ''2026-09'' \<in> set ?es" by (simp add: example_page_def)
  ultimately show ?thesis by blast
qed

end
