(* ===== verification/LibrarySync.thy ===== *)
theory LibrarySync
  imports Library
begin

text \<open>
  The client's library list against the server's (\<open>frontend/src/library.rs\<close> with
  \<open>crates/server/src/routes/pages.rs\<close> and \<open>crates/server/src/realtime/store.rs\<close>): what the events of a
  committed change do to a list equal to the server's listing makes it equal to the next listing.
\<close>

section \<open>The listing\<close>

definition list_key :: "PageRow \<Rightarrow> int \<times> int" where
  "list_key row = (- pg_updated_at row, - pg_created_at row)"

definition listed :: "dbenv \<Rightarrow> db \<Rightarrow> PageRow \<Rightarrow> PageSummary" where
  "listed env d row = page_summary env row (newest_thumbnail d (pg_id row))"

definition owned :: "string \<Rightarrow> db \<Rightarrow> PageRow list" where
  "owned owner d = filter (\<lambda>row. pg_owner_id row = owner) (pages d)"

definition listing :: "string \<Rightarrow> dbenv \<Rightarrow> db \<Rightarrow> PageSummary list" where
  "listing owner env d = map (listed env d) (sort_key list_key (owned owner d))"

lemma list_statement_listing:
  "list_statement owner env d = run_query env (''SELECT'', ''list_pages'') (Inr (listing owner env d))"
  by (simp add: list_statement_def listing_def listed_def [abs_def] list_key_def [abs_def] owned_def)

text \<open>The clock is ahead of every edit of the owner, and the timestamps compare as the times they
  denote: chrono's RFC 3339 form in UTC has this for the years of four digits.\<close>

definition clock_ahead :: "string \<Rightarrow> dbenv \<Rightarrow> db \<Rightarrow> bool" where
  "clock_ahead owner env d \<longleftrightarrow> (\<forall>row \<in> set (owned owner d). pg_updated_at row < env_now env)"

definition times_compare :: "string \<Rightarrow> dbenv \<Rightarrow> db \<Rightarrow> bool" where
  "times_compare owner env d \<longleftrightarrow>
     (let times = insert (env_now env) (pg_updated_at ` set (owned owner d))
      in \<forall>a\<in>times. \<forall>b\<in>times. str_less (env_rfc3339 env a) (env_rfc3339 env b) \<longleftrightarrow> a < b)"

section \<open>Sorting by key\<close>

lemma sort_key_front:
  assumes "\<forall>y \<in> set (xs @ zs). f x < f y"
  shows "sort_key f (xs @ x # zs) = x # sort_key f (xs @ zs)"
proof (rule properties_for_sort_key)
  show "mset (x # sort_key f (xs @ zs)) = mset (xs @ x # zs)" by simp
  show "sorted (map f (x # sort_key f (xs @ zs)))"
    using assms by (auto simp: less_imp_le)
  fix k assume "k \<in> set (x # sort_key f (xs @ zs))"
  then consider "k = x" | "k \<in> set (xs @ zs)" by auto
  then show "filter (\<lambda>y. f k = f y) (x # sort_key f (xs @ zs)) = filter (\<lambda>y. f k = f y) (xs @ x # zs)"
  proof cases
    case 1
    have "filter (\<lambda>y. f x = f y) (xs @ zs) = []"
      using assms by (auto simp: filter_empty_conv dest: less_imp_neq)
    with 1 show ?thesis by (simp add: filter_sort)
  next
    case 2
    then have "f x < f k" using assms by blast
    then have "f k \<noteq> f x" by simp
    moreover have "filter (\<lambda>y. f k = f y) (sort_key f (xs @ zs)) = filter (\<lambda>y. f k = f y) (xs @ zs)"
      using sort_key_stable [of f "f k" "xs @ zs"] by (simp add: eq_commute)
    ultimately show ?thesis by simp
  qed
qed

lemma list_key_le: "list_key a \<le> list_key b \<Longrightarrow> pg_updated_at b \<le> pg_updated_at a"
  by (auto simp: list_key_def less_eq_prod_def)

lemma list_key_less: "pg_updated_at b < pg_updated_at a \<Longrightarrow> list_key a < list_key b"
  by (simp add: list_key_def less_prod_def)

lemma listed_fields [simp]:
  "ps_id (listed env d row) = pg_id row"
  "ps_updated_at (listed env d row) = env_rfc3339 env (pg_updated_at row)"
  by (simp_all add: listed_def page_summary_def)

lemma listing_sorted:
  assumes "times_compare owner env d"
  shows "sorted_wrt recent_first (listing owner env d)"
proof -
  let ?rows = "sort_key list_key (owned owner d)"
  have "sorted_wrt (\<lambda>a b. list_key a \<le> list_key b) ?rows"
    using sorted_sort_key [of list_key "owned owner d"] by (simp add: sorted_map)
  then have "sorted_wrt (\<lambda>a b. recent_first (listed env d a) (listed env d b)) ?rows"
  proof (rule sorted_wrt_mono_rel [rotated])
    fix a b assume ab: "a \<in> set ?rows" "b \<in> set ?rows" "list_key a \<le> list_key b"
    then have "\<not> str_less (env_rfc3339 env (pg_updated_at a)) (env_rfc3339 env (pg_updated_at b))"
      using assms list_key_le [OF ab(3)] by (auto simp: times_compare_def Let_def)
    then show "recent_first (listed env d a) (listed env d b)"
      by (simp add: recent_first_def str_le_def)
  qed
  then show ?thesis by (simp add: listing_def sorted_wrt_map)
qed

lemma listing_ids: "mset (map ps_id (listing owner env d)) = mset (map pg_id (owned owner d))"
  by (simp add: listing_def comp_def)

lemma listing_distinct: "db_inv d \<Longrightarrow> distinct (map ps_id (listing owner env d))"
proof -
  assume "db_inv d"
  then have "distinct (map pg_id (owned owner d))" by (simp add: db_inv_def owned_def distinct_map_filter)
  then show ?thesis using mset_eq_imp_distinct_iff [OF listing_ids] by blast
qed

lemma listing_without:
  "filter (\<lambda>s. ps_id s \<noteq> p) (listing owner env d) =
     map (listed env d) (sort_key list_key (filter (\<lambda>r. pg_id r \<noteq> p) (owned owner d)))"
  by (simp add: listing_def filter_map comp_def filter_sort)

section \<open>Creating and deleting\<close>

text \<open>An entry newer than all others, put anywhere into a sorted list, is sorted to the front.\<close>

lemma newest_to_front:
  assumes "sorted_wrt recent_first (xs @ zs)"
    and "\<forall>s \<in> set (xs @ zs). str_less (ps_updated_at s) (ps_updated_at x)"
  shows "sort_pages_recent_first (xs @ x # zs) = x # xs @ zs"
  unfolding sort_pages_recent_first_def
  by (rule recent.sort_by_new_first) (use assms in \<open>auto simp: recent_first_def str_le_def\<close>)

lemma listing_older:
  assumes "clock_ahead owner env d" "times_compare owner env d" "s \<in> set (listing owner env d)"
  shows "str_less (ps_updated_at s) (env_rfc3339 env (env_now env))"
  using assms by (auto simp: listing_def clock_ahead_def times_compare_def Let_def)

lemma newest_thumbnail_cong:
  "thumbnails_of d' p = thumbnails_of d p \<Longrightarrow> newest_thumbnail d' p = newest_thumbnail d p"
  by (simp add: newest_thumbnail_def)

lemma listed_cong: "thumbnails_of d' (pg_id row) = thumbnails_of d (pg_id row) \<Longrightarrow> listed env d' row = listed env d row"
  by (simp add: listed_def newest_thumbnail_def)

lemma no_page_no_thumbnails: "db_inv d \<Longrightarrow> page_row d p = None \<Longrightarrow> thumbnails_of d p = []"
  unfolding db_inv_def by (drule conjunct2, drule spec [of _ p]) (simp add: view_ok.simps page_view_def)

lemma create_followed:
  assumes inv: "db_inv d" and clock: "clock_ahead owner env d" "times_compare owner env d"
    and op: "insert_page page_id owner title paper env d = Inr (page, d')"
  shows "apply_library_event_to_pages (PageCreated page) (listing owner env d) = listing owner env d'"
proof -
  define row where "row = \<lparr>pg_id = page_id, pg_owner_id = owner, pg_title = title, pg_created_at = env_now env,
    pg_updated_at = env_now env, pg_ink_revision = 0, pg_paper = wire_value paper\<rparr>"
  have new: "page_id \<notin> pg_id ` set (pages d)" and page: "page = page_summary env row None"
    and d': "d' = d\<lparr>pages := pages d @ [row]\<rparr>"
    using op unfolding insert_page_def run_query_Inr Let_def row_def [symmetric]
    by (cases "list_ex (\<lambda>r. pg_id r = page_id) (pages d)"; auto simp: list_ex_iff)+
  have thumbs: "thumbnails_of d' q = thumbnails_of d q" for q by (simp add: d' thumbnails_of_def)
  have "page_row d page_id = None" using new by (auto simp: page_row_def find_None_iff)
  then have none: "newest_thumbnail d' page_id = None"
    using no_page_no_thumbnails [OF inv] by (simp add: newest_thumbnail_def thumbs)
  have id: "ps_id page = page_id" and time: "ps_updated_at page = env_rfc3339 env (env_now env)"
    by (simp_all add: page page_summary_def row_def)
  have "filter (\<lambda>s. ps_id s \<noteq> ps_id page) (listing owner env d) = listing owner env d"
    using new by (auto simp: id filter_id_conv listing_def owned_def)
  moreover have "sort_pages_recent_first (listing owner env d @ page # []) = page # listing owner env d @ []"
    by (rule newest_to_front)
      (use listing_sorted [OF clock(2)] listing_older [OF clock] in \<open>auto simp: time\<close>)
  moreover have "listing owner env d' = page # listing owner env d"
  proof -
    have "sort_key list_key (owned owner d @ row # []) = row # sort_key list_key (owned owner d @ [])"
      by (rule sort_key_front) (use clock(1) in \<open>auto simp: clock_ahead_def row_def intro: list_key_less\<close>)
    then have "listing owner env d' = listed env d' row # map (listed env d') (sort_key list_key (owned owner d))"
      by (simp add: listing_def owned_def d' row_def)
    also have "listed env d' row = page" using none by (simp add: listed_def page row_def)
    also have "map (listed env d') (sort_key list_key (owned owner d)) = listing owner env d"
      by (simp add: listing_def listed_def newest_thumbnail_def thumbs)
    finally show ?thesis .
  qed
  ultimately show ?thesis by simp
qed

lemma delete_followed:
  assumes inv: "db_inv d" and op: "delete_statement owner p env d = Inr (n, d')" and some: "n \<noteq> 0"
  shows "apply_library_event_to_pages (PageDeleted p) (listing owner env d) = listing owner env d'"
proof -
  have pages': "pages d' = filter (\<lambda>r. \<not> (pg_id r = p \<and> pg_owner_id r = owner)) (pages d)"
    and thumbs': "page_thumbnails d' = filter (\<lambda>t. th_page_id t \<noteq> p) (page_thumbnails d)"
    using op some unfolding delete_statement_def run_query_Inr Let_def
    by (auto split: if_splits)
  have "thumbnails_of d' q = thumbnails_of d q" if "q \<noteq> p" for q
    using that by (auto simp: thumbnails_of_def thumbs' intro: filter_cong)
  then have "listing owner env d' = map (listed env d) (sort_key list_key (owned owner d'))"
    by (auto simp: listing_def owned_def pages' intro!: listed_cong)
  moreover have "owned owner d' = filter (\<lambda>r. pg_id r \<noteq> p) (owned owner d)"
    by (auto simp: owned_def pages' intro: filter_cong)
  ultimately show ?thesis by (simp add: listing_without)
qed

section \<open>Editing\<close>

lemma split_unique:
  assumes "distinct (map k xs)" "x \<in> set xs"
  obtains as bs where "xs = as @ x # bs" "filter (\<lambda>y. k y \<noteq> k x) xs = as @ bs" "k x \<notin> k ` set (as @ bs)"
proof -
  obtain as bs where xs: "xs = as @ x # bs" using assms(2) by (meson split_list)
  with assms(1) have out: "k x \<notin> k ` set (as @ bs)" by auto
  then have "filter (\<lambda>y. k y \<noteq> k x) (as @ bs) = as @ bs" unfolding filter_id_conv by (metis image_eqI)
  with xs out that show thesis by simp
qed

lemma update_first_split:
  "ps_id x = p \<Longrightarrow> p \<notin> ps_id ` set as \<Longrightarrow> update_first p f (as @ x # bs) = as @ f x # bs"
  by (induction as) auto

lemma find_split: "ps_id x = p \<Longrightarrow> p \<notin> ps_id ` set as \<Longrightarrow> List.find (\<lambda>s. ps_id s = p) (as @ x # bs) = Some x"
  by (induction as) auto

text \<open>An edit of page \<open>p\<close>: its row gets a new time and revision, and a thumbnail row for it.\<close>

definition edited :: "dbenv \<Rightarrow> db \<Rightarrow> string \<Rightarrow> int \<Rightarrow> db \<Rightarrow> bool" where
  "edited env d p rv d' \<longleftrightarrow>
     (\<exists>row. page_row d p = Some row \<and> rv = pg_ink_revision row + 1 \<and> rv \<le> i64_max \<and>
        pages d' = map (\<lambda>r. if pg_id r = p
          then r\<lparr>pg_updated_at := env_now env, pg_ink_revision := rv\<rparr> else r) (pages d)) \<and>
     (\<forall>q. q \<noteq> p \<longrightarrow> thumbnails_of d' q = thumbnails_of d q) \<and>
     (\<exists>t. thumbnails_of d' p = thumbnails_of d p @ [t] \<and> th_source_seq t = rv \<and> th_status t = ''generating'')"

lemma edited_thumbnail:
  assumes inv: "db_inv d" and ed: "edited env d p rv d'"
  shows "thumbnail_metadata p (newest_thumbnail d' p) = Thumb_Generating (as_u64 rv)"
    and "thumbnail_seq (thumbnail_metadata p (newest_thumbnail d p)) \<le> as_u64 rv"
proof -
  obtain row t where row: "page_row d p = Some row" and rv: "rv = pg_ink_revision row + 1" "rv \<le> i64_max"
    and t: "thumbnails_of d' p = thumbnails_of d p @ [t]" "th_source_seq t = rv" "th_status t = ''generating''"
    using ed by (auto simp: edited_def)
  have old: "0 < th_source_seq u \<and> th_source_seq u \<le> pg_ink_revision row" if "u \<in> set (thumbnails_of d p)" for u
    using view_okD(6) [OF inv row] that by (auto simp: thumbnails_ok_def)
  have "sort_key (\<lambda>t. - th_source_seq t) (thumbnails_of d p @ t # []) =
      t # sort_key (\<lambda>t. - th_source_seq t) (thumbnails_of d p @ [])"
    by (rule sort_key_front) (use old rv t(2) in force)
  then show "thumbnail_metadata p (newest_thumbnail d' p) = Thumb_Generating (as_u64 rv)"
    by (simp add: newest_thumbnail_def t thumbnail_metadata_def)
  show "thumbnail_seq (thumbnail_metadata p (newest_thumbnail d p)) \<le> as_u64 rv"
  proof (cases "newest_thumbnail d p")
    case None
    then show ?thesis by (simp add: thumbnail_metadata_def)
  next
    case (Some u)
    then have "u \<in> set (sort_key (\<lambda>t. - th_source_seq t) (thumbnails_of d p))"
      unfolding newest_thumbnail_def by (cases "sort_key (\<lambda>t. - th_source_seq t) (thumbnails_of d p)") simp_all
    then have "u \<in> set (thumbnails_of d p)" by simp
    then have "0 < th_source_seq u" "th_source_seq u \<le> pg_ink_revision row" using old by auto
    then have "as_u64 (th_source_seq u) \<le> as_u64 rv" using rv by (subst as_u64_le_iff) auto
    then show ?thesis using Some by (simp add: thumbnail_metadata_def)
  qed
qed

lemma edit_followed:
  assumes inv: "db_inv d" and clock: "clock_ahead owner env d" "times_compare owner env d"
    and ed: "edited env d p rv d'" and row: "page_row d p = Some row" "pg_owner_id row = owner"
  shows "fold apply_library_event_to_pages
      [PageUpdated p (env_rfc3339 env (env_now env)), PageThumbnailUpdated p (Thumb_Generating (as_u64 rv))]
      (listing owner env d) = listing owner env d'"
proof -
  let ?new = "row\<lparr>pg_updated_at := env_now env, pg_ink_revision := rv\<rparr>"
  have pages': "pages d' = map (\<lambda>r. if pg_id r = p
      then r\<lparr>pg_updated_at := env_now env, pg_ink_revision := rv\<rparr> else r) (pages d)"
    using ed by (auto simp: edited_def)
  have thumbs: "thumbnails_of d' q = thumbnails_of d q" if "q \<noteq> p" for q
    using ed that by (auto simp: edited_def)
  have id: "pg_id row = p" and mem: "row \<in> set (owned owner d)"
    using row by (auto simp: page_row_def find_Some_iff owned_def)
  have "distinct (map pg_id (owned owner d))" using inv by (simp add: db_inv_def owned_def distinct_map_filter)
  then obtain xs zs where rows: "owned owner d = xs @ row # zs"
    and rest: "filter (\<lambda>r. pg_id r \<noteq> p) (owned owner d) = xs @ zs" and out: "p \<notin> pg_id ` set (xs @ zs)"
    using split_unique [OF _ mem, of pg_id] by (auto simp: id)
  have "owned owner d' = map (\<lambda>r. if pg_id r = p
      then r\<lparr>pg_updated_at := env_now env, pg_ink_revision := rv\<rparr> else r) (owned owner d)"
    unfolding owned_def pages' filter_map by (auto simp: comp_def intro: filter_cong)
  also have "\<dots> = xs @ ?new # zs"
    using out by (auto simp: rows id intro!: map_idI)
  finally have rows': "owned owner d' = xs @ ?new # zs" .
  have "sort_key list_key (xs @ ?new # zs) = ?new # sort_key list_key (xs @ zs)"
    by (rule sort_key_front) (use clock(1) in \<open>auto simp: clock_ahead_def rows intro!: list_key_less\<close>)
  then have listing': "listing owner env d' = listed env d' ?new # map (listed env d) (sort_key list_key (xs @ zs))"
    using out by (auto simp: listing_def rows' intro!: listed_cong thumbs)
  let ?s = "listed env d row"
  have s: "ps_id ?s = p" "?s \<in> set (listing owner env d)" using mem by (auto simp: id listing_def)
  obtain as bs where items: "listing owner env d = as @ ?s # bs"
    and rest_items: "filter (\<lambda>s. ps_id s \<noteq> p) (listing owner env d) = as @ bs" and out_items: "p \<notin> ps_id ` set (as @ bs)"
    using split_unique [OF listing_distinct [OF inv] s(2)] unfolding s(1) by blast
  have "p \<notin> ps_id ` set as" using out_items by auto
  note here = find_split [OF s(1) this] update_first_split [OF s(1) this]
  let ?s' = "?s\<lparr>ps_updated_at := env_rfc3339 env (env_now env)\<rparr>"
  have "\<not> str_le (env_rfc3339 env (env_now env)) (ps_updated_at ?s)"
    using listing_older [OF clock s(2)] by (simp add: str_le_def)
  then have "apply_library_event_to_pages (PageUpdated p (env_rfc3339 env (env_now env))) (listing owner env d) =
      sort_pages_recent_first (as @ ?s' # bs)"
    by (simp add: items here)
  also have "\<dots> = ?s' # as @ bs"
  proof (rule newest_to_front)
    have "sorted_wrt recent_first (filter (\<lambda>s. ps_id s \<noteq> p) (listing owner env d))"
      using listing_sorted [OF clock(2)] by (rule sorted_wrt_filter)
    then show "sorted_wrt recent_first (as @ bs)" by (simp only: rest_items)
    show "\<forall>x\<in>set (as @ bs). str_less (ps_updated_at x) (ps_updated_at ?s')"
      using listing_older [OF clock] by (auto simp: items)
  qed
  finally have step1: "apply_library_event_to_pages (PageUpdated p (env_rfc3339 env (env_now env))) (listing owner env d) = ?s' # as @ bs" .
  have "ps_thumbnail ?s' = thumbnail_metadata p (newest_thumbnail d p)"
    by (simp add: listed_def page_summary_def id)
  then have "apply_library_event_to_pages (PageThumbnailUpdated p (Thumb_Generating (as_u64 rv))) (?s' # as @ bs) =
      ?s'\<lparr>ps_thumbnail := Thumb_Generating (as_u64 rv)\<rparr> # as @ bs"
    using edited_thumbnail(2) [OF inv ed] s(1) by simp
  also have "?s'\<lparr>ps_thumbnail := Thumb_Generating (as_u64 rv)\<rparr> = listed env d' ?new"
    using edited_thumbnail(1) [OF inv ed] by (simp add: listed_def page_summary_def id)
  finally have step2: "apply_library_event_to_pages (PageThumbnailUpdated p (Thumb_Generating (as_u64 rv)))
      (?s' # as @ bs) = listed env d' ?new # as @ bs" .
  have rest_eq: "as @ bs = map (listed env d) (sort_key list_key (xs @ zs))"
    unfolding rest_items [symmetric] listing_without rest ..
  show ?thesis unfolding fold_simps step1 step2 listing' by (simp only: rest_eq)
qed

text \<open>The page of another owner: nothing of this library changes, and no event is sent to it.\<close>

lemma edit_elsewhere:
  assumes ed: "edited env d p rv d'" and row: "page_row d p = Some row" "pg_owner_id row \<noteq> owner"
    and distinct: "distinct (map pg_id (pages d))"
  shows "listing owner env d' = listing owner env d"
proof -
  have pages': "pages d' = map (\<lambda>r. if pg_id r = p
      then r\<lparr>pg_updated_at := env_now env, pg_ink_revision := rv\<rparr> else r) (pages d)"
    using ed by (auto simp: edited_def)
  have thumbs: "thumbnails_of d' q = thumbnails_of d q" if "q \<noteq> p" for q
    using ed that by (auto simp: edited_def)
  have mem: "row \<in> set (pages d)" "pg_id row = p" using row(1) by (auto simp: page_row_def find_Some_iff)
  have other: "pg_owner_id r \<noteq> owner" if "r \<in> set (pages d)" "pg_id r = p" for r
    using row(2) mem that distinct by (metis distinct_map inj_onD)
  let ?F = "\<lambda>r. if pg_id r = p then r\<lparr>pg_updated_at := env_now env, pg_ink_revision := rv\<rparr> else r"
  have "filter ((\<lambda>row. pg_owner_id row = owner) \<circ> ?F) (pages d) = owned owner d"
    unfolding owned_def by (rule filter_cong) auto
  moreover have "map ?F (owned owner d) = owned owner d"
    by (rule map_idI) (use other in \<open>auto simp: owned_def\<close>)
  ultimately have owned': "owned owner d' = owned owner d"
    unfolding owned_def pages' filter_map by (simp add: owned_def)
  have "listed env d' r = listed env d r" if "r \<in> set (owned owner d)" for r
    by (rule listed_cong, rule thumbs) (use that other in \<open>auto simp: owned_def\<close>)
  then show ?thesis by (simp add: listing_def owned')
qed

text \<open>Adding strokes and deleting strokes are such edits.\<close>

lemma edited_add_job:
  assumes inv: "db_inv d" and row: "page_row d p = Some row" and below: "pg_ink_revision row < i64_max"
    and d1: "pages d1 = pages d" "page_thumbnails d1 = page_thumbnails d"
    and f: "\<And>r. r \<in> set (pages d) \<Longrightarrow> pg_id r = p \<Longrightarrow>
      f r = r\<lparr>pg_updated_at := env_now env, pg_ink_revision := pg_ink_revision row + 1\<rparr>"
  shows "edited env d p (pg_ink_revision row + 1)
    (add_job (env_now env) p (pg_ink_revision row + 1) paper (update_page f p d1))"
proof -
  let ?d = "add_job (env_now env) p (pg_ink_revision row + 1) paper (update_page f p d1)"
  have "thumbnails_of (update_page f p d1) q = thumbnails_of d q" for q
    by (simp add: thumbnails_of_def update_page_def d1)
  then have thumbs: "thumbnails_of ?d q = thumbnails_of d q @ (if p = q then
      [\<lparr>th_page_id = p, th_source_seq = pg_ink_revision row + 1, th_status = ''generating'',
        th_png = None, th_created_at = env_now env, th_paper = paper\<rparr>] else [])" for q
    by (simp add: add_job_views(5))
  have "pages ?d = map (\<lambda>r. if pg_id r = p
      then r\<lparr>pg_updated_at := env_now env, pg_ink_revision := pg_ink_revision row + 1\<rparr> else r) (pages d)"
    using f by (simp add: add_job_views(6) update_page_def d1)
  with row below show ?thesis unfolding edited_def by (simp add: thumbs)
qed

lemma the_row: "db_inv d \<Longrightarrow> page_row d p = Some row \<Longrightarrow> r \<in> set (pages d) \<Longrightarrow> pg_id r = p \<Longrightarrow> r = row"
proof -
  assume "db_inv d" "page_row d p = Some row" and r: "r \<in> set (pages d)" "pg_id r = p"
  then have "inj_on pg_id (set (pages d))" "row \<in> set (pages d)" "pg_id row = p"
    by (auto simp: db_inv_def distinct_map page_row_def find_Some_iff)
  with r show "r = row" by (metis inj_onD)
qed

section \<open>What the server announces\<close>

text \<open>The events of a committed mutation: what \<open>announce_edit\<close> sends to the owner's library.\<close>

definition library_events :: "string \<Rightarrow> string option \<Rightarrow> bool \<Rightarrow> u64 \<Rightarrow> LibraryEvent list" where
  "library_events p edited_at job revision =
     (case edited_at of None \<Rightarrow> [] | Some t \<Rightarrow> [PageUpdated p t]) @
     (if job then [PageThumbnailUpdated p (Thumb_Generating revision)] else [])"

lemma announce_edit_events:
  "library_sent (sv_hub (announce_edit ctx u t j rv sv)) v = library_sent (sv_hub sv) v @
     (if v = u then library_events (cx_page_id ctx) t j rv else [])"
  by (simp add: announce_edit_library library_events_def)

text \<open>A mutation either announces nothing and leaves every library, or is an edit.\<close>

definition announced :: "dbenv \<Rightarrow> db \<Rightarrow> string \<Rightarrow> db \<Rightarrow> string \<Rightarrow> LibraryEvent list \<Rightarrow> bool" where
  "announced env d p d' owner evs \<longleftrightarrow>
     evs = [] \<and> (\<forall>u. listing u env d' = listing u env d) \<or>
     (\<exists>row rv. page_row d p = Some row \<and> pg_owner_id row = owner \<and> edited env d p rv d' \<and>
        evs = [PageUpdated p (env_rfc3339 env (env_now env)),
          PageThumbnailUpdated p (Thumb_Generating (as_u64 rv))])"

lemma batch_announced:
  assumes inv: "db_inv d" and op: "persist_batch env d p cid strokes = Inr (r, d')"
  shows "announced env d p d' (pb_owner_id r)
    (library_events p (pb_updated_at r) (pb_thumbnail_job_created r) (pb_revision r))"
  using op
proof (cases rule: persist_batch_cases)
  case (inserted row job)
  note row = inserted(1)
  note ok = view_okD [OF inv row]
  have below: "pg_ink_revision row < i64_max" by (rule inserted_below [OF inv row inserted(5)])
  have rv: "wrap_i64 (pg_ink_revision row + 1) = pg_ink_revision row + 1"
    by (rule wrap_i64_succ [OF ok(1) below])
  have fresh: "wrap_i64 (pg_ink_revision row + 1) \<notin> set (map th_source_seq (thumbnails_of d p))"
    unfolding rv by (rule thumbnails_ok_fresh [OF ok(6)]) simp
  have "edited env d p (pg_ink_revision row + 1) d'"
    unfolding inserted(6) after_batch_eq [OF fresh] Let_def rv
    by (rule edited_add_job [OF inv row below]) simp_all
  then show ?thesis
    using inserted(8) fresh row unfolding announced_def
    by (auto simp: inserted(7) rv library_events_def)
qed (simp_all add: announced_def library_events_def)

lemma tombstones_announced:
  assumes inv: "db_inv d" and op: "persist_tombstones env d p mid ids = Inr (r, d')"
  shows "announced env d p d' (pt_owner_id r)
    (library_events p (pt_updated_at r) (pt_thumbnail_job_created r) (pt_revision r))"
  using op
proof (cases rule: persist_tombstones_cases)
  case (vacuous row)
  have "listing u env d' = listing u env d" for u
    by (simp add: vacuous(4) listing_def owned_def listed_def [abs_def] newest_thumbnail_def thumbnails_of_def)
  then show ?thesis by (simp add: announced_def library_events_def vacuous(5))
next
  case (deleted row job)
  note row = deleted(1)
  note ok = view_okD [OF inv row]
  have below: "pg_ink_revision row < i64_max" using ok(2) deleted(4) by simp
  have rv: "wrap_i64 (pg_ink_revision row + 1) = pg_ink_revision row + 1"
    by (rule wrap_i64_succ [OF ok(1) below])
  have fresh: "wrap_i64 (pg_ink_revision row + 1) \<notin> set (map th_source_seq (thumbnails_of d p))"
    unfolding rv by (rule thumbnails_ok_fresh [OF ok(6)]) simp
  have "edited env d p (pg_ink_revision row + 1) d'"
    unfolding deleted(5) after_delete_eq [OF fresh] Let_def rv
    by (rule edited_add_job [OF inv row below]) (auto dest: the_row [OF inv row])
  then show ?thesis
    using deleted(7) fresh row unfolding announced_def
    by (auto simp: deleted(6) rv library_events_def)
qed (simp add: announced_def library_events_def)

lemma announced_followed:
  assumes inv: "db_inv d" and clock: "clock_ahead u env d" "times_compare u env d"
    and an: "announced env d p d' owner evs"
  shows "fold apply_library_event_to_pages (if u = owner then evs else []) (listing u env d) = listing u env d'"
  using an unfolding announced_def
proof (elim disjE exE conjE)
  fix row rv
  assume row: "page_row d p = Some row" "pg_owner_id row = owner" and ed: "edited env d p rv d'"
    and evs: "evs = [PageUpdated p (env_rfc3339 env (env_now env)), PageThumbnailUpdated p (Thumb_Generating (as_u64 rv))]"
  have "distinct (map pg_id (pages d))" using inv by (simp add: db_inv_def)
  from edit_elsewhere [OF ed row(1) _ this] edit_followed [OF inv clock ed row(1)] row(2)
  show ?thesis by (cases "u = owner") (simp_all only: if_True if_False evs fold_simps simp_thms)
qed simp

section \<open>A library over time\<close>

text \<open>A committed change, the user whose library is told, and the events: of the two page routes and
  the two mutations of ink.\<close>

inductive library_change :: "dbenv \<Rightarrow> db \<Rightarrow> string \<Rightarrow> LibraryEvent list \<Rightarrow> db \<Rightarrow> bool" where
  created: "insert_page p owner title paper env d = Inr (page, d') \<Longrightarrow>
    library_change env d owner [PageCreated page] d'"
| deleted: "delete_statement owner p env d = Inr (n, d') \<Longrightarrow> n \<noteq> 0 \<Longrightarrow>
    library_change env d owner [PageDeleted p] d'"
| strokes: "persist_batch env d p cid strokes = Inr (r, d') \<Longrightarrow>
    library_change env d (pb_owner_id r)
      (library_events p (pb_updated_at r) (pb_thumbnail_job_created r) (pb_revision r)) d'"
| erased: "persist_tombstones env d p mid ids = Inr (r, d') \<Longrightarrow>
    library_change env d (pt_owner_id r)
      (library_events p (pt_updated_at r) (pt_thumbnail_job_created r) (pt_revision r)) d'"

text \<open>The events one user's library is sent over a sequence of changes.\<close>

inductive library_run :: "(int \<Rightarrow> string) \<Rightarrow> string \<Rightarrow> db \<Rightarrow> LibraryEvent list \<Rightarrow> db \<Rightarrow> bool"
  for rfc :: "int \<Rightarrow> string" and u :: string where
  idle: "library_run rfc u d [] d"
| change: "env_rfc3339 env = rfc \<Longrightarrow> clock_ahead u env d \<Longrightarrow> times_compare u env d \<Longrightarrow>
    library_change env d owner evs d' \<Longrightarrow> library_run rfc u d' evs' d'' \<Longrightarrow>
    library_run rfc u d ((if u = owner then evs else []) @ evs') d''"

lemma create_elsewhere:
  assumes inv: "db_inv d" and op: "insert_page p owner title paper env d = Inr (page, d')" and "owner \<noteq> u"
  shows "listing u env d' = listing u env d"
proof -
  obtain row where "pg_owner_id row = owner" and d': "d' = d\<lparr>pages := pages d @ [row]\<rparr>"
    using op by (rule insert_page_Inr)
  with assms(3) have "owned u d' = owned u d" by (simp add: owned_def)
  then show ?thesis
    by (simp add: listing_def listed_def [abs_def] newest_thumbnail_def thumbnails_of_def d')
qed

lemma delete_elsewhere:
  assumes inv: "db_inv d" and op: "delete_statement owner p env d = Inr (n, d')" "n \<noteq> 0" and "owner \<noteq> u"
  shows "listing u env d' = listing u env d"
  using op(1)
proof (cases rule: delete_Inr)
  case (deleted r)
  have thumbs': "page_thumbnails d' = filter (\<lambda>t. th_page_id t \<noteq> p) (page_thumbnails d)"
    using op unfolding delete_statement_def run_query_Inr Let_def by (auto split: if_splits)
  have rows: "owned u d' = owned u d"
    unfolding owned_def deleted(5) filter_filter by (rule filter_cong) (use assms(4) in auto)
  have "pg_id q \<noteq> p" if "q \<in> set (owned u d)" for q
  proof
    assume "pg_id q = p"
    moreover have "q \<in> set (pages d)" "pg_owner_id q = u" using that by (auto simp: owned_def)
    moreover have "inj_on pg_id (set (pages d))" using inv by (simp add: db_inv_def distinct_map)
    ultimately have "q = r" using deleted(2,3) by (metis inj_onD)
    with \<open>pg_owner_id q = u\<close> deleted(4) assms(4) show False by simp
  qed
  then have "th_page_id t \<noteq> p \<and> th_page_id t = pg_id q \<longleftrightarrow> th_page_id t = pg_id q" if "q \<in> set (owned u d)" for t :: ThumbnailRow and q
    using that by metis
  then have "listed env d' q = listed env d q" if "q \<in> set (owned u d)" for q
    by (intro listed_cong) (use that in \<open>simp add: thumbnails_of_def thumbs'\<close>)
  then show ?thesis by (simp add: listing_def rows)
qed (use op(2) in simp)

lemma library_change_followed:
  assumes step: "library_change env d owner evs d'" and inv: "db_inv d"
    and clock: "clock_ahead u env d" "times_compare u env d"
  shows "fold apply_library_event_to_pages (if u = owner then evs else []) (listing u env d) = listing u env d'"
  using step
proof cases
  case (created p title paper page)
  note follow = create_followed [OF inv _ _ created(2)] and other = create_elsewhere [OF inv created(2)]
  show ?thesis
    using follow clock other by (cases "u = owner") (simp_all only: created(1) if_True if_False fold_simps simp_thms)
next
  case (deleted p n)
  note follow = delete_followed [OF inv deleted(2,3)] and other = delete_elsewhere [OF inv deleted(2,3)]
  show ?thesis
    using follow other by (cases "u = owner") (simp_all only: deleted(1) if_True if_False fold_simps simp_thms)
next
  case (strokes p cid ss r)
  show ?thesis
    unfolding strokes(1,2) by (rule announced_followed [OF inv clock batch_announced [OF inv strokes(3)]])
next
  case (erased p mid ids r)
  show ?thesis
    unfolding erased(1,2) by (rule announced_followed [OF inv clock tombstones_announced [OF inv erased(3)]])
qed

lemma library_change_inv: "library_change env d owner evs d' \<Longrightarrow> db_inv d \<Longrightarrow> db_inv d'"
  by (cases rule: library_change.cases, assumption)
    (blast intro: insert_page_inv delete_inv persist_batch_inv persist_tombstones_inv)+

lemma listing_env: "env_rfc3339 env = env_rfc3339 env' \<Longrightarrow> listing u env d = listing u env' d"
  by (simp add: listing_def listed_def [abs_def] page_summary_def)

text \<open>
  A library keeps equal to the server's: whoever loads their pages and then applies the events of
  every change that commits, in that order, has at each moment the list the server would give them, in
  the same order, with the same edit times and the same thumbnail states. The events of a change go to the
  owner of the page only, and a change to somebody else's page leaves the list as it is. The timestamps
  are taken to compare as the times they stand for, and the database's clock to move on with every edit.
\<close>

lemma run_followed:
  assumes "library_run (env_rfc3339 env) u d evs d'" "db_inv d"
  shows "fold apply_library_event_to_pages evs (listing u env d) = listing u env d'"
  using assms
proof (induction rule: library_run.induct)
  case (change env1 d owner evs d' evs' d'')
  have same: "listing u env1 d = listing u env d" for d by (rule listing_env [OF change.hyps(1)])
  show ?case
    using library_change_followed [OF change.hyps(4) change.prems change.hyps(2,3)]
      change.IH [OF library_change_inv [OF change.hyps(4) change.prems]]
    by (simp add: same fold_append)
qed simp

definition sync_env :: dbenv where
  "sync_env = \<lparr>env_fault = (\<lambda>_. False), env_now = 1, env_rfc3339 = (\<lambda>t. if t \<le> 0 then ''a'' else ''b''),
     env_collation_key = id\<rparr>"

text \<open>One such run: a page is created.\<close>

lemma created_run:
  obtains page d' where
    "insert_page ''q'' ''u'' ''new'' paper_default sync_env example_db = Inr (page, d')"
    "library_run (env_rfc3339 sync_env) ''u'' example_db [PageCreated page] d'"
    "map ps_id (listing ''u'' sync_env d') = [''q'', ''p'']" "map ps_id (listing ''u'' sync_env example_db) = [''p'']"
proof -
  obtain page d' where op: "insert_page ''q'' ''u'' ''new'' paper_default sync_env example_db = Inr (page, d')"
    and ids: "map ps_id (listing ''u'' sync_env d') = [''q'', ''p'']" "map ps_id (listing ''u'' sync_env example_db) = [''p'']"
    by (simp add: insert_page_def run_query_def sync_env_def example_db_def example_row_def listing_def
        owned_def listed_def page_summary_def list_key_def)
  have "owned ''u'' example_db = [example_row]" by (simp add: owned_def example_db_def example_row_def)
  then have "clock_ahead ''u'' sync_env example_db" "times_compare ''u'' sync_env example_db"
    by (auto simp: clock_ahead_def times_compare_def example_row_def sync_env_def)
  from change [OF refl this created [OF op] idle]
  have "library_run (env_rfc3339 sync_env) ''u'' example_db [PageCreated page] d'" by simp
  from that [OF op this ids] show thesis .
qed

end
