(* ===== verification/Shell.thy ===== *)
theory Shell
  imports Library
begin

text \<open>
  The shell of the web client: navigation by the address bar (\<open>frontend/src/route.rs\<close>), the app's
  signals with their effects (\<open>App\<close> of \<open>frontend/src/main.rs\<close>), and what the library's events and answers
  do to them (\<open>frontend/src/library.rs\<close>, \<open>load_pages\<close> of \<open>frontend/src/api.rs\<close>).

  The history of the document is what lies behind the current entry, nearest first, the entry itself, and
  what lies ahead. \<open>history.back()\<close> only asks for a traversal, which the browser does later.
\<close>

section \<open>Routes\<close>

definition PAGE_PREFIX :: string where "PAGE_PREFIX = ''/p/''"
definition RETURN_TO_KEY :: string where "RETURN_TO_KEY = ''v-note:return-to''"

datatype Route = RouteLibrary | RoutePage string

datatype Leave = Popping | Rewrote

definition strip_prefix :: "string \<Rightarrow> string \<Rightarrow> string option" where
  "strip_prefix pat s = (if prefix pat s then Some (drop (length pat) s) else None)"

text \<open>\<open>split(['?', '#']).next()\<close> is what comes before the first of the two.\<close>

definition route_from_path :: "string \<Rightarrow> Route" where
  "route_from_path path =
     (let path = trim_end_char (CHR ''/'') (takeWhile (\<lambda>c. c \<notin> {CHR ''?'', CHR ''#''}) path)
      in case strip_prefix (trim_end_char (CHR ''/'') PAGE_PREFIX) path of
           Some rest \<Rightarrow> (case strip_prefix ''/'' rest of
             Some page_id \<Rightarrow>
               if page_id \<noteq> [] \<and> CHR ''/'' \<notin> set page_id then RoutePage page_id else RouteLibrary
           | None \<Rightarrow> RouteLibrary)
         | None \<Rightarrow> RouteLibrary)"

fun path_for_route :: "Route \<Rightarrow> string" where
  "path_for_route RouteLibrary = ''/''"
| "path_for_route (RoutePage page_id) = PAGE_PREFIX @ page_id"

section \<open>The browser\<close>

record Browser =
  br_behind :: "string list"
  br_here :: string
  br_ahead :: "string list"
  br_storage :: "(string \<rightharpoonup> string) option"
  br_navigated :: bool
  br_backs :: nat

definition current_route :: "Browser \<Rightarrow> Route" where
  "current_route b = route_from_path (br_here b)"

definition push :: "Route \<Rightarrow> Browser \<Rightarrow> Browser" where
  "push route b = b\<lparr>br_behind := br_here b # br_behind b, br_here := path_for_route route, br_ahead := [],
     br_navigated := True\<rparr>"

definition replace_route :: "Route \<Rightarrow> Browser \<Rightarrow> Browser" where
  "replace_route route b = b\<lparr>br_here := path_for_route route\<rparr>"

definition note_popstate :: "Browser \<Rightarrow> Browser" where
  "note_popstate b = b\<lparr>br_navigated := True\<rparr>"

definition leave_page :: "Browser \<Rightarrow> Leave \<times> Browser" where
  "leave_page b =
     (if br_navigated b then (Popping, b\<lparr>br_backs := br_backs b + 1\<rparr>)
      else (Rewrote, replace_route RouteLibrary b))"

definition remember_return_route :: "Browser \<Rightarrow> Browser" where
  "remember_return_route b = (case current_route b of
     RouteLibrary \<Rightarrow> b
   | RoutePage page_id \<Rightarrow> (case br_storage b of
       None \<Rightarrow> b
     | Some store \<Rightarrow> b\<lparr>br_storage := Some (store(RETURN_TO_KEY \<mapsto> path_for_route (RoutePage page_id)))\<rparr>))"

definition take_return_route :: "Browser \<Rightarrow> Route option \<times> Browser" where
  "take_return_route b = (case br_storage b of
     None \<Rightarrow> (None, b)
   | Some store \<Rightarrow> (case store RETURN_TO_KEY of
       None \<Rightarrow> (None, b)
     | Some path \<Rightarrow>
         (case route_from_path path of RoutePage page_id \<Rightarrow> Some (RoutePage page_id) | RouteLibrary \<Rightarrow> None,
          b\<lparr>br_storage := Some (store(RETURN_TO_KEY := None))\<rparr>)))"

definition initial_route :: "Browser \<Rightarrow> Route \<times> Browser" where
  "initial_route b = (case current_route b of
     RouteLibrary \<Rightarrow> (case take_return_route b of
       (Some route, b) \<Rightarrow> (route, replace_route route b)
     | (None, b) \<Rightarrow> (RouteLibrary, b))
   | RoutePage page_id \<Rightarrow> (RoutePage page_id, b))"

text \<open>A traversal within the document. Behind its first entry lies another page: \<open>None\<close>.\<close>

definition go_back :: "Browser \<Rightarrow> Browser option" where
  "go_back b = (case br_behind b of
     [] \<Rightarrow> None
   | path # rest \<Rightarrow> Some (b\<lparr>br_behind := rest, br_here := path, br_ahead := br_here b # br_ahead b\<rparr>))"

definition go_forward :: "Browser \<Rightarrow> Browser option" where
  "go_forward b = (case br_ahead b of
     [] \<Rightarrow> None
   | path # rest \<Rightarrow> Some (b\<lparr>br_behind := br_here b # br_behind b, br_here := path, br_ahead := rest\<rparr>))"

section \<open>The app\<close>

type_synonym Session = "(nat + MeResponse) option"

record App =
  ap_browser :: Browser
  ap_me :: Session
  ap_pages :: "PageSummary list"
  ap_selected :: "PageSummary option"
  ap_library_error :: "string option"
  ap_route_notice :: "string option"
  ap_pending :: "string option"
  ap_loaded :: bool

definition signed_out :: "nat \<Rightarrow> bool" where
  "signed_out status \<longleftrightarrow> status = 401 \<or> status = 403"

definition signed_in :: "Session \<Rightarrow> bool" where
  "signed_in me = (case me of Some (Inr _) \<Rightarrow> True | _ \<Rightarrow> False)"

definition app_start :: "Browser \<Rightarrow> App" where
  "app_start b =
     (let (route, b) = initial_route b
      in \<lparr>ap_browser = b, ap_me = None, ap_pages = [], ap_selected = None, ap_library_error = None,
          ap_route_notice = None,
          ap_pending = (case route of RoutePage page_id \<Rightarrow> Some page_id | RouteLibrary \<Rightarrow> None),
          ap_loaded = False\<rparr>)"

definition find_page :: "string \<Rightarrow> PageSummary list \<Rightarrow> PageSummary option" where
  "find_page page_id items = List.find (\<lambda>p. ps_id p = page_id) items"

definition show_page_id :: "string \<Rightarrow> App \<Rightarrow> App" where
  "show_page_id page_id a = (case find_page page_id (ap_pages a) of
     Some page \<Rightarrow> a\<lparr>ap_pending := None, ap_selected := Some page\<rparr>
   | None \<Rightarrow> a\<lparr>ap_selected := None, ap_pending := Some page_id\<rparr>)"

definition NOT_IN_LIBRARY :: string where "NOT_IN_LIBRARY = ''That page is not in your library.''"

text \<open>The effects that run after a signal changed: the one that resolves a pending id, and the one that
  drops the notice once a page is open.\<close>

definition resolve_pending :: "App \<Rightarrow> App" where
  "resolve_pending a = (case ap_pending a of
     None \<Rightarrow> a
   | Some page_id \<Rightarrow> (case find_page page_id (ap_pages a) of
       Some page \<Rightarrow> a\<lparr>ap_pending := None, ap_selected := Some page\<rparr>
     | None \<Rightarrow>
         if ap_loaded a
         then a\<lparr>ap_pending := None, ap_browser := replace_route RouteLibrary (ap_browser a),
                ap_route_notice := Some NOT_IN_LIBRARY\<rparr>
         else a))"

definition drop_notice :: "App \<Rightarrow> App" where
  "drop_notice a = (if ap_selected a \<noteq> None then a\<lparr>ap_route_notice := None\<rparr> else a)"

definition run_effects :: "App \<Rightarrow> App" where
  "run_effects a = drop_notice (resolve_pending a)"

text \<open>The \<open>popstate\<close> listener, which runs in the entry the browser moved to.\<close>

definition on_popstate :: "App \<Rightarrow> App" where
  "on_popstate a =
     (let a = a\<lparr>ap_browser := note_popstate (ap_browser a)\<rparr>
      in case current_route (ap_browser a) of
           RouteLibrary \<Rightarrow> a\<lparr>ap_pending := None, ap_selected := None\<rparr>
         | RoutePage page_id \<Rightarrow> show_page_id page_id a)"

text \<open>A tile opens the page it shows; the viewer's back control leaves it.\<close>

definition open_tile :: "PageSummary \<Rightarrow> App \<Rightarrow> App" where
  "open_tile page a =
     a\<lparr>ap_browser := push (RoutePage (ps_id page)) (ap_browser a), ap_selected := Some page\<rparr>"

definition close_viewer :: "App \<Rightarrow> App" where
  "close_viewer a = (case leave_page (ap_browser a) of
     (Rewrote, b) \<Rightarrow> a\<lparr>ap_browser := b, ap_selected := None\<rparr>
   | (Popping, b) \<Rightarrow> a\<lparr>ap_browser := b\<rparr>)"

definition close_if_open :: "string \<Rightarrow> App \<Rightarrow> App" where
  "close_if_open page_id a =
     (case ap_selected a of
        Some page \<Rightarrow>
          if ps_id page = page_id
          then a\<lparr>ap_selected := None, ap_browser := replace_route RouteLibrary (ap_browser a)\<rparr> else a
      | None \<Rightarrow> a)"

definition apply_event :: "LibraryEvent \<Rightarrow> App \<Rightarrow> App" where
  "apply_event event a =
     (let a = (case event of PageDeleted page_id \<Rightarrow> close_if_open page_id a | _ \<Rightarrow> a)
      in a\<lparr>ap_pages := apply_library_event_to_pages event (ap_pages a)\<rparr>)"

definition remove_page :: "string \<Rightarrow> App \<Rightarrow> App" where
  "remove_page page_id a =
     close_if_open page_id (a\<lparr>ap_pages := filter (\<lambda>p. ps_id p \<noteq> page_id) (ap_pages a)\<rparr>)"

definition pages_answered :: "string + PageSummary list \<Rightarrow> App \<Rightarrow> App" where
  "pages_answered answer a = (case answer of
     Inr items \<Rightarrow> a\<lparr>ap_pages := items, ap_loaded := True, ap_library_error := None\<rparr>
   | Inl error \<Rightarrow> a\<lparr>ap_library_error := Some error\<rparr>)"

definition delete_answered :: "string \<Rightarrow> string option \<Rightarrow> App \<Rightarrow> App" where
  "delete_answered page_id failure a = (case failure of
     None \<Rightarrow> (remove_page page_id a)\<lparr>ap_library_error := None\<rparr>
   | Some error \<Rightarrow> a\<lparr>ap_library_error := Some error\<rparr>)"

section \<open>What happens to it\<close>

text \<open>\<open>Reload\<close> is a new document in the same entry of the same tab, also what a signed-out user finds who
  comes back from the identity provider with the browser's Back; \<open>SignInClick\<close> is the moment before the
  browser leaves for it.\<close>

datatype AppEvent =
    SessionAnswered "nat + MeResponse"
  | PagesAnswered "string + PageSummary list"
  | LibraryMessage LibraryEvent
  | SocketLost string
  | OpenTile string
  | CloseViewer
  | DeleteAnswered string "string option"
  | BackArrives
  | UserBack
  | UserForward
  | SignInClick
  | Reload

fun app_step :: "AppEvent \<Rightarrow> App \<Rightarrow> App option" where
  "app_step (SessionAnswered answer) a = Some (run_effects (a\<lparr>ap_me := Some answer\<rparr>))"
| "app_step (PagesAnswered answer) a =
     Some (if signed_in (ap_me a) then run_effects (pages_answered answer a) else a)"
| "app_step (LibraryMessage event) a =
     Some (if ap_loaded a then run_effects ((apply_event event a)\<lparr>ap_library_error := None\<rparr>) else a)"
| "app_step (SocketLost error) a =
     Some (if signed_in (ap_me a) then run_effects (a\<lparr>ap_library_error := Some error\<rparr>) else a)"
| "app_step (OpenTile page_id) a =
     Some (case find_page page_id (ap_pages a) of
       Some page \<Rightarrow> if ap_selected a = None then run_effects (open_tile page a) else a
     | None \<Rightarrow> a)"
| "app_step CloseViewer a = Some (if ap_selected a \<noteq> None then run_effects (close_viewer a) else a)"
| "app_step (DeleteAnswered page_id failure) a = Some (run_effects (delete_answered page_id failure a))"
| "app_step BackArrives a =
     (let b = ap_browser a
      in if br_backs b = 0 then Some a
         else (case go_back (b\<lparr>br_backs := br_backs b - 1\<rparr>) of
                 None \<Rightarrow> None
               | Some b \<Rightarrow> Some (run_effects (on_popstate (a\<lparr>ap_browser := b\<rparr>)))))"
| "app_step UserBack a = (case go_back (ap_browser a) of
     None \<Rightarrow> None | Some b \<Rightarrow> Some (run_effects (on_popstate (a\<lparr>ap_browser := b\<rparr>))))"
| "app_step UserForward a = Some (case go_forward (ap_browser a) of
     None \<Rightarrow> a | Some b \<Rightarrow> run_effects (on_popstate (a\<lparr>ap_browser := b\<rparr>)))"
| "app_step SignInClick a = Some (a\<lparr>ap_browser := remember_return_route (ap_browser a)\<rparr>)"
| "app_step Reload a = Some (app_start ((ap_browser a)\<lparr>br_navigated := False, br_backs := 0\<rparr>))"

fun app_run :: "AppEvent list \<Rightarrow> App \<Rightarrow> App option" where
  "app_run [] a = Some a"
| "app_run (e # es) a = Option.bind (app_step e a) (app_run es)"

section \<open>Paths\<close>

definition safe_id :: "string \<Rightarrow> bool" where
  "safe_id page_id \<longleftrightarrow> page_id \<noteq> [] \<and> set page_id \<inter> {CHR ''/'', CHR ''?'', CHR ''#''} = {}"

fun safe_route :: "Route \<Rightarrow> bool" where
  "safe_route RouteLibrary = True"
| "safe_route (RoutePage page_id) = safe_id page_id"

lemma takeWhile_all: "\<forall>c \<in> set s. P c \<Longrightarrow> takeWhile P s = s"
  by (simp add: takeWhile_eq_all_conv)

lemma trim_end_char_clean: "s = [] \<or> last s \<noteq> c \<Longrightarrow> trim_end_char c s = s"
  by (cases s rule: rev_cases) (auto simp: trim_end_char_def)

lemma set_trim_end_char: "set (trim_end_char c s) \<subseteq> set s"
  by (auto simp: trim_end_char_def dest: set_dropWhileD)

lemma page_prefix_trimmed: "trim_end_char (CHR ''/'') PAGE_PREFIX = ''/p''"
  by (simp add: trim_end_char_def PAGE_PREFIX_def)

text \<open>The path of a route names that route.\<close>

lemma route_roundtrip: "safe_route route \<Longrightarrow> route_from_path (path_for_route route) = route"
proof (cases route)
  case (RoutePage page_id)
  assume "safe_route route"
  with RoutePage have id: "page_id \<noteq> []" "CHR ''/'' \<notin> set page_id" "CHR ''?'' \<notin> set page_id" "CHR ''#'' \<notin> set page_id"
    by (auto simp: safe_id_def)
  have path: "path_for_route route = ''/p/'' @ page_id" by (simp add: RoutePage PAGE_PREFIX_def)
  have cut: "takeWhile (\<lambda>c. c \<notin> {CHR ''?'', CHR ''#''}) (''/p/'' @ page_id) = ''/p/'' @ page_id"
    by (rule takeWhile_all) (use id in auto)
  have "last page_id \<noteq> CHR ''/''" using id last_in_set by metis
  then have trim: "trim_end_char (CHR ''/'') (''/p/'' @ page_id) = ''/p/'' @ page_id"
    using id by (intro trim_end_char_clean) simp
  show ?thesis
    unfolding path route_from_path_def page_prefix_trimmed Let_def cut trim
    using id by (simp add: RoutePage strip_prefix_def)
qed (simp add: route_from_path_def page_prefix_trimmed Let_def strip_prefix_def trim_end_char_def)

lemma route_from_path_safe: "safe_route (route_from_path path)"
proof -
  let ?path = "trim_end_char (CHR ''/'') (takeWhile (\<lambda>c. c \<notin> {CHR ''?'', CHR ''#''}) path)"
  have clean: "CHR ''?'' \<notin> set ?path \<and> CHR ''#'' \<notin> set ?path"
    using set_trim_end_char by (fastforce dest: set_takeWhileD)
  then show ?thesis
    unfolding route_from_path_def Let_def page_prefix_trimmed
    by (auto simp: strip_prefix_def safe_id_def split: option.split if_splits dest: in_set_dropD)
qed

lemma current_route_safe: "safe_route (current_route b)"
  by (simp add: current_route_def route_from_path_safe)

lemma current_route_replace [simp]: "safe_route route \<Longrightarrow> current_route (replace_route route b) = route"
  by (simp add: current_route_def replace_route_def route_roundtrip)

lemma current_route_push [simp]: "safe_route route \<Longrightarrow> current_route (push route b) = route"
  by (simp add: current_route_def push_def route_roundtrip)

lemma current_route_backs [simp]: "current_route (b\<lparr>br_backs := n\<rparr>) = current_route b"
  by (simp add: current_route_def)

section \<open>The screen and the address\<close>

text \<open>The route of what is on the screen: the open page, the page waited for, or the library.\<close>

definition shown :: "App \<Rightarrow> Route" where
  "shown a = (case ap_selected a of
     Some page \<Rightarrow> RoutePage (ps_id page)
   | None \<Rightarrow> (case ap_pending a of Some page_id \<Rightarrow> RoutePage page_id | None \<Rightarrow> RouteLibrary))"

lemma shown_fields [simp]:
  "shown (a\<lparr>ap_me := m\<rparr>) = shown a" "shown (a\<lparr>ap_library_error := e\<rparr>) = shown a"
  "shown (a\<lparr>ap_pages := items\<rparr>) = shown a" "shown (a\<lparr>ap_browser := b\<rparr>) = shown a"
  "shown (a\<lparr>ap_loaded := l\<rparr>) = shown a"
  by (simp_all add: shown_def cong: option.case_cong)

definition app_mid :: "App \<Rightarrow> bool" where
  "app_mid a \<longleftrightarrow> current_route (ap_browser a) = shown a \<and>
     (ap_selected a \<noteq> None \<longrightarrow> ap_pending a = None) \<and>
     (\<not> ap_loaded a \<longrightarrow> ap_pages a = []) \<and>
     (\<forall>p \<in> set (ap_pages a). safe_id (ps_id p))"

definition app_ok :: "App \<Rightarrow> bool" where
  "app_ok a \<longleftrightarrow> app_mid a \<and> (ap_loaded a \<longrightarrow> ap_pending a = None)"

lemma find_page_Some: "find_page page_id items = Some page \<Longrightarrow> ps_id page = page_id \<and> page \<in> set items"
  by (auto simp: find_page_def find_Some_iff)

lemma effects_ok: "app_mid a \<Longrightarrow> app_ok (run_effects a)"
  by (auto simp: run_effects_def drop_notice_def resolve_pending_def app_ok_def app_mid_def shown_def
      split: option.split dest!: find_page_Some)

lemma popstate_mid:
  assumes "\<not> ap_loaded a \<Longrightarrow> ap_pages a = []" "\<forall>p \<in> set (ap_pages a). safe_id (ps_id p)"
  shows "app_mid (on_popstate a)"
  using assms
  by (auto simp: on_popstate_def Let_def show_page_id_def app_mid_def shown_def note_popstate_def current_route_def
      split: Route.split option.split dest!: find_page_Some)

lemma take_return_route_here:
  "take_return_route b = (route, b') \<Longrightarrow> br_here b' = br_here b \<and> (case route of None \<Rightarrow> True | Some r \<Rightarrow> safe_route r)"
  using route_from_path_safe
  by (auto simp: take_return_route_def split: option.splits Route.splits) (metis safe_route.simps(2))+

lemma initial_route_current:
  assumes "initial_route b = (route, b')"
  shows "current_route b' = route"
proof (cases "current_route b")
  case RouteLibrary
  obtain owed b1 where take: "take_return_route b = (owed, b1)" by (cases "take_return_route b")
  note here = take_return_route_here [OF take]
  show ?thesis
  proof (cases owed)
    case None
    then have "route = RouteLibrary" "b' = b1" using assms by (simp_all add: initial_route_def RouteLibrary take)
    with here RouteLibrary show ?thesis by (simp add: current_route_def)
  next
    case (Some r)
    then have "route = r" "b' = replace_route r b1" using assms by (auto simp: initial_route_def RouteLibrary take)
    with here Some show ?thesis by simp
  qed
next
  case (RoutePage page_id)
  with assms show ?thesis by (simp add: initial_route_def)
qed

lemma start_mid: "app_mid (app_start b)"
  using initial_route_current [of b]
  by (cases "initial_route b") (auto simp: app_start_def app_mid_def shown_def split: Route.split)

lemma close_if_open_mid: "app_mid a \<Longrightarrow> app_mid (close_if_open page_id a)"
  by (auto simp: close_if_open_def app_mid_def shown_def split: option.split)

text \<open>What the server sends has ids that can stand in a path.\<close>

fun safe_event :: "AppEvent \<Rightarrow> bool" where
  "safe_event (PagesAnswered (Inr items)) \<longleftrightarrow> (\<forall>p \<in> set items. safe_id (ps_id p))"
| "safe_event (LibraryMessage (PageCreated page)) \<longleftrightarrow> safe_id (ps_id page)"
| "safe_event _ \<longleftrightarrow> True"

lemma event_ids:
  "ps_id ` set (apply_library_event_to_pages event items) \<subseteq>
     ps_id ` set items \<union> (case event of PageCreated page \<Rightarrow> {ps_id page} | _ \<Rightarrow> {})"
proof (cases event)
  case (PageThumbnailUpdated page_id thumbnail)
  let ?f = "\<lambda>p. if thumbnail_seq thumbnail \<ge> thumbnail_seq (ps_thumbnail p) then p\<lparr>ps_thumbnail := thumbnail\<rparr> else p"
  have "set (map ps_id (update_first page_id ?f items)) = set (map ps_id items)"
    by (subst update_first_ids) auto
  then show ?thesis by (simp add: PageThumbnailUpdated)
next
  case (PageUpdated page_id updated_at)
  have "set (map ps_id (update_first page_id (\<lambda>p. p\<lparr>ps_updated_at := updated_at\<rparr>) items)) = set (map ps_id items)"
    by (subst update_first_ids) auto
  then show ?thesis by (simp add: PageUpdated split: option.split)
qed auto

lemma event_safe:
  assumes "\<forall>p \<in> set items. safe_id (ps_id p)" "safe_event (LibraryMessage event)"
  shows "\<forall>p \<in> set (apply_library_event_to_pages event items). safe_id (ps_id p)"
proof
  fix p assume "p \<in> set (apply_library_event_to_pages event items)"
  then have "ps_id p \<in> ps_id ` set items \<union> (case event of PageCreated page \<Rightarrow> {ps_id page} | _ \<Rightarrow> {})"
    using event_ids [of event items] by auto
  then show "safe_id (ps_id p)" using assms by (auto split: LibraryEvent.splits)
qed

lemma app_mid_parts:
  assumes "app_mid a"
  shows "app_mid (a\<lparr>ap_me := m\<rparr>)" "app_mid (a\<lparr>ap_library_error := e\<rparr>)"
  using assms by (simp_all add: app_mid_def)

lemma close_if_open_fields [simp]:
  "ap_pages (close_if_open page_id a) = ap_pages a" "ap_loaded (close_if_open page_id a) = ap_loaded a"
  by (auto simp: close_if_open_def split: option.split)

lemma app_mid_pages:
  assumes "app_mid a" "\<forall>p \<in> set items. safe_id (ps_id p)" "\<not> ap_loaded a \<Longrightarrow> items = []"
  shows "app_mid (a\<lparr>ap_pages := items\<rparr>)"
  using assms by (simp add: app_mid_def)

lemma apply_event_mid:
  assumes "app_mid a" "ap_loaded a" "safe_event (LibraryMessage event)"
  shows "app_mid (apply_event event a)"
proof -
  define a1 where "a1 = (case event of PageDeleted page_id \<Rightarrow> close_if_open page_id a | _ \<Rightarrow> a)"
  have a1: "app_mid a1" "ap_loaded a1" "ap_pages a1 = ap_pages a"
    using assms(1,2) by (simp_all add: a1_def close_if_open_mid split: LibraryEvent.split)
  then have "\<forall>p \<in> set (apply_library_event_to_pages event (ap_pages a1)). safe_id (ps_id p)"
    by (intro event_safe) (use assms(3) a1(1) in \<open>simp_all add: app_mid_def\<close>)
  from app_mid_pages [OF a1(1) this] a1(2,3) show ?thesis
    unfolding apply_event_def Let_def a1_def [symmetric] by simp
qed

lemma delete_answered_mid: "app_mid a \<Longrightarrow> app_mid (delete_answered page_id failure a)"
  by (auto simp: delete_answered_def remove_page_def app_mid_def [of a] split: option.split
      intro!: app_mid_parts close_if_open_mid app_mid_pages)

lemma app_step_ok:
  assumes ok: "app_ok a" and safe: "safe_event e" and step: "app_step e a = Some a'"
  shows "app_ok a'"
proof -
  have mid: "app_mid a" using ok by (simp add: app_ok_def)
  have loaded: "\<not> ap_loaded a \<Longrightarrow> ap_pages a = []" and ids: "\<forall>p \<in> set (ap_pages a). safe_id (ps_id p)"
    using mid by (simp_all add: app_mid_def)
  have moved: "app_ok (run_effects (on_popstate (a\<lparr>ap_browser := b\<rparr>)))" for b
    by (rule effects_ok, rule popstate_mid) (use loaded ids in auto)
  show ?thesis
  proof (cases e)
    case (SessionAnswered answer)
    with step show ?thesis by (auto intro!: effects_ok app_mid_parts mid)
  next
    case (PagesAnswered answer)
    have "app_mid (pages_answered answer a)"
      using mid safe by (cases answer) (auto simp: PagesAnswered pages_answered_def app_mid_def)
    with step ok show ?thesis by (auto simp: PagesAnswered intro!: effects_ok split: if_splits)
  next
    case (LibraryMessage event)
    with step ok show ?thesis
      using apply_event_mid [OF mid] safe by (auto intro!: effects_ok app_mid_parts split: if_splits)
  next
    case (SocketLost error)
    with step ok show ?thesis by (auto intro!: effects_ok app_mid_parts mid split: if_splits)
  next
    case (OpenTile page_id)
    have "app_mid (open_tile page a)" if "find_page page_id (ap_pages a) = Some page" "ap_selected a = None" for page
    proof -
      have page: "page \<in> set (ap_pages a)" using find_page_Some [OF that(1)] by simp
      then have "ap_pages a \<noteq> []" by auto
      then have "ap_loaded a" using loaded by blast
      with page ids mid ok show ?thesis by (simp add: open_tile_def app_mid_def app_ok_def shown_def)
    qed
    with step ok show ?thesis by (auto simp: OpenTile intro!: effects_ok split: option.splits if_splits)
  next
    case CloseViewer
    have "app_mid (close_viewer a)" if "ap_selected a \<noteq> None"
      using mid that by (auto simp: close_viewer_def leave_page_def app_mid_def shown_def)
    with step ok show ?thesis by (auto simp: CloseViewer intro!: effects_ok split: if_splits)
  next
    case (DeleteAnswered page_id failure)
    with step show ?thesis by (auto intro!: effects_ok delete_answered_mid mid)
  next
    case BackArrives
    with step ok moved show ?thesis by (auto simp: Let_def split: if_splits option.splits)
  next
    case UserBack
    with step moved show ?thesis by (auto split: option.splits)
  next
    case UserForward
    with step ok moved show ?thesis by (auto split: option.splits)
  next
    case SignInClick
    then have "a' = a\<lparr>ap_browser := remember_return_route (ap_browser a)\<rparr>" using step by simp
    moreover have "current_route (remember_return_route b) = current_route b" for b
      by (auto simp: remember_return_route_def current_route_def split: Route.split option.split)
    ultimately show ?thesis using ok by (simp add: app_ok_def app_mid_def)
  next
    case Reload
    with step show ?thesis
      using start_mid by (auto simp: app_ok_def app_start_def Let_def case_prod_unfold)
  qed
qed

lemma app_run_ok:
  "app_ok a \<Longrightarrow> \<forall>e \<in> set es. safe_event e \<Longrightarrow> app_run es a = Some a' \<Longrightarrow> app_ok a'"
proof (induction es arbitrary: a)
  case (Cons e es)
  then obtain a1 where "app_step e a = Some a1" "app_run es a1 = Some a'" by (auto simp: bind_eq_Some_conv)
  with Cons app_step_ok show ?case by (metis list.set_intros(1,2))
qed simp

lemma start_ok: "app_ok (app_start b)"
  using start_mid by (simp add: app_ok_def app_start_def Let_def case_prod_unfold)

lemma screen_address:
  assumes "app_run es (app_start b) = Some a" "\<forall>e \<in> set es. safe_event e"
  shows "current_route (ap_browser a) =
      (case ap_selected a of
         Some page \<Rightarrow> RoutePage (ps_id page)
       | None \<Rightarrow> (case ap_pending a of Some page_id \<Rightarrow> RoutePage page_id | None \<Rightarrow> RouteLibrary))"
    and "ap_loaded a \<or> ap_selected a \<noteq> None \<Longrightarrow> ap_pending a = None"
  using app_run_ok [OF start_ok assms(2,1)] by (auto simp: app_ok_def app_mid_def shown_def)

text \<open>C23. The address bar names what is on the screen: after anything that happens, in any order - answers,
  library messages, tiles, the viewer's back control, Back and Forward, deletions, reloads - the current
  entry's path is that of the open page, of the page a deep link still waits for, or of the library; a
  page is never waited for once the library has answered. The ids the server sends can stand in a path.
\<close>

theorem address_names_screen:
  assumes "app_run es (app_start b) = Some a" "\<forall>e \<in> set es. safe_event e"
  shows "current_route (ap_browser a) =
      (case ap_selected a of
         Some page \<Rightarrow> RoutePage (ps_id page)
       | None \<Rightarrow> (case ap_pending a of Some page_id \<Rightarrow> RoutePage page_id | None \<Rightarrow> RouteLibrary)) \<and>
    (ap_loaded a \<or> ap_selected a \<noteq> None \<longrightarrow> ap_pending a = None)"
  using screen_address [OF assms] by blast

section \<open>Leaving the viewer\<close>

definition trail :: "Browser \<Rightarrow> string list" where
  "trail b = rev (br_behind b) @ br_here b # br_ahead b"

definition tidy :: "Browser \<Rightarrow> bool" where
  "tidy b \<longleftrightarrow> (\<forall>path \<in> set (butlast (trail b)). route_from_path path = RouteLibrary) \<and>
     (br_navigated b \<longrightarrow> 2 \<le> length (trail b))"

definition no_debt :: "Browser \<Rightarrow> bool" where
  "no_debt b = (case br_storage b of None \<Rightarrow> True | Some store \<Rightarrow> store RETURN_TO_KEY = None)"

definition calm :: "App \<Rightarrow> bool" where
  "calm a \<longleftrightarrow> tidy (ap_browser a) \<and> no_debt (ap_browser a)"

lemma trail_simps [simp]:
  "trail (b\<lparr>br_navigated := n\<rparr>) = trail b" "trail (b\<lparr>br_backs := k\<rparr>) = trail b"
  "trail (b\<lparr>br_here := path\<rparr>) = rev (br_behind b) @ path # br_ahead b"
  "go_back b = Some b' \<Longrightarrow> trail b' = trail b" "go_forward b = Some b' \<Longrightarrow> trail b' = trail b"
  by (auto simp: trail_def go_back_def go_forward_def split: list.splits)

lemma no_debt_simps [simp]:
  "no_debt (b\<lparr>br_navigated := n\<rparr>) = no_debt b" "no_debt (b\<lparr>br_backs := k\<rparr>) = no_debt b"
  "no_debt (replace_route route b) = no_debt b" "no_debt (push route b) = no_debt b"
  "go_back b = Some b' \<Longrightarrow> no_debt b' = no_debt b" "go_forward b = Some b' \<Longrightarrow> no_debt b' = no_debt b"
  by (auto simp: no_debt_def replace_route_def push_def go_back_def go_forward_def split: list.splits)

lemma tidy_backs [simp]: "tidy (b\<lparr>br_backs := k\<rparr>) = tidy b"
  by (simp add: tidy_def)

lemma tidy_replace: "tidy b \<Longrightarrow> tidy (replace_route RouteLibrary b)"
  using route_roundtrip [of RouteLibrary]
  by (auto simp: tidy_def replace_route_def trail_def butlast_append)

lemma tidy_push: "tidy b \<Longrightarrow> current_route b = RouteLibrary \<Longrightarrow> tidy (push route b)"
  by (cases "br_ahead b") (auto simp: tidy_def push_def trail_def butlast_append current_route_def)

lemma tidy_moved:
  assumes "tidy b" "go_back b = Some b' \<or> go_forward b = Some b'"
  shows "tidy (note_popstate b')"
proof -
  have "2 \<le> length (trail b')"
    using assms(2) by (auto simp: trail_def go_back_def go_forward_def split: list.splits)
  with assms show ?thesis by (auto simp: tidy_def note_popstate_def)
qed

lemma calm_effects: "calm a \<Longrightarrow> calm (run_effects a)"
  by (auto simp: calm_def run_effects_def drop_notice_def resolve_pending_def tidy_replace split: option.split)

lemma calm_close_if_open: "calm a \<Longrightarrow> calm (close_if_open page_id a)"
  by (auto simp: calm_def close_if_open_def tidy_replace split: option.split)

lemma calm_fields [simp]:
  "calm (a\<lparr>ap_me := m\<rparr>) = calm a" "calm (a\<lparr>ap_library_error := e\<rparr>) = calm a"
  "calm (a\<lparr>ap_pages := items\<rparr>) = calm a" "calm (a\<lparr>ap_loaded := l\<rparr>) = calm a"
  "calm (a\<lparr>ap_selected := s\<rparr>) = calm a" "calm (a\<lparr>ap_pending := q\<rparr>) = calm a"
  by (simp_all add: calm_def)

lemma calm_popstate:
  assumes "calm a" "go_back b = Some b' \<or> go_forward b = Some b'" "tidy b" "no_debt b"
  shows "calm (run_effects (on_popstate (a\<lparr>ap_browser := b'\<rparr>)))"
proof (rule calm_effects)
  have "tidy (note_popstate b')" "no_debt (note_popstate b')"
    using tidy_moved [OF assms(3,2)] assms(2,4) by (auto simp: note_popstate_def)
  then show "calm (on_popstate (a\<lparr>ap_browser := b'\<rparr>))"
    by (auto simp: on_popstate_def Let_def show_page_id_def calm_def split: Route.split option.split)
qed

lemma initial_route_no_debt: "no_debt b \<Longrightarrow> initial_route b = (current_route b, b)"
  by (auto simp: initial_route_def take_return_route_def no_debt_def split: Route.split option.split)

lemma calm_step:
  assumes ok: "app_ok a" and calm: "calm a" and e: "e \<noteq> SignInClick" "safe_event e" and step: "app_step e a = Some a'"
  shows "calm a'"
proof -
  have tidy: "tidy (ap_browser a)" "no_debt (ap_browser a)" using calm by (simp_all add: calm_def)
  have moved: "calm (run_effects (on_popstate (a\<lparr>ap_browser := b'\<rparr>)))"
    if "tidy b" "no_debt b" "go_back b = Some b' \<or> go_forward b = Some b'" for b b'
    by (rule calm_popstate [OF calm that(3,1,2)])
  show ?thesis
  proof (cases e)
    case (LibraryMessage event)
    with step calm show ?thesis
      by (auto simp: apply_event_def Let_def split: if_splits LibraryEvent.split intro!: calm_effects calm_close_if_open)
  next
    case (OpenTile page_id)
    have "calm (open_tile page a)" if "find_page page_id (ap_pages a) = Some page" "ap_selected a = None" for page
    proof -
      have "ap_pages a \<noteq> []" using find_page_Some [OF that(1)] by auto
      then have "current_route (ap_browser a) = RouteLibrary"
        using ok that(2) by (auto simp: app_ok_def app_mid_def shown_def)
      with calm show ?thesis by (simp add: open_tile_def calm_def tidy_push)
    qed
    with step calm show ?thesis by (auto simp: OpenTile intro!: calm_effects split: option.splits if_splits)
  next
    case CloseViewer
    have "calm (close_viewer a)"
      using calm by (auto simp: close_viewer_def leave_page_def calm_def tidy_replace)
    with step calm show ?thesis by (auto simp: CloseViewer intro!: calm_effects split: if_splits)
  next
    case (DeleteAnswered page_id failure)
    with step calm show ?thesis
      by (auto simp: delete_answered_def remove_page_def intro!: calm_effects calm_close_if_open split: option.split)
  next
    case BackArrives
    with step calm moved [of "ap_browser a\<lparr>br_backs := br_backs (ap_browser a) - 1\<rparr>"] show ?thesis
      by (auto simp: Let_def tidy split: if_splits option.splits)
  next
    case UserBack
    with step moved [of "ap_browser a"] show ?thesis by (auto simp: tidy split: option.splits)
  next
    case UserForward
    with step calm moved [of "ap_browser a"] show ?thesis by (auto simp: tidy split: option.splits)
  next
    case Reload
    let ?b = "(ap_browser a)\<lparr>br_navigated := False, br_backs := 0\<rparr>"
    have "tidy ?b" "no_debt ?b" using calm by (simp_all add: calm_def tidy_def)
    with step show ?thesis
      by (auto simp: Reload app_start_def initial_route_no_debt calm_def)
  qed (use step calm e in \<open>auto simp: pages_answered_def intro!: calm_effects split: sum.split if_splits\<close>)
qed

lemma calm_run:
  "app_ok a \<Longrightarrow> calm a \<Longrightarrow> \<forall>e \<in> set es. safe_event e \<and> e \<noteq> SignInClick \<Longrightarrow> app_run es a = Some a' \<Longrightarrow> calm a'"
proof (induction es arbitrary: a)
  case (Cons e es)
  then obtain a1 where a1: "app_step e a = Some a1" "app_run es a1 = Some a'" by (auto simp: bind_eq_Some_conv)
  have "app_ok a1" by (rule app_step_ok [OF Cons.prems(1) _ a1(1)]) (use Cons.prems in simp)
  moreover have "calm a1" by (rule calm_step [OF Cons.prems(1,2) _ _ a1(1)]) (use Cons.prems in simp_all)
  ultimately show ?case using Cons.IH [of a1] Cons.prems(3) a1(2) by simp
qed simp

lemma calm_start:
  assumes "br_behind b = []" "br_ahead b = []" "\<not> br_navigated b" "no_debt b \<or> current_route b = RouteLibrary"
  shows "calm (app_start b)"
proof -
  obtain route b' where start: "initial_route b = (route, b')" by (cases "initial_route b")
  have "br_behind b' = [] \<and> br_ahead b' = [] \<and> \<not> br_navigated b' \<and> no_debt b'"
    using start assms
    by (auto simp: initial_route_def take_return_route_def no_debt_def replace_route_def
        split: Route.splits option.splits prod.splits)
  then show ?thesis by (simp add: app_start_def start calm_def tidy_def trail_def)
qed


section \<open>Deep links\<close>

lemma link_survives:
  assumes "current_route b = RoutePage page_id" "br_storage b = Some store"
    and home: "br_here b' = ''/''" "br_storage b' = br_storage (remember_return_route b)"
  shows "\<exists>a. app_run [SessionAnswered (Inr me), PagesAnswered (Inr items)] (app_start b') = Some a \<and>
      (case find_page page_id items of
         Some page \<Rightarrow> ap_selected a = Some page \<and> current_route (ap_browser a) = RoutePage page_id
       | None \<Rightarrow> ap_selected a = None \<and> ap_route_notice a = Some NOT_IN_LIBRARY \<and> br_here (ap_browser a) = ''/'')"
    and "fst (initial_route ((snd (initial_route b'))\<lparr>br_here := ''/''\<rparr>)) = RouteLibrary"
proof -
  have safe: "safe_route (RoutePage page_id)" using current_route_safe [of b] assms(1) by simp
  have root: "current_route b' = RouteLibrary" "route_from_path ''/'' = RouteLibrary"
    using home(1) route_roundtrip [of RouteLibrary] by (simp_all add: current_route_def)
  have stash: "br_storage b' = Some (store(RETURN_TO_KEY \<mapsto> path_for_route (RoutePage page_id)))"
    using assms by (simp add: remember_return_route_def)
  note there = route_roundtrip [OF safe]
  let ?b = "replace_route (RoutePage page_id) (b'\<lparr>br_storage := Some (store(RETURN_TO_KEY := None))\<rparr>)"
  have start: "initial_route b' = (RoutePage page_id, ?b)"
    using there by (simp add: initial_route_def root take_return_route_def stash)
  show "fst (initial_route ((snd (initial_route b'))\<lparr>br_here := ''/''\<rparr>)) = RouteLibrary"
    unfolding start
    by (simp add: initial_route_def take_return_route_def current_route_def replace_route_def root)
  have arrived: "current_route ?b = RoutePage page_id" by (rule current_route_replace [OF safe])
  show "\<exists>a. app_run [SessionAnswered (Inr me), PagesAnswered (Inr items)] (app_start b') = Some a \<and>
      (case find_page page_id items of
         Some page \<Rightarrow> ap_selected a = Some page \<and> current_route (ap_browser a) = RoutePage page_id
       | None \<Rightarrow> ap_selected a = None \<and> ap_route_notice a = Some NOT_IN_LIBRARY \<and> br_here (ap_browser a) = ''/'')"
    using arrived
    by (cases "find_page page_id items")
      (auto simp: app_start_def start run_effects_def resolve_pending_def drop_notice_def signed_in_def
        pages_answered_def find_page_def replace_route_def)
qed

text \<open>C25. A deep link survives the sign-in. A signed-out user who opens the address of a page, signs in and
  comes back to the library's address finds that page open, at its address, once the library has
  answered with it; if it is not among their pages, the library with a notice, at the library's address.
  The debt is paid once: the next load of the library's address opens the library.
\<close>

theorem deep_link_survives_sign_in:
  assumes "current_route b = RoutePage page_id" "br_storage b = Some store"
    and "br_here b' = ''/''" "br_storage b' = br_storage (remember_return_route b)"
  shows "(\<exists>a. app_run [SessionAnswered (Inr me), PagesAnswered (Inr items)] (app_start b') = Some a \<and>
      (case find_page page_id items of
         Some page \<Rightarrow> ap_selected a = Some page \<and> current_route (ap_browser a) = RoutePage page_id
       | None \<Rightarrow> ap_selected a = None \<and> ap_route_notice a = Some NOT_IN_LIBRARY \<and> br_here (ap_browser a) = ''/'')) \<and>
    fst (initial_route ((snd (initial_route b'))\<lparr>br_here := ''/''\<rparr>)) = RouteLibrary"
  using link_survives [OF assms] by blast

section \<open>Concrete runs\<close>

definition fresh_tab :: "string \<Rightarrow> Browser" where
  "fresh_tab path = \<lparr>br_behind = [], br_here = path, br_ahead = [], br_storage = Some Map.empty,
     br_navigated = False, br_backs = 0\<rparr>"

definition example_me :: MeResponse where
  "example_me = \<lparr>me_sub = ''u'', me_email = None\<rparr>"

definition example_answers :: "AppEvent list" where
  "example_answers = [SessionAnswered (Inr example_me), PagesAnswered (Inr [example_page ''x'' ''2'', example_page ''y'' ''1''])]"

lemma example_safe: "\<forall>e \<in> set example_answers. safe_event e \<and> e \<noteq> SignInClick"
  by (simp add: example_answers_def example_page_def safe_id_def)

definition open_page :: "App option \<Rightarrow> string option" where
  "open_page run = (case run of None \<Rightarrow> None | Some a \<Rightarrow> map_option ps_id (ap_selected a))"

lemma address_names_screen_witness:
  "\<exists>a. app_run (example_answers @ [OpenTile ''y'', UserBack]) (app_start (fresh_tab ''/'')) = Some a \<and>
     current_route (ap_browser a) = RouteLibrary \<and> ap_pending a = None"
proof -
  have "case app_run (example_answers @ [OpenTile ''y'', UserBack]) (app_start (fresh_tab ''/'')) of
      None \<Rightarrow> False | Some a \<Rightarrow> ap_selected a = None \<and> ap_loaded a"
    by code_simp
  then obtain a where run: "app_run (example_answers @ [OpenTile ''y'', UserBack]) (app_start (fresh_tab ''/'')) = Some a"
    and a: "ap_selected a = None" "ap_loaded a"
    by (auto split: option.splits)
  have "\<forall>e \<in> set (example_answers @ [OpenTile ''y'', UserBack]). safe_event e" using example_safe by auto
  from address_names_screen [OF run this] a run show ?thesis by auto
qed

text \<open>The back control can leave v-note after all. A signed-out user on a page's address clicks Sign in, comes
  back with the browser's Back, and signs in elsewhere: the return path stays parked. When they later
  reload the library's address with a page ahead of it in the history, that entry becomes the parked
  page's, although it is the document's first; after Forward and Back the app takes the page's viewer to
  have a library behind it, and its back control asks the browser for a traversal out of v-note.
\<close>

definition stale_story :: "AppEvent list" where
  "stale_story =
     [SessionAnswered (Inl 401), SignInClick, Reload] @ example_answers @ [CloseViewer, OpenTile ''y'', UserBack, Reload] @
     example_answers @ [UserForward, UserBack]"

theorem stale_return_leaves_app:
  "\<exists>a. app_run stale_story (app_start (fresh_tab ''/p/x'')) = Some a \<and> map_option ps_id (ap_selected a) = Some ''x'' \<and>
     br_behind (ap_browser a) = [] \<and> app_run [CloseViewer, BackArrives] a = None"
proof -
  have "case app_run stale_story (app_start (fresh_tab ''/p/x'')) of None \<Rightarrow> False
     | Some a \<Rightarrow> map_option ps_id (ap_selected a) = Some ''x'' \<and> br_behind (ap_browser a) = [] \<and>
         Option.is_none (app_run [CloseViewer, BackArrives] a)"
    by code_simp
  then show ?thesis
    by (auto simp: Option.is_none_def simp del: app_run.simps split: option.splits)
qed


lemma deep_link_survives_sign_in_witness:
  "\<exists>a. app_run example_answers (app_start ((remember_return_route (fresh_tab ''/p/x''))\<lparr>br_here := ''/''\<rparr>)) = Some a \<and>
     ap_selected a = Some (example_page ''x'' ''2'')"
proof -
  have at_x: "current_route (fresh_tab ''/p/x'') = RoutePage ''x''"
    by code_simp
  have store: "br_storage (fresh_tab ''/p/x'') = Some Map.empty" by (simp add: fresh_tab_def)
  have found: "find_page ''x'' [example_page ''x'' ''2'', example_page ''y'' ''1''] = Some (example_page ''x'' ''2'')"
    by (simp add: find_page_def example_page_def)
  show ?thesis
    using deep_link_survives_sign_in [OF at_x store, of "(remember_return_route (fresh_tab ''/p/x''))\<lparr>br_here := ''/''\<rparr>"
        example_me "[example_page ''x'' ''2'', example_page ''y'' ''1'']"]
    by (simp add: found example_answers_def)
qed

end
