(* ===== verification/Api.thy ===== *)
theory Api
  imports Viewer Otlp LibrarySync Shell
begin

text \<open>
  The web client's requests (\<open>frontend/src/api.rs\<close>) and its two realtime channels
  (\<open>frontend/src/realtime.rs\<close>). A request's answer, the JSON in it, and what a socket delivers are
  arguments; results are what the callers see, the events of the shell, the viewer's feed, and the spans
  and log lines handed to telemetry.
\<close>

section \<open>Requests\<close>

datatype Report = Ended OpenSpan "string option" | Logged Parent Severity string "KeyValue list"

definition warn_in :: "Parent \<Rightarrow> string \<Rightarrow> Report" where "warn_in context message = Logged context Sev_Warn message []"
definition error_in :: "Parent \<Rightarrow> string \<Rightarrow> Report" where "error_in context message = Logged context Sev_Error message []"
definition info_in :: "Parent \<Rightarrow> string \<Rightarrow> Report" where "info_in context message = Logged context Sev_Info message []"

text \<open>Where a call is made from: the parent it passes, and what \<open>client_span\<close> and \<open>request_id\<close> draw.\<close>

record CallSite =
  cs_parent :: Parent
  cs_span :: SpanId
  cs_start :: UnixNanos
  cs_location :: Location
  cs_request_id :: string

datatype Verb = GET | POST | DELETE

fun verb_text :: "Verb \<Rightarrow> string" where
  "verb_text GET = ''GET''" | "verb_text POST = ''POST''" | "verb_text DELETE = ''DELETE''"

record Request =
  rq_verb :: Verb
  rq_url :: string
  rq_headers :: "(string \<times> string) list"

definition TRACEPARENT_HEADER :: string where "TRACEPARENT_HEADER = ''traceparent''"

definition span_traceparent :: "OpenSpan \<Rightarrow> string" where
  "span_traceparent handle = traceparent (pa_trace_id (os_parent handle)) (os_id handle)"

definition start :: "CallSite \<Rightarrow> Verb \<Rightarrow> string \<Rightarrow> string \<Rightarrow> Request \<times> OpenSpan" where
  "start site verb route url =
     (let handle = span_attr ''url.template'' (AV_String route)
            (span_attr ''http.request.method'' (AV_String (verb_text verb))
              (open_span (cs_parent site) (cs_span site) ''http.client'' Client (cs_start site) (cs_location site)))
      in (\<lparr>rq_verb = verb, rq_url = url,
           rq_headers = [(REQUEST_ID_HEADER, cs_request_id site), (TRACEPARENT_HEADER, span_traceparent handle)]\<rparr>, handle))"

datatype 'b Answer = NoResponse string | Response u16 "string + 'b"

definition status_ok :: "u16 \<Rightarrow> bool" where "status_ok status \<longleftrightarrow> 200 \<le> status \<and> status \<le> 299"

definition status_attr :: "u16 \<Rightarrow> OpenSpan \<Rightarrow> OpenSpan" where
  "status_attr status = span_attr ''http.response.status_code'' (AV_Int (uint status))"

definition http_text :: "u16 \<Rightarrow> string" where "http_text status = ''HTTP '' @ decimal (unat status)"

type_synonym ('e, 'b) Called = "('e + 'b) \<times> Request \<times> Report list"

definition realtime_ticket ::
  "CallSite \<Rightarrow> string \<Rightarrow> RealtimeTicketResponse Answer \<Rightarrow> (string, RealtimeTicketResponse) Called" where
  "realtime_ticket site context answer =
     (let (request, handle) = start site POST ''/api/realtime-ticket'' ''/api/realtime-ticket''; ctx = span_context handle
      in case answer of
           NoResponse error \<Rightarrow>
             (let message = context @ '' failed: '' @ error
              in (Inl message, request, [Ended handle (Some message),
                   warn_in ctx (''realtime ticket request failed ('' @ context @ '')'')]))
         | Response status body \<Rightarrow>
             (let handle = status_attr status handle
              in if \<not> status_ok status then
                   (let message = context @ '' failed: '' @ http_text status
                    in (Inl message, request, [Ended handle (Some message),
                         warn_in ctx (''realtime ticket refused ('' @ context @ ''): '' @ http_text status)]))
                 else (case body of
                   Inr ticket \<Rightarrow> (Inr ticket, request, [Ended handle None])
                 | Inl error \<Rightarrow>
                     (let message = ''invalid '' @ context @ '': '' @ error
                      in (Inl message, request, [Ended handle (Some message),
                           error_in ctx (''realtime ticket response did not parse ('' @ context @ '')'')])))))"

definition fetch_meta :: "CallSite \<Rightarrow> 'm Answer \<Rightarrow> (string, 'm) Called" where
  "fetch_meta site answer =
     (let (request, handle) = start site GET ''/api/meta'' ''/api/meta''; ctx = span_context handle
      in case answer of
           NoResponse error \<Rightarrow>
             (let message = ''request failed: '' @ error in (Inl message, request, [Ended handle (Some message)]))
         | Response status body \<Rightarrow>
             (let handle = status_attr status handle
              in case body of
                   Inr meta \<Rightarrow> (Inr meta, request, [Ended handle None])
                 | Inl error \<Rightarrow>
                     (let message = ''invalid response JSON: '' @ error
                      in (Inl message, request, [Ended handle (Some message), warn_in ctx ''meta response did not parse'']))))"

definition fetch_me :: "CallSite \<Rightarrow> MeResponse Answer \<Rightarrow> (u16, MeResponse) Called" where
  "fetch_me site answer =
     (let (request, handle) = start site GET ''/api/me'' ''/api/me''; ctx = span_context handle
      in case answer of
           Response status body \<Rightarrow>
             if status_ok status then
               (let handle = status_attr status handle
                in case body of
                     Inr me \<Rightarrow> (Inr me, request, [Ended handle None])
                   | Inl _ \<Rightarrow> (Inl 500, request, [Ended handle (Some ''profile did not parse''),
                       error_in ctx ''profile response did not parse'']))
             else (Inl status, request, [Ended (status_attr status handle) None])
         | NoResponse error \<Rightarrow>
             (Inl 0, request, [Ended handle (Some (''request failed: '' @ error)), warn_in ctx ''profile request failed'']))"

definition load_pages :: "CallSite \<Rightarrow> PageSummary list Answer \<Rightarrow> (string, PageSummary list) Called" where
  "load_pages site answer =
     (let (request, handle) = start site GET ''/api/pages'' ''/api/pages''; ctx = span_context handle
      in case answer of
           NoResponse error \<Rightarrow>
             (let message = ''loading pages failed: '' @ error
              in (Inl message, request, [Ended handle (Some message), warn_in ctx ''loading pages failed: transport error'']))
         | Response status body \<Rightarrow>
             (let handle = status_attr status handle
              in if \<not> status_ok status then
                   (let message = ''loading pages failed: '' @ http_text status
                    in (Inl message, request, [Ended handle (Some message), error_in ctx message]))
                 else (case body of
                   Inl error \<Rightarrow>
                     (let message = ''invalid pages response: '' @ error
                      in (Inl message, request, [Ended handle (Some message), error_in ctx ''pages response did not parse'']))
                 | Inr items \<Rightarrow>
                     (Inr items, request,
                      [Ended (span_attr ''vnote.page_count'' (AV_Int (int (length items))) handle) None]))))"

definition delete_page :: "CallSite \<Rightarrow> string \<Rightarrow> unit Answer \<Rightarrow> (string, unit) Called" where
  "delete_page site page_id answer =
     (let (request, handle) = start site DELETE ''/api/pages/{page_id}'' (''/api/pages/'' @ page_id);
          ctx = span_context handle; handle = span_attr ''vnote.page_id'' (AV_String page_id) handle
      in case answer of
           NoResponse error \<Rightarrow>
             (let message = ''deleting page failed: '' @ error
              in (Inl message, request, [Ended handle (Some message), warn_in ctx ''deleting page failed: transport error'']))
         | Response status _ \<Rightarrow>
             (let handle = status_attr status handle
              in if \<not> status_ok status then
                   (let message = ''deleting page failed: '' @ http_text status
                    in (Inl message, request, [Ended handle (Some message), error_in ctx message]))
                 else (Inr (), request, [Ended handle None, info_in ctx ''page deleted''])))"

text \<open>The socket's URL, from the location's protocol and host where they can be read.\<close>

definition websocket_url :: "(string option \<times> string option) option \<Rightarrow> string \<Rightarrow> string + string" where
  "websocket_url window path_and_query = (case window of
     None \<Rightarrow> Inl ''window unavailable''
   | Some (protocol, host) \<Rightarrow> (case protocol of
       None \<Rightarrow> Inl ''location protocol unavailable''
     | Some p \<Rightarrow> (case host of
         None \<Rightarrow> Inl ''location host unavailable''
       | Some h \<Rightarrow> Inr ((if p = ''https:'' then ''wss'' else ''ws'') @ ''://'' @ h @ path_and_query))))"

definition realtime_url :: "(string option \<times> string option) option \<Rightarrow> string \<Rightarrow> string + string" where
  "realtime_url window ticket = websocket_url window (''/api/realtime?ticket='' @ ticket)"

definition page_realtime_url :: "(string option \<times> string option) option \<Rightarrow> string \<Rightarrow> string \<Rightarrow> string + string" where
  "page_realtime_url window page_id ticket =
     websocket_url window (''/api/pages/'' @ page_id @ ''/realtime?ticket='' @ ticket)"

section \<open>The library channel\<close>

text \<open>What a socket delivers: a failure, a text frame that parses or not, or a binary one.\<close>

datatype 'm Delivery = SocketFailed string | TextFrame "string + 'm" | BinaryFrame

record LibraryAttempt =
  la_screen :: Parent
  la_ticket_site :: CallSite
  la_ticket :: "RealtimeTicketResponse Answer"
  la_pages_site :: CallSite
  la_pages :: "PageSummary list Answer"
  la_window :: "(string option \<times> string option) option"
  la_connect :: OpenSpan
  la_open_error :: "string option"
  la_deliveries :: "LibraryEvent Delivery list"

definition channel_attr :: "string \<Rightarrow> OpenSpan \<Rightarrow> OpenSpan" where
  "channel_attr channel = span_attr ''vnote.channel'' (AV_String channel)"

fun library_messages :: "Parent \<Rightarrow> LibraryEvent Delivery list \<Rightarrow> string \<times> AppEvent list \<times> Report list" where
  "library_messages parent [] = (''realtime socket closed'', [], [])"
| "library_messages parent (SocketFailed error # ds) = (''realtime socket failed: '' @ error, [], [])"
| "library_messages parent (BinaryFrame # ds) = library_messages parent ds"
| "library_messages parent (TextFrame (Inl error) # ds) =
     (''invalid realtime event: '' @ error, [], [error_in parent ''library realtime event did not parse''])"
| "library_messages parent (TextFrame (Inr event) # ds) =
     (case library_messages parent ds of (error, events, reports) \<Rightarrow> (error, LibraryMessage event # events, reports))"

text \<open>\<open>?\<close> on an intermediate result returns its error with what happened so far.\<close>

definition library_realtime_once :: "LibraryAttempt \<Rightarrow> (string + unit) \<times> AppEvent list \<times> Report list" where
  "library_realtime_once a =
     (let parent = la_screen a
      in case realtime_ticket (la_ticket_site a) ''realtime ticket'' (la_ticket a) of
           (Inl error, _, reports) \<Rightarrow> (Inl error, [], reports)
         | (Inr ticket, _, reports) \<Rightarrow>
             (case load_pages (la_pages_site a) (la_pages a) of
                (Inl error, _, reports') \<Rightarrow> (Inl error, [], reports @ reports')
              | (Inr items, _, reports') \<Rightarrow>
                  (let loaded = [PagesAnswered (Inr items)]
                   in case realtime_url (la_window a) (rt_ticket ticket) of
                        Inl error \<Rightarrow> (Inl error, loaded, reports @ reports')
                      | Inr ws_url \<Rightarrow>
                          (let connect = channel_attr ''library'' (la_connect a)
                           in case la_open_error a of
                                Some error \<Rightarrow>
                                  (let message = ''opening realtime socket failed: '' @ error
                                   in (Inl message, loaded, reports @ reports' @ [Ended connect (Some message)]))
                              | None \<Rightarrow>
                                  (case library_messages parent (la_deliveries a) of (error, events, reports'') \<Rightarrow>
                                     (Inl error, loaded @ events,
                                      reports @ reports' @ [Ended connect None, info_in parent ''library realtime connected''] @
                                      reports''))))))"

definition lost :: "string \<Rightarrow> Parent \<Rightarrow> KeyValue list \<Rightarrow> u32 \<Rightarrow> string \<Rightarrow> Report" where
  "lost message parent attributes attempts error =
     Logged parent Sev_Warn message
       (attributes @ [\<lparr>kv_key = ''vnote.reconnect_attempt'', kv_value = AV_Int (uint attempts)\<rparr>, key_string ''vnote.reason'' error])"

definition LIBRARY_LOST :: string where "LIBRARY_LOST = ''library realtime connection lost; reconnecting''"

text \<open>The loop over its first attempts; it never ends by itself. The second component of the state is the count.\<close>

fun library_realtime_loop :: "LibraryAttempt list \<Rightarrow> u32 \<Rightarrow> AppEvent list \<times> Report list" where
  "library_realtime_loop [] attempts = ([], [])"
| "library_realtime_loop (a # as) attempts =
     (case library_realtime_once a of
        (Inl error, events, reports) \<Rightarrow>
          (let attempts = attempts + 1; (events', reports') = library_realtime_loop as attempts
           in (events @ [SocketLost error] @ events',
               reports @ [lost LIBRARY_LOST (la_screen a) [key_string ''vnote.channel'' ''library''] attempts error] @ reports'))
      | (Inr (), events, reports) \<Rightarrow>
          (let (events', reports') = library_realtime_loop as 0 in (events @ events', reports @ reports')))"

section \<open>The page channel\<close>

record PageAttempt =
  pa_screen :: Parent
  pa_ticket_site :: CallSite
  pa_ticket :: "RealtimeTicketResponse Answer"
  pa_window :: "(string option \<times> string option) option"
  pa_connect :: OpenSpan
  pa_open_error :: "string option"
  pa_subscribe :: OpenSpan
  pa_send_error :: "string option"
  pa_deliveries :: "PageServerMessage Delivery list"

fun page_messages :: "Parent \<Rightarrow> PageServerMessage Delivery list \<Rightarrow> PageFeed \<Rightarrow> string \<times> PageFeed \<times> Report list" where
  "page_messages parent [] feed = (''page realtime socket closed'', feed, [])"
| "page_messages parent (SocketFailed error # ds) feed = (''page realtime socket failed: '' @ error, feed, [])"
| "page_messages parent (BinaryFrame # ds) feed = page_messages parent ds feed"
| "page_messages parent (TextFrame (Inl error) # ds) feed =
     (''invalid page realtime event: '' @ error, feed, [error_in parent ''page realtime event did not parse''])"
| "page_messages parent (TextFrame (Inr event) # ds) feed = page_messages parent ds (apply_page_event event feed)"

text \<open>The third component is the cursor the subscription was sent with, when it was sent.\<close>

definition page_realtime_once ::
  "string \<Rightarrow> PageAttempt \<Rightarrow> PageFeed \<Rightarrow> (string + unit) \<times> PageFeed \<times> u64 option \<times> Report list" where
  "page_realtime_once page_id a feed =
     (let parent = pa_screen a
      in case realtime_ticket (pa_ticket_site a) ''page realtime ticket'' (pa_ticket a) of
           (Inl error, _, reports) \<Rightarrow> (Inl error, feed, None, reports)
         | (Inr ticket, _, reports) \<Rightarrow>
             (case page_realtime_url (pa_window a) page_id (rt_ticket ticket) of
                Inl error \<Rightarrow> (Inl error, feed, None, reports)
              | Inr ws_url \<Rightarrow>
                  (let connect = span_attr ''vnote.page_id'' (AV_String page_id) (channel_attr ''page'' (pa_connect a))
                   in case pa_open_error a of
                        Some error \<Rightarrow>
                          (let message = ''opening page realtime socket failed: '' @ error
                           in (Inl message, feed, None, reports @ [Ended connect (Some message)]))
                      | None \<Rightarrow>
                          (let reports = reports @ [Ended connect None];
                               from_seq = fd_last_seq feed;
                               subscribe = span_attr ''vnote.from_seq'' (AV_Int (sint from_seq))
                                 (span_attr ''vnote.page_id'' (AV_String page_id) (pa_subscribe a))
                           in case pa_send_error a of
                                Some error \<Rightarrow>
                                  (let message = ''page subscribe failed: '' @ error
                                   in (Inl message, feed, None, reports @ [Ended subscribe (Some message)]))
                              | None \<Rightarrow>
                                  (let subscribed = Logged parent Sev_Debug
                                         (''page realtime subscribed from seq '' @ decimal (unat from_seq)) []
                                   in case page_messages parent (pa_deliveries a) (feed\<lparr>fd_status := ''Subscribing''\<rparr>) of
                                        (error, feed, reports') \<Rightarrow>
                                          (Inl error, feed, Some from_seq,
                                           reports @ [Ended subscribe None, subscribed] @ reports'))))))"

definition PAGE_LOST :: string where "PAGE_LOST = ''page realtime connection lost; reconnecting''"

fun page_realtime_loop ::
  "string \<Rightarrow> PageAttempt list \<Rightarrow> u32 \<Rightarrow> PageFeed \<Rightarrow> PageFeed \<times> u64 list \<times> Report list" where
  "page_realtime_loop page_id [] attempts feed = (feed, [], [])"
| "page_realtime_loop page_id (a # as) attempts feed =
     (case page_realtime_once page_id a feed of
        (Inr (), feed, from, reports) \<Rightarrow>
          (let (feed', cursors, reports') = page_realtime_loop page_id as 0 feed
           in (feed', (case from of None \<Rightarrow> cursors | Some seq \<Rightarrow> seq # cursors), reports @ reports'))
      | (Inl error, feed, from, reports) \<Rightarrow>
          (let attempts = attempts + 1;
               feed = feed\<lparr>fd_error := Some error, fd_status := ''Reconnecting''\<rparr>;
               (feed', cursors, reports') = page_realtime_loop page_id as attempts feed
           in (feed', (case from of None \<Rightarrow> cursors | Some seq \<Rightarrow> seq # cursors),
               reports @ [lost PAGE_LOST (pa_screen a) [key_string ''vnote.channel'' ''page'', key_string ''vnote.page_id'' page_id]
                 attempts error] @ reports')))"

section \<open>What a request leaves behind\<close>

definition is_error :: "'e + 'b \<Rightarrow> bool" where "is_error r = (case r of Inl _ \<Rightarrow> True | Inr _ \<Rightarrow> False)"

text \<open>One span, ended, of the kind a server span can be the child of, under the caller's parent; the request
  carries its context; whether it failed; and every log line belongs to it.\<close>

definition one_span :: "CallSite \<Rightarrow> ('e, 'b) Called \<Rightarrow> bool \<Rightarrow> bool" where
  "one_span site called failed \<longleftrightarrow>
     (case called of (_, request, reports) \<Rightarrow>
        (case reports of
           Ended handle failure # logs \<Rightarrow>
             os_parent handle = cs_parent site \<and> os_id handle = cs_span site \<and> os_kind handle = Client \<and>
             rq_headers request = [(REQUEST_ID_HEADER, cs_request_id site), (TRACEPARENT_HEADER, span_traceparent handle)] \<and>
             (failure \<noteq> None \<longleftrightarrow> failed) \<and>
             (\<forall>r \<in> set logs. case r of Logged c _ _ attributes \<Rightarrow> c = span_context handle \<and> attributes = [] | Ended _ _ \<Rightarrow> False)
         | _ \<Rightarrow> False))"

lemma span_attr_fields [simp]:
  "os_parent (span_attr key v handle) = os_parent handle" "os_id (span_attr key v handle) = os_id handle"
  "os_kind (span_attr key v handle) = os_kind handle" "span_context (span_attr key v handle) = span_context handle"
  "span_traceparent (span_attr key v handle) = span_traceparent handle"
  by (simp_all add: span_attr_def span_context_def span_traceparent_def)

lemma start_fields [simp]:
  "os_parent (snd (start site verb route url)) = cs_parent site" "os_id (snd (start site verb route url)) = cs_span site"
  "os_kind (snd (start site verb route url)) = Client"
  "rq_headers (fst (start site verb route url)) =
     [(REQUEST_ID_HEADER, cs_request_id site), (TRACEPARENT_HEADER, span_traceparent (snd (start site verb route url)))]"
  by (simp_all add: start_def Let_def open_span_def)

lemmas call_defs = one_span_def is_error_def status_attr_def warn_in_def error_in_def info_in_def Let_def

lemma call_spans:
  "one_span site (realtime_ticket site what ticket) (is_error (fst (realtime_ticket site what ticket)))"
  "one_span site (fetch_meta site meta) (is_error (fst (fetch_meta site meta)))"
  "one_span site (load_pages site items) (is_error (fst (load_pages site items)))"
  "one_span site (delete_page site page_id gone) (is_error (fst (delete_page site page_id gone)))"
  "one_span site (fetch_me site me)
     (case me of NoResponse _ \<Rightarrow> True | Response status body \<Rightarrow> status_ok status \<and> is_error body)"
proof -
  obtain r1 s1 where "start site POST ''/api/realtime-ticket'' ''/api/realtime-ticket'' = (r1, s1)" by fastforce
  then show "one_span site (realtime_ticket site what ticket) (is_error (fst (realtime_ticket site what ticket)))"
    using start_fields [of site POST "''/api/realtime-ticket''" "''/api/realtime-ticket''"]
    by (auto simp: realtime_ticket_def call_defs split: Answer.split sum.split)
  obtain r2 s2 where "start site GET ''/api/meta'' ''/api/meta'' = (r2, s2)" by fastforce
  then show "one_span site (fetch_meta site meta) (is_error (fst (fetch_meta site meta)))"
    using start_fields [of site GET "''/api/meta''" "''/api/meta''"]
    by (auto simp: fetch_meta_def call_defs split: Answer.split sum.split)
  obtain r3 s3 where "start site GET ''/api/pages'' ''/api/pages'' = (r3, s3)" by fastforce
  then show "one_span site (load_pages site items) (is_error (fst (load_pages site items)))"
    using start_fields [of site GET "''/api/pages''" "''/api/pages''"]
    by (auto simp: load_pages_def call_defs split: Answer.split sum.split)
  obtain r4 s4 where "start site DELETE ''/api/pages/{page_id}'' (''/api/pages/'' @ page_id) = (r4, s4)" by fastforce
  then show "one_span site (delete_page site page_id gone) (is_error (fst (delete_page site page_id gone)))"
    using start_fields [of site DELETE "''/api/pages/{page_id}''" "''/api/pages/'' @ page_id"]
    by (auto simp: delete_page_def call_defs split: Answer.split)
  obtain r5 s5 where "start site GET ''/api/me'' ''/api/me'' = (r5, s5)" by fastforce
  then show "one_span site (fetch_me site me)
     (case me of NoResponse _ \<Rightarrow> True | Response status body \<Rightarrow> status_ok status \<and> is_error body)"
    using start_fields [of site GET "''/api/me''" "''/api/me''"]
    by (auto simp: fetch_me_def call_defs split: Answer.split sum.split)
qed

text \<open>Every request of the client is recorded once. Whatever is answered, each call ends exactly one client
  span under the screen it was made from, sends that span's trace context with the request, and logs only
  lines of that span, without attributes; the span has failed exactly when the call reports an error, but
  for the session check, where a refusal is an answer and only a lost or unreadable reply a failure.
\<close>

theorem calls_are_recorded:
  "one_span site (realtime_ticket site what ticket) (is_error (fst (realtime_ticket site what ticket))) \<and>
   one_span site (fetch_meta site meta) (is_error (fst (fetch_meta site meta))) \<and>
   one_span site (load_pages site items) (is_error (fst (load_pages site items))) \<and>
   one_span site (delete_page site page_id gone) (is_error (fst (delete_page site page_id gone))) \<and>
   one_span site (fetch_me site me)
     (case me of NoResponse _ \<Rightarrow> True | Response status body \<Rightarrow> status_ok status \<and> is_error body)"
  by (intro conjI call_spans)

section \<open>The library over a connection\<close>

lemma effects_fields [simp]:
  "ap_pages (run_effects a) = ap_pages a" "ap_loaded (run_effects a) = ap_loaded a" "ap_me (run_effects a) = ap_me a"
  by (auto simp: run_effects_def drop_notice_def resolve_pending_def split: option.split)

lemma apply_event_fields [simp]:
  "ap_pages (apply_event event a) = apply_library_event_to_pages event (ap_pages a)"
  "ap_loaded (apply_event event a) = ap_loaded a"
  by (auto simp: apply_event_def Let_def split: LibraryEvent.split)

lemma messages_run:
  "ap_loaded a \<Longrightarrow> \<exists>a'. app_run (map LibraryMessage events) a = Some a' \<and>
     ap_pages a' = fold apply_library_event_to_pages events (ap_pages a)"
proof (induction events arbitrary: a)
  case (Cons e es)
  show ?case
    using Cons.IH [of "run_effects ((apply_event e a)\<lparr>ap_library_error := None\<rparr>)"] Cons.prems by simp
qed simp

lemma messages_delivered:
  "library_messages parent (map (\<lambda>e. TextFrame (Inr e)) events) = (''realtime socket closed'', map LibraryMessage events, [])"
  by (induction events) auto

text \<open>A connection that comes up: ticket and list are answered, the URL is known, the socket opens.\<close>

definition comes_up :: "LibraryAttempt \<Rightarrow> PageSummary list \<Rightarrow> bool" where
  "comes_up a items \<longleftrightarrow> (\<exists>ticket url. la_ticket a = Response 200 (Inr ticket) \<and>
     la_pages a = Response 200 (Inr items) \<and> realtime_url (la_window a) (rt_ticket ticket) = Inr url \<and>
     la_open_error a = None)"

lemma comes_up_once:
  assumes "comes_up a items"
  shows "fst (snd (library_realtime_once a)) =
    PagesAnswered (Inr items) # fst (snd (library_messages (la_screen a) (la_deliveries a)))"
  using assms
  by (auto simp: comes_up_def library_realtime_once_def realtime_ticket_def load_pages_def status_ok_def
      case_prod_unfold Let_def)

lemma connection_list:
  assumes "comes_up a items" "la_deliveries a = map (\<lambda>e. TextFrame (Inr e)) events" "signed_in (ap_me w)"
  shows "\<exists>w'. app_run (fst (snd (library_realtime_once a))) w = Some w' \<and>
    ap_pages w' = fold apply_library_event_to_pages events items"
proof -
  let ?w = "run_effects (pages_answered (Inr items) w)"
  have "ap_loaded ?w" "ap_pages ?w = items" by (simp_all add: pages_answered_def)
  with messages_run [of ?w events] assms(3) show ?thesis
    by (simp add: comes_up_once [OF assms(1)] assms(2) messages_delivered)
qed


definition example_site :: CallSite where
  "example_site = \<lparr>cs_parent = \<lparr>pa_trace_id = TraceId [], pa_span_id = SpanId []\<rparr>, cs_span = SpanId [], cs_start = UnixNanos 0,
     cs_location = \<lparr>lo_file = [], lo_line = 0\<rparr>, cs_request_id = []\<rparr>"

definition example_handle :: OpenSpan where
  "example_handle = open_span (cs_parent example_site) (SpanId []) ''realtime.connect'' Internal (UnixNanos 0) (cs_location example_site)"

definition example_attempt :: "PageSummary list \<Rightarrow> LibraryEvent list \<Rightarrow> LibraryAttempt" where
  "example_attempt items events =
     \<lparr>la_screen = cs_parent example_site, la_ticket_site = example_site,
      la_ticket = Response 200 (Inr \<lparr>rt_ticket = ''t'', rt_expires_at = ''z''\<rparr>), la_pages_site = example_site,
      la_pages = Response 200 (Inr items), la_window = Some (Some ''https:'', Some ''h''), la_connect = example_handle,
      la_open_error = None, la_deliveries = map (\<lambda>e. TextFrame (Inr e)) events\<rparr>"

lemma example_attempt_up: "comes_up (example_attempt items events) items"
  by (simp add: comes_up_def example_attempt_def realtime_url_def websocket_url_def)

definition signed_in_app :: App where
  "signed_in_app = (app_start (fresh_tab ''/''))\<lparr>ap_me := Some (Inr example_me)\<rparr>"

lemma signed_in_example: "signed_in (ap_me signed_in_app)"
  by (simp add: signed_in_app_def signed_in_def)


text \<open>The list is fetched before the subscription, and what commits in between is lost. A page created after
  the list was answered and before the socket subscribes is announced to nobody: the connection delivers
  nothing, and the client's list stays without the page for as long as the socket is up.
\<close>

lemma library_misses_gap:
  "\<exists>page d' pos hub w'. insert_page ''q'' ''u'' ''new'' paper_default sync_env example_db = Inr (page, d') \<and>
     subscribe_library ''u'' (publish_library_event () ''u'' (PageCreated page) hub_default) = (pos, hub) \<and>
     app_run (fst (snd (library_realtime_once
         (example_attempt (listing ''u'' sync_env example_db) (drop pos (library_sent hub ''u''))))))
       signed_in_app = Some w' \<and>
     map ps_id (ap_pages w') = [''p''] \<and> map ps_id (listing ''u'' sync_env d') = [''q'', ''p'']"
proof -
  obtain page d' where op: "insert_page ''q'' ''u'' ''new'' paper_default sync_env example_db = Inr (page, d')"
    and ids: "map ps_id (listing ''u'' sync_env d') = [''q'', ''p'']" "map ps_id (listing ''u'' sync_env example_db) = [''p'']"
    by (rule created_run)
  obtain pos hub where sub: "subscribe_library ''u'' (publish_library_event () ''u'' (PageCreated page) hub_default) = (pos, hub)"
    by (cases "subscribe_library ''u'' (publish_library_event () ''u'' (PageCreated page) hub_default)")
  then have "drop pos (library_sent hub ''u'') = []"
    by (auto simp: subscribe_library_def library_sent_def Let_def channel_entry_def)
  with connection_list [OF example_attempt_up _ signed_in_example, of "listing ''u'' sync_env example_db" "[]" "[]"]
  have "\<exists>w'. app_run (fst (snd (library_realtime_once
         (example_attempt (listing ''u'' sync_env example_db) (drop pos (library_sent hub ''u'')))))) signed_in_app = Some w' \<and>
      ap_pages w' = listing ''u'' sync_env example_db"
    by (simp add: example_attempt_def)
  with op ids sub show ?thesis by metis
qed

section \<open>Reconnecting\<close>

lemma library_once_fails: "\<exists>error. fst (library_realtime_once a) = Inl error"
  by (auto simp: library_realtime_once_def Let_def case_prod_unfold split: sum.split option.split)

lemma page_once_fails: "\<exists>error. fst (page_realtime_once page_id a feed) = Inl error"
  by (auto simp: page_realtime_once_def Let_def case_prod_unfold split: sum.split option.split)

fun lost_count :: "Report \<Rightarrow> int list" where
  "lost_count (Ended _ _) = []"
| "lost_count (Logged _ _ message attributes) =
     (if message = LIBRARY_LOST
      then concat (map (\<lambda>kv. if kv_key kv = ''vnote.reconnect_attempt''
        then (case kv_value kv of AV_Int n \<Rightarrow> [n] | _ \<Rightarrow> []) else []) attributes)
      else [])"

definition lost_counts :: "Report list \<Rightarrow> int list" where
  "lost_counts reports = concat (map lost_count reports)"

lemma lost_counts_simps [simp]:
  "lost_counts [] = []" "lost_counts (r # rs) = lost_count r @ lost_counts rs"
  "lost_counts (rs @ rs') = lost_counts rs @ lost_counts rs'"
  by (simp_all add: lost_counts_def)

lemma lost_count_lost [simp]:
  "lost_count (lost LIBRARY_LOST parent [key_string ''vnote.channel'' ''library''] attempts error) = [uint attempts]"
  by (simp add: lost_def key_string_def)

lemma messages_counts: "lost_counts (snd (snd (library_messages parent ds))) = []"
  by (induction parent ds rule: library_messages.induct)
    (auto simp: error_in_def LIBRARY_LOST_def split: prod.splits)

lemma ticket_counts: "lost_counts (snd (snd (realtime_ticket site ''realtime ticket'' ticket))) = []"
  by (auto simp: realtime_ticket_def Let_def case_prod_unfold warn_in_def error_in_def LIBRARY_LOST_def
      split: Answer.split sum.split)

lemma list_counts: "lost_counts (snd (snd (load_pages site items))) = []"
  by (auto simp: load_pages_def Let_def case_prod_unfold warn_in_def error_in_def LIBRARY_LOST_def
      split: Answer.split sum.split)

lemma once_counts: "lost_counts (snd (snd (library_realtime_once a))) = []"
proof -
  obtain r q reports where ticket: "realtime_ticket (la_ticket_site a) ''realtime ticket'' (la_ticket a) = (r, q, reports)"
    by (cases "realtime_ticket (la_ticket_site a) ''realtime ticket'' (la_ticket a)")
  obtain r' q' reports' where items: "load_pages (la_pages_site a) (la_pages a) = (r', q', reports')"
    by (cases "load_pages (la_pages_site a) (la_pages a)")
  obtain error events reports'' where messages: "library_messages (la_screen a) (la_deliveries a) = (error, events, reports'')"
    by (cases "library_messages (la_screen a) (la_deliveries a)")
  have "lost_counts reports = []" "lost_counts reports' = []" "lost_counts reports'' = []"
    using ticket_counts [of "la_ticket_site a" "la_ticket a"] list_counts [of "la_pages_site a" "la_pages a"]
      messages_counts [of "la_screen a" "la_deliveries a"] by (simp_all add: ticket items messages)
  moreover have "lost_count (info_in parent ''library realtime connected'') = []" for parent
    by (simp add: info_in_def LIBRARY_LOST_def)
  moreover note defs = library_realtime_once_def Let_def ticket items messages prod.case
  ultimately show ?thesis
  proof (cases r)
    case (Inr t)
    note counts = \<open>lost_counts reports = []\<close> \<open>lost_counts reports' = []\<close> \<open>lost_counts reports'' = []\<close>
    show ?thesis
    proof (cases r')
      case (Inr ps)
      show ?thesis
        unfolding defs \<open>r = Inr t\<close> Inr sum.case
        by (cases "realtime_url (la_window a) (rt_ticket t)"; cases "la_open_error a")
          (simp_all add: counts info_in_def LIBRARY_LOST_def)
    qed (simp add: defs Inr counts)
  qed (simp add: defs)
qed

lemma loop_counts:
  "unat n + length as < 2 ^ 32 \<Longrightarrow>
   lost_counts (snd (library_realtime_loop as n)) = map (\<lambda>i. uint n + int i + 1) [0..<length as]"
proof (induction as arbitrary: n)
  case (Cons a as)
  obtain error events reports where once: "library_realtime_once a = (Inl error, events, reports)"
    using library_once_fails [of a] by (cases "library_realtime_once a") auto
  have succ: "unat (n + 1) = unat n + 1"
    using Cons.prems by (simp add: unat_word_ariths)
  then have succ': "uint (n + 1) = uint n + 1" unfolding uint_nat by simp
  obtain events' reports' where rest: "library_realtime_loop as (n + 1) = (events', reports')"
    by (cases "library_realtime_loop as (n + 1)")
  have "lost_counts (snd (library_realtime_loop (a # as) n)) = uint (n + 1) # lost_counts reports'"
    using once_counts [of a] by (simp only: library_realtime_loop.simps once rest Let_def prod.case sum.case snd_conv
        lost_counts_simps lost_count_lost append_Nil append_Cons)
  also have "lost_counts reports' = map (\<lambda>i. uint (n + 1) + int i + 1) [0..<length as]"
    using Cons.IH [of "n + 1"] Cons.prems by (simp add: rest succ)
  also have "uint (n + 1) # \<dots> = map (\<lambda>i. uint n + int i + 1) [0..<length (a # as)]"
    unfolding succ' by (simp add: upt_rec [of 0] map_Suc_upt [symmetric] comp_def del: upt_Suc)
  finally show ?case .
qed simp

text \<open>The reconnect counter only ever grows. However long each connection lived and however many events it
  delivered, the k-th loss of the library's connection is logged as attempt k: no connection ends in success, so
  the branch that starts counting anew is never taken.
\<close>

theorem reconnects_never_reset:
  "length as < 2 ^ 32 \<Longrightarrow>
   lost_counts (snd (library_realtime_loop as 0)) = map (\<lambda>k. int k + 1) [0..<length as]"
  using loop_counts [of 0 as] by simp

lemma reconnects_never_reset_witness:
  "lost_counts (snd (library_realtime_loop [example_attempt [] [], example_attempt [] [PageDeleted ''x'']] 0)) = [1, 2]"
  using reconnects_never_reset [of "[example_attempt [] [], example_attempt [] [PageDeleted ''x'']]"]
  by (simp add: upt_rec)

section \<open>Following a page\<close>

fun parsed :: "'m Delivery list \<Rightarrow> 'm list" where
  "parsed [] = []"
| "parsed (SocketFailed _ # ds) = []"
| "parsed (BinaryFrame # ds) = parsed ds"
| "parsed (TextFrame (Inl _) # ds) = []"
| "parsed (TextFrame (Inr m) # ds) = m # parsed ds"

definition subscribes :: "string \<Rightarrow> PageAttempt \<Rightarrow> bool" where
  "subscribes page_id a \<longleftrightarrow> (case fst (realtime_ticket (pa_ticket_site a) ''page realtime ticket'' (pa_ticket a)) of
     Inl _ \<Rightarrow> False
   | Inr ticket \<Rightarrow> \<not> is_error (page_realtime_url (pa_window a) page_id (rt_ticket ticket)) \<and>
       pa_open_error a = None \<and> pa_send_error a = None)"

definition delivered_to :: "string \<Rightarrow> PageAttempt \<Rightarrow> PageServerMessage list" where
  "delivered_to page_id a = (if subscribes page_id a then parsed (pa_deliveries a) else [])"

definition ink :: "PageFeed \<Rightarrow> StrokeBatch list \<times> u64 \<times> Paper" where
  "ink feed = (fd_batches feed, fd_last_seq feed, fd_paper feed)"

fun cursors_for :: "string \<Rightarrow> PageAttempt list \<Rightarrow> PageFeed \<Rightarrow> u64 list" where
  "cursors_for page_id [] feed = []"
| "cursors_for page_id (a # as) feed =
     (if subscribes page_id a then [fd_last_seq feed] else []) @
     cursors_for page_id as (fold apply_page_event (delivered_to page_id a) feed)"

lemma ink_event: "ink f = ink g \<Longrightarrow> ink (apply_page_event e f) = ink (apply_page_event e g)"
  unfolding ink_def apply_page_event_def Let_def next_viewer_paper_def by (cases e) simp_all

lemma ink_events: "ink f = ink g \<Longrightarrow> ink (fold apply_page_event es f) = ink (fold apply_page_event es g)"
proof (induction es arbitrary: f g)
  case (Cons e es)
  show ?case using Cons.IH [OF ink_event [OF Cons.prems, of e]] by simp
qed simp

lemma cursors_ink: "ink f = ink g \<Longrightarrow> cursors_for page_id as f = cursors_for page_id as g"
proof (induction as arbitrary: f g)
  case (Cons a as)
  have "fd_last_seq f = fd_last_seq g" using Cons.prems by (simp add: ink_def)
  then show ?case using Cons.IH [OF ink_events [OF Cons.prems]] by simp
qed simp

lemma page_messages_feed: "fst (snd (page_messages parent ds feed)) = fold apply_page_event (parsed ds) feed"
  by (induction parent ds feed rule: page_messages.induct) auto

lemma page_once_feed:
  "ink (fst (snd (page_realtime_once page_id a feed))) = ink (fold apply_page_event (delivered_to page_id a) feed)"
  "fst (snd (snd (page_realtime_once page_id a feed))) = (if subscribes page_id a then Some (fd_last_seq feed) else None)"
proof -
  obtain r q reports where ticket: "realtime_ticket (pa_ticket_site a) ''page realtime ticket'' (pa_ticket a) = (r, q, reports)"
    by (cases "realtime_ticket (pa_ticket_site a) ''page realtime ticket'' (pa_ticket a)")
  let ?feed = "feed\<lparr>fd_status := ''Subscribing''\<rparr>"
  obtain error reports' where messages:
      "page_messages (pa_screen a) (pa_deliveries a) ?feed = (error, fold apply_page_event (parsed (pa_deliveries a)) ?feed, reports')"
    using page_messages_feed [of "pa_screen a" "pa_deliveries a" ?feed]
    by (cases "page_messages (pa_screen a) (pa_deliveries a) ?feed") auto
  have ink: "ink (fold apply_page_event es ?feed) = ink (fold apply_page_event es feed)" for es
    by (rule ink_events) (simp add: ink_def)
  note defs = page_realtime_once_def delivered_to_def subscribes_def is_error_def Let_def ticket messages prod.case fst_conv
  have both: "ink (fst (snd (page_realtime_once page_id a feed))) = ink (fold apply_page_event (delivered_to page_id a) feed) \<and>
    fst (snd (snd (page_realtime_once page_id a feed))) = (if subscribes page_id a then Some (fd_last_seq feed) else None)"
  proof (cases r)
    case (Inr t)
    show ?thesis
      unfolding defs Inr sum.case
      by (cases "page_realtime_url (pa_window a) page_id (rt_ticket t)"; cases "pa_open_error a"; cases "pa_send_error a")
        (simp_all add: ink)
  qed (simp add: defs)
  show "ink (fst (snd (page_realtime_once page_id a feed))) = ink (fold apply_page_event (delivered_to page_id a) feed)"
    using both ..
  show "fst (snd (snd (page_realtime_once page_id a feed))) = (if subscribes page_id a then Some (fd_last_seq feed) else None)"
    using both ..
qed

lemma page_loop:
  "ink (fst (page_realtime_loop page_id as n feed)) =
     ink (fold apply_page_event (concat (map (delivered_to page_id) as)) feed) \<and>
   fst (snd (page_realtime_loop page_id as n feed)) = cursors_for page_id as feed"
proof (induction as arbitrary: n feed)
  case (Cons a as)
  obtain error feed1 cursor reports where once: "page_realtime_once page_id a feed = (Inl error, feed1, cursor, reports)"
    using page_once_fails [of page_id a feed] by (cases "page_realtime_once page_id a feed") auto
  let ?f = "feed1\<lparr>fd_error := Some error, fd_status := ''Reconnecting''\<rparr>"
  obtain feed2 cursors reports' where rest: "page_realtime_loop page_id as (n + 1) ?f = (feed2, cursors, reports')"
    by (cases "page_realtime_loop page_id as (n + 1) ?f")
  have same: "ink ?f = ink (fold apply_page_event (delivered_to page_id a) feed)"
    using page_once_feed(1) [of page_id a feed] by (simp add: once ink_def)
  have cursor: "cursor = (if subscribes page_id a then Some (fd_last_seq feed) else None)"
    using page_once_feed(2) [of page_id a feed] by (simp add: once)
  have IH: "ink feed2 = ink (fold apply_page_event (concat (map (delivered_to page_id) as)) ?f)"
    "cursors = cursors_for page_id as ?f"
    using Cons.IH [of "n + 1" ?f] by (simp_all add: rest)
  have "page_realtime_loop page_id (a # as) n feed = (feed2, (case cursor of None \<Rightarrow> cursors | Some seq \<Rightarrow> seq # cursors),
      reports @ [lost PAGE_LOST (pa_screen a) [key_string ''vnote.channel'' ''page'', key_string ''vnote.page_id'' page_id]
        (n + 1) error] @ reports')"
    by (simp only: page_realtime_loop.simps once rest Let_def prod.case sum.case)
  then show ?case
    using IH ink_events [OF same] cursors_ink [OF same] cursor by (simp add: fold_append)
qed simp

lemma page_loop_parts:
  "ink (fst (page_realtime_loop page_id as n feed)) =
     ink (fold apply_page_event (concat (map (delivered_to page_id) as)) feed)"
  "fst (snd (page_realtime_loop page_id as n feed)) = cursors_for page_id as feed"
  using page_loop [of page_id as n feed] by simp_all

text \<open>C21. A viewer resumes where it stands. Over any number of lost and new connections, failing at whatever step,
  the ink, the cursor and the paper of an open page are those of all messages any of its connections
  delivered, applied in that order, and every subscription asks from exactly the cursor reached so far: a
  reconnect neither drops ink nor asks for what is already there.
\<close>

theorem page_loop_resumes:
  "ink (fst (page_realtime_loop page_id as n feed)) =
     ink (fold apply_page_event (concat (map (delivered_to page_id) as)) feed) \<and>
   fst (snd (page_realtime_loop page_id as n feed)) = cursors_for page_id as feed"
  by (intro conjI page_loop_parts)

end
