(* ===== verification/Auth.thy ===== *)
theory Auth
  imports Dispatch Text
begin

text \<open>
  Who may call: bearer tokens and session cookies, JWT validation against the provider's keys
  (\<open>crates/server/src/auth.rs\<close>), the login flow with its state nonce and PKCE verifier
  (\<open>crates/server/src/routes/auth.rs\<close>) and the telemetry credentials handed to the browser
  (\<open>routes/telemetry_config.rs\<close>). Outside the sources, and so parameters: \<open>jsonwebtoken\<close>'s decoding,
  the provider's answers over HTTP, URL printing and parsing, SHA-256 and the random tokens. One
  validation with its key refresh is one step.
\<close>

section \<open>Configuration and discovery\<close>

definition AUTH_COOKIE :: string where "AUTH_COOKIE = ''auth''"
definition STATE_COOKIE :: string where "STATE_COOKIE = ''auth_state''"
definition PKCE_COOKIE :: string where "PKCE_COOKIE = ''auth_pkce''"

record AuthConfig =
  ac_issuer_url :: string
  ac_client_id :: string
  ac_redirect_uri :: string
  ac_required_scope :: string
  ac_end_session_url :: "string option"
  ac_authorize_endpoint :: string
  ac_token_endpoint :: string
  ac_jwks_uri :: string

record DiscoveryDoc =
  dd_authorization_endpoint :: string
  dd_token_endpoint :: string
  dd_jwks_uri :: string

text \<open>The \<open>oidc\<close> group of the configuration, its URLs as \<open>Url::to_string\<close> prints them.\<close>

record OidcConfig =
  oi_issuer_url :: string
  oi_client_id :: string
  oi_redirect_uri :: string
  oi_required_scope :: string
  oi_authorize_url :: "string option"
  oi_end_session_url :: "string option"

text \<open>How a request to the provider ends: unreachable, an error status, a body that does not parse,
  or the parsed body; each failure with the text of its error.\<close>

datatype 'a fetched =
    Fetch_Failed string
  | Bad_Status string
  | Bad_Json string
  | Fetched 'a

definition discovery_url :: "string \<Rightarrow> string" where
  "discovery_url issuer_url = trim_end_char (CHR ''/'') issuer_url @ ''/.well-known/openid-configuration''"

text \<open>The attempts from \<open>attempt\<close> on, \<open>fuel\<close> of them left; the answer to each is \<open>replies attempt\<close>.
  With the result comes the number of requests sent.\<close>

fun discover_from ::
  "(nat \<Rightarrow> DiscoveryDoc fetched) \<Rightarrow> string \<Rightarrow> nat \<Rightarrow> nat \<Rightarrow> string \<Rightarrow> (string + DiscoveryDoc) \<times> nat" where
  "discover_from replies url attempt 0 last_err =
     (Inl (''OIDC discovery '' @ url @ '' failed after retries: '' @ last_err), attempt - 1)"
| "discover_from replies url attempt (Suc fuel) last_err =
     (case replies attempt of
        Fetched doc \<Rightarrow> (Inr doc, attempt)
      | Bad_Json error \<Rightarrow> discover_from replies url (attempt + 1) fuel (''parsing JSON: '' @ error)
      | Bad_Status error \<Rightarrow> discover_from replies url (attempt + 1) fuel (''non-success status: '' @ error)
      | Fetch_Failed error \<Rightarrow> discover_from replies url (attempt + 1) fuel (''fetch failed: '' @ error))"

definition discover :: "(string \<Rightarrow> nat \<Rightarrow> DiscoveryDoc fetched) \<Rightarrow> string \<Rightarrow> (string + DiscoveryDoc) \<times> nat" where
  "discover replies issuer_url =
     (let url = discovery_url issuer_url in discover_from (replies url) url 1 10 '''')"

definition from_oidc :: "(string \<Rightarrow> nat \<Rightarrow> DiscoveryDoc fetched) \<Rightarrow> OidcConfig \<Rightarrow> string + AuthConfig" where
  "from_oidc replies oidc =
     bindr (fst (discover replies (oi_issuer_url oidc))) (\<lambda>discovery.
     Inr \<lparr>ac_issuer_url = oi_issuer_url oidc, ac_client_id = oi_client_id oidc,
          ac_redirect_uri = oi_redirect_uri oidc, ac_required_scope = oi_required_scope oidc,
          ac_end_session_url = oi_end_session_url oidc,
          ac_authorize_endpoint = (case oi_authorize_url oidc of
             Some url \<Rightarrow> url | None \<Rightarrow> dd_authorization_endpoint discovery),
          ac_token_endpoint = dd_token_endpoint discovery, ac_jwks_uri = dd_jwks_uri discovery\<rparr>)"

section \<open>The key cache\<close>

record Jwk =
  jwk_kid :: "string option"
  jwk_n :: "string option"
  jwk_e :: "string option"

datatype Algorithm = RS256 | RS384 | RS512 | Other_Algorithm string

record JwtHeader =
  jh_alg :: Algorithm
  jh_kid :: "string option"

record Claims =
  cl_sub :: string
  cl_email :: "string option"
  cl_preferred_username :: "string option"
  cl_scope :: "string option"
  cl_iss :: string
  cl_exp :: u64

record Validation =
  va_alg :: Algorithm
  va_algorithms :: "Algorithm list"
  va_audience :: "string list"
  va_issuer :: "string list"
  va_required_spec_claims :: "string list"

text \<open>The \<open>jsonwebtoken\<close> library and the provider's key set at the time of the request.\<close>

record 'k jwt =
  jw_decode_header :: "string \<Rightarrow> JwtHeader option"
  jw_decode :: "string \<Rightarrow> 'k \<Rightarrow> Validation \<Rightarrow> Claims option"
  jw_from_rsa_components :: "string \<Rightarrow> string \<Rightarrow> 'k option"
  jw_jwks :: "string \<Rightarrow> Jwk list fetched"

record 'k JwksCache =
  jc_keys :: "string \<rightharpoonup> 'k"
  jc_jwks_url :: string

fun insert_key :: "'k jwt \<Rightarrow> Jwk \<Rightarrow> (string \<rightharpoonup> 'k) \<Rightarrow> string \<rightharpoonup> 'k" where
  "insert_key jw jwk new_keys =
     (case (jwk_kid jwk, jwk_n jwk, jwk_e jwk) of
        (Some kid, Some n, Some e) \<Rightarrow>
          (case jw_from_rsa_components jw n e of Some key \<Rightarrow> new_keys(kid \<mapsto> key) | None \<Rightarrow> new_keys)
      | _ \<Rightarrow> new_keys)"

definition refresh :: "'k jwt \<Rightarrow> 'k JwksCache \<Rightarrow> (string + unit) \<times> 'k JwksCache" where
  "refresh jw cache =
     (case jw_jwks jw (jc_jwks_url cache) of
        Fetch_Failed error \<Rightarrow> (Inl (''fetching JWKS: '' @ error), cache)
      | Bad_Status error \<Rightarrow> (Inl (''JWKS HTTP status: '' @ error), cache)
      | Bad_Json error \<Rightarrow> (Inl (''parsing JWKS: '' @ error), cache)
      | Fetched jwks \<Rightarrow> (Inr (), cache\<lparr>jc_keys := fold (insert_key jw) jwks Map.empty\<rparr>))"

definition jwks_get :: "'k jwt \<Rightarrow> string \<Rightarrow> 'k JwksCache \<Rightarrow> 'k option \<times> 'k JwksCache" where
  "jwks_get jw kid cache =
     (case jc_keys cache kid of
        Some key \<Rightarrow> (Some key, cache)
      | None \<Rightarrow>
          (case refresh jw cache of
             (Inl error, cache1) \<Rightarrow> (None, cache1)
           | (Inr _, cache1) \<Rightarrow> (jc_keys cache1 kid, cache1)))"

section \<open>Validation\<close>

datatype TokenValidationError = Invalid string | MissingScope

definition allowed_algs :: "Algorithm list" where
  "allowed_algs = [RS256, RS384, RS512]"

definition jwt_validation :: "AuthConfig \<Rightarrow> Algorithm \<Rightarrow> Validation" where
  "jwt_validation config alg =
     \<lparr>va_alg = alg, va_algorithms = allowed_algs, va_audience = [ac_client_id config],
      va_issuer = [ac_issuer_url config], va_required_spec_claims = [''exp'', ''iss'', ''aud'']\<rparr>"

definition has_scope :: "AuthConfig \<Rightarrow> Claims \<Rightarrow> bool" where
  "has_scope config claims \<longleftrightarrow>
     ac_required_scope config \<in> set (split_whitespace (case cl_scope claims of None \<Rightarrow> '''' | Some s \<Rightarrow> s))"

definition validate_jwt ::
  "'k jwt \<Rightarrow> string \<Rightarrow> AuthConfig \<Rightarrow> 'k JwksCache \<Rightarrow> (TokenValidationError + Claims) \<times> 'k JwksCache" where
  "validate_jwt jw token config cache =
     (case jw_decode_header jw token of
        None \<Rightarrow> (Inl (Invalid ''invalid JWT header''), cache)
      | Some header \<Rightarrow>
     (case jh_kid header of
        None \<Rightarrow> (Inl (Invalid ''JWT missing kid header''), cache)
      | Some kid \<Rightarrow>
     (let (found, cache1) = jwks_get jw kid cache in
      case found of
        None \<Rightarrow> (Inl (Invalid ''JWT kid not in JWKS''), cache1)
      | Some key \<Rightarrow>
          if jh_alg header \<notin> set allowed_algs then (Inl (Invalid ''unsupported JWT algorithm''), cache1)
          else (case jw_decode jw token key (jwt_validation config (jh_alg header)) of
             None \<Rightarrow> (Inl (Invalid ''JWT validation failed''), cache1)
           | Some claims \<Rightarrow>
               if \<not> has_scope config claims then (Inl MissingScope, cache1)
               else (Inr claims, cache1)))))"

section \<open>The middleware\<close>

text \<open>\<open>headers.get(AUTHORIZATION)?.to_str().ok()\<close> is the request's \<open>authorization\<close>.\<close>

definition extract_bearer :: "string option \<Rightarrow> string option" where
  "extract_bearer authorization =
     (case authorization of
        None \<Rightarrow> None
      | Some value \<Rightarrow>
          (case split_white value of
             (scheme, None) \<Rightarrow> None
           | (scheme, Some rest) \<Rightarrow>
               let token = trim rest in
               if eq_ignore_ascii_case scheme ''Bearer'' \<and> token \<noteq> [] then Some token else None))"

record api_request =
  rq_authorization :: "string option"
  rq_cookie :: "string \<Rightarrow> string option"

datatype gate =
    Rejected nat string
  | Admitted Claims string

text \<open>What the middleware decides: an answer, or the request passed on with the claims and the token
  as extensions; with the metric it records.\<close>

definition auth_middleware ::
  "'k jwt \<Rightarrow> AuthConfig \<Rightarrow> api_request \<Rightarrow> 'k JwksCache \<Rightarrow> gate \<times> Metric list \<times> 'k JwksCache" where
  "auth_middleware jw config req cache =
     (case (case extract_bearer (rq_authorization req) of Some token \<Rightarrow> Some token | None \<Rightarrow> rq_cookie req AUTH_COOKIE) of
        None \<Rightarrow> (Rejected 401 ''missing token'', [AuthFailure ''missing_token''], cache)
      | Some token \<Rightarrow>
          (case validate_jwt jw token config cache of
             (Inr claims, cache1) \<Rightarrow> (Admitted claims token, [], cache1)
           | (Inl MissingScope, cache1) \<Rightarrow>
               (Rejected 403 ''missing required scope'', [AuthFailure ''missing_scope''], cache1)
           | (Inl (Invalid reason), cache1) \<Rightarrow>
               (Rejected 401 reason, [AuthFailure ''invalid_token''], cache1)))"

definition to_me_response :: "Claims \<Rightarrow> MeResponse" where
  "to_me_response claims = \<lparr>me_sub = cl_sub claims, me_email = cl_email claims\<rparr>"

section \<open>Cookies and answers\<close>

datatype SameSite = Lax

record Cookie =
  ck_name :: string
  ck_value :: string
  ck_path :: string
  ck_http_only :: bool
  ck_secure :: bool
  ck_same_site :: SameSite
  ck_max_age :: int

definition STATE_COOKIE_MAX_AGE_SECS :: int where "STATE_COOKIE_MAX_AGE_SECS = 300"
definition AUTH_COOKIE_MAX_AGE_SECS :: int where "AUTH_COOKIE_MAX_AGE_SECS = 60 * 60 * 24"

definition transient_auth_cookie :: "string \<Rightarrow> string \<Rightarrow> Cookie" where
  "transient_auth_cookie name value =
     \<lparr>ck_name = name, ck_value = value, ck_path = ''/auth'', ck_http_only = True, ck_secure = True,
      ck_same_site = Lax, ck_max_age = STATE_COOKIE_MAX_AGE_SECS\<rparr>"

definition clear_transient_auth_cookie :: "string \<Rightarrow> Cookie" where
  "clear_transient_auth_cookie name =
     \<lparr>ck_name = name, ck_value = '''', ck_path = ''/auth'', ck_http_only = True, ck_secure = True,
      ck_same_site = Lax, ck_max_age = 0\<rparr>"

text \<open>A jar: what the request carried, and what the answer will set; setting a name again replaces it.\<close>

record CookieJar =
  cj_request :: "string \<Rightarrow> string option"
  cj_delta :: "Cookie list"

definition jar_add :: "Cookie \<Rightarrow> CookieJar \<Rightarrow> CookieJar" where
  "jar_add c jar = jar\<lparr>cj_delta := filter (\<lambda>x. ck_name x \<noteq> ck_name c) (cj_delta jar) @ [c]\<rparr>"

definition clear_flow_cookies :: "CookieJar \<Rightarrow> CookieJar" where
  "clear_flow_cookies jar =
     jar_add (clear_transient_auth_cookie PKCE_COOKIE) (jar_add (clear_transient_auth_cookie STATE_COOKIE) jar)"

record answer =
  an_status :: nat
  an_location :: "string option"
  an_cookies :: "Cookie list"
  an_body :: string

definition plain :: "nat \<Rightarrow> string \<Rightarrow> answer" where
  "plain status message = \<lparr>an_status = status, an_location = None, an_cookies = [], an_body = message\<rparr>"

definition redirect :: "CookieJar \<Rightarrow> string \<Rightarrow> answer" where
  "redirect jar target = \<lparr>an_status = 303, an_location = Some target, an_cookies = cj_delta jar, an_body = ''''\<rparr>"

definition abort_flow :: "CookieJar \<Rightarrow> nat \<Rightarrow> string \<Rightarrow> answer" where
  "abort_flow jar status message =
     \<lparr>an_status = status, an_location = None, an_cookies = cj_delta (clear_flow_cookies jar), an_body = message\<rparr>"

section \<open>Login\<close>

definition TELEMETRY_SCOPE :: string where "TELEMETRY_SCOPE = ''telemetry:write''"

definition login_scopes :: "string \<Rightarrow> string" where
  "login_scopes required_scope = ''openid profile email '' @ required_scope @ '' '' @ TELEMETRY_SCOPE"

text \<open>What the flow needs from outside: \<open>Url::parse_with_params\<close>, the two random tokens (each the
  base64 of 32 random bytes), the encoded SHA-256, and the provider's token endpoint, asked with the
  form's fields.\<close>

record flow_env =
  fe_parse_with_params :: "string \<Rightarrow> (string \<times> string) list \<Rightarrow> string option"
  fe_nonce :: string
  fe_verifier :: string
  fe_code_challenge_s256 :: "string \<Rightarrow> string"
  fe_post :: "string \<Rightarrow> (string \<times> string) list \<Rightarrow> string fetched"

definition login :: "flow_env \<Rightarrow> AuthConfig \<Rightarrow> CookieJar \<Rightarrow> answer" where
  "login fe auth jar =
     (let nonce = fe_nonce fe;
          code_verifier = fe_verifier fe;
          code_challenge = fe_code_challenge_s256 fe code_verifier
      in case fe_parse_with_params fe (ac_authorize_endpoint auth)
           [(''response_type'', ''code''), (''client_id'', ac_client_id auth),
            (''redirect_uri'', ac_redirect_uri auth), (''scope'', login_scopes (ac_required_scope auth)),
            (''state'', nonce), (''code_challenge'', code_challenge), (''code_challenge_method'', ''S256'')] of
         None \<Rightarrow> plain 500 ''invalid IdP URL''
       | Some authorize \<Rightarrow>
           redirect (jar_add (transient_auth_cookie PKCE_COOKIE code_verifier)
                      (jar_add (transient_auth_cookie STATE_COOKIE nonce) jar)) authorize)"

section \<open>Callback\<close>

record CallbackQuery =
  cq_code :: "string option"
  cq_state :: string
  cq_error :: "string option"

definition ellipsis :: string where
  "ellipsis = [CHR 0xE2, CHR 0x80, CHR 0xA6]"

definition truncate_for_log :: "string \<Rightarrow> string" where
  "truncate_for_log value =
     (let ci = char_indices value in
      if 200 < length ci then take (ci ! 200) value @ ellipsis else value)"

text \<open>The fields of the token request; the answer's \<open>access_token\<close>, or the body of the 502.\<close>

definition exchange_fields :: "AuthConfig \<Rightarrow> string \<Rightarrow> string \<Rightarrow> (string \<times> string) list" where
  "exchange_fields auth code code_verifier =
     [(''grant_type'', ''authorization_code''), (''code'', code), (''redirect_uri'', ac_redirect_uri auth),
      (''client_id'', ac_client_id auth), (''code_verifier'', code_verifier)]"

definition exchange_code :: "flow_env \<Rightarrow> AuthConfig \<Rightarrow> string \<Rightarrow> string \<Rightarrow> string + string" where
  "exchange_code fe auth code code_verifier =
     (case fe_post fe (ac_token_endpoint auth) (exchange_fields auth code code_verifier) of
        Fetch_Failed _ \<Rightarrow> Inl ''token endpoint unreachable''
      | Bad_Status _ \<Rightarrow> Inl ''token exchange failed''
      | Bad_Json _ \<Rightarrow> Inl ''token parse failed''
      | Fetched access_token \<Rightarrow> Inr access_token)"

definition session_cookie :: "string \<Rightarrow> Cookie" where
  "session_cookie access_token =
     \<lparr>ck_name = AUTH_COOKIE, ck_value = access_token, ck_path = ''/'', ck_http_only = True,
      ck_secure = True, ck_same_site = Lax, ck_max_age = AUTH_COOKIE_MAX_AGE_SECS\<rparr>"

text \<open>With the answer comes the list of exchanges asked of the token endpoint.\<close>

definition callback ::
  "'k jwt \<Rightarrow> flow_env \<Rightarrow> AuthConfig \<Rightarrow> CookieJar \<Rightarrow> CallbackQuery \<Rightarrow> 'k JwksCache \<Rightarrow>
   answer \<times> (string \<times> string) list \<times> 'k JwksCache" where
  "callback jw fe auth jar params cache =
     (case cj_request jar STATE_COOKIE of
        None \<Rightarrow> (plain 400 ''missing state cookie'', [], cache)
      | Some cookie_state \<Rightarrow>
      if cookie_state \<noteq> cq_state params then (plain 400 ''state mismatch'', [], cache)
      else (case cq_error params of
        Some error \<Rightarrow> (abort_flow jar 403 (''authentication denied: '' @ truncate_for_log error), [], cache)
      | None \<Rightarrow>
      (case (case cj_request jar PKCE_COOKIE of
               Some verifier \<Rightarrow> if verifier \<noteq> [] then Some verifier else None | None \<Rightarrow> None) of
        None \<Rightarrow> (abort_flow jar 400 ''missing PKCE verifier cookie'', [], cache)
      | Some code_verifier \<Rightarrow>
      (case cq_code params of
        None \<Rightarrow> (abort_flow jar 400 ''missing code'', [], cache)
      | Some code \<Rightarrow>
      (case exchange_code fe auth code code_verifier of
        Inl message \<Rightarrow> (abort_flow jar 502 message, [(code, code_verifier)], cache)
      | Inr access_token \<Rightarrow>
      (case validate_jwt jw access_token auth cache of
        (Inl _, cache1) \<Rightarrow> (abort_flow jar 403 ''issued token failed validation'', [(code, code_verifier)], cache1)
      | (Inr claims, cache1) \<Rightarrow>
          (redirect (jar_add (session_cookie access_token) (clear_flow_cookies jar)) ''/'',
           [(code, code_verifier)], cache1)))))))"

section \<open>Logout and the rest\<close>

definition clear_session_cookie :: Cookie where
  "clear_session_cookie =
     \<lparr>ck_name = AUTH_COOKIE, ck_value = '''', ck_path = ''/'', ck_http_only = True, ck_secure = True,
      ck_same_site = Lax, ck_max_age = 0\<rparr>"

definition logout :: "AuthConfig \<Rightarrow> CookieJar \<Rightarrow> answer" where
  "logout auth jar =
     (let jar1 = jar_add clear_session_cookie jar;
          target = (case ac_end_session_url auth of Some url \<Rightarrow> url | None \<Rightarrow> ''/'')
      in redirect jar1 target)"

definition assetlinks :: "string option \<Rightarrow> nat \<times> string" where
  "assetlinks json = (case json of Some j \<Rightarrow> (200, j) | None \<Rightarrow> (404, ''assetlinks not configured''))"

text \<open>\<open>client_endpoint\<close> takes the URL as it prints; \<open>telemetry_config\<close> answers 204 without one.\<close>

definition client_endpoint :: "string \<Rightarrow> string" where
  "client_endpoint endpoint = trim_end_char (CHR ''/'') endpoint"

record telemetry_answer =
  ta_body :: TelemetryConfigResponse
  ta_cache_control :: string
  ta_pragma :: string

definition telemetry_config :: "string option \<Rightarrow> Claims \<Rightarrow> string \<Rightarrow> telemetry_answer option" where
  "telemetry_config telemetry_endpoint claims token =
     (case telemetry_endpoint of
        None \<Rightarrow> None
      | Some endpoint \<Rightarrow>
          Some \<lparr>ta_body = \<lparr>tc_endpoint = endpoint, tc_access_token = token, tc_expires_at = cl_exp claims\<rparr>,
                ta_cache_control = ''no-store'', ta_pragma = ''no-cache''\<rparr>)"

section \<open>The mobile callback page\<close>

definition escape_html :: "string \<Rightarrow> string" where
  "escape_html value =
     replace_str [CHR 0x27] ''&#39;''
       (replace_str [CHR 0x22] ''&quot;''
         (replace_str ''>'' ''&gt;'' (replace_str ''<'' ''&lt;'' (replace_str ''&'' ''&amp;'' value))))"

definition line_separator :: string where "line_separator = [CHR 0xE2, CHR 0x80, CHR 0xA8]"
definition paragraph_separator :: string where "paragraph_separator = [CHR 0xE2, CHR 0x80, CHR 0xA9]"

definition escape_js_string :: "string \<Rightarrow> string" where
  "escape_js_string value =
     replace_str paragraph_separator (CHR 0x5C # ''u2029'')
       (replace_str line_separator (CHR 0x5C # ''u2028'')
         (replace_str [CHR 0x0D] [CHR 0x5C, CHR ''r'']
           (replace_str [CHR 0x0A] [CHR 0x5C, CHR ''n'']
             (replace_str [CHR 0x27] [CHR 0x5C, CHR 0x27]
               (replace_str [CHR 0x5C] [CHR 0x5C, CHR 0x5C] value)))))"

definition custom_scheme_url :: "string option \<Rightarrow> string" where
  "custom_scheme_url query =
     (case query of
        Some q \<Rightarrow> if q \<noteq> [] then ''link.desync.vnote:/oauth2redirect?'' @ q else ''link.desync.vnote:/oauth2redirect''
      | None \<Rightarrow> ''link.desync.vnote:/oauth2redirect'')"

definition newline :: string where "newline = [CHR 0x0A]"

definition mobile_callback :: "string option \<Rightarrow> string" where
  \<open>mobile_callback query =
     (let url = custom_scheme_url query;
          escaped_custom_scheme_url = escape_html url;
          js_custom_scheme_url = escape_js_string url
      in ''<!doctype html>'' @ newline @ ''<html lang="en">'' @ newline @ ''  <head>'' @ newline @
         ''    <meta charset="utf-8">'' @ newline @
         ''    <meta name="viewport" content="width=device-width, initial-scale=1">'' @ newline @
         ''    <title>v-note mobile auth callback</title>'' @ newline @ ''  </head>'' @ newline @
         ''  <body style="font-family: system-ui, sans-serif; padding: 2rem; line-height: 1.5;">'' @ newline @
         ''    <p>Returning to v-note'' @ ellipsis @ ''</p>'' @ newline @
         ''    <p><a href="'' @ escaped_custom_scheme_url @ ''">Open the app</a></p>'' @ newline @
         ''    <script>'' @ newline @
         ''      const appUrl = '' @ [CHR 0x27] @ js_custom_scheme_url @ [CHR 0x27] @ '';'' @ newline @
         ''      window.location.replace(appUrl);'' @ newline @
         ''      window.setTimeout(() => window.location.assign(appUrl), 250);'' @ newline @
         ''    </script>'' @ newline @ ''  </body>'' @ newline @ ''</html>'')\<close>

section \<open>Escapes read back\<close>

text \<open>What a browser reads: a single-quoted ECMAScript literal after its opening quote, as its value and
  the text after the closing quote. Escapes the program does not write are refused, and so is a raw
  line terminator.\<close>

definition js_escape :: "string \<Rightarrow> (string \<times> nat) option" where
  "js_escape s =
     (if prefix ''u2028'' s then Some (line_separator, 5)
      else if prefix ''u2029'' s then Some (paragraph_separator, 5)
      else if prefix ''n'' s then Some ([CHR 0x0A], 1)
      else if prefix ''r'' s then Some ([CHR 0x0D], 1)
      else if prefix [CHR 0x5C] s then Some ([CHR 0x5C], 1)
      else if prefix [CHR 0x27] s then Some ([CHR 0x27], 1)
      else None)"

fun js_literal :: "string \<Rightarrow> (string \<times> string) option" where
  "js_literal [] = None"
| "js_literal (c # s) =
     (if c = CHR 0x27 then Some ([], s)
      else if c = CHR 0x0A \<or> c = CHR 0x0D \<or> prefix line_separator (c # s) \<or> prefix paragraph_separator (c # s) then None
      else if c = CHR 0x5C then
        (case js_escape s of
           None \<Rightarrow> None
         | Some (value, n) \<Rightarrow> map_option (apfst ((@) value)) (js_literal (drop n s)))
      else map_option (apfst ((#) c)) (js_literal s))"

text \<open>The character references of an attribute value.\<close>

fun html_text :: "string \<Rightarrow> string" where
  "html_text [] = []"
| "html_text (c # s) =
     (if prefix ''&amp;'' (c # s) then CHR ''&'' # html_text (drop 4 s)
      else if prefix ''&lt;'' (c # s) then CHR ''<'' # html_text (drop 3 s)
      else if prefix ''&gt;'' (c # s) then CHR ''>'' # html_text (drop 3 s)
      else if prefix ''&quot;'' (c # s) then CHR 0x22 # html_text (drop 5 s)
      else if prefix ''&#39;'' (c # s) then CHR 0x27 # html_text (drop 4 s)
      else c # html_text s)"

fun html_char :: "char \<Rightarrow> string" where
  "html_char c =
     (if c = CHR ''&'' then ''&amp;'' else if c = CHR ''<'' then ''&lt;'' else if c = CHR ''>'' then ''&gt;''
      else if c = CHR 0x22 then ''&quot;'' else if c = CHR 0x27 then ''&#39;'' else [c])"

lemma escape_html_chars: "escape_html v = concat (map html_char v)"
  unfolding escape_html_def replace_char by (induction v) auto

lemma html_text_escape: "html_text (concat (map html_char v)) = v"
  by (induction v) auto

fun js_char :: "char \<Rightarrow> string" where
  "js_char c =
     (if c = CHR 0x5C then [CHR 0x5C, CHR 0x5C] else if c = CHR 0x27 then [CHR 0x5C, CHR 0x27]
      else if c = CHR 0x0A then [CHR 0x5C, CHR ''n''] else if c = CHR 0x0D then [CHR 0x5C, CHR ''r''] else [c])"

lemma js_chars:
  "replace_str [CHR 0x0D] [CHR 0x5C, CHR ''r'']
     (replace_str [CHR 0x0A] [CHR 0x5C, CHR ''n'']
       (replace_str [CHR 0x27] [CHR 0x5C, CHR 0x27]
         (replace_str [CHR 0x5C] [CHR 0x5C, CHR 0x5C] v))) = concat (map js_char v)"
  unfolding replace_char by (induction v) auto

definition plain_bytes :: "string \<Rightarrow> bool" where
  "plain_bytes w \<longleftrightarrow> set w \<inter> {CHR 0x5C, CHR 0x27, CHR 0x0A, CHR 0x0D} = {}"

lemma separators_plain: "plain_bytes line_separator" "plain_bytes paragraph_separator"
  by (simp_all add: plain_bytes_def line_separator_def paragraph_separator_def)

lemma prefix_js_chars: "plain_bytes w \<Longrightarrow> prefix w (concat (map js_char v)) \<longleftrightarrow> prefix w v"
proof (induction v arbitrary: w)
  case (Cons c v)
  show ?case
  proof (cases w)
    case (Cons x w')
    then have "plain_bytes w'" using Cons.prems by (simp add: plain_bytes_def)
    then show ?thesis using Cons Cons.IH [of w'] Cons.prems by (auto simp: plain_bytes_def)
  qed simp
qed simp

lemma prefix_replace: "plain_bytes w \<Longrightarrow> prefix w (replace_str pat (CHR 0x5C # u) t) \<Longrightarrow> prefix w t"
proof (induction t arbitrary: w)
  case (Cons c t)
  show ?case
  proof (cases w)
    case (Cons x w')
    then have "plain_bytes w'" using Cons.prems by (simp add: plain_bytes_def)
    then show ?thesis using Cons Cons.IH [of w'] Cons.prems by (auto simp: plain_bytes_def split: if_splits)
  qed simp
qed simp

lemma prefix_before_quote: "plain_bytes w \<Longrightarrow> prefix w (t @ CHR 0x27 # rest) \<Longrightarrow> prefix w t"
  by (auto simp: prefix_append plain_bytes_def prefix_Cons)

declare js_char.simps [simp del] js_literal.simps(2) [simp del]

definition js_encode :: "string \<Rightarrow> string" where
  "js_encode t = replace_str paragraph_separator (CHR 0x5C # ''u2029'')
     (replace_str line_separator (CHR 0x5C # ''u2028'') t)"

lemma escape_js_string_encode: "escape_js_string v = js_encode (concat (map js_char v))"
  by (simp only: escape_js_string_def js_encode_def js_chars)

lemma js_encode_Nil [simp]: "js_encode [] = []"
  by (simp add: js_encode_def)

lemma js_encode_plain:
  assumes "\<not> prefix line_separator (c # t)" "\<not> prefix paragraph_separator (c # t)"
  shows "js_encode (c # t) = c # js_encode t"
proof -
  have "replace_str line_separator (CHR 0x5C # ''u2028'') (c # t) = c # replace_str line_separator (CHR 0x5C # ''u2028'') t"
    using assms(1) by simp
  moreover have "\<not> prefix paragraph_separator (c # replace_str line_separator (CHR 0x5C # ''u2028'') t)"
    using assms(2) prefix_replace [of "tl paragraph_separator" line_separator "''u2028''" t]
    by (auto simp: paragraph_separator_def plain_bytes_def prefix_Cons)
  ultimately show ?thesis by (simp add: js_encode_def)
qed

lemma js_encode_separators:
  "js_encode (line_separator @ t) = CHR 0x5C # ''u2028'' @ js_encode t"
  "js_encode (paragraph_separator @ t) = CHR 0x5C # ''u2029'' @ js_encode t"
  by (simp_all add: js_encode_def line_separator_def paragraph_separator_def)

lemma js_encode_ascii: "c \<noteq> CHR 0xE2 \<Longrightarrow> js_encode (c # t) = c # js_encode t"
  by (rule js_encode_plain) (auto simp: line_separator_def paragraph_separator_def)

lemma js_literal_plain:
  assumes "c \<notin> {CHR 0x27, CHR 0x0A, CHR 0x0D, CHR 0x5C}"
    and "\<not> prefix line_separator (c # s)" "\<not> prefix paragraph_separator (c # s)"
  shows "js_literal (c # s) = map_option (apfst ((#) c)) (js_literal s)"
  using assms by (simp add: js_literal.simps(2))

lemma separator_before_quote:
  assumes "w \<in> {line_separator, paragraph_separator}" "prefix w (c # js_encode (concat (map js_char v)) @ CHR 0x27 # rest)"
  shows "prefix w (c # v)"
proof -
  obtain w' where w: "w = c # w'" "prefix w' (js_encode (concat (map js_char v)) @ CHR 0x27 # rest)"
    using assms by (auto simp: line_separator_def paragraph_separator_def)
  have plain: "plain_bytes w'"
    using assms(1) w(1) by (auto simp: plain_bytes_def line_separator_def paragraph_separator_def)
  have "prefix w' (js_encode (concat (map js_char v)))" by (rule prefix_before_quote [OF plain w(2)])
  then have "prefix w' (concat (map js_char v))"
    unfolding js_encode_def by (rule prefix_replace [OF plain prefix_replace [OF plain]])
  then have "prefix w' v" by (simp only: prefix_js_chars [OF plain])
  then show ?thesis using w(1) by simp
qed

lemma js_literal_escaped:
  "js_escape s = Some (value, n) \<Longrightarrow> js_literal (CHR 0x5C # s) = map_option (apfst ((@) value)) (js_literal (drop n s))"
  by (simp add: js_literal.simps(2) line_separator_def paragraph_separator_def)

lemma js_escapes:
  "js_escape (''u2028'' @ z) = Some (line_separator, 5)" "js_escape (''u2029'' @ z) = Some (paragraph_separator, 5)"
  "js_escape (CHR ''n'' # z) = Some ([CHR 0x0A], 1)" "js_escape (CHR ''r'' # z) = Some ([CHR 0x0D], 1)"
  "js_escape (CHR 0x5C # z) = Some ([CHR 0x5C], 1)" "js_escape (CHR 0x27 # z) = Some ([CHR 0x27], 1)"
  by (simp_all add: js_escape_def)

lemma js_literal_steps:
  "js_literal (CHR 0x5C # ''u2028'' @ z) = map_option (apfst ((@) line_separator)) (js_literal z)"
  "js_literal (CHR 0x5C # ''u2029'' @ z) = map_option (apfst ((@) paragraph_separator)) (js_literal z)"
  using js_literal_escaped [OF js_escapes(1), of z] js_literal_escaped [OF js_escapes(2), of z] by simp_all

lemma cons_as_append: "(@) [c] = (#) c"
  by (rule ext) simp

lemma js_literal_char:
  assumes "c \<in> {CHR 0x5C, CHR 0x27, CHR 0x0A, CHR 0x0D}"
  shows "js_literal (js_char c @ z) = map_option (apfst ((#) c)) (js_literal z)"
  using assms js_literal_escaped [OF js_escapes(3), of z] js_literal_escaped [OF js_escapes(4), of z]
    js_literal_escaped [OF js_escapes(5), of z] js_literal_escaped [OF js_escapes(6), of z]
  by (elim insertE emptyE) (simp_all add: js_char.simps cons_as_append)

lemma js_encode_escaped:
  "c \<in> {CHR 0x5C, CHR 0x27, CHR 0x0A, CHR 0x0D} \<Longrightarrow> js_encode (js_char c @ t) = js_char c @ js_encode t"
  by (auto simp: js_encode_ascii js_char.simps)

lemma js_chars_plain: "plain_bytes w \<Longrightarrow> concat (map js_char (w @ v)) = w @ concat (map js_char v)"
  by (induction w) (auto simp: plain_bytes_def js_char.simps)

lemma js_literal_escape:
  "js_literal (js_encode (concat (map js_char v)) @ CHR 0x27 # rest) = Some (v, rest)"
proof (induction v rule: length_induct)
  case (1 v)
  have IH: "length v' < length v \<Longrightarrow>
      js_literal (js_encode (concat (map js_char v')) @ CHR 0x27 # rest) = Some (v', rest)" for v'
    using 1 by blast
  consider (empty) "v = []" | (line) v' where "v = line_separator @ v'" | (para) v' where "v = paragraph_separator @ v'"
    | (char) c v' where "v = c # v'" "\<not> prefix line_separator v" "\<not> prefix paragraph_separator v"
    by (cases v) (auto simp: prefix_def)
  then show ?case
  proof cases
    case empty
    then show ?thesis by (simp add: js_literal.simps(2))
  next
    case (line v')
    have "length v' < length v" by (simp add: line line_separator_def)
    from IH [OF this] show ?thesis
      unfolding line js_chars_plain [OF separators_plain(1)] js_encode_separators append.assoc append_Cons
        js_literal_steps [unfolded append_Cons] by (simp add: js_literal_steps [unfolded append_Cons])
  next
    case (para v')
    have "length v' < length v" by (simp add: para paragraph_separator_def)
    from IH [OF this] show ?thesis
      unfolding para js_chars_plain [OF separators_plain(2)] js_encode_separators append.assoc append_Cons
        js_literal_steps [unfolded append_Cons] by (simp add: js_literal_steps [unfolded append_Cons])
  next
    case (char c v')
    have "length v' < length v" by (simp add: char(1))
    note IH' = IH [OF this]
    show ?thesis
    proof (cases "c \<in> {CHR 0x5C, CHR 0x27, CHR 0x0A, CHR 0x0D}")
      case True
      then show ?thesis
        using IH' by (simp only: char(1) list.map concat.simps js_encode_escaped append.assoc js_literal_char option.map) simp
    next
      case False
      have one: "concat (map js_char v) = c # concat (map js_char v')" using False by (auto simp: char(1) js_char.simps)
      have step: "js_encode (concat (map js_char v)) = c # js_encode (concat (map js_char v'))"
        unfolding one using char(2,3) prefix_js_chars [OF separators_plain(1), of v] prefix_js_chars [OF separators_plain(2), of v]
        by (intro js_encode_plain) (simp_all add: one)
      have "js_literal (c # js_encode (concat (map js_char v')) @ CHR 0x27 # rest) =
          map_option (apfst ((#) c)) (js_literal (js_encode (concat (map js_char v')) @ CHR 0x27 # rest))"
      proof (rule js_literal_plain)
        show "\<not> prefix line_separator (c # js_encode (concat (map js_char v')) @ CHR 0x27 # rest)"
          "\<not> prefix paragraph_separator (c # js_encode (concat (map js_char v')) @ CHR 0x27 # rest)"
          using separator_before_quote [of _ c v' rest] char by blast+
      qed (use False in auto)
      then show ?thesis unfolding step by (simp add: IH' char(1))
    qed
  qed
qed


text \<open>What is kept of an attacker's value in a log or an answer: all of it up to 200 characters, else the
  first 200 and an ellipsis, never cut inside a character.\<close>

lemma truncate_for_log_chars:
  "truncate_for_log v = (if char_count v \<le> 200 then v else take (char_indices v ! 200) v @ ellipsis)"
  "char_count (truncate_for_log v) \<le> 201"
  "200 < char_count v \<Longrightarrow> char_count (take (char_indices v ! 200) v) = 200"
proof -
  show "truncate_for_log v = (if char_count v \<le> 200 then v else take (char_indices v ! 200) v @ ellipsis)"
    by (simp add: truncate_for_log_def Let_def length_char_indices)
  show cut: "char_count (take (char_indices v ! 200) v) = 200" if "200 < char_count v"
    using char_indices_take(1) [of 200 v] that by (simp add: length_char_indices)
  have "char_count ellipsis = 1" by (simp add: char_count_def ellipsis_def char_start_def)
  then show "char_count (truncate_for_log v) \<le> 201"
    using cut by (simp add: truncate_for_log_def Let_def length_char_indices) (simp add: char_count_def)
qed

section \<open>Discovery\<close>

definition fetched_doc :: "'a fetched \<Rightarrow> 'a option" where
  "fetched_doc r = (case r of Fetched a \<Rightarrow> Some a | _ \<Rightarrow> None)"

lemma discover_from_result:
  "discover_from replies url k fuel err = (r, n) \<Longrightarrow> 1 \<le> k \<Longrightarrow>
   (case r of
      Inr doc \<Rightarrow> k \<le> n \<and> n < k + fuel \<and> fetched_doc (replies n) = Some doc \<and> (\<forall>i. k \<le> i \<and> i < n \<longrightarrow> fetched_doc (replies i) = None)
    | Inl _ \<Rightarrow> n = k + fuel - 1 \<and> (\<forall>i. k \<le> i \<and> i < k + fuel \<longrightarrow> fetched_doc (replies i) = None))"
proof (induction replies url k fuel err rule: discover_from.induct)
  case (2 replies url attempt fuel last_err)
  have later: "\<forall>i. attempt \<le> i \<and> i < m \<longrightarrow> fetched_doc (replies i) = None"
    if "\<forall>i. Suc attempt \<le> i \<and> i < m \<longrightarrow> fetched_doc (replies i) = None" "fetched_doc (replies attempt) = None" for m
    using that by (metis Suc_leI le_neq_implies_less)
  show ?case
  proof (cases "replies attempt")
    case (Fetched doc)
    then show ?thesis using 2(4) by (auto simp: fetched_doc_def)
  next
    case (Fetch_Failed e)
    then have "fetched_doc (replies attempt) = None" by (simp add: fetched_doc_def)
    then show ?thesis using 2(1) [OF Fetch_Failed] 2(4) Fetch_Failed later by (auto split: sum.splits)
  next
    case (Bad_Status e)
    then have "fetched_doc (replies attempt) = None" by (simp add: fetched_doc_def)
    then show ?thesis using 2(2) [OF Bad_Status] 2(4) Bad_Status later by (auto split: sum.splits)
  next
    case (Bad_Json e)
    then have "fetched_doc (replies attempt) = None" by (simp add: fetched_doc_def)
    then show ?thesis using 2(3) [OF Bad_Json] 2(4) Bad_Json later by (auto split: sum.splits)
  qed
qed (auto split: sum.splits)

text \<open>C35. Start-up waits for the provider, but not for ever: discovery sends at most ten requests, stops
  at the first that brings a usable document and takes that one, and fails exactly when none of the
  ten does.\<close>

theorem discovery_bounded:
  "let (r, n) = discover replies issuer_url; answers = map (\<lambda>i. fetched_doc (replies (discovery_url issuer_url) i)) [1..<11] in
   n \<le> 10 \<and> (case r of
     Inr doc \<Rightarrow> 1 \<le> n \<and> answers ! (n - 1) = Some doc \<and> set (take (n - 1) answers) \<subseteq> {None}
   | Inl _ \<Rightarrow> n = 10 \<and> set answers = {None})"
proof -
  obtain r n where rn: "discover replies issuer_url = (r, n)" by fastforce
  define f where "f i = fetched_doc (replies (discovery_url issuer_url) i)" for i
  have nth: "map f [1..<11] ! i = f (Suc i)" if "i < 10" for i
    using nth_upt [of 1 i 11] that by (subst nth_map) simp_all
  note res = discover_from_result [OF rn [unfolded discover_def Let_def], folded f_def]
  show ?thesis
  proof (cases r)
    case (Inl e)
    then have "n = 10" "\<forall>i. 1 \<le> i \<and> i < 11 \<longrightarrow> f i = None" using res by auto
    moreover have "f 1 \<in> f ` {1..<11}" by (rule imageI) simp
    ultimately have "f ` {1..<11} = {None}" by fastforce
    then have "set (map f [1..<11]) = {None}" by simp
    then show ?thesis using Inl \<open>n = 10\<close> by (simp add: rn f_def [abs_def])
  next
    case (Inr doc)
    then have n: "1 \<le> n" "n < 11" "f n = Some doc" "\<forall>i. 1 \<le> i \<and> i < n \<longrightarrow> f i = None" using res by auto
    have "map f [1..<11] ! (n - 1) = Some doc" using nth [of "n - 1"] n by simp
    moreover have "set (take (n - 1) (map f [1..<11])) \<subseteq> {None}"
    proof
      fix x assume "x \<in> set (take (n - 1) (map f [1..<11]))"
      then obtain i where "i < n - 1" "x = map f [1..<11] ! i" by (auto simp: in_set_conv_nth)
      then show "x \<in> {None}" using nth [of i] n by simp
    qed
    ultimately show ?thesis using Inr n by (simp add: rn f_def [abs_def])
  qed
qed

section \<open>Who is admitted\<close>

text \<open>What a validated token is: its header names a key the cache holds afterwards and one of the three
  RSA algorithms, the library accepts its signature and its claims under the application's client
  id and issuer, and the required scope is among its scopes.\<close>

definition token_valid :: "'k jwt \<Rightarrow> AuthConfig \<Rightarrow> (string \<rightharpoonup> 'k) \<Rightarrow> string \<Rightarrow> Claims \<Rightarrow> bool" where
  "token_valid jw config keys token claims \<longleftrightarrow>
     (\<exists>alg kid key. jw_decode_header jw token = Some \<lparr>jh_alg = alg, jh_kid = Some kid\<rparr> \<and>
        alg \<in> {RS256, RS384, RS512} \<and> keys kid = Some key \<and>
        jw_decode jw token key \<lparr>va_alg = alg, va_algorithms = [RS256, RS384, RS512],
          va_audience = [ac_client_id config], va_issuer = [ac_issuer_url config],
          va_required_spec_claims = [''exp'', ''iss'', ''aud'']\<rparr> = Some claims \<and>
        has_scope config claims)"

lemma jwks_get_key: "jwks_get jw kid cache = (Some key, cache') \<Longrightarrow> jc_keys cache' kid = Some key"
  by (auto simp: jwks_get_def split: option.splits prod.splits sum.splits)

lemma validate_jwt_valid:
  "validate_jwt jw token config cache = (Inr claims, cache') \<Longrightarrow> token_valid jw config (jc_keys cache') token claims"
proof -
  assume ok: "validate_jwt jw token config cache = (Inr claims, cache')"
  then obtain header kid key cache1 where h: "jw_decode_header jw token = Some header" "jh_kid header = Some kid"
      "jwks_get jw kid cache = (Some key, cache1)"
    by (auto simp: validate_jwt_def split: option.splits prod.splits)
  then have rest: "jh_alg header \<in> set allowed_algs" "jw_decode jw token key (jwt_validation config (jh_alg header)) = Some claims"
      "has_scope config claims" "cache1 = cache'"
    using ok by (auto simp: validate_jwt_def split: option.splits if_splits)
  have "jw_decode_header jw token = Some \<lparr>jh_alg = jh_alg header, jh_kid = Some kid\<rparr>"
    using h(1,2) by (cases header) simp
  moreover have "jc_keys cache' kid = Some key" using jwks_get_key [OF h(3)] rest(4) by simp
  moreover have "jh_alg header \<in> {RS256, RS384, RS512}" using rest(1) by (simp add: allowed_algs_def)
  ultimately show ?thesis
    unfolding token_valid_def
    by (intro exI [of _ "jh_alg header"] exI [of _ kid] exI [of _ key])
      (use rest(2,3) in \<open>simp add: jwt_validation_def allowed_algs_def\<close>)
qed

text \<open>C4. Nothing gets past the gate without a valid token: a request is admitted only with its
  bearer token, or without one its session cookie, and that token was signed with a key of the
  provider's set named by its header, with an RSA algorithm, for this client and issuer, and
  grants the required scope; the handler sees that token and its claims.\<close>

theorem admitted_only_with_token:
  assumes "auth_middleware jw config req cache = (Admitted claims token, ms, cache')"
  shows "(extract_bearer (rq_authorization req) = Some token \<or>
      extract_bearer (rq_authorization req) = None \<and> rq_cookie req ''auth'' = Some token) \<and>
    token_valid jw config (jc_keys cache') token claims \<and> ms = []"
  using assms validate_jwt_valid [of jw token config cache claims cache']
  by (auto simp: auth_middleware_def AUTH_COOKIE_def
      split: option.splits prod.splits sum.splits TokenValidationError.splits)

section \<open>The login flow\<close>

definition request_jar :: "(string \<Rightarrow> string option) \<Rightarrow> CookieJar" where
  "request_jar cookies = \<lparr>cj_request = cookies, cj_delta = []\<rparr>"

text \<open>The proof a callback brings: its state matches the flow's cookie, the provider reports no error,
  there is a verifier and a code.\<close>

definition flow_proof :: "(string \<Rightarrow> string option) \<Rightarrow> CallbackQuery \<Rightarrow> (string \<times> string) option" where
  "flow_proof cookies params =
     (if cookies ''auth_state'' = Some (cq_state params) \<and> cq_error params = None
      then (case (cookies ''auth_pkce'', cq_code params) of
              (Some verifier, Some code) \<Rightarrow> if verifier = [] then None else Some (code, verifier)
            | _ \<Rightarrow> None)
      else None)"

lemma jar_deltas:
  "cj_delta (clear_flow_cookies (request_jar cookies)) =
     [clear_transient_auth_cookie ''auth_state'', clear_transient_auth_cookie ''auth_pkce'']"
  "cj_delta (jar_add (session_cookie t) (clear_flow_cookies (request_jar cookies))) =
     [clear_transient_auth_cookie ''auth_state'', clear_transient_auth_cookie ''auth_pkce'', session_cookie t]"
  by (simp_all add: clear_flow_cookies_def jar_add_def request_jar_def clear_transient_auth_cookie_def
      session_cookie_def STATE_COOKIE_def PKCE_COOKIE_def AUTH_COOKIE_def)

text \<open>C11. A session starts only at the end of a flow the browser itself began: the callback sets the
  session cookie to a token exactly when it proves the state, with its code and the browser's own
  PKCE verifier gets that token from the provider, and the token validates; it asks the provider
  only with that proof; a callback that does not know the state sets no cookie at all, and any
  other ends the flow by clearing both of its cookies.\<close>

theorem session_needs_proof:
  "let (a, asked, cache') = callback jw fe auth (request_jar cookies) params cache in
   (session_cookie token \<in> set (an_cookies a) \<longleftrightarrow>
      (\<exists>code verifier claims. flow_proof cookies params = Some (code, verifier) \<and>
         exchange_code fe auth code verifier = Inr token \<and> fst (validate_jwt jw token auth cache) = Inr claims)) \<and>
   asked = (case flow_proof cookies params of None \<Rightarrow> [] | Some proof \<Rightarrow> [proof]) \<and>
   (if cookies ''auth_state'' = Some (cq_state params)
    then take 2 (an_cookies a) = [clear_transient_auth_cookie ''auth_state'', clear_transient_auth_cookie ''auth_pkce'']
    else an_cookies a = [] \<and> an_status a = 400 \<and> cache' = cache)"
proof -
  have differ: "session_cookie t \<noteq> clear_transient_auth_cookie n" for t n
    by (simp add: session_cookie_def clear_transient_auth_cookie_def)
  have same: "session_cookie t = session_cookie t' \<longleftrightarrow> t = t'" for t t' by (simp add: session_cookie_def)
  show ?thesis
    by (auto simp: callback_def flow_proof_def plain_def abort_flow_def redirect_def jar_deltas differ same Let_def
        STATE_COOKIE_def PKCE_COOKIE_def request_jar_def [THEN arg_cong [where f = cj_request]]
        split: option.splits prod.splits sum.splits)
qed

subsection \<open>An example\<close>

definition example_claims :: Claims where
  "example_claims = \<lparr>cl_sub = ''u'', cl_email = None, cl_preferred_username = None, cl_scope = Some ''v'',
     cl_iss = ''i'', cl_exp = 9\<rparr>"

definition example_jwt :: "unit jwt" where
  "example_jwt = \<lparr>jw_decode_header = (\<lambda>t. if t = ''t'' then Some \<lparr>jh_alg = RS256, jh_kid = Some ''k''\<rparr> else None),
     jw_decode = (\<lambda>t k v. if va_issuer v = [''i''] then Some example_claims else None),
     jw_from_rsa_components = (\<lambda>n e. Some ()),
     jw_jwks = (\<lambda>url. Fetched [\<lparr>jwk_kid = Some ''k'', jwk_n = Some ''n'', jwk_e = Some ''e''\<rparr>])\<rparr>"

definition example_config :: AuthConfig where
  "example_config = \<lparr>ac_issuer_url = ''i'', ac_client_id = ''c'', ac_redirect_uri = ''r'', ac_required_scope = ''v'',
     ac_end_session_url = None, ac_authorize_endpoint = ''a'', ac_token_endpoint = ''x'', ac_jwks_uri = ''j''\<rparr>"

lemma example_scope: "has_scope example_config example_claims"
proof -
  have "split_white ''v'' = (''v'', None)" by (simp add: white_space_def prefix_def)
  then have "split_all_white ''v'' = [''v'']" by (subst split_all_white.simps) simp
  then show ?thesis
    by (simp add: has_scope_def example_config_def example_claims_def split_whitespace_def)
qed

definition example_cache :: "unit JwksCache" where
  "example_cache = \<lparr>jc_keys = Map.empty, jc_jwks_url = ''j''\<rparr>"

lemma example_admitted:
  "validate_jwt example_jwt ''t'' example_config example_cache = (Inr example_claims, example_cache\<lparr>jc_keys := [''k'' \<mapsto> ()]\<rparr>)"
  using example_scope
  by (simp add: validate_jwt_def example_jwt_def jwks_get_def refresh_def allowed_algs_def jwt_validation_def
      example_cache_def) (simp add: example_config_def)

lemma admitted_only_with_token_witness:
  "token_valid example_jwt example_config [''k'' \<mapsto> ()] ''t'' example_claims"
proof -
  have "auth_middleware example_jwt example_config
      \<lparr>rq_authorization = None, rq_cookie = (\<lambda>n. if n = ''auth'' then Some ''t'' else None)\<rparr> example_cache =
      (Admitted example_claims ''t'', [], example_cache\<lparr>jc_keys := [''k'' \<mapsto> ()]\<rparr>)"
    by (simp add: auth_middleware_def extract_bearer_def AUTH_COOKIE_def example_admitted)
  from admitted_only_with_token [OF this] show ?thesis by simp
qed

end
