(* ===== verification/Socket.thy ===== *)
theory Socket
  imports Auth
begin

text \<open>
  The two WebSocket endpoints (\<open>crates/server/src/realtime/socket.rs\<close>): authentication and ownership
  before the upgrade, the connection loops over broadcast events and inbound frames, the welcome,
  and the release of the edit lease at the end. A loop is run over the list of what its \<open>select!\<close>
  finds, with the work of other sessions between two iterations as an entry of the list. Outside
  the sources: the handshake, JSON parsing and printing, the sink, which may refuse a frame.
\<close>

section \<open>Broadcast receivers\<close>

text \<open>\<open>tokio::sync::broadcast\<close> as documented: a receiver is a position in what was sent; when more
  than the capacity lies ahead of it, it has lagged, learns how many messages it lost, and goes on
  at the oldest one kept. The hub keeps the sending half, so a channel never closes.\<close>

datatype ('m, 'o) recv =
    Recv_Ok "('m, 'o) Fanout"
  | Recv_Lagged nat
  | Recv_Empty

definition recv :: "('m, 'o) Channel \<Rightarrow> nat \<Rightarrow> ('m, 'o) recv" where
  "recv ch pos =
     (if ch_capacity ch < length (ch_sent ch) - pos then Recv_Lagged (length (ch_sent ch) - pos - ch_capacity ch)
      else if pos < length (ch_sent ch) then Recv_Ok (ch_sent ch ! pos) else Recv_Empty)"

section \<open>Upgrading\<close>

definition MAX_INBOUND_MESSAGE_BYTES :: nat where "MAX_INBOUND_MESSAGE_BYTES = 1024 * 1024"

record ws_options =
  wo_max_payload_read :: nat
  wo_balanced_compression :: bool

definition realtime_ws_options :: "bool \<Rightarrow> ws_options" where
  "realtime_ws_options realtime_compression =
     \<lparr>wo_max_payload_read = MAX_INBOUND_MESSAGE_BYTES, wo_balanced_compression = realtime_compression\<rparr>"

text \<open>The handshake fails with an error, or is answered, with the extension agreed or not; then the
  connection comes up or does not.\<close>

record handshake =
  hs_upgrade :: "ws_options \<Rightarrow> string + bool"
  hs_upgraded :: "string + unit"

datatype http_upgrade =
    Refused nat string
  | Switching_Protocols

definition spawn_upgraded ::
  "handshake \<Rightarrow> ws_options \<Rightarrow> string \<Rightarrow> (('s, 'o) server \<Rightarrow> ('s, 'o) server) \<Rightarrow> ('s, 'o) server \<Rightarrow>
   http_upgrade \<times> ('s, 'o) server" where
  "spawn_upgraded hs options channel handler sv =
     (case hs_upgrade hs options of
        Inl error \<Rightarrow> (Refused 400 ''websocket upgrade failed'', record_metric (RealtimeEvent channel ''upgrade_error'') sv)
      | Inr negotiated \<Rightarrow>
          (let sv1 = record_metric (RealtimeEvent channel (if negotiated then ''compressed'' else ''uncompressed'')) sv
           in (Switching_Protocols,
               case hs_upgraded hs of
                 Inr _ \<Rightarrow> handler sv1
               | Inl error \<Rightarrow> record_metric (RealtimeEvent channel ''upgrade_error'') sv1)))"

section \<open>Authentication\<close>

record 'o RealtimeCaller =
  rc_owner_id :: string
  rc_origin :: 'o

record ('s, 'o, 'k) app =
  app_server :: "('s, 'o) server"
  app_cache :: "'k JwksCache"

text \<open>What an upgrade request brings: the bearer header, the ticket of the query, the clock and the
  empty trace context.\<close>

record 'o upgrade_request =
  ur_authorization :: "string option"
  ur_ticket :: "string option"
  ur_now :: int
  ur_empty_context :: 'o

definition authenticate_realtime ::
  "'k jwt \<Rightarrow> AuthConfig \<Rightarrow> 'o upgrade_request \<Rightarrow> ('s, 'o, 'k) app \<Rightarrow> (nat + 'o RealtimeCaller) \<times> ('s, 'o, 'k) app" where
  "authenticate_realtime jw config req app =
     (case ur_ticket req of
        Some ticket \<Rightarrow>
          (let (redeemed, hub) = consume_ticket (ur_now req) ticket (sv_hub (app_server app));
               app1 = app\<lparr>app_server := (app_server app)\<lparr>sv_hub := hub\<rparr>\<rparr>
           in (case redeemed of
                 Some r \<Rightarrow> (Inr \<lparr>rc_owner_id = rd_owner_id r, rc_origin = rd_origin r\<rparr>, app1)
               | None \<Rightarrow> (Inl 401, app1)))
      | None \<Rightarrow>
          (case extract_bearer (ur_authorization req) of
             None \<Rightarrow> (Inl 401, app)
           | Some token \<Rightarrow>
               (let (res, cache) = validate_jwt jw token config (app_cache app); app1 = app\<lparr>app_cache := cache\<rparr>
                in case res of
                     Inr claims \<Rightarrow> (Inr \<lparr>rc_owner_id = cl_sub claims, rc_origin = ur_empty_context req\<rparr>, app1)
                   | Inl MissingScope \<Rightarrow> (Inl 403, app1)
                   | Inl (Invalid _) \<Rightarrow> (Inl 401, app1))))"

definition realtime_ticket ::
  "int \<Rightarrow> (int \<Rightarrow> string) \<Rightarrow> u8 list \<Rightarrow> Claims \<Rightarrow> 'o \<Rightarrow> ('s, 'o) server \<Rightarrow> RealtimeTicketResponse \<times> ('s, 'o) server" where
  "realtime_ticket now to_rfc3339 random claims origin sv =
     (let (response, hub) = issue_ticket now to_rfc3339 random (cl_sub claims) origin (sv_hub sv)
      in (response, sv\<lparr>sv_hub := hub\<rparr>))"

section \<open>The library socket\<close>

text \<open>An inbound frame, or the end of the stream.\<close>

datatype inbound =
    Frame_Text "string option"  \<comment> \<open>none when the payload is not UTF-8\<close>
  | Frame_Close
  | Frame_Other
  | Stream_End

definition record_stream_end :: "string \<Rightarrow> ('s, 'o) server \<Rightarrow> ('s, 'o) server" where
  "record_stream_end channel sv = record_metric (RealtimeEvent channel ''recv_error'') sv"

text \<open>Close code 1013, try again later.\<close>

definition LAGGED_CLOSE_CODE :: nat where "LAGGED_CLOSE_CODE = 1013"
definition LAGGED_CLOSE_REASON :: string where "LAGGED_CLOSE_REASON = ''lagged''"

text \<open>A decision of a loop: go on, or end for a reason, after trying to send a close frame or not.\<close>

datatype decision =
    Go_On
  | Break string "(nat \<times> string) option"

record 'o library_conn =
  lc_owner_id :: string
  lc_to_json :: "LibraryEvent \<Rightarrow> string option"
  lc_sink_ok :: "nat \<Rightarrow> bool"

fun forward_library_fanout ::
  "'o library_conn \<Rightarrow> (LibraryEvent, 'o) recv \<Rightarrow> ('s, 'o) server \<Rightarrow> decision \<times> ('s, 'o) server" where
  "forward_library_fanout conn (Recv_Lagged skipped) sv =
     (Break ''lagged: the subscriber fell behind the library channel'' (Some (LAGGED_CLOSE_CODE, LAGGED_CLOSE_REASON)),
      record_metric (RealtimeEvent ''library'' ''lagged'') sv)"
| "forward_library_fanout conn (Recv_Ok fanout) sv =
     (let event = fo_message fanout in
      case lc_to_json conn event of
        None \<Rightarrow> (Go_On, sv)
      | Some payload \<Rightarrow>
          if lc_sink_ok conn (length (sv_frames sv))
          then (Go_On, record_metric (RealtimeMessageBytes ''library'' (library_message_type event) (length payload))
                  (sv\<lparr>sv_frames := sv_frames sv @ [payload]\<rparr>))
          else (Break ''send failed'' None, record_metric (RealtimeEvent ''library'' ''send_error'') sv))"
| "forward_library_fanout conn Recv_Empty sv = (Go_On, sv)"

fun library_inbound :: "inbound \<Rightarrow> ('s, 'o) server \<Rightarrow> decision \<times> ('s, 'o) server" where
  "library_inbound Frame_Close sv = (Break ''client closed'' None, record_metric (RealtimeEvent ''library'' ''closed'') sv)"
| "library_inbound Stream_End sv = (Break ''stream ended without a close frame'' None, record_stream_end ''library'' sv)"
| "library_inbound _ sv = (Go_On, sv)"

section \<open>The page socket\<close>

text \<open>What is fixed for a connection, and what its \<open>n\<close>-th step finds: the clock, the span and how
  long the step took.\<close>

record 'o page_conn =
  pc_page_id :: string
  pc_session_id :: string
  pc_to_json :: "PageServerMessage \<Rightarrow> string option"
  pc_from_json :: "string \<Rightarrow> PageClientMessage option"
  pc_sink_ok :: "nat \<Rightarrow> bool"
  pc_coalesce_replay :: bool
  pc_now :: "nat \<Rightarrow> int"
  pc_span :: "nat \<Rightarrow> 'o"
  pc_elapsed :: "nat \<Rightarrow> fp"

definition conn_ctx :: "'o page_conn \<Rightarrow> nat \<Rightarrow> 'o PageContext" where
  "conn_ctx conn n =
     \<lparr>cx_page_id = pc_page_id conn, cx_session_id = pc_session_id conn, cx_now = pc_now conn n,
      cx_span = pc_span conn n, cx_to_json = pc_to_json conn, cx_sink_ok = pc_sink_ok conn,
      cx_elapsed = pc_elapsed conn n, cx_coalesce_replay = pc_coalesce_replay conn\<rparr>"

definition send_welcome ::
  "'s PageStore \<Rightarrow> 'o page_conn \<Rightarrow> nat \<Rightarrow> ('s, 'o) server \<Rightarrow> (string + unit) \<times> ('s, 'o) server" where
  "send_welcome ops conn n sv =
     (let ctx = conn_ctx conn n;
          (max_res, sv1) = call_store (st_max_seq ops (pc_page_id conn)) sv;
          last_seq = (case max_res of Inl _ \<Rightarrow> 0 | Inr s \<Rightarrow> s);
          (lease_holder, hub) = current_lease_holder (pc_now conn n) (pc_page_id conn) (sv_hub sv1);
          sv2 = sv1\<lparr>sv_hub := hub\<rparr>;
          (paper_res, sv3) = call_store (st_current_paper ops (pc_page_id conn)) sv2
      in case paper_res of
           Inl error \<Rightarrow>
             (Inl ''page paper could not be read'',
              snd (send_page ctx (Msg_Error ''welcome_failed'' ''could not load the page'' None)
                (record_metric (RealtimeEvent ''page'' ''paper_read_error'') sv3)))
         | Inr paper \<Rightarrow>
             (let (sent, sv4) = send_page ctx (Welcome (pc_session_id conn) last_seq lease_holder paper) sv3 in
              if sent then (Inr (), sv4)
              else (Inl ''welcome send failed'', record_metric (RealtimeEvent ''page'' ''send_error'') sv4)))"

definition handle_page_client_message ::
  "'s PageStore \<Rightarrow> 'o page_conn \<Rightarrow> nat \<Rightarrow> string \<Rightarrow> ('s, 'o) server \<Rightarrow> bool \<times> ('s, 'o) server" where
  "handle_page_client_message ops conn n payload sv =
     (let ctx = conn_ctx conn n in
      case pc_from_json conn payload of
        None \<Rightarrow> send_page ctx (Msg_Error ''bad_message'' ''could not parse client message'' None) sv
      | Some message \<Rightarrow>
          (let (keep_open, sv1) = dispatch_page_client_message ops ctx message sv
           in (keep_open, record_metric (RealtimeMessageHandling (client_message_type message) (pc_elapsed conn n)) sv1)))"

fun forward_page_fanout ::
  "'o page_conn \<Rightarrow> nat \<Rightarrow> (PageServerMessage, 'o) recv \<Rightarrow> ('s, 'o) server \<Rightarrow> decision \<times> ('s, 'o) server" where
  "forward_page_fanout conn n (Recv_Ok fanout) sv =
     (let (sent, sv1) = send_page_frame (conn_ctx conn n) (fo_message fanout) sv in
      case sent of
        Some bytes \<Rightarrow> (Go_On, sv1)
      | None \<Rightarrow> (Break ''send failed'' None, record_metric (RealtimeEvent ''page'' ''send_error'') sv1))"
| "forward_page_fanout conn n (Recv_Lagged skipped) sv =
     (Break ''lagged: the subscriber fell behind the page channel'' (Some (LAGGED_CLOSE_CODE, LAGGED_CLOSE_REASON)),
      record_metric (RealtimeEvent ''page'' ''lagged'') sv)"
| "forward_page_fanout conn n Recv_Empty sv = (Go_On, sv)"

fun page_inbound ::
  "'s PageStore \<Rightarrow> 'o page_conn \<Rightarrow> nat \<Rightarrow> inbound \<Rightarrow> ('s, 'o) server \<Rightarrow> decision \<times> ('s, 'o) server" where
  "page_inbound ops conn n (Frame_Text None) sv =
     (Break ''text frame was not UTF-8'' None, record_metric (RealtimeEvent ''page'' ''recv_error'') sv)"
| "page_inbound ops conn n (Frame_Text (Some payload)) sv =
     (let (keep_open, sv1) = handle_page_client_message ops conn n payload sv
      in (if keep_open then Go_On else Break ''send failed'' None, sv1))"
| "page_inbound ops conn n Frame_Close sv =
     (Break ''client closed'' None, record_metric (RealtimeEvent ''page'' ''closed'') sv)"
| "page_inbound ops conn n Frame_Other sv = (Go_On, sv)"
| "page_inbound ops conn n Stream_End sv =
     (Break ''stream ended without a close frame'' None, record_stream_end ''page'' sv)"

text \<open>One iteration: the branch of \<open>select!\<close> that is ready, or what the other sessions do meanwhile,
  whose frames go to their own sinks.\<close>

datatype 'o loop_event =
    Fanout_Ready
  | Inbound_Ready inbound
  | Others "'o PageContext" PageClientMessage

definition page_channel :: "string \<Rightarrow> ('s, 'o) server \<Rightarrow> (PageServerMessage, 'o) Channel" where
  "page_channel page_id sv = channel_entry PAGE_CHANNEL_CAPACITY (page_channels (sv_hub sv)) page_id"

fun page_event ::
  "'s PageStore \<Rightarrow> 'o page_conn \<Rightarrow> nat \<Rightarrow> 'o loop_event \<Rightarrow> nat \<times> ('s, 'o) server \<Rightarrow> decision \<times> nat \<times> ('s, 'o) server" where
  "page_event ops conn n Fanout_Ready (pos, sv) =
     (let r = recv (page_channel (pc_page_id conn) sv) pos;
          (decision, sv1) = forward_page_fanout conn n r sv
      in (decision, (case (r, decision) of (Recv_Ok _, Go_On) \<Rightarrow> Suc pos | _ \<Rightarrow> pos), sv1))"
| "page_event ops conn n (Inbound_Ready frame) (pos, sv) =
     (let (decision, sv1) = page_inbound ops conn n frame sv in (decision, pos, sv1))"
| "page_event ops conn n (Others ctx m) (pos, sv) =
     (Go_On, pos, (snd (dispatch_page_client_message ops ctx m sv))\<lparr>sv_frames := sv_frames sv\<rparr>)"

text \<open>The loop, with the position up to which the channel was forwarded. An exhausted list means the
  loop is still running.\<close>

fun page_loop ::
  "'s PageStore \<Rightarrow> 'o page_conn \<Rightarrow> nat \<Rightarrow> 'o loop_event list \<Rightarrow> nat \<times> ('s, 'o) server \<Rightarrow>
   decision \<times> nat \<times> ('s, 'o) server" where
  "page_loop ops conn n [] st = (Go_On, st)"
| "page_loop ops conn n (e # es) st =
     (let (decision, st1) = page_event ops conn n e st in
      case decision of
        Break reason close \<Rightarrow> (Break reason close, st1)
      | Go_On \<Rightarrow> page_loop ops conn (Suc n) es st1)"

text \<open>After the loop: the lease is released and the siblings are told.\<close>

definition release_on_disconnect :: "'o page_conn \<Rightarrow> nat \<Rightarrow> ('s, 'o) server \<Rightarrow> ('s, 'o) server" where
  "release_on_disconnect conn n sv = dispatch_release_lease (conn_ctx conn n) sv"

definition handle_page_socket ::
  "'s PageStore \<Rightarrow> 'o page_conn \<Rightarrow> 'o loop_event list \<Rightarrow> ('s, 'o) server \<Rightarrow> decision \<times> ('s, 'o) server" where
  "handle_page_socket ops conn events sv =
     (let sv1 = record_metric (RealtimeEvent ''page'' ''connected'') (record_metric (RealtimeConnections 1) sv);
          (pos, hub) = subscribe_page (pc_page_id conn) (sv_hub sv1);
          (welcomed, sv2) = send_welcome ops conn 0 (sv1\<lparr>sv_hub := hub\<rparr>)
      in case welcomed of
           Inl reason \<Rightarrow> (Break reason None, record_metric (RealtimeConnections (-1)) sv2)
         | Inr _ \<Rightarrow>
             (let (decision, pos', sv3) = page_loop ops conn 1 events (pos, sv2) in
              case decision of
                Go_On \<Rightarrow> (Go_On, sv3)
              | Break reason close \<Rightarrow>
                  (Break reason close,
                   record_metric (RealtimeConnections (-1)) (release_on_disconnect conn (Suc (length events)) sv3))))"

text \<open>The page endpoint: authentication, then ownership, then the upgrade.\<close>

definition page_socket ::
  "'k jwt \<Rightarrow> AuthConfig \<Rightarrow> bool \<Rightarrow> 's PageStore \<Rightarrow> 'o upgrade_request \<Rightarrow> handshake \<Rightarrow> string \<Rightarrow>
   (string \<Rightarrow> ('s, 'o) server \<Rightarrow> ('s, 'o) server) \<Rightarrow> ('s, 'o, 'k) app \<Rightarrow> http_upgrade \<times> ('s, 'o, 'k) app" where
  "page_socket jw config compression ops req hs page_id handler app =
     (let (caller, app1) = authenticate_realtime jw config req app in
      case caller of
        Inl status \<Rightarrow>
          (Refused status ''realtime authentication failed'',
           app1\<lparr>app_server := record_metric (AuthFailure ''realtime_auth'') (app_server app1)\<rparr>)
      | Inr c \<Rightarrow>
          (let (owned, sv2) = call_store (st_page_belongs_to_owner ops page_id (rc_owner_id c)) (app_server app1);
               app2 = app1\<lparr>app_server := sv2\<rparr>
           in case owned of
                Inr False \<Rightarrow> (Refused 403 ''page not found'', app2)
              | Inl error \<Rightarrow> (Refused 500 ''ownership check failed'', app2)
              | Inr True \<Rightarrow>
                  (let (response, sv3) = spawn_upgraded hs (realtime_ws_options compression) ''page'' (handler page_id) sv2
                   in (response, app2\<lparr>app_server := sv3\<rparr>))))"

text \<open>The library endpoint and its loop; the library channel only carries events to the client.\<close>

datatype 'o library_loop_event =
    Library_Fanout_Ready
  | Library_Inbound_Ready inbound
  | Published 'o LibraryEvent

fun library_event ::
  "'o library_conn \<Rightarrow> 'o library_loop_event \<Rightarrow> nat \<times> ('s, 'o) server \<Rightarrow> decision \<times> nat \<times> ('s, 'o) server" where
  "library_event conn Library_Fanout_Ready (pos, sv) =
     (let r = recv (channel_entry LIBRARY_CHANNEL_CAPACITY (library_channels (sv_hub sv)) (lc_owner_id conn)) pos;
          (decision, sv1) = forward_library_fanout conn r sv
      in (decision, (case (r, decision) of (Recv_Ok _, Go_On) \<Rightarrow> Suc pos | _ \<Rightarrow> pos), sv1))"
| "library_event conn (Library_Inbound_Ready frame) (pos, sv) =
     (let (decision, sv1) = library_inbound frame sv in (decision, pos, sv1))"
| "library_event conn (Published origin event) (pos, sv) =
     (Go_On, pos, sv\<lparr>sv_hub := publish_library_event origin (lc_owner_id conn) event (sv_hub sv)\<rparr>)"

fun library_loop ::
  "'o library_conn \<Rightarrow> 'o library_loop_event list \<Rightarrow> nat \<times> ('s, 'o) server \<Rightarrow> decision \<times> nat \<times> ('s, 'o) server" where
  "library_loop conn [] st = (Go_On, st)"
| "library_loop conn (e # es) st =
     (let (decision, st1) = library_event conn e st in
      case decision of
        Break reason close \<Rightarrow> (Break reason close, st1)
      | Go_On \<Rightarrow> library_loop conn es st1)"

definition handle_library_socket ::
  "'o library_conn \<Rightarrow> 'o library_loop_event list \<Rightarrow> ('s, 'o) server \<Rightarrow> decision \<times> ('s, 'o) server" where
  "handle_library_socket conn events sv =
     (let sv1 = record_metric (RealtimeEvent ''library'' ''connected'') (record_metric (RealtimeConnections 1) sv);
          (pos, hub) = subscribe_library (lc_owner_id conn) (sv_hub sv1);
          (decision, pos', sv2) = library_loop conn events (pos, sv1\<lparr>sv_hub := hub\<rparr>)
      in case decision of
           Go_On \<Rightarrow> (Go_On, sv2)
         | Break reason close \<Rightarrow> (Break reason close, record_metric (RealtimeConnections (-1)) sv2))"

definition realtime_socket ::
  "'k jwt \<Rightarrow> AuthConfig \<Rightarrow> bool \<Rightarrow> 'o upgrade_request \<Rightarrow> handshake \<Rightarrow>
   (string \<Rightarrow> ('s, 'o) server \<Rightarrow> ('s, 'o) server) \<Rightarrow> ('s, 'o, 'k) app \<Rightarrow> http_upgrade \<times> ('s, 'o, 'k) app" where
  "realtime_socket jw config compression req hs handler app =
     (let (caller, app1) = authenticate_realtime jw config req app in
      case caller of
        Inl status \<Rightarrow>
          (Refused status ''realtime authentication failed'',
           app1\<lparr>app_server := record_metric (AuthFailure ''realtime_auth'') (app_server app1)\<rparr>)
      | Inr c \<Rightarrow>
          (let (response, sv1) = spawn_upgraded hs (realtime_ws_options compression) ''library''
                 (handler (rc_owner_id c)) (app_server app1)
           in (response, app1\<lparr>app_server := sv1\<rparr>)))"

section \<open>What a connection delivers\<close>

text \<open>Frames are only ever added.\<close>

lemma unchanged_frames [simp]:
  "sv_frames (snd (take_lease ctx sv)) = sv_frames sv" "sv_frames (publish_to_page ctx m sv) = sv_frames sv"
  "sv_frames (snd (call_store f sv)) = sv_frames sv" "sv_frames (record_metric mt sv) = sv_frames sv"
  "sv_frames (announce_edit ctx u t j rv sv) = sv_frames sv"
  by (simp_all add: take_lease_def publish_to_page_def call_store_def record_metric_def case_prod_beta
      announce_edit_frames)

lemma frame_grows: "prefix xs (sv_frames sv) \<Longrightarrow> prefix xs (sv_frames (snd (send_page_frame ctx m sv)))"
  by (auto simp: send_page_frame_def record_metric_def split: option.splits)

lemma send_grows: "prefix xs (sv_frames sv) \<Longrightarrow> prefix xs (sv_frames (snd (send_page ctx m sv)))"
  by (simp add: send_page_def case_prod_beta frame_grows)

lemma deny_grows: "prefix xs (sv_frames sv) \<Longrightarrow> prefix xs (sv_frames (snd (deny_lease ctx h sv)))"
  by (simp add: deny_lease_def send_grows)

lemma frames_grow: "prefix xs (sv_frames sv) \<Longrightarrow> prefix xs (sv_frames (snd (send_frames ctx ms cost sv)))"
  by (induction ms arbitrary: cost sv) (auto simp: case_prod_beta frame_grows split: option.split)

lemma replay_frames_grow: "prefix xs (sv_frames sv) \<Longrightarrow> prefix xs (sv_frames (snd (send_replay_frames ctx bs ts cost sv)))"
  by (auto simp: send_replay_frames_def case_prod_beta Let_def frames_grow split: option.split)

lemmas grows_intros = frame_grows send_grows deny_grows frames_grow replay_frames_grow

lemma dispatch_frames_grow:
  "prefix (sv_frames sv) (sv_frames (snd (dispatch_page_client_message ops ctx m sv)))"
proof (cases m)
  case (Subscribe s)
  show ?thesis
    unfolding Subscribe dispatch_page_client_message_def replay_page_def
    by (auto simp: case_prod_beta Let_def intro!: grows_intros split: sum.split option.split)
qed (auto simp: dispatch_page_client_message_def dispatch_acquire_lease_def dispatch_renew_lease_def
    dispatch_release_lease_def commit_batch_def commit_tombstones_def set_paper_def case_prod_beta Let_def
    intro!: grows_intros split: LeaseOutcome.split sum.split)

lemma dispatch_channel_grows:
  "prefix (page_sent (sv_hub sv) p) (page_sent (sv_hub (snd (dispatch_page_client_message ops ctx m sv))) p)"
proof (cases "is_edit m \<and> \<not> may_edit ctx sv")
  case True
  then obtain h where "dispatch_page_client_message ops ctx m sv = deny_lease ctx h (snd (take_lease ctx sv))"
    using dispatch_refused [of ctx sv m ops] by blast
  then show ?thesis by (simp add: server_simps hub_simps)
next
  case False
  show ?thesis
  proof (cases m)
    case (CommitBatch cid strokes)
    then show ?thesis
      using False by (cases "list_ex stroke_rejected strokes")
        (simp_all add: dispatch_page_client_message_def commit_batch_rejected commit_batch_effect)
  next
    case (CommitTombstones mid ids)
    then show ?thesis using False by (simp add: dispatch_page_client_message_def commit_tombstones_effect(2) [OF _ refl])
  next
    case (SetPaper mid paper)
    then show ?thesis using False by (simp add: dispatch_page_client_message_def set_paper_effect(2) [OF _ refl])
  qed (simp_all add: dispatch_page_client_message_def dispatch_acquire_lease_def dispatch_renew_lease_def
      dispatch_release_lease_def case_prod_beta Let_def server_simps hub_simps split: LeaseOutcome.split)
qed

lemma handle_grows:
  "prefix (sv_frames sv) (sv_frames (snd (handle_page_client_message ops conn n payload sv)))"
  "prefix (page_sent (sv_hub sv) p) (page_sent (sv_hub (snd (handle_page_client_message ops conn n payload sv))) p)"
  by (cases "pc_from_json conn payload";
      simp add: handle_page_client_message_def case_prod_beta Let_def send_grows dispatch_frames_grow
        dispatch_channel_grows server_simps)+

lemma inbound_grows:
  "prefix (sv_frames sv) (sv_frames (snd (page_inbound ops conn n frame sv))) \<and>
   prefix (page_sent (sv_hub sv) p) (page_sent (sv_hub (snd (page_inbound ops conn n frame sv))) p)"
proof (cases frame)
  case (Frame_Text t)
  show ?thesis
    using handle_grows [where sv = sv and ops = ops and conn = conn and n = n] by (cases t) (simp_all add: Frame_Text case_prod_beta server_simps)
qed (simp_all add: record_stream_end_def server_simps)

lemma inbound_no_close: "fst (page_inbound ops conn n frame sv) = Break reason close \<Longrightarrow> close = None"
  by (cases "(ops, conn, n, frame, sv)" rule: page_inbound.cases) (auto simp: case_prod_beta split: if_splits)

lemma page_sent_channel: "page_sent (sv_hub sv) p = map fo_message (ch_sent (page_channel p sv))"
  by (simp add: page_sent_def page_channel_def)

lemma send_page_frame_sent:
  assumes "send_page_frame ctx m sv = (Some bytes, sv1)"
  shows "sv_frames sv1 = sv_frames sv @ [the (cx_to_json ctx m)]"
  using assms by (auto simp: send_page_frame_def record_metric_def split: option.splits if_splits)

text \<open>One iteration: frames and channel grow, and the position moves past a message exactly when that
  message was sent.\<close>

lemma page_event_step:
  assumes step: "page_event ops conn n e (pos, sv) = (dec, pos1, sv1)"
    and pos: "pos \<le> length (page_sent (sv_hub sv) (pc_page_id conn))"
  defines "sent \<equiv> page_sent (sv_hub sv) (pc_page_id conn)"
  shows "prefix sent (page_sent (sv_hub sv1) (pc_page_id conn)) \<and>
    (\<exists>fs. sv_frames sv1 = sv_frames sv @ fs \<and>
      (pos1 = pos \<or> pos1 = Suc pos \<and> pos < length sent \<and> fs = [the (pc_to_json conn (sent ! pos))])) \<and>
    (\<forall>reason close. dec = Break reason (Some close) \<longrightarrow> close = (1013, ''lagged'') \<and> pos1 = pos \<and> pos < length sent)"
proof (cases e)
  case Fanout_Ready
  define r where "r = recv (page_channel (pc_page_id conn) sv) pos"
  have dec: "forward_page_fanout conn n r sv = (dec, sv1)"
    and pos1: "pos1 = (case (r, dec) of (Recv_Ok _, Go_On) \<Rightarrow> Suc pos | _ \<Rightarrow> pos)"
    using step by (auto simp: Fanout_Ready r_def [symmetric] Let_def split: prod.splits)
  show ?thesis
  proof (cases r)
    case (Recv_Ok fanout)
    then have at: "pos < length sent" "fo_message fanout = sent ! pos"
      by (auto simp: r_def recv_def sent_def page_sent_channel split: if_splits)
    obtain s sv2 where s: "send_page_frame (conn_ctx conn n) (fo_message fanout) sv = (s, sv2)" by fastforce
    have hub: "sv_hub sv2 = sv_hub sv"
      using send_page_frame_fields(2) [of "conn_ctx conn n" "fo_message fanout" sv] by (simp add: s)
    show ?thesis
    proof (cases s)
      case None
      have "prefix (sv_frames sv) (sv_frames sv2)"
        using frame_grows [of "sv_frames sv" sv "conn_ctx conn n" "fo_message fanout"] by (simp add: s)
      then show ?thesis
        using dec pos1 hub s None by (auto simp: Recv_Ok sent_def server_simps prefix_def)
    next
      case (Some bytes)
      have "sv_frames sv2 = sv_frames sv @ [the (pc_to_json conn (sent ! pos))]"
        using send_page_frame_sent [OF s [unfolded Some]] at by (simp add: conn_ctx_def)
      then show ?thesis using dec pos1 hub s Some at by (auto simp: Recv_Ok sent_def)
    qed
  next
    case (Recv_Lagged k)
    then have "pos < length sent" by (auto simp: r_def recv_def sent_def page_sent_channel split: if_splits)
    then show ?thesis
      using dec pos1 by (auto simp: Recv_Lagged sent_def server_simps LAGGED_CLOSE_CODE_def LAGGED_CLOSE_REASON_def)
  qed (use dec pos1 in \<open>auto simp: sent_def\<close>)
next
  case (Inbound_Ready frame)
  then have eq: "page_inbound ops conn n frame sv = (dec, sv1)" "pos1 = pos"
    using step by (auto split: prod.splits)
  then show ?thesis
    using inbound_grows [where sv = sv and ops = ops and conn = conn and n = n and frame = frame and p = "pc_page_id conn"] inbound_no_close [of ops conn n frame sv]
    by (auto simp: sent_def prefix_def)
next
  case (Others ctx m)
  then show ?thesis using step dispatch_channel_grows by (auto simp: sent_def)
qed

text \<open>One step of a loop, which sent nothing or the next message, before what the rest of the loop sent.\<close>

lemma subseq_one_more:
  assumes "q1 = q \<or> q1 = Suc q \<and> q < length sent \<and> fs = [f (sent ! q)]" "prefix sent sent'" "q1 \<le> q'"
    and "subseq (map f (take (q' - q1) (drop q1 sent'))) gs"
  shows "subseq (map f (take (q' - q) (drop q sent'))) (fs @ gs)"
proof (cases "q1 = q")
  case True
  then show ?thesis using assms(4) by (simp add: list_emb_append2)
next
  case False
  then have one: "q1 = Suc q" "q < length sent" "fs = [f (sent ! q)]" using assms(1) by auto
  then have "q < length sent'" "sent' ! q = sent ! q" using assms(2) by (auto simp: prefix_def nth_append)
  moreover have "q' - q = Suc (q' - q1)" using one(1) assms(3) by linarith
  ultimately have "take (q' - q) (drop q sent') = sent ! q # take (q' - q1) (drop q1 sent')"
    using Cons_nth_drop_Suc [of q sent'] by (simp add: one(1) flip: Cons_nth_drop_Suc)
  then show ?thesis using assms(4) by (simp add: one(3))
qed

lemma page_loop_delivers:
  fixes conn :: "'o page_conn"
  defines "js \<equiv> \<lambda>m. the (pc_to_json conn m)"
  shows "page_loop ops conn n es (q, s) = (dec, q', s') \<Longrightarrow>
      q \<le> length (page_sent (sv_hub s) (pc_page_id conn)) \<Longrightarrow>
      q \<le> q' \<and> q' \<le> length (page_sent (sv_hub s') (pc_page_id conn)) \<and>
      prefix (page_sent (sv_hub s) (pc_page_id conn)) (page_sent (sv_hub s') (pc_page_id conn)) \<and>
      (\<exists>fs. sv_frames s' = sv_frames s @ fs \<and>
        subseq (map js (take (q' - q) (drop q (page_sent (sv_hub s') (pc_page_id conn))))) fs) \<and>
      (\<forall>reason close. dec = Break reason (Some close) \<longrightarrow>
         close = (1013, ''lagged'') \<and> q' < length (page_sent (sv_hub s') (pc_page_id conn)))"
proof (induction es arbitrary: n q s)
  case (Cons e es)
  obtain d1 q1 s1 where e: "page_event ops conn n e (q, s) = (d1, q1, s1)" by (metis prod_cases3)
  define sent where "sent = page_sent (sv_hub s) (pc_page_id conn)"
  define sent' where "sent' = page_sent (sv_hub s') (pc_page_id conn)"
  note step = page_event_step [OF e Cons.prems(2), folded sent_def]
  obtain fs where fs: "sv_frames s1 = sv_frames s @ fs"
    "q1 = q \<or> q1 = Suc q \<and> q < length sent \<and> fs = [js (sent ! q)]" using step by (auto simp: js_def)
  have grow: "prefix sent (page_sent (sv_hub s1) (pc_page_id conn))" using step by simp
  have q1: "q1 \<le> length (page_sent (sv_hub s1) (pc_page_id conn))" "q \<le> q1"
    using fs(2) Cons.prems(2) prefix_length_le [OF grow] by (auto simp: sent_def)
  show ?case
  proof (cases d1)
    case Go_On
    then have rest: "page_loop ops conn (Suc n) es (q1, s1) = (dec, q', s')" using Cons.prems(1) by (simp add: e)
    note IH = Cons.IH [OF rest q1(1), folded sent'_def]
    then obtain gs where gs: "sv_frames s' = sv_frames s1 @ gs" "subseq (map js (take (q' - q1) (drop q1 sent'))) gs"
      by blast
    have pre: "prefix sent sent'" using prefix_order.trans [OF grow] IH by blast
    have "subseq (map js (take (q' - q) (drop q sent'))) (fs @ gs)"
      using subseq_one_more [OF fs(2) pre _ gs(2)] IH by blast
    then show ?thesis using IH pre q1(2) gs(1) fs(1) by (auto simp: sent_def sent'_def)
  next
    case (Break reason close)
    then have "dec = Break reason close" "q' = q1" "s' = s1" using Cons.prems(1) by (simp_all add: e)
    moreover have "subseq (map js (take (q1 - q) (drop q (page_sent (sv_hub s1) (pc_page_id conn))))) fs"
      using fs(2) grow by (auto simp: prefix_def take_Suc_conv_app_nth nth_append simp flip: Cons_nth_drop_Suc)
    ultimately show ?thesis
      using step q1 grow fs(1) Break prefix_length_le [OF grow] by (auto simp: sent_def)
  qed
qed auto


section \<open>The end of a connection\<close>

definition leased_to :: "string \<Rightarrow> string \<Rightarrow> 'o RealtimeHub \<Rightarrow> bool" where
  "leased_to p sid hub \<longleftrightarrow> (\<exists>l. leases hub p = Some l \<and> ls_holder l = sid)"

lemma leased_to_publish [simp]: "leased_to p sid (publish_page or q m hub) = leased_to p sid hub"
  by (simp add: leased_to_def publish_page_def Let_def)

lemma release_frees: "\<not> leased_to (cx_page_id ctx) (cx_session_id ctx) (sv_hub (dispatch_release_lease ctx sv))"
  by (auto simp: dispatch_release_lease_def release_lease_def leased_to_def publish_to_page_def publish_page_def Let_def
      split: option.splits)

lemma holder_leases: "leased_to p sid (snd (current_lease_holder now q hub)) \<Longrightarrow> leased_to p sid hub"
  by (auto simp: current_lease_holder_def leased_to_def split: option.splits if_splits)

lemma welcome_leases:
  "leased_to p sid (sv_hub (snd (send_welcome ops conn n sv))) \<Longrightarrow> leased_to p sid (sv_hub sv)"
  by (auto simp: send_welcome_def case_prod_beta Let_def server_simps dest!: holder_leases split: sum.splits if_splits)

text \<open>C31. A closed connection never keeps a page locked: when a page socket ends, for whatever reason
  (the client's close, a dropped stream, a failed send, a lag, a failed welcome), its session, whose
  fresh id held nothing before, holds no lease on the page, at any later time, so the next session
  to ask is granted it unless yet another one holds it.\<close>

theorem disconnect_frees_lease:
  assumes ended: "handle_page_socket ops conn events sv = (Break reason close, sv')"
    and fresh: "\<not> leased_to (pc_page_id conn) (pc_session_id conn) (sv_hub sv)"
  shows "\<not> leased_to (pc_page_id conn) (pc_session_id conn) (sv_hub sv') \<and>
    fst (acquire_lease now (pc_page_id conn) next (sv_hub sv')) \<noteq> Denied (pc_session_id conn)"
proof -
  define start where "start = (record_metric (RealtimeEvent ''page'' ''connected'') (record_metric (RealtimeConnections 1) sv))
    \<lparr>sv_hub := snd (subscribe_page (pc_page_id conn) (sv_hub sv))\<rparr>"
  define welcomed where "welcomed = send_welcome ops conn 0 start"
  have start: "\<not> leased_to (pc_page_id conn) (pc_session_id conn) (sv_hub start)"
    using fresh by (simp add: start_def subscribe_page_def leased_to_def Let_def)
  have free: "\<not> leased_to (pc_page_id conn) (pc_session_id conn) (sv_hub sv')"
  proof (cases "fst welcomed")
    case (Inl r)
    then have "sv_hub sv' = sv_hub (snd welcomed)"
      using ended by (simp add: handle_page_socket_def case_prod_beta start_def [symmetric] welcomed_def [symmetric]
          Let_def server_simps) (auto simp: record_metric_def start_def welcomed_def Let_def case_prod_beta)
    then show ?thesis using welcome_leases [of _ _ ops conn 0 start] start by (auto simp: welcomed_def)
  next
    case (Inr u)
    have "\<exists>s. sv' = record_metric (RealtimeConnections (- 1)) (dispatch_release_lease (conn_ctx conn (Suc (length events))) s)"
      using ended Inr by (auto simp: handle_page_socket_def case_prod_beta start_def welcomed_def Let_def server_simps
          release_on_disconnect_def split: decision.splits)
    then obtain s where s: "sv' = record_metric (RealtimeConnections (- 1))
        (dispatch_release_lease (conn_ctx conn (Suc (length events))) s)" by blast
    then have "sv_hub sv' = sv_hub (dispatch_release_lease (conn_ctx conn (Suc (length events))) s)"
      by (simp add: server_simps)
    then show ?thesis using release_frees [of "conn_ctx conn (Suc (length events))" s] by (simp add: conn_ctx_def)
  qed
  moreover have "holder_at now (pc_page_id conn) (sv_hub sv') \<noteq> Some (pc_session_id conn)"
    using free by (auto simp: holder_at_def leased_to_def split: option.splits)
  ultimately show ?thesis by (simp add: hub_lease.acquire_denied_iff)
qed

section \<open>The gate\<close>

text \<open>Who a request speaks for.\<close>

definition speaks_for :: "'k jwt \<Rightarrow> AuthConfig \<Rightarrow> 'o upgrade_request \<Rightarrow> ('s, 'o, 'k) app \<Rightarrow> ('s, 'o, 'k) app \<Rightarrow> string \<Rightarrow> bool" where
  "speaks_for jw config req app app' owner \<longleftrightarrow>
     (case ur_ticket req of
        Some ticket \<Rightarrow> \<exists>t. tickets (sv_hub (app_server app)) ticket = Some t \<and> ur_now req < tk_expires_at t \<and>
          owner = tk_owner_id t \<and> tickets (sv_hub (app_server app')) ticket = None
      | None \<Rightarrow> \<exists>token claims. extract_bearer (ur_authorization req) = Some token \<and>
          token_valid jw config (jc_keys (app_cache app')) token claims \<and> owner = cl_sub claims)"

lemma authenticate_speaks:
  assumes "authenticate_realtime jw config req app = (Inr caller, app')"
  shows "speaks_for jw config req app app' (rc_owner_id caller) \<and> sv_store (app_server app') = sv_store (app_server app)"
proof (cases "ur_ticket req")
  case None
  then obtain token claims cache where "extract_bearer (ur_authorization req) = Some token"
      "validate_jwt jw token config (app_cache app) = (Inr claims, cache)"
      "caller = \<lparr>rc_owner_id = cl_sub claims, rc_origin = ur_empty_context req\<rparr>" "app' = app\<lparr>app_cache := cache\<rparr>"
    using assms by (auto simp: authenticate_realtime_def Let_def split: option.splits prod.splits sum.splits TokenValidationError.splits)
  then show ?thesis using None validate_jwt_valid [of jw token config "app_cache app" claims cache] by (auto simp: speaks_for_def)
next
  case (Some ticket)
  then show ?thesis
    using assms by (auto simp: authenticate_realtime_def speaks_for_def consume_ticket_def map_retain_def Let_def
        split: option.splits if_splits)
qed

text \<open>C9. No page socket opens for anyone but the page's owner: the protocol is switched only for a
  caller with an unexpired ticket, used up by it, or a valid bearer token, and only when the page
  exists and is the caller's; every other request is refused with 400, 401, 403 or 500 before
  anything is upgraded, and then the connection's handler has not run.\<close>

theorem page_socket_gate:
  fixes app :: "(pg, 'o, 'k) app"
  shows "let (response, app') = page_socket jw config compression (PgPageStore env alone) req hs page_id handler app;
      d = pg_db (sv_store (app_server app)) in
    case response of
      Switching_Protocols \<Rightarrow>
        (\<exists>caller app1 row. authenticate_realtime jw config req app = (Inr caller, app1) \<and>
           speaks_for jw config req app app1 (rc_owner_id caller) \<and>
           row \<in> set (pages d) \<and> pg_id row = page_id \<and> pg_owner_id row = rc_owner_id caller)
    | Refused status message \<Rightarrow> status \<in> {400, 401, 403, 500} \<and>
        pg_db (sv_store (app_server app')) = d \<and> sv_frames (app_server app') = sv_frames (app_server app) \<and>
        page_sent (sv_hub (app_server app')) q = page_sent (sv_hub (app_server app)) q"
proof -
  obtain res app1 where auth: "authenticate_realtime jw config req app = (res, app1)" by fastforce
  have tickets_only: "sv_store (app_server app1) = sv_store (app_server app)"
    "sv_frames (app_server app1) = sv_frames (app_server app)"
    "page_sent (sv_hub (app_server app1)) q = page_sent (sv_hub (app_server app)) q"
    "res = Inl status \<Longrightarrow> status = 401 \<or> status = 403" for status
    using auth by (auto simp: authenticate_realtime_def consume_ticket_def page_sent_def Let_def case_prod_beta
        split: option.splits sum.splits TokenValidationError.splits if_splits prod.splits)
  show ?thesis
  proof (cases res)
    case (Inl status)
    then show ?thesis
      using tickets_only by (auto simp: page_socket_def auth record_metric_def)
  next
    case (Inr caller)
    note speaks = authenticate_speaks [OF auth [unfolded Inr]]
    have owned: "(\<exists>row. row \<in> set (pages d) \<and> pg_id row = page_id \<and> pg_owner_id row = owner)"
      if "page_belongs_to_owner e d page_id owner = Inr True" for e d owner
      using that by (auto simp: page_belongs_to_owner_def results_simps find_Some_iff dest: nth_mem)
    show ?thesis
      using tickets_only speaks auth owned
      by (auto simp: page_socket_def Inr case_prod_beta Let_def pg_store_calls call_store_def pg_read_def spawn_upgraded_def
          record_metric_def split: sum.split bool.split http_upgrade.split)
  qed
qed

subsection \<open>An example\<close>

definition example_conn :: "unit page_conn" where
  "example_conn = \<lparr>pc_page_id = ''p'', pc_session_id = ''s'', pc_to_json = (\<lambda>m. Some ''{}''),
     pc_from_json = (\<lambda>t. if t = ''acquire'' then Some AcquireLease else None), pc_sink_ok = (\<lambda>_. True),
     pc_coalesce_replay = False, pc_now = (\<lambda>_. 0), pc_span = (\<lambda>_. ()), pc_elapsed = (\<lambda>_. Fin 0)\<rparr>"

definition example_session :: "unit loop_event list" where
  "example_session = [Inbound_Ready (Frame_Text (Some ''acquire'')), Fanout_Ready, Inbound_Ready Frame_Close]"


lemma handle_breaks:
  assumes "\<And>n st. \<exists>reason close. fst (page_loop ops conn n events st) = Break reason close"
  shows "\<exists>reason close. fst (handle_page_socket ops conn events sv) = Break reason close"
proof -
  have "fst (page_loop ops conn n events st) \<noteq> Go_On" for n st using assms [of n st] by auto
  then show ?thesis
    by (auto simp: handle_page_socket_def case_prod_beta Let_def split: sum.split decision.split)
qed

lemma disconnect_frees_lease_witness:
  "\<not> leased_to ''p'' ''s'' (sv_hub (snd (handle_page_socket (PgPageStore (\<lambda>_. example_env) alone) example_conn
     example_session example_server)))"
proof -
  define res where "res = handle_page_socket (PgPageStore (\<lambda>_. example_env) alone) example_conn example_session example_server"
  have loop: "\<exists>reason close. fst (page_loop ops example_conn n example_session st) = Break reason close"
    for ops :: "pg PageStore" and n and st :: "nat \<times> (pg, unit) server"
  proof -
    have "\<exists>reason close. fst (page_loop ops example_conn n (es @ [Inbound_Ready Frame_Close]) st) = Break reason close"
      for es n and st :: "nat \<times> (pg, unit) server"
      by (induction es arbitrary: n st) (auto simp: case_prod_beta split: decision.split prod.split)
    from this [of n "[Inbound_Ready (Frame_Text (Some ''acquire'')), Fanout_Ready]" st]
    show ?thesis by (simp add: example_session_def)
  qed
  obtain reason close where "fst res = Break reason close"
    using handle_breaks [OF loop, of "PgPageStore (\<lambda>_. example_env) alone" example_server] by (auto simp: res_def)
  then have ended: "handle_page_socket (PgPageStore (\<lambda>_. example_env) alone) example_conn example_session example_server =
      (Break reason close, snd res)"
    by (simp add: res_def prod_eq_iff)
  have "\<not> leased_to ''p'' ''s'' (sv_hub example_server)" by (simp add: leased_to_def example_server_def hub_default_def)
  then show ?thesis
    using disconnect_frees_lease [OF ended, of 0 "''b''"] by (simp add: example_conn_def res_def)
qed

end
