(* ===== verification/Csp.thy ===== *)
theory Csp
  imports Text
begin

text \<open>
  The content security policy of the web client (\<open>crates/server/src/csp.rs\<close> with
  \<open>spa_content_security_policy\<close> of \<open>lib.rs\<close>): the policy's text and the scanner that finds the inline
  scripts of \<open>index.html\<close>. SHA-256 with base64 is a parameter.
\<close>

section \<open>The policy\<close>

fun join :: "string \<Rightarrow> string list \<Rightarrow> string" where
  "join sep [] = []"
| "join sep [s] = s"
| "join sep (s # t # ss) = s @ sep @ join sep (t # ss)"

definition push_all :: "string \<Rightarrow> string list \<Rightarrow> string" where
  "push_all s words = fold (\<lambda>w s. s @ '' '' @ w) words s"

definition quoted :: "string \<Rightarrow> string" where
  "quoted s = CHR 0x27 # s @ [CHR 0x27]"

definition spa_policy :: "string list \<Rightarrow> string list \<Rightarrow> string" where
  "spa_policy script_hashes connect_origins =
     (let script_src = push_all (''script-src '' @ quoted ''self'' @ '' '' @ quoted ''wasm-unsafe-eval'') script_hashes;
          connect_src = push_all (''connect-src '' @ quoted ''self'') connect_origins
      in join ''; ''
        [''default-src '' @ quoted ''self'', script_src, connect_src,
         ''img-src '' @ quoted ''self'' @ '' data: blob:'',
         ''style-src '' @ quoted ''self'' @ '' '' @ quoted ''unsafe-inline'',
         ''frame-ancestors '' @ quoted ''self'', ''base-uri '' @ quoted ''none'', ''object-src '' @ quoted ''none''])"

section \<open>The scanner\<close>

text \<open>\<open>str::find\<close>: the offset of the first occurrence.\<close>

fun str_find :: "string \<Rightarrow> string \<Rightarrow> nat option" where
  "str_find pat [] = (if pat = [] then Some 0 else None)"
| "str_find pat (c # s) = (if prefix pat (c # s) then Some 0 else map_option Suc (str_find pat s))"

definition to_ascii_lowercase :: "string \<Rightarrow> string" where
  "to_ascii_lowercase s = map ascii_lower s"

definition is_ascii_whitespace :: "char \<Rightarrow> bool" where
  "is_ascii_whitespace c \<longleftrightarrow> c \<in> {CHR 0x09, CHR 0x0A, CHR 0x0C, CHR 0x0D, CHR 0x20}"

text \<open>\<open>str::split\<close> on a class of characters.\<close>

fun split_by :: "(char \<Rightarrow> bool) \<Rightarrow> string \<Rightarrow> string list" where
  "split_by sep [] = [[]]"
| "split_by sep (c # s) = (if sep c then [] # split_by sep s
     else (case split_by sep s of [] \<Rightarrow> [[c]] | w # ws \<Rightarrow> (c # w) # ws))"

definition has_src_attribute :: "string \<Rightarrow> bool" where
  "has_src_attribute attributes =
     list_ex (\<lambda>attribute. attribute = ''src'' \<or> prefix ''src='' attribute) (split_by is_ascii_whitespace attributes)"

definition sha256_source :: "(string \<Rightarrow> string) \<Rightarrow> string \<Rightarrow> string" where
  "sha256_source digest text = quoted (''sha256-'' @ digest text)"

definition names_script :: "string \<Rightarrow> bool" where
  "names_script after = (case after of [] \<Rightarrow> False | c # _ \<Rightarrow> c = CHR ''>'' \<or> c = CHR ''/'' \<or> is_ascii_whitespace c)"

lemma str_find_bound: "str_find pat s = Some n \<Longrightarrow> n + length pat \<le> length s"
  by (induction s arbitrary: n) (auto split: if_splits dest: prefix_length_le)

text \<open>The loop. \<open>cursor\<close> only moves forward, so the text from it on stands for it; \<open>lower\<close> is that text in
  lower case.\<close>

function inline_scripts :: "(string \<Rightarrow> string) \<Rightarrow> string \<Rightarrow> string list" where
  "inline_scripts digest html =
     (let lower = to_ascii_lowercase html
      in case str_find ''<script'' lower of
           None \<Rightarrow> []
         | Some tag_start \<Rightarrow>
             (let after_name = tag_start + length ''<script''
              in if \<not> names_script (drop after_name lower) then inline_scripts digest (drop after_name html)
                 else case str_find ''>'' (drop after_name lower) of
                        None \<Rightarrow> []
                      | Some tag_len \<Rightarrow>
                          (let attributes = take tag_len (drop after_name lower);
                               body_start = after_name + tag_len + 1
                           in case str_find ''</script'' (drop body_start lower) of
                                None \<Rightarrow> []
                              | Some body_len \<Rightarrow>
                                  (let body_end = body_start + body_len;
                                       later = inline_scripts digest (drop body_end html)
                                   in if \<not> has_src_attribute attributes
                                      then sha256_source digest (take body_len (drop body_start html)) # later
                                      else later))))"
  by auto

termination
  by (relation "measure (\<lambda>(_, html). length html)")
    (auto simp: to_ascii_lowercase_def dest!: str_find_bound)

declare inline_scripts.simps [simp del]

definition inline_script_hashes :: "(string \<Rightarrow> string) \<Rightarrow> string \<Rightarrow> string list" where
  "inline_script_hashes digest html = inline_scripts digest html"

text \<open>The header: no file, no inline script; the origin of the endpoint when it parses.\<close>

definition spa_content_security_policy ::
  "(string \<Rightarrow> string) \<Rightarrow> (string \<Rightarrow> string option) \<Rightarrow> string option \<Rightarrow> string option \<Rightarrow> string" where
  "spa_content_security_policy digest origin index telemetry_endpoint =
     (let script_hashes = (case index of Some html \<Rightarrow> inline_script_hashes digest html | None \<Rightarrow> []);
          connect_origins = (case telemetry_endpoint of None \<Rightarrow> []
            | Some endpoint \<Rightarrow> (case origin endpoint of None \<Rightarrow> [] | Some site \<Rightarrow> [site]))
      in spa_policy script_hashes connect_origins)"

section \<open>Documents\<close>

text \<open>A script element as written: the tag in any case, attributes, text, closing tag up to its \<open>>\<close>.\<close>

record Script =
  sc_open :: string
  sc_attributes :: string
  sc_text :: string
  sc_close :: string

definition script_ok :: "Script \<Rightarrow> bool" where
  "script_ok s \<longleftrightarrow> to_ascii_lowercase (sc_open s) = ''<script'' \<and> to_ascii_lowercase (sc_close s) = ''</script'' \<and>
     CHR ''>'' \<notin> set (sc_attributes s) \<and>
     names_script (sc_attributes s @ ''>'') \<and>
     str_find ''</script'' (to_ascii_lowercase (sc_text s)) = None"

definition script_html :: "Script \<Rightarrow> string" where
  "script_html s = sc_open s @ sc_attributes s @ ''>'' @ sc_text s @ sc_close s"

definition no_script :: "string \<Rightarrow> bool" where
  "no_script markup \<longleftrightarrow> str_find ''<script'' (to_ascii_lowercase markup) = None"

text \<open>A document: markup before each script, and after the last.\<close>

type_synonym Document = "(string \<times> Script) list \<times> string"

fun document_ok :: "Document \<Rightarrow> bool" where
  "document_ok (parts, tail) \<longleftrightarrow> (\<forall>(markup, s) \<in> set parts. no_script markup \<and> script_ok s) \<and> no_script tail"

fun document_html :: "Document \<Rightarrow> string" where
  "document_html (parts, tail) = concat (map (\<lambda>(markup, s). markup @ script_html s) parts) @ tail"

definition inline :: "Script \<Rightarrow> bool" where
  "inline s \<longleftrightarrow> \<not> has_src_attribute (to_ascii_lowercase (sc_attributes s))"

fun inline_texts :: "Document \<Rightarrow> string list" where
  "inline_texts (parts, _) = map sc_text (filter inline (map snd parts))"

section \<open>Finding\<close>

lemma ascii_lower_eq: "ascii_lower c = CHR ''<'' \<longleftrightarrow> c = CHR ''<''" "ascii_lower c = CHR ''>'' \<longleftrightarrow> c = CHR ''>''"
proof -
  have "of_char c + 32 < (256::nat)" if "(of_char c :: nat) \<le> 90" using that by simp
  then show "ascii_lower c = CHR ''<'' \<longleftrightarrow> c = CHR ''<''" "ascii_lower c = CHR ''>'' \<longleftrightarrow> c = CHR ''>''"
    by (auto simp: ascii_lower_def Let_def dest!: arg_cong [where f = "of_char :: char \<Rightarrow> nat"])
qed

lemma lowercase_simps [simp]:
  "to_ascii_lowercase [] = []" "to_ascii_lowercase (c # s) = ascii_lower c # to_ascii_lowercase s"
  "to_ascii_lowercase (s @ t) = to_ascii_lowercase s @ to_ascii_lowercase t"
  "length (to_ascii_lowercase s) = length s"
  "to_ascii_lowercase (drop n s) = drop n (to_ascii_lowercase s)"
  by (simp_all add: to_ascii_lowercase_def drop_map)

lemma str_find_append_None:
  assumes "str_find (c # p) s = None" "c \<notin> set p" "v = [] \<or> hd v = c"
  shows "str_find (c # p) (s @ v) = map_option ((+) (length s)) (str_find (c # p) v)"
  using assms(1)
proof (induction s)
  case (Cons a s)
  then have off: "\<not> prefix (c # p) (a # s)" and none: "str_find (c # p) s = None" by (auto split: if_splits)
  have "\<not> prefix (c # p) ((a # s) @ v)"
  proof
    assume pre: "prefix (c # p) ((a # s) @ v)"
    with off obtain w where w: "c # p = (a # s) @ w" "prefix w v" "w \<noteq> []"
      unfolding prefix_append by auto
    then obtain x w' where "w = x # w'" "x \<in> set p" by (cases w) auto
    with w(2) assms(2,3) show False by (cases v) auto
  qed
  then show ?case using Cons.IH [OF none] by (auto simp: option.map_comp comp_def)
qed (simp add: option.map_ident_strong)

lemma str_find_char: "c \<notin> set s \<Longrightarrow> str_find [c] (s @ c # t) = Some (length s)"
  by (induction s) auto

lemma str_find_here: "pat \<noteq> [] \<Longrightarrow> str_find pat (pat @ s) = Some 0"
  by (cases pat) (auto simp: prefix_def)

text \<open>What happens at a tag depends on the text from there on.\<close>

definition at_tag :: "(string \<Rightarrow> string) \<Rightarrow> string \<Rightarrow> string list" where
  "at_tag digest t =
     (let after = drop (length ''<script'') t; lower = to_ascii_lowercase after
      in if \<not> names_script lower then inline_scripts digest after
         else case str_find ''>'' lower of
                None \<Rightarrow> []
              | Some k \<Rightarrow> (case str_find ''</script'' (drop (k + 1) lower) of
                  None \<Rightarrow> []
                | Some m \<Rightarrow>
                    (if \<not> has_src_attribute (take k lower)
                     then [sha256_source digest (take m (drop (k + 1) after))] else []) @
                    inline_scripts digest (drop (k + 1 + m) after)))"

lemma inline_scripts_at:
  "inline_scripts digest html = (case str_find ''<script'' (to_ascii_lowercase html) of
     None \<Rightarrow> [] | Some n \<Rightarrow> at_tag digest (drop n html))"
  by (subst inline_scripts.simps, cases "str_find ''<script'' (to_ascii_lowercase html)")
    (simp_all add: Let_def at_tag_def ac_simps split: option.split)

text \<open>The scanner passes over a text in which nothing starts.\<close>

lemma inline_scripts_skip:
  assumes "str_find ''<script'' (to_ascii_lowercase (u @ v)) =
    map_option ((+) (length u)) (str_find ''<script'' (to_ascii_lowercase v))"
  shows "inline_scripts digest (u @ v) = inline_scripts digest v"
  unfolding inline_scripts_at assms by (simp split: option.split)

lemma skip_markup:
  assumes "no_script markup" "v = [] \<or> hd (to_ascii_lowercase v) = CHR ''<''"
  shows "inline_scripts digest (markup @ v) = inline_scripts digest v"
  by (rule inline_scripts_skip)
    (use assms str_find_append_None [of "CHR ''<''" "''script''" "to_ascii_lowercase markup" "to_ascii_lowercase v"]
      in \<open>auto simp: no_script_def\<close>)

lemma skip_close:
  assumes "to_ascii_lowercase close = ''</script''"
  shows "inline_scripts digest (close @ v) = inline_scripts digest v"
proof (rule inline_scripts_skip)
  have "length close = 8" using arg_cong [OF assms, of length] by simp
  then show "str_find ''<script'' (to_ascii_lowercase (close @ v)) =
      map_option ((+) (length close)) (str_find ''<script'' (to_ascii_lowercase v))"
    by (cases "str_find ''<script'' (to_ascii_lowercase v)") (simp_all add: assms)
qed

text \<open>One script element.\<close>

lemma scan_script:
  assumes ok: "script_ok s"
  shows "inline_scripts digest (script_html s @ v) =
    (if inline s then [sha256_source digest (sc_text s)] else []) @ inline_scripts digest v"
proof -
  note s = ok [unfolded script_ok_def]
  let ?at = "to_ascii_lowercase (sc_attributes s)" and ?text = "to_ascii_lowercase (sc_text s)"
  let ?after = "sc_attributes s @ ''>'' @ sc_text s @ sc_close s @ v"
  have open7: "length (sc_open s) = length ''<script''"
    using s by (metis lowercase_simps(4))
  have start: "str_find ''<script'' (to_ascii_lowercase (script_html s @ v)) = Some 0"
    using s str_find_here [of "''<script''"] by (simp add: script_html_def)
  have after: "drop (length ''<script'') (script_html s @ v) = ?after"
    unfolding open7 [symmetric] script_html_def by simp
  have "CHR ''>'' \<notin> set (sc_attributes s)" using s by simp
  then have "CHR ''>'' \<notin> set ?at" unfolding to_ascii_lowercase_def set_map by (metis ascii_lower_eq(2) imageE)
  then have gt: "str_find ''>'' (to_ascii_lowercase ?after) = Some (length ?at)"
    using str_find_char [of "CHR ''>''" ?at] by (simp add: ascii_lower_def)
  have close: "to_ascii_lowercase (sc_close s @ v) = ''</script'' @ to_ascii_lowercase v" using s by simp
  have found: "str_find ''</script'' (''</script'' @ to_ascii_lowercase v) = Some 0" by (rule str_find_here) simp
  have "str_find ''</script'' (?text @ to_ascii_lowercase (sc_close s @ v)) = Some (length ?text)"
    using str_find_append_None [of "CHR ''<''" "''/script''" ?text "to_ascii_lowercase (sc_close s @ v)"] s
    unfolding close found by simp
  then have found_end: "str_find ''</script'' (drop (length ?at + 1) (to_ascii_lowercase ?after)) = Some (length ?text)"
    by simp
  have named: "names_script (to_ascii_lowercase ?after)"
    using s by (cases "sc_attributes s")
      (auto simp: names_script_def is_ascii_whitespace_def ascii_lower_def)
  have "inline_scripts digest (script_html s @ v) = at_tag digest (script_html s @ v)"
    unfolding inline_scripts_at [of digest "script_html s @ v"] start by simp
  also have "\<dots> = (if inline s then [sha256_source digest (sc_text s)] else []) @ inline_scripts digest (sc_close s @ v)"
    unfolding at_tag_def Let_def after gt option.case found_end using named by (simp add: inline_def)
  also have "inline_scripts digest (sc_close s @ v) = inline_scripts digest v"
    by (rule skip_close) (use s in simp)
  finally show ?thesis .
qed

lemma document_starts: "\<forall>(markup, s) \<in> set parts. script_ok s \<Longrightarrow> parts \<noteq> [] \<Longrightarrow>
    hd (to_ascii_lowercase (script_html (snd (hd parts)) @ v)) = CHR ''<''"
  by (cases parts) (auto simp: script_html_def script_ok_def)

lemma inline_scripts_document:
  "document_ok doc \<Longrightarrow> inline_scripts digest (document_html doc) = map (sha256_source digest) (inline_texts doc)"
proof (induction doc rule: document_ok.induct)
  case (1 parts tail)
  then show ?case
  proof (induction parts)
    case Nil
    then show ?case using skip_markup [of tail "[]" digest] by (simp add: inline_scripts_at)
  next
    case (Cons part parts)
    obtain markup s where part: "part = (markup, s)" by (cases part)
    have ok: "no_script markup" "script_ok s" and rest: "document_ok (parts, tail)" using Cons.prems by (auto simp: part)
    let ?v = "document_html (parts, tail)"
    have "hd (to_ascii_lowercase (script_html s @ ?v)) = CHR ''<''"
      using document_starts [of "[part]" ?v] ok by (simp add: part)
    then have "inline_scripts digest (markup @ script_html s @ ?v) =
        (if inline s then [sha256_source digest (sc_text s)] else []) @ inline_scripts digest ?v"
      using skip_markup [OF ok(1), of "script_html s @ ?v"] scan_script [OF ok(2)] by simp
    with Cons.IH [OF rest] show ?case by (simp add: part)
  qed
qed

section \<open>Reading the policy\<close>

text \<open>A policy is read by splitting it at semicolons and each directive at white space.\<close>

definition read_policy :: "string \<Rightarrow> string list list" where
  "read_policy policy =
     map (\<lambda>d. filter (\<lambda>w. w \<noteq> []) (split_by is_ascii_whitespace d)) (split_by (\<lambda>c. c = CHR '';'') policy)"

definition source_word :: "string \<Rightarrow> bool" where
  "source_word w \<longleftrightarrow> w \<noteq> [] \<and> (\<forall>c \<in> set w. \<not> is_ascii_whitespace c \<and> c \<noteq> CHR '';'')"

lemma space_separates [simp]: "is_ascii_whitespace (CHR '' '')"
  by (simp add: is_ascii_whitespace_def)

lemma split_by_none: "\<forall>c \<in> set w. \<not> sep c \<Longrightarrow> split_by sep w = [w]"
  by (induction w) auto

lemma split_by_append:
  "\<forall>c \<in> set w. \<not> sep c \<Longrightarrow> sep c \<Longrightarrow> split_by sep (w @ c # s) = w # split_by sep s"
  by (induction w) auto

lemma split_by_nonempty: "split_by sep s \<noteq> []"
  by (induction s) (auto split: list.splits)

lemma push_all_simps [simp]: "push_all s [] = s" "push_all s (w # ws) = push_all (s @ '' '' @ w) ws"
  by (simp_all add: push_all_def)

lemma push_all_append: "push_all s ws = s @ concat (map (\<lambda>w. '' '' @ w) ws)"
  by (induction ws arbitrary: s) auto

lemma split_words:
  assumes "\<forall>w \<in> set ws. source_word w" "\<forall>c \<in> set s. \<not> is_ascii_whitespace c"
  shows "split_by is_ascii_whitespace (push_all s ws) = s # ws"
  using assms
proof (induction ws arbitrary: s)
  case Nil
  then show ?case by (simp add: split_by_none)
next
  case (Cons w ws)
  have "\<forall>c \<in> set w. \<not> is_ascii_whitespace c" using Cons.prems by (simp add: source_word_def)
  then have "split_by is_ascii_whitespace (push_all w ws) = w # ws" using Cons by simp
  moreover have "push_all (s @ '' '' @ w) ws = s @ CHR '' '' # push_all w ws" by (simp add: push_all_append)
  ultimately show ?case
    using split_by_append [OF Cons.prems(2), of "CHR '' ''"] by simp
qed

text \<open>The words of a directive, read back from where it stands in the policy.\<close>

definition directive_words :: "string \<Rightarrow> string list" where
  "directive_words d = filter (\<lambda>w. w \<noteq> []) (split_by is_ascii_whitespace d)"

lemma directive_words_space: "directive_words (CHR '' '' # d) = directive_words d"
  by (simp add: directive_words_def is_ascii_whitespace_def)

lemma directive_words_push:
  assumes "\<forall>w \<in> set (w0 # ws). source_word w"
  shows "directive_words (push_all w0 ws) = w0 # ws"
  using assms split_words [of ws w0]
  by (auto simp: directive_words_def source_word_def intro: filter_True)

lemma read_join:
  assumes "\<forall>d \<in> set ds. CHR '';'' \<notin> set d" "ds \<noteq> []"
  shows "read_policy (join ''; '' ds) = map directive_words ds"
proof -
  have "map directive_words (split_by (\<lambda>c. c = CHR '';'') (join ''; '' ds)) = map directive_words ds"
    using assms
  proof (induction "''; ''" ds rule: join.induct)
    case (2 s)
    then have "\<forall>c \<in> set s. c \<noteq> CHR '';''" by auto
    from split_by_none [of s "\<lambda>c. c = CHR '';''", OF this] show ?case by simp
  next
    case (3 s t ss)
    have s: "\<forall>c \<in> set s. c \<noteq> CHR '';''" using 3(2) by auto
    have IH: "map directive_words (split_by (\<lambda>c. c = CHR '';'') (join ''; '' (t # ss))) = map directive_words (t # ss)"
      by (rule 3(1)) (use 3(2) in simp_all)
    have "split_by (\<lambda>c. c = CHR '';'') (CHR '' '' # r) =
        (case split_by (\<lambda>c. c = CHR '';'') r of w # ws \<Rightarrow> (CHR '' '' # w) # ws)" for r
      by (simp add: split_by_nonempty split: list.split)
    then have "map directive_words (split_by (\<lambda>c. c = CHR '';'') (CHR '' '' # r)) =
        map directive_words (split_by (\<lambda>c. c = CHR '';'') r)" for r
      using split_by_nonempty [of "\<lambda>c. c = CHR '';''" r] by (auto simp: directive_words_space split: list.split)
    then show ?case
      using split_by_append [of s "\<lambda>c. c = CHR '';''" "CHR '';''"] s IH by simp
  qed simp
  then show ?thesis by (simp add: read_policy_def directive_words_def [abs_def])
qed

text \<open>The policy, as the browser reads it.\<close>

definition policy_directives :: "string list \<Rightarrow> string list \<Rightarrow> string list list" where
  "policy_directives script_hashes connect_origins =
     [[''default-src'', quoted ''self''],
      [''script-src'', quoted ''self'', quoted ''wasm-unsafe-eval''] @ script_hashes,
      [''connect-src'', quoted ''self''] @ connect_origins,
      [''img-src'', quoted ''self'', ''data:'', ''blob:''],
      [''style-src'', quoted ''self'', quoted ''unsafe-inline''],
      [''frame-ancestors'', quoted ''self''], [''base-uri'', quoted ''none''], [''object-src'', quoted ''none'']]"

lemma push_all_semicolon:
  assumes "\<forall>w \<in> set ws. source_word w" "CHR '';'' \<notin> set s"
  shows "CHR '';'' \<notin> set (push_all s ws)"
  using assms by (auto simp: push_all_append source_word_def)

lemma read_spa_policy:
  assumes "\<forall>w \<in> set hashes. source_word w" "\<forall>w \<in> set origins. source_word w"
  shows "read_policy (spa_policy hashes origins) = policy_directives hashes origins"
proof -
  have words: "source_word ''script-src''" "source_word ''connect-src''" "source_word (quoted ''self'')"
    "source_word (quoted ''wasm-unsafe-eval'')"
    by (simp_all add: source_word_def quoted_def is_ascii_whitespace_def)
  have script: "directive_words (push_all (''script-src '' @ quoted ''self'' @ '' '' @ quoted ''wasm-unsafe-eval'') hashes) =
      [''script-src'', quoted ''self'', quoted ''wasm-unsafe-eval''] @ hashes"
    using directive_words_push [of "''script-src''" "quoted ''self'' # quoted ''wasm-unsafe-eval'' # hashes"] assms(1) words
    by simp
  have connect: "directive_words (push_all (''connect-src '' @ quoted ''self'') origins) =
      [''connect-src'', quoted ''self''] @ origins"
    using directive_words_push [of "''connect-src''" "quoted ''self'' # origins"] assms(2) words by simp
  have "read_policy (spa_policy hashes origins) = map directive_words
    [''default-src '' @ quoted ''self'', push_all (''script-src '' @ quoted ''self'' @ '' '' @ quoted ''wasm-unsafe-eval'') hashes,
     push_all (''connect-src '' @ quoted ''self'') origins, ''img-src '' @ quoted ''self'' @ '' data: blob:'',
     ''style-src '' @ quoted ''self'' @ '' '' @ quoted ''unsafe-inline'', ''frame-ancestors '' @ quoted ''self'',
     ''base-uri '' @ quoted ''none'', ''object-src '' @ quoted ''none'']"
    unfolding spa_policy_def Let_def
    by (rule read_join) (use assms in \<open>auto dest!: push_all_semicolon simp: quoted_def push_all_append source_word_def\<close>)
  also have "\<dots> = policy_directives hashes origins"
    by (simp only: list.map script connect)
      (simp add: policy_directives_def directive_words_def quoted_def is_ascii_whitespace_def)
  finally show ?thesis .
qed


definition example_document :: Document where
  "example_document =
     ([(''<html>'', \<lparr>sc_open = ''<SCRIPT'', sc_attributes = '' type=module'', sc_text = ''init()'', sc_close = ''</script''\<rparr>),
       (''>'', \<lparr>sc_open = ''<script'', sc_attributes = '' src=/app.js'', sc_text = [], sc_close = ''</Script''\<rparr>)], ''></html>'')"


end
