(* ===== verification/Config.thy ===== *)
theory Config
  imports Auth
begin

text \<open>
  The server's configuration (\<open>crates/server/src/config.rs\<close>, with what \<open>main.rs\<close> and \<open>lib.rs\<close> make of it).
  A leaf is looked up by its path; how the \<open>config\<close> crate merges its sources into that lookup, and the
  parsers of other crates (URL, socket address, log filter, JSON, numbers and booleans from text), are
  parameters.
\<close>

section \<open>Sources\<close>

datatype 'o ConfValue =
    CV_String string
  | CV_Table "(string \<times> 'o ConfValue) list"
  | CV_Array "'o ConfValue list"
  | CV_Other 'o

primrec trim_value :: "'o ConfValue \<Rightarrow> 'o ConfValue" where
  "trim_value (CV_String t) = CV_String (if length (trim t) \<noteq> length t then trim t else t)"
| "trim_value (CV_Table table) = CV_Table (map (map_prod id trim_value) table)"
| "trim_value (CV_Array items) = CV_Array (map trim_value items)"
| "trim_value (CV_Other v) = CV_Other v"

type_synonym ('e, 'o) Source = "'e + (string \<times> 'o ConfValue) list"

definition trimmed_collect :: "('e, 'o) Source \<Rightarrow> ('e, 'o) Source" where
  "trimmed_collect source = map_sum id (map (\<lambda>(key, v). (key, trim_value v))) source"

definition kebab_collect :: "('e, 'o) Source \<Rightarrow> ('e, 'o) Source" where
  "kebab_collect source = map_sum id (map (\<lambda>(key, v). (replace_str ''_'' ''-'' key, v))) source"

definition SOVEREIGN_ACCESS_URL_FILE :: string where "SOVEREIGN_ACCESS_URL_FILE = ''SOVEREIGN_CONFIG_ACCESS_URL_FILE''"
definition SOVEREIGN_ACCESS_URL :: string where "SOVEREIGN_ACCESS_URL = ''SOVEREIGN_CONFIG_ACCESS_URL''"

definition sovereign_source_enabled :: "(string \<rightharpoonup> string) \<Rightarrow> bool" where
  "sovereign_source_enabled env =
     list_ex (\<lambda>name. case env name of Some v \<Rightarrow> trim v \<noteq> [] | None \<Rightarrow> False)
       [SOVEREIGN_ACCESS_URL_FILE, SOVEREIGN_ACCESS_URL]"

definition config_defaults :: "(string \<times> string) list" where
  "config_defaults =
     [(''database.port'', ''5432''), (''observability.otlp-protocol'', ''grpc''),
      (''observability.otlp-timeout-ms'', ''2000''), (''observability.service-name'', ''v-note''),
      (''observability.metrics-addr'', ''0.0.0.0:9090''), (''server.http-port'', ''8080''),
      (''android.assetlinks-json'', ''''), (''realtime.coalesce-replay'', ''true''),
      (''realtime.compression'', ''false''), (''client-telemetry.endpoint'', '''')]"

text \<open>The layers in order, lowest first: defaults, the managed subtree when its URL is set, the environment.\<close>

definition config_sources ::
  "(string \<rightharpoonup> string) \<Rightarrow> ('e, 'o) Source \<Rightarrow> ('e, 'o) Source \<Rightarrow> ('e, 'o) Source list" where
  "config_sources env sovereign environment =
     (if sovereign_source_enabled env then [trimmed_collect sovereign] else []) @
     [trimmed_collect (kebab_collect environment)]"

lemma trim_start_id: "(\<And>w. w \<in> set white_space \<Longrightarrow> \<not> prefix w s) \<Longrightarrow> trim_start s = s"
  by (subst trim_start.simps) (auto simp: find_Some_iff split: option.split)

lemma trim_end_id: "(\<And>w. w \<in> set white_space \<Longrightarrow> \<not> suffix w s) \<Longrightarrow> trim_end s = s"
  by (subst trim_end.simps) (auto simp: find_Some_iff split: option.split)

lemma trim_trim [simp]: "trim (trim s) = trim s"
  using trim_start_id [of "trim s"] trim_end_id [of "trim s"] trim_clean [of _ s] by (simp add: trim_def [of "trim s"])

lemma trim_start_suffix: "suffix (trim_start s) s"
proof (induction s rule: trim_start.induct)
  case (1 s)
  then show ?case
    by (subst trim_start.simps) (auto split: option.split intro: suffix_order.trans suffix_drop)
qed

lemma trim_same_length:
  assumes "length (trim s) = length s"
  shows "trim s = s"
proof -
  obtain as where as: "s = as @ trim_start s" using trim_start_suffix [of s] by (auto simp: suffix_def)
  obtain bs where bs: "trim_start s = trim s @ bs" using trim_end_prefix [of "trim_start s"] by (auto simp: trim_def prefix_def)
  have "length s = length as + length (trim s) + length bs"
    using arg_cong [OF as, of length] arg_cong [OF bs, of length] by simp
  then have "as = []" "bs = []" using assms by simp_all
  then show ?thesis using as bs by simp
qed

text \<open>No text of a trimmed source carries stray whitespace, at any depth.\<close>

fun texts :: "'o ConfValue \<Rightarrow> string list" where
  "texts (CV_String t) = [t]"
| "texts (CV_Table table) = concat (map (\<lambda>entry. texts (snd entry)) table)"
| "texts (CV_Array items) = concat (map texts items)"
| "texts (CV_Other v) = []"

lemma trim_value_clean: "t \<in> set (texts (trim_value v)) \<Longrightarrow> trim t = t"
proof (induction v rule: texts.induct)
  case (1 s)
  then show ?case by (auto simp: trim_same_length split: if_splits)
qed (fastforce+)

lemma trimmed_collect_clean:
  assumes "trimmed_collect source = Inr table" "(key, v) \<in> set table" "t \<in> set (texts v)"
  shows "trim t = t"
  using assms by (cases source) (auto simp: trimmed_collect_def intro: trim_value_clean)

lemma config_sources_clean:
  "Inr table \<in> set (config_sources env sovereign environment) \<Longrightarrow> (key, v) \<in> set table \<Longrightarrow> t \<in> set (texts v)
     \<Longrightarrow> trim t = t"
  by (auto simp: config_sources_def split: if_splits intro: trimmed_collect_clean [OF sym])

section \<open>Errors and loading\<close>

datatype 'e ConfigError = Build 'e | Load string string "string option" | Invalid string string

text \<open>
  A coercion failure keeps the leaf and its value, as the message of the \<open>config\<close> crate embeds it; that message is a
  parameter of \<open>Display\<close>. When several leaves of a group are bad, the model reports the first declared.
\<close>

fun describe_error :: "('e \<Rightarrow> string) \<Rightarrow> (string \<Rightarrow> string option \<Rightarrow> string) \<Rightarrow> 'e ConfigError \<Rightarrow> string" where
  "describe_error show_source show_load (Build source) = ''failed to build configuration: '' @ show_source source"
| "describe_error show_source show_load (Load grp leaf raw) =
     ''failed to load config group `'' @ grp @ ''`: '' @ show_load leaf raw"
| "describe_error show_source show_load (Invalid path reason) = ''invalid config `'' @ path @ ''`: '' @ reason"

type_synonym Leaves = "string \<rightharpoonup> string"

record 'u Parsers =
  ps_url :: "string \<Rightarrow> 'u option"
  ps_url_text :: "'u \<Rightarrow> string"
  ps_scheme :: "'u \<Rightarrow> string"
  ps_path :: "'u \<Rightarrow> string"
  ps_query :: "'u \<Rightarrow> string option"
  ps_fragment :: "'u \<Rightarrow> string option"
  ps_username :: "'u \<Rightarrow> string"
  ps_password :: "'u \<Rightarrow> string option"
  ps_u16 :: "string \<Rightarrow> u16 option"
  ps_u64 :: "string \<Rightarrow> u64 option"
  ps_bool :: "string \<Rightarrow> bool option"
  ps_addr :: "string \<Rightarrow> string option"
  ps_filter_error :: "string \<Rightarrow> string option"
  ps_json :: "string \<Rightarrow> bool"

definition leaf_path :: "string \<Rightarrow> string \<Rightarrow> string" where
  "leaf_path grp leaf = grp @ ''.'' @ leaf"

definition required :: "Leaves \<Rightarrow> string \<Rightarrow> string \<Rightarrow> (string \<Rightarrow> 'a option) \<Rightarrow> 'e ConfigError + 'a" where
  "required cfg grp leaf parse = (case cfg (leaf_path grp leaf) of
     None \<Rightarrow> Inl (Load grp leaf None)
   | Some raw \<Rightarrow> (case parse raw of None \<Rightarrow> Inl (Load grp leaf (Some raw)) | Some v \<Rightarrow> Inr v))"

definition defaulted :: "Leaves \<Rightarrow> string \<Rightarrow> string \<Rightarrow> 'a \<Rightarrow> (string \<Rightarrow> 'a option) \<Rightarrow> 'e ConfigError + 'a" where
  "defaulted cfg grp leaf fallback parse = (case cfg (leaf_path grp leaf) of
     None \<Rightarrow> Inr fallback
   | Some raw \<Rightarrow> (case parse raw of None \<Rightarrow> Inl (Load grp leaf (Some raw)) | Some v \<Rightarrow> Inr v))"

definition blank_as_none :: "Leaves \<Rightarrow> string \<Rightarrow> string \<Rightarrow> (string \<Rightarrow> 'a option) \<Rightarrow> 'e ConfigError + 'a option" where
  "blank_as_none cfg grp leaf parse = (case cfg (leaf_path grp leaf) of
     None \<Rightarrow> Inr None
   | Some raw \<Rightarrow>
       if trim raw \<noteq> [] then (case parse (trim raw) of None \<Rightarrow> Inl (Load grp leaf (Some raw)) | Some v \<Rightarrow> Inr (Some v))
       else Inr None)"

definition load_group ::
  "(Leaves \<Rightarrow> 'e ConfigError + 'a) \<Rightarrow> ('a \<Rightarrow> 'e ConfigError + unit) \<Rightarrow> Leaves \<Rightarrow> 'e ConfigError + 'a" where
  "load_group deserialize validate cfg =
     bindr (deserialize cfg) (\<lambda>dto. bindr (validate dto) (\<lambda>_. Inr dto))"

definition require_non_empty :: "string \<Rightarrow> string \<Rightarrow> 'e ConfigError + unit" where
  "require_non_empty path v = (if trim v = [] then Inl (Invalid path ''must not be empty'') else Inr ())"

section \<open>The groups\<close>

record DatabaseConfig =
  dc_host :: string
  dc_port :: u16
  dc_name :: string
  dc_user :: string
  dc_password :: string

definition database_leaves :: "'u Parsers \<Rightarrow> Leaves \<Rightarrow> 'e ConfigError + DatabaseConfig" where
  "database_leaves ps cfg =
     bindr (required cfg ''database'' ''host'' Some) (\<lambda>host.
     bindr (required cfg ''database'' ''port'' (ps_u16 ps)) (\<lambda>port.
     bindr (required cfg ''database'' ''name'' Some) (\<lambda>name.
     bindr (required cfg ''database'' ''user'' Some) (\<lambda>user.
     bindr (required cfg ''database'' ''password'' Some) (\<lambda>password.
       Inr \<lparr>dc_host = host, dc_port = port, dc_name = name, dc_user = user, dc_password = password\<rparr>)))))"

definition database_validate :: "DatabaseConfig \<Rightarrow> 'e ConfigError + unit" where
  "database_validate c =
     bindr (require_non_empty ''database.host'' (dc_host c)) (\<lambda>_.
     bindr (require_non_empty ''database.name'' (dc_name c)) (\<lambda>_.
     bindr (require_non_empty ''database.user'' (dc_user c)) (\<lambda>_.
     bindr (require_non_empty ''database.password'' (dc_password c)) (\<lambda>_. Inr ()))))"

definition oidc_leaves :: "'u Parsers \<Rightarrow> Leaves \<Rightarrow> 'e ConfigError + OidcConfig" where
  "oidc_leaves ps cfg =
     bindr (required cfg ''oidc'' ''issuer-url'' (ps_url ps)) (\<lambda>issuer.
     bindr (blank_as_none cfg ''oidc'' ''authorize-url'' (ps_url ps)) (\<lambda>authorize.
     bindr (required cfg ''oidc'' ''client-id'' Some) (\<lambda>client_id.
     bindr (required cfg ''oidc'' ''redirect-uri'' (ps_url ps)) (\<lambda>redirect.
     bindr (required cfg ''oidc'' ''required-scope'' Some) (\<lambda>scope.
     bindr (blank_as_none cfg ''oidc'' ''end-session-url'' (ps_url ps)) (\<lambda>end_session.
       Inr \<lparr>oi_issuer_url = ps_url_text ps issuer, oi_client_id = client_id,
            oi_redirect_uri = ps_url_text ps redirect, oi_required_scope = scope,
            oi_authorize_url = map_option (ps_url_text ps) authorize,
            oi_end_session_url = map_option (ps_url_text ps) end_session\<rparr>))))))"

definition oidc_validate :: "OidcConfig \<Rightarrow> 'e ConfigError + unit" where
  "oidc_validate c =
     bindr (require_non_empty ''oidc.client-id'' (oi_client_id c)) (\<lambda>_.
     bindr (require_non_empty ''oidc.required-scope'' (oi_required_scope c)) (\<lambda>_. Inr ()))"

record 'u ObservabilityConfig =
  ob_environment :: string
  ob_otlp_endpoint :: "'u option"
  ob_otlp_protocol :: string
  ob_otlp_timeout_ms :: u64
  ob_service_name :: string
  ob_metrics_addr :: string
  ob_otlp_log_filter :: "string option"

definition observability_leaves :: "'u Parsers \<Rightarrow> Leaves \<Rightarrow> 'e ConfigError + 'u ObservabilityConfig" where
  "observability_leaves ps cfg =
     bindr (required cfg ''observability'' ''environment'' Some) (\<lambda>environment.
     bindr (blank_as_none cfg ''observability'' ''otlp-endpoint'' (ps_url ps)) (\<lambda>endpoint.
     bindr (required cfg ''observability'' ''otlp-protocol'' Some) (\<lambda>protocol.
     bindr (required cfg ''observability'' ''otlp-timeout-ms'' (ps_u64 ps)) (\<lambda>timeout.
     bindr (required cfg ''observability'' ''service-name'' Some) (\<lambda>service.
     bindr (required cfg ''observability'' ''metrics-addr'' Some) (\<lambda>metrics.
     bindr (blank_as_none cfg ''observability'' ''otlp-log-filter'' Some) (\<lambda>log_filter.
       Inr \<lparr>ob_environment = environment, ob_otlp_endpoint = endpoint, ob_otlp_protocol = protocol,
            ob_otlp_timeout_ms = timeout, ob_service_name = service, ob_metrics_addr = metrics,
            ob_otlp_log_filter = log_filter\<rparr>)))))))"

definition metrics_disabled :: "string \<Rightarrow> bool" where
  "metrics_disabled v \<longleftrightarrow> trim v = [] \<or> eq_ignore_ascii_case v ''disabled''"

definition metrics_socket_addr :: "'u Parsers \<Rightarrow> 'u ObservabilityConfig \<Rightarrow> string option" where
  "metrics_socket_addr ps c =
     (if metrics_disabled (ob_metrics_addr c) then None else ps_addr ps (ob_metrics_addr c))"

definition observability_validate :: "'u Parsers \<Rightarrow> 'u ObservabilityConfig \<Rightarrow> 'e ConfigError + unit" where
  "observability_validate ps c =
     bindr (require_non_empty ''observability.environment'' (ob_environment c)) (\<lambda>_.
       if ob_otlp_protocol c \<noteq> ''grpc'' then
         Inl (Invalid ''observability.otlp-protocol''
           (''unsupported protocol `'' @ ob_otlp_protocol c @ ''`; expected `grpc`''))
       else if \<not> metrics_disabled (ob_metrics_addr c) \<and> ps_addr ps (ob_metrics_addr c) = None then
         Inl (Invalid ''observability.metrics-addr'' ''must be `host:port` or `disabled`'')
       else (case ob_otlp_log_filter c of
         None \<Rightarrow> Inr ()
       | Some directives \<Rightarrow> (case ps_filter_error ps directives of
           None \<Rightarrow> Inr ()
         | Some error \<Rightarrow> Inl (Invalid ''observability.otlp-log-filter'' (''not a valid log filter: '' @ error)))))"

record AndroidConfig =
  an_assetlinks_json :: string

definition android_leaves :: "Leaves \<Rightarrow> 'e ConfigError + AndroidConfig" where
  "android_leaves cfg =
     bindr (defaulted cfg ''android'' ''assetlinks-json'' '''' Some) (\<lambda>json. Inr \<lparr>an_assetlinks_json = json\<rparr>)"

definition assetlinks_json :: "AndroidConfig \<Rightarrow> string option" where
  "assetlinks_json c = (if trim (an_assetlinks_json c) \<noteq> [] then Some (an_assetlinks_json c) else None)"

definition android_validate :: "'u Parsers \<Rightarrow> AndroidConfig \<Rightarrow> 'e ConfigError + unit" where
  "android_validate ps c = (case assetlinks_json c of
     Some json \<Rightarrow> if \<not> ps_json ps json then Inl (Invalid ''android.assetlinks-json'' ''must be valid JSON'') else Inr ()
   | None \<Rightarrow> Inr ())"

record RealtimeConfig =
  rt_coalesce_replay :: bool
  rt_compression :: bool

definition coalesce_replay_default :: bool where "coalesce_replay_default = True"
definition compression_default :: bool where "compression_default = False"

definition realtime_leaves :: "'u Parsers \<Rightarrow> Leaves \<Rightarrow> 'e ConfigError + RealtimeConfig" where
  "realtime_leaves ps cfg =
     bindr (defaulted cfg ''realtime'' ''coalesce-replay'' coalesce_replay_default (ps_bool ps)) (\<lambda>coalesce.
     bindr (defaulted cfg ''realtime'' ''compression'' compression_default (ps_bool ps)) (\<lambda>compression.
       Inr \<lparr>rt_coalesce_replay = coalesce, rt_compression = compression\<rparr>))"

record 'u ClientTelemetryConfig =
  ct_endpoint :: "'u option"

definition client_telemetry_leaves :: "'u Parsers \<Rightarrow> Leaves \<Rightarrow> 'e ConfigError + 'u ClientTelemetryConfig" where
  "client_telemetry_leaves ps cfg =
     bindr (blank_as_none cfg ''client-telemetry'' ''endpoint'' (ps_url ps)) (\<lambda>endpoint. Inr \<lparr>ct_endpoint = endpoint\<rparr>)"

definition client_telemetry_validate :: "'u Parsers \<Rightarrow> 'u ClientTelemetryConfig \<Rightarrow> 'e ConfigError + unit" where
  "client_telemetry_validate ps c = (case ct_endpoint c of
     None \<Rightarrow> Inr ()
   | Some endpoint \<Rightarrow>
       if ps_scheme ps endpoint \<noteq> ''https'' then Inl (Invalid ''client-telemetry.endpoint'' ''must be an https URL'')
       else if ps_path ps endpoint \<noteq> ''/'' \<or> ps_query ps endpoint \<noteq> None \<or> ps_fragment ps endpoint \<noteq> None \<or>
               ps_username ps endpoint \<noteq> [] \<or> ps_password ps endpoint \<noteq> None then
         Inl (Invalid ''client-telemetry.endpoint''
           ''must be a bare origin (`https://host[:port]`) with no path, query or credentials'')
       else Inr ())"

record ServerConfig =
  se_http_port :: u16
  se_tls_cert :: "string option"
  se_tls_key :: "string option"
  se_static_dir :: "string option"

definition server_leaves :: "'u Parsers \<Rightarrow> Leaves \<Rightarrow> 'e ConfigError + ServerConfig" where
  "server_leaves ps cfg =
     bindr (required cfg ''server'' ''http-port'' (ps_u16 ps)) (\<lambda>port.
     bindr (blank_as_none cfg ''server'' ''tls-cert'' Some) (\<lambda>cert.
     bindr (blank_as_none cfg ''server'' ''tls-key'' Some) (\<lambda>key.
     bindr (blank_as_none cfg ''server'' ''static-dir'' Some) (\<lambda>static.
       Inr \<lparr>se_http_port = port, se_tls_cert = cert, se_tls_key = key, se_static_dir = static\<rparr>))))"

definition server_validate :: "ServerConfig \<Rightarrow> 'e ConfigError + unit" where
  "server_validate c = (case (se_tls_cert c, se_tls_key c) of
     (Some _, None) \<Rightarrow> Inl (Invalid ''server.tls-key'' ''required when `server.tls-cert` is set'')
   | (None, Some _) \<Rightarrow> Inl (Invalid ''server.tls-cert'' ''required when `server.tls-key` is set'')
   | _ \<Rightarrow> Inr ())"

definition tls_pair :: "ServerConfig \<Rightarrow> (string \<times> string) option" where
  "tls_pair c = (case se_tls_cert c of None \<Rightarrow> None | Some cert \<Rightarrow> map_option (\<lambda>key. (cert, key)) (se_tls_key c))"

section \<open>Startup\<close>

record 'u Loaded =
  ld_observability :: "'u ObservabilityConfig"
  ld_database :: DatabaseConfig
  ld_oidc :: OidcConfig
  ld_android :: AndroidConfig
  ld_server :: ServerConfig
  ld_realtime :: RealtimeConfig
  ld_client_telemetry :: "'u ClientTelemetryConfig"

definition load_all :: "'u Parsers \<Rightarrow> Leaves \<Rightarrow> 'e ConfigError + 'u Loaded" where
  "load_all ps cfg =
     bindr (load_group (observability_leaves ps) (observability_validate ps) cfg) (\<lambda>observability.
     bindr (load_group (database_leaves ps) database_validate cfg) (\<lambda>database.
     bindr (load_group (oidc_leaves ps) oidc_validate cfg) (\<lambda>oidc.
     bindr (load_group android_leaves (android_validate ps) cfg) (\<lambda>android.
     bindr (load_group (server_leaves ps) server_validate cfg) (\<lambda>server.
     bindr (load_group (realtime_leaves ps) (\<lambda>_. Inr ()) cfg) (\<lambda>realtime.
     bindr (load_group (client_telemetry_leaves ps) (client_telemetry_validate ps) cfg) (\<lambda>client_telemetry.
       Inr \<lparr>ld_observability = observability, ld_database = database, ld_oidc = oidc, ld_android = android,
            ld_server = server, ld_realtime = realtime, ld_client_telemetry = client_telemetry\<rparr>)))))))"

text \<open>Where \<open>main\<close> listens: with TLS on 443, else plain on the configured port.\<close>

datatype Listener = TlsListener string string string | PlainListener string

definition listener :: "ServerConfig \<Rightarrow> Listener" where
  "listener c = (case tls_pair c of
     Some (cert, key) \<Rightarrow> TlsListener ''0.0.0.0:443'' cert key
   | None \<Rightarrow> PlainListener (''0.0.0.0:'' @ decimal (unat (se_http_port c))))"

section \<open>What validation accepts\<close>

definition blank :: "string \<Rightarrow> bool" where "blank s \<longleftrightarrow> trim s = []"

definition bare_origin :: "'u Parsers \<Rightarrow> 'u \<Rightarrow> bool" where
  "bare_origin ps url \<longleftrightarrow> ps_scheme ps url = ''https'' \<and> ps_path ps url = ''/'' \<and> ps_query ps url = None \<and>
     ps_fragment ps url = None \<and> ps_username ps url = [] \<and> ps_password ps url = None"

definition sound :: "'u Parsers \<Rightarrow> 'u Loaded \<Rightarrow> bool" where
  "sound ps l \<longleftrightarrow>
     (let obs = ld_observability l; d = ld_database l; c = ld_oidc l; s = ld_server l
      in \<not> blank (ob_environment obs) \<and> ob_otlp_protocol obs = ''grpc'' \<and>
         (metrics_disabled (ob_metrics_addr obs) \<or> metrics_socket_addr ps obs \<noteq> None) \<and>
         (\<forall>directives. ob_otlp_log_filter obs = Some directives \<longrightarrow> ps_filter_error ps directives = None) \<and>
         \<not> blank (dc_host d) \<and> \<not> blank (dc_name d) \<and> \<not> blank (dc_user d) \<and> \<not> blank (dc_password d) \<and>
         \<not> blank (oi_client_id c) \<and> \<not> blank (oi_required_scope c) \<and>
         (\<forall>json. assetlinks_json (ld_android l) = Some json \<longrightarrow> ps_json ps json) \<and>
         (se_tls_cert s = None \<longleftrightarrow> se_tls_key s = None) \<and>
         (\<forall>url. ct_endpoint (ld_client_telemetry l) = Some url \<longrightarrow> bare_origin ps url))"

lemma listener_tls: "sound ps l \<Longrightarrow> (\<exists>addr cert key. listener (ld_server l) = TlsListener addr cert key) \<longleftrightarrow> se_tls_cert (ld_server l) \<noteq> None"
  by (auto simp: sound_def listener_def tls_pair_def Let_def split: option.splits)

text \<open>All groups, deserialised only.\<close>

definition leaves_all :: "'u Parsers \<Rightarrow> Leaves \<Rightarrow> 'e ConfigError + 'u Loaded" where
  "leaves_all ps cfg =
     bindr (observability_leaves ps cfg) (\<lambda>observability. bindr (database_leaves ps cfg) (\<lambda>database.
     bindr (oidc_leaves ps cfg) (\<lambda>oidc. bindr (android_leaves cfg) (\<lambda>android. bindr (server_leaves ps cfg) (\<lambda>server.
     bindr (realtime_leaves ps cfg) (\<lambda>realtime. bindr (client_telemetry_leaves ps cfg) (\<lambda>client_telemetry.
       Inr \<lparr>ld_observability = observability, ld_database = database, ld_oidc = oidc, ld_android = android,
            ld_server = server, ld_realtime = realtime, ld_client_telemetry = client_telemetry\<rparr>)))))))"

lemma require_non_empty_ok: "require_non_empty path v = Inr u \<longleftrightarrow> \<not> blank v"
  by (simp add: require_non_empty_def blank_def)

lemma validate_ok:
  "database_validate d = Inr u \<longleftrightarrow> \<not> blank (dc_host d) \<and> \<not> blank (dc_name d) \<and> \<not> blank (dc_user d) \<and> \<not> blank (dc_password d)"
  "oidc_validate c = Inr u \<longleftrightarrow> \<not> blank (oi_client_id c) \<and> \<not> blank (oi_required_scope c)"
  "android_validate ps a = Inr u \<longleftrightarrow> (\<forall>json. assetlinks_json a = Some json \<longrightarrow> ps_json ps json)"
  "server_validate s = Inr u \<longleftrightarrow> (se_tls_cert s = None \<longleftrightarrow> se_tls_key s = None)"
  "client_telemetry_validate ps t = Inr u \<longleftrightarrow> (\<forall>url. ct_endpoint t = Some url \<longrightarrow> bare_origin ps url)"
  by (auto simp: database_validate_def oidc_validate_def android_validate_def server_validate_def
      client_telemetry_validate_def bare_origin_def bindr_Inr_iff require_non_empty_ok split: option.splits if_splits)

lemma observability_ok:
  "observability_validate ps obs = Inr u \<longleftrightarrow> \<not> blank (ob_environment obs) \<and> ob_otlp_protocol obs = ''grpc'' \<and>
     (metrics_disabled (ob_metrics_addr obs) \<or> metrics_socket_addr ps obs \<noteq> None) \<and>
     (\<forall>directives. ob_otlp_log_filter obs = Some directives \<longrightarrow> ps_filter_error ps directives = None)"
  by (auto simp: observability_validate_def bindr_Inr_iff require_non_empty_ok metrics_socket_addr_def
      split: option.splits if_splits)

lemma load_group_ok [simp]: "load_group f v cfg = Inr x \<longleftrightarrow> f cfg = Inr x \<and> v x = Inr ()"
  by (auto simp: load_group_def bindr_Inr_iff)

text \<open>C36. The server starts exactly on sound configuration. All groups load precisely when every leaf is present and
  parses and the whole is sound: nothing required is blank, the export protocol is the supported one, the
  metrics address is off or an address, a log filter and the asset links are well-formed, TLS has both
  files or neither, and the telemetry ingest handed to clients is a bare https origin.
\<close>

theorem loads_iff_sound:
  "(load_all ps cfg :: 'e ConfigError + 'u Loaded) = Inr l \<longleftrightarrow>
     (leaves_all ps cfg :: 'e ConfigError + 'u Loaded) = Inr l \<and> sound ps l"
  by (cases l, simp only: load_all_def leaves_all_def load_group_ok bindr_Inr_iff validate_ok observability_ok sound_def
      Let_def Loaded.simps sum.inject Loaded.ext_inject) (simp add: conj_ac cong: conj_cong)

section \<open>Secrets\<close>

lemma bindr_Inl_iff: "bindr r f = Inl e \<longleftrightarrow> r = Inl e \<or> (\<exists>a. r = Inr a \<and> f a = Inl e)"
  by (cases r) auto

lemma bindr_map_sum: "bindr (map_sum id g r) f = bindr r (f \<circ> g)"
  by (cases r) auto

lemma leaves_elsewhere:
  assumes "leaf_path grp leaf \<noteq> ''database.password''"
  shows "required (cfg(''database.password'' \<mapsto> p)) grp leaf parse = required cfg grp leaf parse"
    "defaulted (cfg(''database.password'' \<mapsto> p)) grp leaf v parse = defaulted cfg grp leaf v parse"
    "blank_as_none (cfg(''database.password'' \<mapsto> p)) grp leaf parse = blank_as_none cfg grp leaf parse"
  using assms by (simp_all add: required_def defaulted_def blank_as_none_def)

lemma groups_elsewhere:
  "observability_leaves ps (cfg(''database.password'' \<mapsto> p)) = observability_leaves ps cfg"
  "oidc_leaves ps (cfg(''database.password'' \<mapsto> p)) = oidc_leaves ps cfg"
  "android_leaves (cfg(''database.password'' \<mapsto> p)) = android_leaves cfg"
  "server_leaves ps (cfg(''database.password'' \<mapsto> p)) = server_leaves ps cfg"
  "realtime_leaves ps (cfg(''database.password'' \<mapsto> p)) = realtime_leaves ps cfg"
  "client_telemetry_leaves ps (cfg(''database.password'' \<mapsto> p)) = client_telemetry_leaves ps cfg"
  by (simp_all add: observability_leaves_def oidc_leaves_def android_leaves_def server_leaves_def realtime_leaves_def
      client_telemetry_leaves_def leaves_elsewhere leaf_path_def)

lemma database_error:
  assumes "cfg ''database.password'' = Some p" "\<not> blank p" "\<not> blank p'"
  shows "load_group (database_leaves ps) database_validate (cfg(''database.password'' \<mapsto> p')) =
    map_sum id (\<lambda>d. d\<lparr>dc_password := p'\<rparr>) (load_group (database_leaves ps) database_validate cfg :: 'e ConfigError + DatabaseConfig)"
proof -
  let ?cfg = "cfg(''database.password'' \<mapsto> p')"
  have other: "required ?cfg ''database'' ''host'' Some = required cfg ''database'' ''host'' Some"
    "required ?cfg ''database'' ''port'' (ps_u16 ps) = required cfg ''database'' ''port'' (ps_u16 ps)"
    "required ?cfg ''database'' ''name'' Some = required cfg ''database'' ''name'' Some"
    "required ?cfg ''database'' ''user'' Some = required cfg ''database'' ''user'' Some"
    by (simp_all add: leaves_elsewhere leaf_path_def)
  have secret: "required cfg ''database'' ''password'' Some = Inr p"
    "required ?cfg ''database'' ''password'' Some = Inr p'"
    using assms(1) by (simp_all add: required_def leaf_path_def)
  show ?thesis
    using assms(2,3)
    by (cases "required cfg ''database'' ''host'' Some :: 'e ConfigError + string";
        cases "required cfg ''database'' ''port'' (ps_u16 ps) :: 'e ConfigError + u16";
        cases "required cfg ''database'' ''name'' Some :: 'e ConfigError + string";
        cases "required cfg ''database'' ''user'' Some :: 'e ConfigError + string";
        simp add: load_group_def database_leaves_def database_validate_def other secret require_non_empty_def blank_def)
qed

text \<open>A startup error says nothing about the database password: two configurations that differ in a password only,
  blank in neither, fail with the same error or both load.
\<close>

theorem errors_keep_password:
  assumes "cfg ''database.password'' = Some p" "\<not> blank p" "\<not> blank p'"
  shows "load_all ps cfg = Inl (e :: 'e ConfigError) \<longleftrightarrow> load_all ps (cfg(''database.password'' \<mapsto> p')) = Inl e"
proof -
  let ?cfg = "cfg(''database.password'' \<mapsto> p')"
  have same: "load_group (observability_leaves ps) v1 ?cfg = load_group (observability_leaves ps) v1 cfg"
    "load_group (oidc_leaves ps) v2 ?cfg = load_group (oidc_leaves ps) v2 cfg"
    "load_group android_leaves v3 ?cfg = load_group android_leaves v3 cfg"
    "load_group (server_leaves ps) v4 ?cfg = load_group (server_leaves ps) v4 cfg"
    "load_group (realtime_leaves ps) v5 ?cfg = load_group (realtime_leaves ps) v5 cfg"
    "load_group (client_telemetry_leaves ps) v6 ?cfg = load_group (client_telemetry_leaves ps) v6 cfg"
    for v1 v2 v3 v4 v5 v6
    by (simp_all add: load_group_def groups_elsewhere)
  have database: "load_group (database_leaves ps) database_validate ?cfg =
    map_sum id (\<lambda>d. d\<lparr>dc_password := p'\<rparr>) (load_group (database_leaves ps) database_validate cfg :: 'e ConfigError + DatabaseConfig)"
    by (rule database_error [where cfg = cfg and p = p and p' = p']) (use assms in auto)
  show ?thesis
    unfolding load_all_def same database by (simp add: bindr_Inl_iff bindr_map_sum)
qed

definition text_parsers :: "string Parsers" where
  "text_parsers = \<lparr>ps_url = Some, ps_url_text = id, ps_scheme = (\<lambda>_. ''https''), ps_path = (\<lambda>_. ''/''),
     ps_query = (\<lambda>_. None), ps_fragment = (\<lambda>_. None), ps_username = (\<lambda>_. []), ps_password = (\<lambda>_. None),
     ps_u16 = (\<lambda>t. if t = ''5432'' then Some 5432 else None), ps_u64 = (\<lambda>t. if t = ''2000'' then Some 2000 else None),
     ps_bool = (\<lambda>_. None), ps_addr = Some, ps_filter_error = (\<lambda>_. None), ps_json = (\<lambda>_. True)\<rparr>"

definition sample_leaves :: Leaves where
  "sample_leaves = map_of
     [(''observability.environment'', ''dev''), (''observability.otlp-protocol'', ''grpc''),
      (''observability.otlp-timeout-ms'', ''2000''), (''observability.service-name'', ''v-note''),
      (''observability.metrics-addr'', ''disabled''),
      (''database.host'', ''db''), (''database.port'', ''54320000''), (''database.name'', ''notes''),
      (''database.user'', ''app''), (''database.password'', ''hunter2'')]"

lemma sample_error:
  "load_all text_parsers (sample_leaves(''database.password'' \<mapsto> ''correct horse'')) =
     (Inl (Load ''database'' ''port'' (Some ''54320000'')) :: unit ConfigError + string Loaded)"
  by code_simp

theorem errors_keep_password_witness:
  "load_all text_parsers sample_leaves =
     (Inl (Load ''database'' ''port'' (Some ''54320000'')) :: unit ConfigError + string Loaded)"
  by (rule errors_keep_password [where p = "''hunter2''" and p' = "''correct horse''", THEN iffD2, OF _ _ _ sample_error];
      code_simp)

end
