(* ===== verification/Observe.thy ===== *)
theory Observe
  imports Config
begin

text \<open>
  The server's own telemetry (\<open>crates/server/src/observability.rs\<close>): the metric families and what records in
  them, the middleware every request passes, the filters and sinks of a log event, the size of a query's
  result, and the exporters. The libraries \<open>prometheus\<close>, \<open>tracing\<close> and OpenTelemetry are modelled by what
  they document of the calls used: a registry refuses a family that is malformed or whose name is taken, a
  sample belongs to a family's series of label values, a filter is a predicate on events.
\<close>

section \<open>Metric families\<close>

datatype FamilyKind = Counter | Gauge | Histogram "fp list"

record Family =
  fm_name :: string
  fm_help :: string
  fm_kind :: FamilyKind
  fm_labels :: "string list"
  fm_const_labels :: "(string \<times> string) list"

type_synonym Registry = "Family list"

definition char_in :: "char \<Rightarrow> char \<Rightarrow> char \<Rightarrow> bool" where "char_in lo hi c \<longleftrightarrow> lo \<le> c \<and> c \<le> hi"

definition name_start :: "char \<Rightarrow> bool" where
  "name_start c \<longleftrightarrow> list_ex (\<lambda>(lo, hi). char_in lo hi c) [(CHR ''a'', CHR ''z''), (CHR ''A'', CHR ''Z''), (CHR ''_'', CHR ''_'')]"

definition digit :: "char \<Rightarrow> bool" where "digit = char_in (CHR ''0'') (CHR ''9'')"

fun valid_name :: "string \<Rightarrow> bool" where
  "valid_name [] = False"
| "valid_name (c # s) \<longleftrightarrow> name_start c \<and> list_all (\<lambda>d. name_start d \<or> digit d) s"

fun increasing :: "fp list \<Rightarrow> bool" where
  "increasing (a # b # bs) \<longleftrightarrow> fp_lt a b \<and> increasing (b # bs)"
| "increasing bs = True"

definition well_formed :: "Family \<Rightarrow> bool" where
  "well_formed f \<longleftrightarrow> valid_name (fm_name f) \<and> fm_help f \<noteq> [] \<and>
     (let labels = fm_labels f @ map fst (fm_const_labels f)
      in list_all valid_name labels \<and> distinct labels \<and>
         (case fm_kind f of Histogram buckets \<Rightarrow> ''le'' \<notin> set labels \<and> increasing buckets | _ \<Rightarrow> True))"

text \<open>\<open>None\<close> is the panic of the \<open>expect\<close>.\<close>

definition register :: "Family \<Rightarrow> Registry \<Rightarrow> Registry option" where
  "register f registry =
     (if well_formed f \<and> list_all (\<lambda>g. fm_name g \<noteq> fm_name f) registry then Some (registry @ [f]) else None)"

definition decimals :: "rat list \<Rightarrow> fp list" where "decimals = map (fround f64)"

definition DEFAULT_BUCKETS :: "fp list" where
  "DEFAULT_BUCKETS = decimals [5 / 1000, 1 / 100, 25 / 1000, 5 / 100, 1 / 10, 25 / 100, 5 / 10, 1, 25 / 10, 5, 10]"

definition REALTIME_BYTES_BUCKETS :: "fp list" where
  "REALTIME_BYTES_BUCKETS = decimals [128, 512, 2048, 8192, 32768, 131072, 524288, 2097152, 8388608]"

definition REALTIME_REPLAY_FRAMES_BUCKETS :: "fp list" where
  "REALTIME_REPLAY_FRAMES_BUCKETS = decimals [1, 2, 5, 10, 25, 50, 100, 250, 500, 1000, 2500, 5000]"

definition REALTIME_REPLAY_DURATION_BUCKETS :: "fp list" where
  "REALTIME_REPLAY_DURATION_BUCKETS =
     decimals [5 / 1000, 1 / 100, 25 / 1000, 5 / 100, 1 / 10, 25 / 100, 5 / 10, 1, 25 / 10, 5, 10, 30]"

definition REALTIME_HANDLING_BUCKETS :: "fp list" where
  "REALTIME_HANDLING_BUCKETS =
     decimals [1 / 1000, 25 / 10000, 5 / 1000, 1 / 100, 25 / 1000, 5 / 100, 1 / 10, 25 / 100, 5 / 10, 1, 25 / 10, 5]"

definition ARTIFACT_BUCKETS :: "fp list" where
  "ARTIFACT_BUCKETS = decimals [256, 512, 1024, 2048, 4096, 8192, 16384, 32768]"

definition family :: "string \<Rightarrow> string \<Rightarrow> FamilyKind \<Rightarrow> string list \<Rightarrow> Family" where
  "family name help kind labels =
     \<lparr>fm_name = name, fm_help = help, fm_kind = kind, fm_labels = labels, fm_const_labels = []\<rparr>"

definition HttpMetrics_new :: "Family list" where
  "HttpMetrics_new =
     [family ''v_note_http_requests_total'' ''HTTP requests by route and status'' Counter [''method'', ''route'', ''status''],
      family ''v_note_http_request_duration_seconds'' ''HTTP request latency by route and status''
        (Histogram DEFAULT_BUCKETS) [''method'', ''route'', ''status'']]"

definition ThumbnailMetrics_new :: "Family list" where
  "ThumbnailMetrics_new =
     [family ''v_note_thumbnail_generation_duration_seconds'' ''Thumbnail generation duration by result''
        (Histogram DEFAULT_BUCKETS) [''result''],
      family ''v_note_thumbnail_queue_depth'' ''Thumbnail generations awaiting completion'' Gauge [],
      family ''v_note_thumbnail_recoveries_total'' ''Thumbnail generation recovery attempts by result'' Counter [''result''],
      family ''v_note_thumbnail_artifact_bytes'' ''Stored thumbnail PNG size in bytes'' (Histogram ARTIFACT_BUCKETS) []]"

definition RealtimeMetrics_new :: "Family list" where
  "RealtimeMetrics_new =
     [family ''v_note_realtime_events_total'' ''Realtime WebSocket events by channel and result'' Counter [''channel'', ''result''],
      family ''v_note_realtime_active_connections'' ''Currently open realtime WebSocket connections'' Gauge [],
      family ''v_note_realtime_message_bytes'' ''Serialized size of realtime frames sent, by channel and message type''
        (Histogram REALTIME_BYTES_BUCKETS) [''channel'', ''message_type''],
      family ''v_note_realtime_replay_bytes'' ''Total bytes sent for one page-channel subscribe replay''
        (Histogram REALTIME_BYTES_BUCKETS) [],
      family ''v_note_realtime_replay_frames''
        ''Frames sent for one page-channel subscribe replay, including the closing synced''
        (Histogram REALTIME_REPLAY_FRAMES_BUCKETS) [],
      family ''v_note_realtime_replay_duration_seconds'' ''Wall time from a subscribe being received to its synced being sent''
        (Histogram REALTIME_REPLAY_DURATION_BUCKETS) [],
      family ''v_note_realtime_message_handling_seconds''
        ''Server-side handling time of inbound page-channel messages, by message type (not end-to-end latency)''
        (Histogram REALTIME_HANDLING_BUCKETS) [''message_type'']]"

definition PROTOCOL_LABEL :: string where "PROTOCOL_LABEL = ''7''"

definition build_info :: "string \<Rightarrow> Family" where
  "build_info app_version =
     \<lparr>fm_name = ''v_note_build_info'', fm_help = ''v-note build and protocol metadata'', fm_kind = Gauge, fm_labels = [],
      fm_const_labels = [(''protocol'', PROTOCOL_LABEL), (''version'', app_version)]\<rparr>"

definition all_families :: "string \<Rightarrow> Family list" where
  "all_families app_version =
     HttpMetrics_new @
     [family ''v_note_auth_failures_total'' ''Authentication failures by reason'' Counter [''reason''],
      family ''v_note_page_mutations_total'' ''Page and ink mutations by operation/result'' Counter [''operation'', ''result'']] @
     ThumbnailMetrics_new @ RealtimeMetrics_new @ [build_info app_version]"

fun register_all :: "Family list \<Rightarrow> Registry \<Rightarrow> Registry option" where
  "register_all [] registry = Some registry"
| "register_all (f # fs) registry = Option.bind (register f registry) (register_all fs)"

section \<open>Samples\<close>

text \<open>A series is a family's name with its label values; a counter is a \<open>u64\<close>, a gauge an \<open>i64\<close>, and a histogram
  what was observed, oldest first. \<open>None\<close> is the panic of \<open>with_label_values\<close> when the values are not as many as the
  family's labels.\<close>

type_synonym Series = "string \<times> string list"

record Metrics =
  mx_registry :: Registry
  mx_counters :: "Series \<Rightarrow> u64"
  mx_gauges :: "string \<Rightarrow> int"
  mx_observed :: "Series \<Rightarrow> fp list"

definition with_label_values :: "string \<Rightarrow> string list \<Rightarrow> Metrics \<Rightarrow> Series option" where
  "with_label_values name labels m =
     Option.bind (List.find (\<lambda>f. fm_name f = name) (mx_registry m))
       (\<lambda>f. if length labels = length (fm_labels f) then Some (name, labels) else None)"

definition inc :: "string \<Rightarrow> string list \<Rightarrow> Metrics \<Rightarrow> Metrics option" where
  "inc name labels m =
     map_option (\<lambda>series. m\<lparr>mx_counters := (mx_counters m)(series := mx_counters m series + 1)\<rparr>)
       (with_label_values name labels m)"

definition observe :: "string \<Rightarrow> string list \<Rightarrow> fp \<Rightarrow> Metrics \<Rightarrow> Metrics option" where
  "observe name labels v m =
     map_option (\<lambda>series. m\<lparr>mx_observed := (mx_observed m)(series := mx_observed m series @ [v])\<rparr>)
       (with_label_values name labels m)"

definition gauge_add :: "string \<Rightarrow> int \<Rightarrow> Metrics \<Rightarrow> Metrics" where
  "gauge_add name n m = m\<lparr>mx_gauges := (mx_gauges m)(name := wrap_i64 (mx_gauges m name + n))\<rparr>"

definition observe_plain :: "string \<Rightarrow> fp \<Rightarrow> Metrics \<Rightarrow> Metrics" where
  "observe_plain name v m = m\<lparr>mx_observed := (mx_observed m)((name, []) := mx_observed m (name, []) @ [v])\<rparr>"

definition as_f64 :: "nat \<Rightarrow> fp" where "as_f64 n = fround f64 (of_nat n)"

definition Metrics_new :: "string \<Rightarrow> Metrics option" where
  "Metrics_new app_version =
     map_option (\<lambda>registry. \<lparr>mx_registry = registry, mx_counters = (\<lambda>_. 0),
         mx_gauges = (\<lambda>_. 0)(''v_note_build_info'' := 1), mx_observed = (\<lambda>_. [])\<rparr>)
       (register_all (all_families app_version) [])"

definition record_auth_failure :: "string \<Rightarrow> Metrics \<Rightarrow> Metrics option" where
  "record_auth_failure reason = inc ''v_note_auth_failures_total'' [reason]"

definition record_page_mutation :: "string \<Rightarrow> string \<Rightarrow> Metrics \<Rightarrow> Metrics option" where
  "record_page_mutation operation result = inc ''v_note_page_mutations_total'' [operation, result]"

definition record_thumbnail_generation :: "string \<Rightarrow> fp \<Rightarrow> Metrics \<Rightarrow> Metrics option" where
  "record_thumbnail_generation result elapsed_seconds =
     observe ''v_note_thumbnail_generation_duration_seconds'' [result] elapsed_seconds"

definition thumbnail_generation_queued :: "Metrics \<Rightarrow> Metrics" where
  "thumbnail_generation_queued = gauge_add ''v_note_thumbnail_queue_depth'' 1"

definition thumbnail_generation_finished :: "Metrics \<Rightarrow> Metrics" where
  "thumbnail_generation_finished = gauge_add ''v_note_thumbnail_queue_depth'' (-1)"

definition record_thumbnail_recovery :: "string \<Rightarrow> Metrics \<Rightarrow> Metrics option" where
  "record_thumbnail_recovery result = inc ''v_note_thumbnail_recoveries_total'' [result]"

definition observe_thumbnail_artifact_bytes :: "nat \<Rightarrow> Metrics \<Rightarrow> Metrics" where
  "observe_thumbnail_artifact_bytes bytes = observe_plain ''v_note_thumbnail_artifact_bytes'' (as_f64 bytes)"

definition record_realtime_event :: "string \<Rightarrow> string \<Rightarrow> Metrics \<Rightarrow> Metrics option" where
  "record_realtime_event channel result = inc ''v_note_realtime_events_total'' [channel, result]"

definition observe_realtime_message_bytes :: "string \<Rightarrow> string \<Rightarrow> nat \<Rightarrow> Metrics \<Rightarrow> Metrics option" where
  "observe_realtime_message_bytes channel message_type bytes =
     observe ''v_note_realtime_message_bytes'' [channel, message_type] (as_f64 bytes)"

definition observe_realtime_replay :: "nat \<Rightarrow> nat \<Rightarrow> fp \<Rightarrow> Metrics \<Rightarrow> Metrics" where
  "observe_realtime_replay frames bytes elapsed_seconds m =
     observe_plain ''v_note_realtime_replay_duration_seconds'' elapsed_seconds
       (observe_plain ''v_note_realtime_replay_bytes'' (as_f64 bytes)
         (observe_plain ''v_note_realtime_replay_frames'' (as_f64 frames) m))"

definition observe_realtime_message_handling :: "string \<Rightarrow> fp \<Rightarrow> Metrics \<Rightarrow> Metrics option" where
  "observe_realtime_message_handling message_type elapsed_seconds =
     observe ''v_note_realtime_message_handling_seconds'' [message_type] elapsed_seconds"

definition realtime_connection_guard :: "Metrics \<Rightarrow> Metrics" where
  "realtime_connection_guard = gauge_add ''v_note_realtime_active_connections'' 1"

definition drop_connection_guard :: "Metrics \<Rightarrow> Metrics" where
  "drop_connection_guard = gauge_add ''v_note_realtime_active_connections'' (-1)"

definition record_http :: "string \<Rightarrow> string \<Rightarrow> nat \<Rightarrow> fp \<Rightarrow> Metrics \<Rightarrow> Metrics option" where
  "record_http method route status elapsed m =
     (let labels = [method, route, decimal status]
      in Option.bind (inc ''v_note_http_requests_total'' labels m)
           (observe ''v_note_http_request_duration_seconds'' labels elapsed))"

text \<open>What the handlers record as \<open>Metric\<close>, in these terms; a connection's guard is counted in and out.\<close>

fun record_sample :: "Metric \<Rightarrow> Metrics \<Rightarrow> Metrics option" where
  "record_sample (RealtimeEvent channel result) m = record_realtime_event channel result m"
| "record_sample (PageMutation operation result) m = record_page_mutation operation result m"
| "record_sample (RealtimeMessageBytes channel message_type bytes) m = observe_realtime_message_bytes channel message_type bytes m"
| "record_sample (RealtimeReplay frames bytes elapsed) m = Some (observe_realtime_replay frames bytes elapsed m)"
| "record_sample ThumbnailGenerationQueued m = Some (thumbnail_generation_queued m)"
| "record_sample ThumbnailGenerationFinished m = Some (thumbnail_generation_finished m)"
| "record_sample (ThumbnailGeneration result elapsed) m = record_thumbnail_generation result elapsed m"
| "record_sample (ThumbnailRecovery result) m = record_thumbnail_recovery result m"
| "record_sample (ThumbnailArtifactBytes bytes) m = Some (observe_thumbnail_artifact_bytes bytes m)"
| "record_sample (RealtimeMessageHandling message_type elapsed) m = observe_realtime_message_handling message_type elapsed m"
| "record_sample (RealtimeConnections n) m = Some (if n = 1 then realtime_connection_guard m else drop_connection_guard m)"
| "record_sample (AuthFailure reason) m = record_auth_failure reason m"

fun record_samples :: "Metric list \<Rightarrow> Metrics \<Rightarrow> Metrics option" where
  "record_samples [] m = Some m"
| "record_samples (x # xs) m = Option.bind (record_sample x m) (record_samples xs)"

section \<open>Request ids and route labels\<close>

definition CORRELATION_ID_HEADER :: string where "CORRELATION_ID_HEADER = ''x-correlation-id''"

type_synonym Headers = "(string \<times> string) list"

text \<open>\<open>headers.get(name)\<close> is the first value; \<open>to_str\<close> and \<open>HeaderValue::from_str\<close> take visible ASCII and tabs.\<close>

definition visible_ascii :: "char \<Rightarrow> bool" where
  "visible_ascii c \<longleftrightarrow> c = CHR 0x09 \<or> CHR 0x20 \<le> c \<and> c < CHR 0x7F"

definition header_str :: "Headers \<Rightarrow> string \<Rightarrow> string option" where
  "header_str headers name = Option.bind (map_of headers name) (\<lambda>v. if list_all visible_ascii v then Some v else None)"

definition is_ascii_alphanumeric :: "char \<Rightarrow> bool" where
  "is_ascii_alphanumeric c \<longleftrightarrow> list_ex (\<lambda>(lo, hi). char_in lo hi c) [(CHR ''a'', CHR ''z''), (CHR ''A'', CHR ''Z''), (CHR ''0'', CHR ''9'')]"

definition is_safe_request_id :: "string \<Rightarrow> bool" where
  "is_safe_request_id v \<longleftrightarrow> v \<noteq> [] \<and> length v \<le> 128 \<and>
     list_all (\<lambda>byte. is_ascii_alphanumeric byte \<or> byte \<in> set ''-_.:'') v"

fun first_safe_id :: "Headers \<Rightarrow> string list \<Rightarrow> string option" where
  "first_safe_id headers [] = None"
| "first_safe_id headers (header # rest) =
     (case header_str headers header of
        None \<Rightarrow> first_safe_id headers rest
      | Some v \<Rightarrow> (let v = trim v in if is_safe_request_id v then Some v else first_safe_id headers rest))"

definition request_id_from_headers :: "Headers \<Rightarrow> string option" where
  "request_id_from_headers headers = first_safe_id headers [REQUEST_ID_HEADER, CORRELATION_ID_HEADER]"

definition generate_request_id :: "u8 list \<Rightarrow> string" where
  "generate_request_id buffer = ''req_'' @ random_hex buffer"

definition normalized_route :: "string \<Rightarrow> string" where
  "normalized_route path =
     (if path = ''/metrics'' then ''/metrics''
      else if path = ''/health'' \<or> path = ''/api/meta'' \<or> path = ''/api/me'' then path
      else if path = ''/api/pages'' then path
      else if prefix ''/api/pages/'' path \<and> suffix ''/realtime'' path then ''/api/pages/{page_id}/realtime''
      else if prefix ''/api/pages/'' path then ''/api/pages/{page_id}''
      else if prefix ''/auth/'' path then ''/auth/*''
      else if prefix ''/.well-known/'' path then ''/.well-known/*''
      else ''/static/*'')"

section \<open>The middleware\<close>

text \<open>A span context is opaque but for its validity; \<open>extract\<close> is the W3C propagator.\<close>

record 'c Tracing =
  tr_extract :: "(string \<Rightarrow> string option) \<Rightarrow> 'c"
  tr_is_valid :: "'c \<Rightarrow> bool"

record 'c Span =
  sn_name :: string
  sn_fields :: "(string \<times> string) list"
  sn_parent :: "'c option"

definition set_remote_parent :: "'c Tracing \<Rightarrow> 'c Span \<Rightarrow> 'c \<Rightarrow> 'c Span" where
  "set_remote_parent tr span0 origin = (if tr_is_valid tr origin then span0\<lparr>sn_parent := Some origin\<rparr> else span0)"

definition request_span :: "'c Tracing \<Rightarrow> string \<Rightarrow> string \<Rightarrow> string \<Rightarrow> Headers \<Rightarrow> 'c Span" where
  "request_span tr method route request_id headers =
     (let span0 = \<lparr>sn_name = ''http.request'', sn_fields = [(''method'', method), (''route'', route), (''request_id'', request_id)],
                   sn_parent = None\<rparr>;
          parent = tr_extract tr (header_str headers)
      in if tr_is_valid tr parent then span0\<lparr>sn_parent := Some parent\<rparr> else span0)"

record HttpRequest =
  hr_method :: string
  hr_path :: string
  hr_headers :: Headers

record 'b HttpResponse =
  hp_status :: nat
  hp_headers :: Headers
  hp_body :: 'b

definition insert_header :: "string \<Rightarrow> string \<Rightarrow> Headers \<Rightarrow> Headers" where
  "insert_header name v headers = filter (\<lambda>h. fst h \<noteq> name) headers @ [(name, v)]"

definition completed_line :: "string \<Rightarrow> string \<Rightarrow> nat \<Rightarrow> fp \<Rightarrow> string \<Rightarrow> (string \<times> string + fp) list" where
  "completed_line method route status elapsed request_id =
     [Inl (''message'', ''http request completed''), Inl (''method'', method), Inl (''route'', route),
      Inl (''status'', decimal status), Inr (fp_mul f64 elapsed (Fin 1000)), Inl (''request_id'', request_id)]"

record 'c Watched =
  wd_span :: "'c Span"
  wd_request_id :: string
  wd_line :: "(string \<times> string + fp) list"

definition request_observability_middleware ::
  "'c Tracing \<Rightarrow> u8 list \<Rightarrow> fp \<Rightarrow> (string \<Rightarrow> HttpRequest \<Rightarrow> 's \<Rightarrow> 'b HttpResponse \<times> 's) \<Rightarrow> HttpRequest \<Rightarrow>
   Metrics \<times> 's \<Rightarrow> ('b HttpResponse \<times> (Metrics \<times> 's) \<times> 'c Watched) option" where
  "request_observability_middleware tr random elapsed next_handler req st =
     (let (m, s) = st;
          method = hr_method req;
          route = normalized_route (hr_path req);
          request_id = (case request_id_from_headers (hr_headers req) of Some v \<Rightarrow> v | None \<Rightarrow> generate_request_id random);
          span0 = request_span tr method route request_id (hr_headers req);
          (response, s) = next_handler request_id req s;
          status = hp_status response
      in Option.bind (record_http method route status elapsed m) (\<lambda>m.
           let response =
             (if list_all visible_ascii request_id
              then response\<lparr>hp_headers := insert_header CORRELATION_ID_HEADER request_id
                     (insert_header REQUEST_ID_HEADER request_id (hp_headers response))\<rparr>
              else response)
           in Some (response, (m, s),
                \<lparr>wd_span = span0, wd_request_id = request_id, wd_line = completed_line method route status elapsed request_id\<rparr>)))"

section \<open>Log events\<close>

definition TELEMETRY_SOURCE :: string where "TELEMETRY_SOURCE = ''telemetry_source''"
definition DEFAULT_LOG_FILTER :: string where "DEFAULT_LOG_FILTER = ''server=info,tower_http=info,axum=info,opentelemetry=warn''"
definition EXPORTER_INTERNAL_CRATES :: "string list" where
  "EXPORTER_INTERNAL_CRATES = [''tonic'', ''h2'', ''hyper'', ''hyper_util'', ''tower'']"

text \<open>\<open>target.split("::").next()\<close>: what precedes the first separator.\<close>

fun before_path_separator :: "string \<Rightarrow> string" where
  "before_path_separator [] = []"
| "before_path_separator (c # s) = (if prefix ''::'' (c # s) then [] else c # before_path_separator s)"

definition is_exporter_internal :: "string \<Rightarrow> bool" where
  "is_exporter_internal target =
     (let crate_name = before_path_separator target
      in prefix ''opentelemetry'' crate_name \<or> crate_name \<in> set EXPORTER_INTERNAL_CRATES)"

text \<open>\<open>EnvFilter\<close>: whether directives parse, and what a filter lets through of the events and spans of a target.\<close>

record 'e Filters =
  ef_parses :: "string \<Rightarrow> bool"
  ef_allows :: "string \<Rightarrow> 'e \<Rightarrow> bool"

record LogFilters =
  lf_stdout :: string
  lf_otlp_logs :: string

definition LogFilters_new :: "'e Filters \<Rightarrow> string option \<Rightarrow> string option \<Rightarrow> LogFilters" where
  "LogFilters_new ef rust_log otlp_log_filter =
     (let stdout = (case rust_log of
            None \<Rightarrow> DEFAULT_LOG_FILTER
          | Some v \<Rightarrow> if trim v \<noteq> [] \<and> ef_parses ef (trim v) then trim v else DEFAULT_LOG_FILTER);
          otlp_logs = (case otlp_log_filter of
            None \<Rightarrow> stdout
          | Some v \<Rightarrow> if trim v \<noteq> [] then trim v else stdout)
      in \<lparr>lf_stdout = stdout, lf_otlp_logs = otlp_logs\<rparr>)"

definition LogFilters_from_env :: "'e Filters \<Rightarrow> (string \<rightharpoonup> string) \<Rightarrow> 'u ObservabilityConfig \<Rightarrow> LogFilters" where
  "LogFilters_from_env ef env observability = LogFilters_new ef (env ''RUST_LOG'') (ob_otlp_log_filter observability)"

definition stdout_filter :: "'e Filters \<Rightarrow> LogFilters \<Rightarrow> string" where
  "stdout_filter ef lf = (if ef_parses ef (lf_stdout lf) then lf_stdout lf else DEFAULT_LOG_FILTER)"

definition otlp_log_filter :: "'e Filters \<Rightarrow> LogFilters \<Rightarrow> string" where
  "otlp_log_filter ef lf = (if ef_parses ef (lf_otlp_logs lf) then lf_otlp_logs lf else stdout_filter ef lf)"

text \<open>A trace context as its two ids in hex; the line an event becomes.\<close>

record TraceLogContext =
  tl_trace_id :: string
  tl_span_id :: string

fun rfind_char :: "char \<Rightarrow> string \<Rightarrow> nat option" where
  "rfind_char c [] = None"
| "rfind_char c (d # s) = (case rfind_char c s of Some i \<Rightarrow> Some (Suc i) | None \<Rightarrow> if d = c then Some 0 else None)"

definition trace_fields :: "TraceLogContext \<Rightarrow> string" where
  \<open>trace_fields context =
     '',"trace_id":"'' @ tl_trace_id context @ ''","span_id":"'' @ tl_span_id context @ ''"''\<close>

definition insert_trace_fields :: "string \<Rightarrow> TraceLogContext \<Rightarrow> string" where
  "insert_trace_fields line context =
     (case rfind_char (CHR ''}'') line of
        Some close \<Rightarrow> take close line @ trace_fields context @ drop close line
      | None \<Rightarrow> line)"

definition format_event :: "string \<Rightarrow> TraceLogContext option \<Rightarrow> string" where
  "format_event line active = (case active of Some context \<Rightarrow> insert_trace_fields line context | None \<Rightarrow> line)"

text \<open>Where an event ends up: lines on stdout, records at the OTLP exporter.\<close>

record 'e Sinks =
  sk_stdout :: "string list"
  sk_otlp_records :: "'e list"

text \<open>The bridge's \<open>on_event\<close> behind its wrapper, and the whole stack: the JSON lines under the stdout filter, the bridge
  under its own, when there is a provider for it.\<close>

definition without_exporter_internals :: "string \<Rightarrow> 'e \<Rightarrow> 'e Sinks \<Rightarrow> 'e Sinks" where
  "without_exporter_internals target event s =
     (if \<not> is_exporter_internal target then s\<lparr>sk_otlp_records := sk_otlp_records s @ [event]\<rparr> else s)"

definition telemetry_subscriber ::
  "'e Filters \<Rightarrow> LogFilters \<Rightarrow> 'l option \<Rightarrow> string \<Rightarrow> 'e \<Rightarrow> string \<Rightarrow> TraceLogContext option \<Rightarrow> 'e Sinks \<Rightarrow> 'e Sinks" where
  "telemetry_subscriber ef lf logger_provider target event line active s =
     (let s = (if ef_allows ef (stdout_filter ef lf) event then s\<lparr>sk_stdout := sk_stdout s @ [format_event line active]\<rparr> else s)
      in if logger_provider \<noteq> None \<and> ef_allows ef (otlp_log_filter ef lf) event
         then without_exporter_internals target event s else s)"

section \<open>The size of a query's result\<close>

record ResultSize =
  rs_rows :: u64
  rs_bytes :: u64
  rs_max_row_bytes :: u64
  rs_affected_rows :: "u64 option"

definition result_size_default :: ResultSize where
  "result_size_default = \<lparr>rs_rows = 0, rs_bytes = 0, rs_max_row_bytes = 0, rs_affected_rows = None\<rparr>"

definition add_row :: "u64 \<Rightarrow> ResultSize \<Rightarrow> ResultSize" where
  "add_row row_bytes z = z\<lparr>rs_rows := rs_rows z + 1, rs_bytes := rs_bytes z + row_bytes,
     rs_max_row_bytes := max (rs_max_row_bytes z) row_bytes\<rparr>"

definition add_affected :: "u64 \<Rightarrow> ResultSize \<Rightarrow> ResultSize" where
  "add_affected rows z =
     z\<lparr>rs_affected_rows := Some ((case rs_affected_rows z of None \<Rightarrow> 0 | Some n \<Rightarrow> n) + rows)\<rparr>"

text \<open>A row as its columns: unreadable, \<open>NULL\<close>, or so many bytes.\<close>

definition row_bytes :: "nat option list \<Rightarrow> u64" where
  "row_bytes columns = sum_list (map of_nat (List.map_filter id columns))"

definition record_on_current_span :: "ResultSize \<Rightarrow> (string \<times> u64) list" where
  "record_on_current_span z =
     [(''db.response.returned_rows'', rs_rows z), (''db.response.bytes'', rs_bytes z),
      (''db.response.max_row_bytes'', rs_max_row_bytes z)] @
     (case rs_affected_rows z of None \<Rightarrow> [] | Some affected \<Rightarrow> [(''db.response.affected_rows'', affected)])"

datatype 'x FetchStep = Left_Result u64 | Right_Row "nat option list" | Step_Error 'x

fun fetch_step :: "'x FetchStep \<Rightarrow> ResultSize \<Rightarrow> ResultSize" where
  "fetch_step (Left_Result rows_affected) z = add_affected rows_affected z"
| "fetch_step (Right_Row row) z = add_row (row_bytes row) z"
| "fetch_step (Step_Error error) z = z"

text \<open>The steps the caller read before the stream was dropped.\<close>

definition fetch_many :: "'x FetchStep list \<Rightarrow> (string \<times> u64) list" where
  "fetch_many steps = record_on_current_span (fold fetch_step steps result_size_default)"

definition fetch_optional :: "'x + nat option list option \<Rightarrow> ('x + nat option list option) \<times> (string \<times> u64) list" where
  "fetch_optional fetch =
     (case fetch of
        Inl error \<Rightarrow> (Inl error, [])
      | Inr row \<Rightarrow>
          (let z = (case row of Some columns \<Rightarrow> add_row (row_bytes columns) result_size_default | None \<Rightarrow> result_size_default)
           in (Inr row, record_on_current_span z)))"

section \<open>Exporters\<close>

definition telemetry_resource :: "string \<Rightarrow> 'u ObservabilityConfig \<Rightarrow> (string \<times> string) list" where
  "telemetry_resource app_version observability =
     [(''service.name'', ob_service_name observability), (''deployment.environment'', ob_environment observability),
      (''service.version'', app_version), (''vnote.protocol'', PROTOCOL_LABEL), (TELEMETRY_SOURCE, ''otlp'')]"

record ('t, 'l) TelemetryGuard =
  tg_tracer_provider :: "('t \<times> (string \<times> string) list) option"
  tg_logger_provider :: "('l \<times> (string \<times> string) list) option"

definition exports_traces :: "('t, 'l) TelemetryGuard \<Rightarrow> bool" where
  "exports_traces guard \<longleftrightarrow> tg_tracer_provider guard \<noteq> None"

definition exports_logs :: "('t, 'l) TelemetryGuard \<Rightarrow> bool" where
  "exports_logs guard \<longleftrightarrow> tg_logger_provider guard \<noteq> None"

text \<open>With the guard, the lines printed to stderr.\<close>

definition build_providers ::
  "string \<Rightarrow> 'u ObservabilityConfig \<Rightarrow> ('u \<Rightarrow> string + 't) \<Rightarrow> ('u \<Rightarrow> string + 'l) \<Rightarrow> ('t, 'l) TelemetryGuard \<times> string list" where
  "build_providers app_version observability span_exporter log_exporter =
     (case ob_otlp_endpoint observability of
        None \<Rightarrow> (\<lparr>tg_tracer_provider = None, tg_logger_provider = None\<rparr>, [])
      | Some endpoint \<Rightarrow>
          (let resource = telemetry_resource app_version observability;
               (tracer_provider, errors) = (case span_exporter endpoint of
                   Inr exporter \<Rightarrow> (Some (exporter, resource), [])
                 | Inl error \<Rightarrow> (None, [''OpenTelemetry trace export disabled: '' @ error]));
               (logger_provider, errors) = (case log_exporter endpoint of
                   Inr exporter \<Rightarrow> (Some (exporter, resource), errors)
                 | Inl error \<Rightarrow> (None, errors @ [''OpenTelemetry log export disabled: '' @ error]))
           in (\<lparr>tg_tracer_provider = tracer_provider, tg_logger_provider = logger_provider\<rparr>, errors)))"

text \<open>Dropping the guard: which provider is shut down when, and what is printed when it fails.\<close>

definition drop_guard ::
  "('t \<Rightarrow> string option) \<Rightarrow> ('l \<Rightarrow> string option) \<Rightarrow> ('t, 'l) TelemetryGuard \<Rightarrow> ('l + 't) list \<times> string list" where
  "drop_guard trace_shutdown log_shutdown guard =
     (let (order, errors) = (case tg_logger_provider guard of
            None \<Rightarrow> ([], [])
          | Some (provider, _) \<Rightarrow>
              ([Inl provider], case log_shutdown provider of None \<Rightarrow> [] | Some e \<Rightarrow> [''OpenTelemetry log shutdown failed: '' @ e]))
      in case tg_tracer_provider guard of
           None \<Rightarrow> (order, errors)
         | Some (provider, _) \<Rightarrow>
             (order @ [Inr provider],
              errors @ (case trace_shutdown provider of None \<Rightarrow> [] | Some e \<Rightarrow> [''OpenTelemetry trace shutdown failed: '' @ e])))"

text \<open>The metrics endpoint; what the registry renders is the library's.\<close>

definition metrics_handler :: "(Metrics \<Rightarrow> string + string) \<Rightarrow> Metrics \<Rightarrow> string HttpResponse" where
  "metrics_handler render m =
     (case render m of
        Inr body \<Rightarrow> \<lparr>hp_status = 200, hp_headers = [(''content-type'', ''text/plain; version=0.0.4; charset=utf-8'')], hp_body = body\<rparr>
      | Inl error \<Rightarrow> \<lparr>hp_status = 500, hp_headers = [(''content-type'', ''text/plain; charset=utf-8'')],
                      hp_body = ''metrics render failed''\<rparr>)"
section \<open>Nothing recorded panics\<close>

text \<open>The buckets stand well apart, so their roundings do too.\<close>

lemma fround_apart:
  fixes a b :: rat
  assumes "0 \<le> a" "a + 1 / 2048 \<le> b" "b \<le> 2 ^ 40"
  shows "fp_lt (fround f64 a) (fround f64 b)"
proof -
  define m where "m = \<lceil>a * 4096\<rceil>"
  have m: "a * 4096 \<le> of_int m" "of_int m < a * 4096 + 1" unfolding m_def by linarith+
  have "0 \<le> m" unfolding m_def using assms(1) by simp
  moreover have "m \<le> 2 ^ 52" unfolding m_def ceiling_le_iff using assms by simp
  ultimately have range: "\<bar>m\<bar> < 2 ^ 53" "\<bar>m + 1\<bar> < 2 ^ 53" by simp_all
  have grid: "fround f64 (of_int k / 4096) = Fin (of_int k / 4096)" if "\<bar>k\<bar> < 2 ^ 53" for k
    using f64_dyadic [of k "-12"] that by (simp add: pow2_def)
  have "fp_le (fround f64 a) (Fin (of_int m / 4096))"
    using fround_mono [of a "of_int m / 4096" f64] m grid [OF range(1)] by simp
  moreover have "fp_le (Fin (of_int (m + 1) / 4096)) (fround f64 b)"
    using fround_mono [of "of_int (m + 1) / 4096" b f64] m assms grid [OF range(2)] by simp
  ultimately show ?thesis
    by (cases "fround f64 a"; cases "fround f64 b") (auto simp: fp_le_def field_simps)
qed

fun spread :: "rat list \<Rightarrow> bool" where
  "spread (a # b # bs) \<longleftrightarrow> 0 \<le> a \<and> a + 1 / 2048 \<le> b \<and> b \<le> 2 ^ 40 \<and> spread (b # bs)"
| "spread bs = True"

lemma increasing_decimals: "spread bs \<Longrightarrow> increasing (decimals bs)"
  by (induction bs rule: spread.induct) (auto simp: decimals_def intro: fround_apart)

lemmas bucket_lists = DEFAULT_BUCKETS_def REALTIME_BYTES_BUCKETS_def REALTIME_REPLAY_FRAMES_BUCKETS_def
  REALTIME_REPLAY_DURATION_BUCKETS_def REALTIME_HANDLING_BUCKETS_def ARTIFACT_BUCKETS_def

lemma buckets_increase [simp]:
  "increasing DEFAULT_BUCKETS" "increasing REALTIME_BYTES_BUCKETS" "increasing REALTIME_REPLAY_FRAMES_BUCKETS"
  "increasing REALTIME_REPLAY_DURATION_BUCKETS" "increasing REALTIME_HANDLING_BUCKETS" "increasing ARTIFACT_BUCKETS"
  unfolding bucket_lists by (rule increasing_decimals, simp)+

lemmas family_lists = all_families_def HttpMetrics_new_def ThumbnailMetrics_new_def RealtimeMetrics_new_def family_def build_info_def

lemma register_all_fresh:
  "list_all well_formed fs \<Longrightarrow> distinct (map fm_name (registry @ fs)) \<Longrightarrow> register_all fs registry = Some (registry @ fs)"
proof (induction fs arbitrary: registry)
  case (Cons f fs)
  have "list_all (\<lambda>g. fm_name g \<noteq> fm_name f) registry"
    using Cons.prems(2) by (auto simp: list_all_iff) (metis image_eqI)
  with Cons show ?case by (simp add: register_def)
qed simp

lemma families_well_formed: "list_all well_formed (all_families v)"
  by (simp add: family_lists well_formed_def name_start_def digit_def char_in_def)

lemma families_distinct: "distinct (map fm_name (all_families v))"
  by (simp add: family_lists)

lemma register_families: "register_all (all_families v) [] = Some (all_families v)"
  using register_all_fresh [OF families_well_formed, of "[]"] families_distinct by simp
lemmas recorders = record_auth_failure_def record_page_mutation_def record_thumbnail_generation_def thumbnail_generation_queued_def
  thumbnail_generation_finished_def record_thumbnail_recovery_def observe_thumbnail_artifact_bytes_def record_realtime_event_def
  observe_realtime_message_bytes_def observe_realtime_replay_def observe_realtime_message_handling_def
  realtime_connection_guard_def drop_connection_guard_def record_http_def inc_def observe_def gauge_add_def observe_plain_def

text \<open>A family found among those registered at startup.\<close>

definition arity :: "string \<Rightarrow> nat option" where
  "arity name = map_option (\<lambda>f. length (fm_labels f)) (List.find (\<lambda>f. fm_name f = name) (all_families []))"

lemma with_label_values_arity:
  "mx_registry m = all_families v \<Longrightarrow> arity name = Some (length labels) \<Longrightarrow> with_label_values name labels m = Some (name, labels)"
proof -
  obtain base where base: "\<And>v. all_families v = base @ [build_info v]"
    by (simp add: all_families_def flip: append_assoc)
  then show "mx_registry m = all_families v \<Longrightarrow> arity name = Some (length labels) \<Longrightarrow> with_label_values name labels m = Some (name, labels)"
    by (cases "List.find (\<lambda>f. fm_name f = name) base")
      (auto simp: with_label_values_def arity_def find_append build_info_def split: if_splits)
qed

lemma arities [simp]:
  "arity ''v_note_http_requests_total'' = Some 3" "arity ''v_note_http_request_duration_seconds'' = Some 3"
  "arity ''v_note_auth_failures_total'' = Some 1" "arity ''v_note_page_mutations_total'' = Some 2"
  "arity ''v_note_thumbnail_generation_duration_seconds'' = Some 1" "arity ''v_note_thumbnail_recoveries_total'' = Some 1"
  "arity ''v_note_realtime_events_total'' = Some 2" "arity ''v_note_realtime_message_bytes'' = Some 2"
  "arity ''v_note_realtime_message_handling_seconds'' = Some 1"
  by (simp_all add: arity_def family_lists)

text \<open>What a sample adds to the gauges and counters that are totals of others.\<close>

fun connections_change :: "Metric \<Rightarrow> int" where
  "connections_change (RealtimeConnections n) = (if n = 1 then 1 else -1)"
| "connections_change _ = 0"

fun queue_change :: "Metric \<Rightarrow> int" where
  "queue_change ThumbnailGenerationQueued = 1"
| "queue_change ThumbnailGenerationFinished = -1"
| "queue_change _ = 0"

lemma record_sample_effect:
  assumes "mx_registry m = all_families v"
  shows "\<exists>m'. record_sample x m = Some m' \<and> mx_registry m' = all_families v \<and>
     mx_gauges m' ''v_note_build_info'' = mx_gauges m ''v_note_build_info'' \<and>
     (mx_gauges m' ''v_note_realtime_active_connections'' = mx_gauges m ''v_note_realtime_active_connections'' \<and>
        connections_change x = 0 \<or>
      mx_gauges m' ''v_note_realtime_active_connections'' =
        wrap_i64 (mx_gauges m ''v_note_realtime_active_connections'' + connections_change x)) \<and>
     (mx_gauges m' ''v_note_thumbnail_queue_depth'' = mx_gauges m ''v_note_thumbnail_queue_depth'' \<and> queue_change x = 0 \<or>
      mx_gauges m' ''v_note_thumbnail_queue_depth'' = wrap_i64 (mx_gauges m ''v_note_thumbnail_queue_depth'' + queue_change x)) \<and>
     mx_counters m' (''v_note_page_mutations_total'', [operation, result]) =
       mx_counters m (''v_note_page_mutations_total'', [operation, result]) + (if x = PageMutation operation result then 1 else 0)"
  using assms by (cases x) (auto simp: recorders with_label_values_arity)

lemma wrap_i64_wrap: "wrap_i64 (wrap_i64 a + b) = wrap_i64 (a + b)"
  unfolding wrap_i64_def by (simp add: mod_simps algebra_simps)

lemma record_samples_effect:
  assumes "mx_registry m = all_families v"
    and "mx_gauges m ''v_note_realtime_active_connections'' = wrap_i64 c"
    and "mx_gauges m ''v_note_thumbnail_queue_depth'' = wrap_i64 q"
  shows "\<exists>m'. record_samples xs m = Some m' \<and> mx_registry m' = all_families v \<and>
     mx_gauges m' ''v_note_build_info'' = mx_gauges m ''v_note_build_info'' \<and>
     mx_gauges m' ''v_note_realtime_active_connections'' = wrap_i64 (c + sum_list (map connections_change xs)) \<and>
     mx_gauges m' ''v_note_thumbnail_queue_depth'' = wrap_i64 (q + sum_list (map queue_change xs)) \<and>
     mx_counters m' (''v_note_page_mutations_total'', [operation, result]) =
       mx_counters m (''v_note_page_mutations_total'', [operation, result]) + of_nat (count_list xs (PageMutation operation result))"
  using assms
proof (induction xs arbitrary: m c q)
  case (Cons x xs)
  obtain m' where m': "record_sample x m = Some m'" "mx_registry m' = all_families v"
     "mx_gauges m' ''v_note_build_info'' = mx_gauges m ''v_note_build_info''"
     "mx_gauges m' ''v_note_realtime_active_connections'' = wrap_i64 (c + connections_change x)"
     "mx_gauges m' ''v_note_thumbnail_queue_depth'' = wrap_i64 (q + queue_change x)"
     "mx_counters m' (''v_note_page_mutations_total'', [operation, result]) =
       mx_counters m (''v_note_page_mutations_total'', [operation, result]) + (if x = PageMutation operation result then 1 else 0)"
    using record_sample_effect [OF Cons.prems(1), of x operation result] Cons.prems(2,3)
    by (elim exE conjE disjE) (auto simp: wrap_i64_wrap)
  from Cons.IH [OF m'(2,4,5)] show ?case
    by (auto simp: m' add.assoc)
qed simp

section \<open>Requests, logs, results\<close>

definition route_labels :: "string list" where
  "route_labels =
     [''/metrics'', ''/health'', ''/api/meta'', ''/api/me'', ''/api/pages'', ''/api/pages/{page_id}/realtime'',
      ''/api/pages/{page_id}'', ''/auth/*'', ''/.well-known/*'', ''/static/*'']"

lemma normalized_route_labels: "normalized_route path \<in> set route_labels"
  by (simp add: normalized_route_def route_labels_def)

text \<open>A route the router serves that no label is for: it is counted with the static files.\<close>

lemma unlabelled_routes:
  "normalized_route ''/api/realtime-ticket'' = ''/static/*'' \<and> normalized_route ''/api/realtime'' = ''/static/*'' \<and>
   normalized_route ''/api/telemetry/config'' = ''/static/*''"
  by (simp add: normalized_route_def prefix_def suffix_def)

lemmas char_classes = is_ascii_alphanumeric_def char_in_def visible_ascii_def less_eq_char_def less_char_def

lemma safe_visible: "is_safe_request_id v \<Longrightarrow> list_all visible_ascii v"
  by (auto simp: is_safe_request_id_def list_all_iff char_classes)

lemma hex_digit_alphanumeric: "n < 16 \<Longrightarrow> is_ascii_alphanumeric (hex_digit n)"
proof -
  have "list_all (\<lambda>n. is_ascii_alphanumeric (hex_digit n)) [0..<16]" by code_simp
  then show "n < 16 \<Longrightarrow> is_ascii_alphanumeric (hex_digit n)" by (auto simp: list_all_iff)
qed

lemma random_hex_alphanumeric: "list_all is_ascii_alphanumeric (random_hex buffer)"
proof (induction buffer)
  case (Cons b bs)
  have "unat b < 256" using unsigned_less [of b] by simp
  then have "unat b div 16 < 16" by (simp add: less_mult_imp_div_less)
  with Cons show ?case by (simp add: random_hex_Cons hex_digit_alphanumeric)
qed (simp add: random_hex_def)

lemma generated_id_safe:
  assumes "length buffer = 16"
  shows "is_safe_request_id (generate_request_id buffer)"
proof -
  have hex: "list_all (\<lambda>c. is_ascii_alphanumeric c \<or> c \<in> set ''-_.:'') (random_hex buffer)"
    using random_hex_alphanumeric by (rule list.pred_mono_strong) simp
  have "length (random_hex buffer) = 32" using random_hex_injective [of buffer buffer] assms by simp
  moreover have "list_all (\<lambda>c. is_ascii_alphanumeric c \<or> c \<in> set ''-_.:'') ''req_''"
    by (simp add: is_ascii_alphanumeric_def char_in_def)
  ultimately show ?thesis
    unfolding is_safe_request_id_def generate_request_id_def list_all_append by (simp add: hex del: list.set)
qed

lemma first_safe_id_safe: "first_safe_id headers names = Some v \<Longrightarrow> is_safe_request_id v"
proof (induction names)
  case (Cons name names)
  show ?case
  proof (cases "header_str headers name")
    case None
    with Cons show ?thesis by simp
  next
    case (Some own)
    with Cons show ?thesis by (cases "is_safe_request_id (trim own)") (simp_all only: first_safe_id.simps option.case Let_def if_True if_False option.inject)
  qed
qed simp

lemma request_id_safe: "request_id_from_headers headers = Some v \<Longrightarrow> is_safe_request_id v"
  unfolding request_id_from_headers_def by (rule first_safe_id_safe)

definition header_values :: "string \<Rightarrow> Headers \<Rightarrow> string list" where
  "header_values name headers = map snd (filter (\<lambda>h. fst h = name) headers)"

lemma header_values_insert:
  "header_values name (insert_header other v headers) = (if name = other then [v] else header_values name headers)"
  by (induction headers) (auto simp: header_values_def insert_header_def)

text \<open>C28. Every answer carries an id to trace it by, and only one: whatever the headers of the request are, its answer has
  exactly one request id and one correlation id, both the id the handler saw; that id is safe to print and to send back
  (its characters and its length are bounded), is the client's own when the client sent a safe one and is generated
  otherwise; and the request is counted once, under one of ten route labels, so that no client can grow the series by the
  paths it asks for. The handler's status, body and other headers are untouched.\<close>

theorem requests_traceable:
  assumes "mx_registry m = all_families v" and "length random = 16"
  shows "\<exists>request_id response m' s' watched r.
    request_observability_middleware tr random elapsed next_handler req (m, s) = Some (response, (m', s'), watched) \<and>
    next_handler request_id req s = (r, s') \<and>
    is_safe_request_id request_id \<and>
    request_id = (case request_id_from_headers (hr_headers req) of Some own \<Rightarrow> own | None \<Rightarrow> generate_request_id random) \<and>
    header_values REQUEST_ID_HEADER (hp_headers response) = [request_id] \<and>
    header_values CORRELATION_ID_HEADER (hp_headers response) = [request_id] \<and>
    wd_request_id watched = request_id \<and> (''request_id'', request_id) \<in> set (sn_fields (wd_span watched)) \<and>
    hp_status response = hp_status r \<and> hp_body response = hp_body r \<and>
    (\<forall>name. name = REQUEST_ID_HEADER \<or> name = CORRELATION_ID_HEADER \<or>
       header_values name (hp_headers response) = header_values name (hp_headers r)) \<and>
    (\<exists>route \<in> set route_labels.
       mx_counters m' =
         (mx_counters m)((''v_note_http_requests_total'', [hr_method req, route, decimal (hp_status r)]) :=
            mx_counters m (''v_note_http_requests_total'', [hr_method req, route, decimal (hp_status r)]) + 1))"
proof -
  let ?id = "case request_id_from_headers (hr_headers req) of Some own \<Rightarrow> own | None \<Rightarrow> generate_request_id random"
  let ?route = "normalized_route (hr_path req)"
  obtain r s' where run: "next_handler ?id req s = (r, s')" by fastforce
  have safe: "is_safe_request_id ?id"
    using generated_id_safe [OF assms(2)] by (auto dest: request_id_safe split: option.split)
  have recorded: "record_http (hr_method req) ?route (hp_status r) elapsed m =
      Some (m\<lparr>mx_counters := (mx_counters m)((''v_note_http_requests_total'', [hr_method req, ?route, decimal (hp_status r)]) :=
            mx_counters m (''v_note_http_requests_total'', [hr_method req, ?route, decimal (hp_status r)]) + 1),
          mx_observed := (mx_observed m)((''v_note_http_request_duration_seconds'', [hr_method req, ?route, decimal (hp_status r)]) :=
            mx_observed m (''v_note_http_request_duration_seconds'', [hr_method req, ?route, decimal (hp_status r)]) @ [elapsed])\<rparr>)"
    using assms(1) by (simp add: recorders with_label_values_arity Let_def)
  have names: "CORRELATION_ID_HEADER \<noteq> REQUEST_ID_HEADER" by (simp add: CORRELATION_ID_HEADER_def REQUEST_ID_HEADER_def)
  show ?thesis
    unfolding request_observability_middleware_def
    using safe_visible [OF safe] safe run recorded names normalized_route_labels [of "hr_path req"]
    by (simp add: Let_def header_values_insert request_span_def) blast
qed
theorem requests_traceable_witness:
  "\<exists>response m' watched.
    request_observability_middleware \<lparr>tr_extract = (\<lambda>_. ()), tr_is_valid = (\<lambda>_. False)\<rparr> (replicate 16 7) (Fin 1)
      (\<lambda>request_id req s. (\<lparr>hp_status = 404, hp_headers = [(''x-request-id'', ''other'')], hp_body = ''''\<rparr>, s + 1))
      \<lparr>hr_method = ''GET'', hr_path = ''/api/pages/p1'', hr_headers = [(''x-request-id'', ''a b''), (''x-correlation-id'', ''c-1'')]\<rparr>
      (\<lparr>mx_registry = all_families ''1.0'', mx_counters = (\<lambda>_. 0), mx_gauges = (\<lambda>_. 0), mx_observed = (\<lambda>_. [])\<rparr>, 5 :: nat)
     = Some (response, (m', 6), watched) \<and>
    header_values ''x-request-id'' (hp_headers response) = [''c-1''] \<and> hp_status response = 404"
proof -
  let ?req = "\<lparr>hr_method = ''GET'', hr_path = ''/api/pages/p1'', hr_headers = [(''x-request-id'', ''a b''), (''x-correlation-id'', ''c-1'')]\<rparr>"
  have own: "request_id_from_headers (hr_headers ?req) = Some ''c-1''" by code_simp
  show ?thesis
    using requests_traceable [of "\<lparr>mx_registry = all_families ''1.0'', mx_counters = (\<lambda>_. 0), mx_gauges = (\<lambda>_. 0), mx_observed = (\<lambda>_. [])\<rparr>"
        "''1.0''" "replicate 16 7" "\<lparr>tr_extract = (\<lambda>_. ()), tr_is_valid = (\<lambda>_. False)\<rparr>" "Fin 1"
        "\<lambda>request_id req s. (\<lparr>hp_status = 404, hp_headers = [(''x-request-id'', ''other'')], hp_body = ''''\<rparr>, s + 1)" ?req "5 :: nat"]
    unfolding own by (auto simp: REQUEST_ID_HEADER_def)
qed

text \<open>A log event with its target, its line and the trace active when it was written.\<close>

record 'e LogEvent =
  le_target :: string
  le_event :: 'e
  le_line :: string
  le_active :: "TraceLogContext option"

definition log_events :: "'e Filters \<Rightarrow> LogFilters \<Rightarrow> 'l option \<Rightarrow> 'e LogEvent list \<Rightarrow> 'e Sinks \<Rightarrow> 'e Sinks" where
  "log_events ef lf logger_provider =
     fold (\<lambda>e. telemetry_subscriber ef lf logger_provider (le_target e) (le_event e) (le_line e) (le_active e))"

lemma log_events_sinks:
  "sk_otlp_records (log_events ef lf provider events s) = sk_otlp_records s @
     map le_event (filter (\<lambda>e. provider \<noteq> None \<and> ef_allows ef (otlp_log_filter ef lf) (le_event e) \<and>
                               \<not> is_exporter_internal (le_target e)) events)"
  "sk_stdout (log_events ef lf provider events s) = sk_stdout s @
     map (\<lambda>e. format_event (le_line e) (le_active e)) (filter (\<lambda>e. ef_allows ef (stdout_filter ef lf) (le_event e)) events)"
  unfolding log_events_def
  by (induction events arbitrary: s) (simp_all add: telemetry_subscriber_def without_exporter_internals_def Let_def)

lemma before_path_separator_cons:
  "CHR '':'' \<notin> set crate \<Longrightarrow> before_path_separator (crate @ ''::'' @ path) = crate"
  by (induction crate) auto

lemma rfind_char_append:
  "rfind_char c (a @ b) = (case rfind_char c b of Some i \<Rightarrow> Some (length a + i) | None \<Rightarrow> rfind_char c a)"
  by (induction a) (auto split: option.splits)

lemma rfind_char_none: "c \<notin> set s \<Longrightarrow> rfind_char c s = None"
  by (induction s) auto

text \<open>What a log event becomes: whatever directives an operator writes, an event of the exporter's own libraries, or of
  any module below them, never becomes a record to export, so a failing export cannot feed itself; it still goes to stdout
  when stdout's filter lets it through. The trace's ids are put just inside the last closing brace of a line, which is
  otherwise unchanged, and a line outside any trace is not touched. The filters installed always parse when the default
  does.\<close>

theorem exports_never_feed_themselves:
  fixes rust_log directives :: "string option" and crate path object rest :: string
    and event :: 'e and active :: "TraceLogContext option"
  assumes "crate \<in> set EXPORTER_INTERNAL_CRATES" and "ef_parses ef DEFAULT_LOG_FILTER" and "CHR ''}'' \<notin> set rest"
  defines "lf \<equiv> LogFilters_new ef rust_log directives"
    and "own \<equiv> \<lparr>le_target = crate @ ''::'' @ path, le_event = event, le_line = object @ ''}'' @ rest, le_active = active\<rparr>"
  shows "sk_otlp_records (log_events ef lf provider (before @ own # after) s) =
           sk_otlp_records (log_events ef lf provider (before @ after) s) \<and>
         sk_stdout (log_events ef lf provider (before @ [own]) s) =
           sk_stdout (log_events ef lf provider before s) @
             (if ef_allows ef (stdout_filter ef lf) event
              then [object @ (case active of None \<Rightarrow> [] | Some context \<Rightarrow> trace_fields context) @ ''}'' @ rest] else []) \<and>
         ef_parses ef (stdout_filter ef lf) \<and> ef_parses ef (otlp_log_filter ef lf)"
proof -
  have "CHR '':'' \<notin> set crate" using assms(1) by (auto simp: EXPORTER_INTERNAL_CRATES_def)
  then have "is_exporter_internal (crate @ ''::'' @ path)"
    using assms(1) by (simp add: is_exporter_internal_def before_path_separator_cons del: append_Cons append_Nil)
  moreover have "format_event (object @ ''}'' @ rest) active =
      object @ (case active of None \<Rightarrow> [] | Some context \<Rightarrow> trace_fields context) @ ''}'' @ rest"
    using assms(3)
    by (simp add: format_event_def insert_trace_fields_def rfind_char_append rfind_char_none split: option.split)
  moreover have "ef_parses ef (stdout_filter ef lf)" "ef_parses ef (otlp_log_filter ef lf)"
    using assms(2) by (simp_all add: stdout_filter_def otlp_log_filter_def)
  ultimately show ?thesis by (simp add: log_events_sinks own_def)
qed

theorem exports_never_feed_themselves_witness:
  "sk_otlp_records (log_events \<lparr>ef_parses = (\<lambda>_. True), ef_allows = (\<lambda>_ _. True)\<rparr>
      (LogFilters_new \<lparr>ef_parses = (\<lambda>_. True), ef_allows = (\<lambda>_ _. True)\<rparr> None (Some ''h2=trace'')) (Some ())
      [\<lparr>le_target = ''h2::client'', le_event = 1, le_line = ''{}'', le_active = None\<rparr>,
       \<lparr>le_target = ''server'', le_event = 2 :: nat, le_line = ''{}'', le_active = None\<rparr>]
      \<lparr>sk_stdout = [], sk_otlp_records = []\<rparr>) = [2]"
  using exports_never_feed_themselves [of "''h2''" "\<lparr>ef_parses = (\<lambda>_. True), ef_allows = (\<lambda>_ _. True)\<rparr>" "[]" None
      "Some ''h2=trace''" "Some ()" "[]" "''client''" 1 "''{''" None
      "[\<lparr>le_target = ''server'', le_event = 2 :: nat, le_line = ''{}'', le_active = None\<rparr>]"
      "\<lparr>sk_stdout = [], sk_otlp_records = []\<rparr>"]
  by (simp add: EXPORTER_INTERNAL_CRATES_def log_events_sinks is_exporter_internal_def)

section \<open>Totals of a result\<close>

fun step_rows :: "'x FetchStep \<Rightarrow> u64 list" where
  "step_rows (Right_Row row) = [row_bytes row]" | "step_rows _ = []"

fun step_affected :: "'x FetchStep \<Rightarrow> u64 list" where
  "step_affected (Left_Result n) = [n]" | "step_affected _ = []"

lemma fetch_totals:
  "fold fetch_step steps z =
     (let rows = concat (map step_rows steps); affected = concat (map step_affected steps)
      in z\<lparr>rs_rows := rs_rows z + of_nat (length rows), rs_bytes := rs_bytes z + sum_list rows,
           rs_max_row_bytes := fold max rows (rs_max_row_bytes z),
           rs_affected_rows := (if affected = [] then rs_affected_rows z
              else Some ((case rs_affected_rows z of None \<Rightarrow> 0 | Some n \<Rightarrow> n) + sum_list affected))\<rparr>)"
proof (induction steps arbitrary: z)
  case (Cons step steps)
  then show ?case
    by (cases step; cases "concat (map step_affected steps)")
      (auto simp: add_row_def add_affected_def Let_def max.commute algebra_simps simp del: concat_eq_Nil_conv)
qed simp

end
