(* ===== verification/Router.thy ===== *)
theory Router
  imports Pages Socket Csp Observe Outbox
begin

text \<open>
  How the server is put together (\<open>crates/server/src/lib.rs\<close>): the state the handlers share, how it is brought up, the
  table of routes and which of them are behind the sign-in check, and what a request runs. Axum's routing is modelled as
  documented: a parameter matches one nonempty segment, a route without the request's method answers 405 behind the route's
  own layers, \<open>HEAD\<close> is answered as \<open>GET\<close> without its body, a request no route matches goes to the fallback, and an
  extractor that fails answers in the handler's place. Outside the sources: the percent-decoding, query and JSON
  extractors, \<open>ServeDir\<close>, the database pool and its migrations.
\<close>

section \<open>The shared state\<close>

record AppState =
  as_app_version :: string
  as_auth :: AuthConfig
  as_assetlinks_json :: "string option"
  as_coalesce_replay :: bool
  as_realtime_compression :: bool
  as_telemetry_endpoint :: "string option"

definition app_version :: "string option \<Rightarrow> string \<Rightarrow> string" where
  "app_version v_note_release cargo_pkg_version =
     (case v_note_release of Some release \<Rightarrow> if release \<noteq> [] then release else cargo_pkg_version | None \<Rightarrow> cargo_pkg_version)"

datatype ('c, 'm) StartupError = OidcDiscovery string | DatabaseConnect 'c | DatabaseMigrate 'm

fun describe_startup :: "('c \<Rightarrow> string) \<Rightarrow> ('m \<Rightarrow> string) \<Rightarrow> ('c, 'm) StartupError \<Rightarrow> string" where
  "describe_startup show_connect show_migrate (OidcDiscovery reason) = ''OIDC discovery failed for `oidc.issuer-url`: '' @ reason"
| "describe_startup show_connect show_migrate (DatabaseConnect source) = ''database should be reachable: '' @ show_connect source"
| "describe_startup show_connect show_migrate (DatabaseMigrate source) = ''database migrations should apply: '' @ show_migrate source"

fun startup_source :: "('c, 'm) StartupError \<Rightarrow> ('c + 'm) option" where
  "startup_source (OidcDiscovery _) = None"
| "startup_source (DatabaseConnect source) = Some (Inl source)"
| "startup_source (DatabaseMigrate source) = Some (Inr source)"

record ConnectOptions =
  co_host :: string
  co_port :: u16
  co_username :: string
  co_password :: string
  co_database :: string

definition database_connect_options :: "DatabaseConfig \<Rightarrow> ConnectOptions" where
  "database_connect_options database =
     \<lparr>co_host = dc_host database, co_port = dc_port database, co_username = dc_user database,
      co_password = dc_password database, co_database = dc_name database\<rparr>"

definition telemetry_endpoint :: "('u \<Rightarrow> string) \<Rightarrow> 'u option \<Rightarrow> string option" where
  "telemetry_endpoint show_url endpoint = map_option (\<lambda>url. client_endpoint (show_url url)) endpoint"

text \<open>Bringing it up: discovery, then the pool, then the migrations, each only when the one before succeeded; then the
  interrupted thumbnail jobs are resumed. What the database is asked is an argument: \<open>connect\<close> its first connection,
  \<open>migrate\<close> its migrations, which leave the tables.\<close>

definition build_app_router ::
  "(string \<Rightarrow> nat \<Rightarrow> DiscoveryDoc fetched) \<Rightarrow> (ConnectOptions \<Rightarrow> 'c + 'pool) \<Rightarrow> ('pool \<Rightarrow> 'm + pg) \<Rightarrow>
   ('o, 'path) thumb_env \<Rightarrow> ('u \<Rightarrow> string) \<Rightarrow> string \<Rightarrow> 'u Loaded \<Rightarrow>
   ('c, 'm) StartupError + (AppState \<times> string option \<times> (pg, 'o, 'k) app)" where
  "build_app_router fetch connect migrate te show_url version loaded =
     (case from_oidc fetch (ld_oidc loaded) of
        Inl reason \<Rightarrow> Inl (OidcDiscovery reason)
      | Inr auth \<Rightarrow>
     (let jwks_cache = \<lparr>jc_keys = Map.empty, jc_jwks_url = ac_jwks_uri auth\<rparr> in
      case connect (database_connect_options (ld_database loaded)) of
        Inl error \<Rightarrow> Inl (DatabaseConnect error)
      | Inr pool \<Rightarrow>
     (case migrate pool of
        Inl error \<Rightarrow> Inl (DatabaseMigrate error)
      | Inr db \<Rightarrow>
          (let state = \<lparr>as_app_version = version, as_auth = auth, as_assetlinks_json = assetlinks_json (ld_android loaded),
                 as_coalesce_replay = rt_coalesce_replay (ld_realtime loaded),
                 as_realtime_compression = rt_compression (ld_realtime loaded),
                 as_telemetry_endpoint = telemetry_endpoint show_url (ct_endpoint (ld_client_telemetry loaded))\<rparr>;
               server = \<lparr>sv_hub = hub_default, sv_store = db, sv_frames = [], sv_metrics = [], sv_jobs = []\<rparr>
           in Inr (state, se_static_dir (ld_server loaded),
                \<lparr>app_server = recover_pending te server, app_cache = jwks_cache\<rparr>)))))"

text \<open>The routers of the integration tests: the same router over a state of defaults.\<close>

definition test_state :: "string \<Rightarrow> AuthConfig \<Rightarrow> AppState" where
  "test_state version auth =
     \<lparr>as_app_version = version, as_auth = auth, as_assetlinks_json = None, as_coalesce_replay = coalesce_replay_default,
      as_realtime_compression = compression_default, as_telemetry_endpoint = None\<rparr>"

definition build_router :: "string \<Rightarrow> AuthConfig \<Rightarrow> AppState \<times> string option" where
  "build_router version auth = (test_state version auth, None)"

definition build_router_with_telemetry_endpoint ::
  "('u \<Rightarrow> string) \<Rightarrow> string \<Rightarrow> AuthConfig \<Rightarrow> 'u option \<Rightarrow> AppState \<times> string option" where
  "build_router_with_telemetry_endpoint show_url version auth endpoint =
     (test_state version auth\<lparr>as_telemetry_endpoint := telemetry_endpoint show_url endpoint\<rparr>, None)"

definition build_router_with_spa ::
  "('u \<Rightarrow> string) \<Rightarrow> string \<Rightarrow> AuthConfig \<Rightarrow> 'u option \<Rightarrow> string \<Rightarrow> AppState \<times> string option" where
  "build_router_with_spa show_url version auth endpoint static_dir =
     (test_state version auth\<lparr>as_telemetry_endpoint := telemetry_endpoint show_url endpoint\<rparr>, Some static_dir)"

section \<open>Routes\<close>

datatype Segment = Lit string | Param

datatype Endpoint =
    Health | Meta | Assetlinks | Login | Callback | Logout | Mobile_Callback
  | Me | List_Pages | Create_Page | Get_Page | Delete_Page | Get_Thumbnail | Realtime_Ticket | Telemetry_Config
  | Library_Socket | Page_Socket

record Route =
  ro_pattern :: "Segment list"
  ro_methods :: "(string \<times> Endpoint) list"
  ro_protected :: bool

definition route :: "Segment list \<Rightarrow> (string \<times> Endpoint) list \<Rightarrow> Route" where
  "route pattern methods = \<lparr>ro_pattern = pattern, ro_methods = methods, ro_protected = False\<rparr>"

definition route_layer :: "Route list \<Rightarrow> Route list" where
  "route_layer = map (\<lambda>r. r\<lparr>ro_protected := True\<rparr>)"

definition nest :: "string \<Rightarrow> Route list \<Rightarrow> Route list" where
  "nest path0 = map (\<lambda>r. r\<lparr>ro_pattern := Lit path0 # ro_pattern r\<rparr>)"

definition public_api :: "Route list" where
  "public_api = [route [Lit ''meta''] [(''GET'', Meta)]]"

definition protected_api :: "Route list" where
  "protected_api = route_layer
     [route [Lit ''me''] [(''GET'', Me)],
      route [Lit ''pages''] [(''GET'', List_Pages), (''POST'', Create_Page)],
      route [Lit ''pages'', Param] [(''GET'', Get_Page), (''DELETE'', Delete_Page)],
      route [Lit ''pages'', Param, Lit ''thumbnails'', Param] [(''GET'', Get_Thumbnail)],
      route [Lit ''realtime-ticket''] [(''POST'', Realtime_Ticket)],
      route [Lit ''telemetry'', Lit ''config''] [(''GET'', Telemetry_Config)]]"

definition routes :: "Route list" where
  "routes =
     [route [Lit ''health''] [(''GET'', Health)],
      route [Lit ''.well-known'', Lit ''assetlinks.json''] [(''GET'', Assetlinks)]] @
     nest ''auth''
       [route [Lit ''login''] [(''GET'', Login)], route [Lit ''callback''] [(''GET'', Callback)],
        route [Lit ''logout''] [(''GET'', Logout)], route [Lit ''mobile'', Lit ''callback''] [(''GET'', Mobile_Callback)]] @
     nest ''api'' (public_api @ protected_api) @
     [route [Lit ''api'', Lit ''realtime''] [(''GET'', Library_Socket)],
      route [Lit ''api'', Lit ''pages'', Param, Lit ''realtime''] [(''GET'', Page_Socket)]]"

text \<open>A path as the segments after its first slash; a pattern gives the values of its parameters.\<close>

definition path_segments :: "string \<Rightarrow> string list option" where
  "path_segments path = (case path of c # rest \<Rightarrow> if c = CHR ''/'' then Some (split_by (\<lambda>c. c = CHR ''/'') rest) else None | [] \<Rightarrow> None)"

fun match_pattern :: "Segment list \<Rightarrow> string list \<Rightarrow> string list option" where
  "match_pattern [] [] = Some []"
| "match_pattern (Lit l # ps) (s # ss) = (if s = l then match_pattern ps ss else None)"
| "match_pattern (Param # ps) (s # ss) = (if s \<noteq> [] then map_option (\<lambda>vs. s # vs) (match_pattern ps ss) else None)"
| "match_pattern _ _ = None"

fun find_route :: "Route list \<Rightarrow> string list \<Rightarrow> (Route \<times> string list) option" where
  "find_route [] segments = None"
| "find_route (r # rs) segments =
     (case match_pattern (ro_pattern r) segments of Some vs \<Rightarrow> Some (r, vs) | None \<Rightarrow> find_route rs segments)"

text \<open>\<open>str::parse::<u64>\<close>.\<close>

definition parse_u64 :: "string \<Rightarrow> u64 option" where
  "parse_u64 s =
     (let s' = (if 1 < length s \<and> hd s = CHR ''+'' then tl s else s)
      in if s' = [] then None else map_option of_nat (parse_decimal (2 ^ 64) 0 s'))"

definition method_endpoint :: "string \<Rightarrow> Route \<Rightarrow> Endpoint option" where
  "method_endpoint m r =
     (case map_of (ro_methods r) m of
        Some e \<Rightarrow> Some e
      | None \<Rightarrow> if m = ''HEAD'' then map_of (ro_methods r) ''GET'' else None)"
section \<open>Requests\<close>

record Incoming = HttpRequest +
  in_query :: "string option"
  in_body :: string

datatype Body =
    No_Body
  | Text_Body string
  | Health_Body string
  | Html_Body string
  | Meta_Body string string u32
  | Me_Body MeResponse
  | Sign_In_Body answer
  | Page_Body api_reply
  | Ticket_Body RealtimeTicketResponse
  | Telemetry_Body TelemetryConfigResponse
  | Static_Body string

text \<open>What a request meets outside the sources: the token library and the provider, the database's answers, the clock and
  the random bytes, the extractors (\<open>None\<close> or a status when they reject), the handshake and what its connection goes on to
  do, and the static files.\<close>

record ('k, 'o) Surroundings =
  su_jwt :: "'k jwt"
  su_flow :: flow_env
  su_api :: "'o api_env"
  su_store :: "pg PageStore"
  su_now :: int
  su_to_rfc3339 :: "int \<Rightarrow> string"
  su_random :: "u8 list"
  su_empty_context :: 'o
  su_cookies :: "Headers \<Rightarrow> string \<Rightarrow> string option"
  su_decode :: "string \<Rightarrow> string option"
  su_callback_query :: "string option \<Rightarrow> CallbackQuery option"
  su_realtime_query :: "string option \<Rightarrow> string option option"
  su_json :: "Incoming \<Rightarrow> (nat \<times> string) + CreatePageRequest"
  su_handshake :: "Incoming \<Rightarrow> handshake"
  su_library_connection :: "string \<Rightarrow> 'o pg_state \<Rightarrow> 'o pg_state"
  su_page_connection :: "string \<Rightarrow> 'o pg_state \<Rightarrow> 'o pg_state"
  su_index :: "string option"
  su_serve_dir :: "HttpRequest \<Rightarrow> string HttpResponse"
  su_digest :: "string \<Rightarrow> string"
  su_origin :: "string \<Rightarrow> string option"

definition respond :: "nat \<Rightarrow> Headers \<Rightarrow> Body \<Rightarrow> Body HttpResponse" where
  "respond status headers body = \<lparr>hp_status = status, hp_headers = headers, hp_body = body\<rparr>"

definition sign_in_response :: "answer \<Rightarrow> Body HttpResponse" where
  "sign_in_response a =
     respond (an_status a) (case an_location a of Some target \<Rightarrow> [(''location'', target)] | None \<Rightarrow> []) (Sign_In_Body a)"

fun reply_response :: "api_reply \<Rightarrow> Body HttpResponse" where
  "reply_response (Reply_Created page) = respond 201 [] (Page_Body (Reply_Created page))"
| "reply_response Reply_NoContent = respond 204 [] No_Body"
| "reply_response (Reply_Image png) =
     respond 200 [(''content-type'', im_content_type png), (''cache-control'', im_cache_control png)] (Page_Body (Reply_Image png))"
| "reply_response reply = respond 200 [] (Page_Body reply)"

definition api_response :: "ApiError + api_reply \<Rightarrow> Body HttpResponse" where
  "api_response result =
     (case result of Inl e \<Rightarrow> respond (ae_status e) [] (Text_Body (ae_message e)) | Inr reply \<Rightarrow> reply_response reply)"

definition telemetry_response :: "telemetry_answer option \<Rightarrow> Body HttpResponse" where
  "telemetry_response a =
     (case a of
        None \<Rightarrow> respond 204 [] No_Body
      | Some t \<Rightarrow> respond 200 [(''cache-control'', ta_cache_control t), (''pragma'', ta_pragma t)] (Telemetry_Body (ta_body t)))"

fun upgrade_response :: "http_upgrade \<Rightarrow> Body HttpResponse" where
  "upgrade_response (Refused status message) = respond status [] (Text_Body message)"
| "upgrade_response Switching_Protocols = respond 101 [] No_Body"

definition rejected :: "Body HttpResponse" where
  "rejected = respond 400 [] (Text_Body ''invalid request'')"

definition health :: "Body HttpResponse" where "health = respond 200 [] (Health_Body ''ok'')"

definition meta_route :: "AppState \<Rightarrow> Body HttpResponse" where
  "meta_route state = respond 200 [] (Meta_Body ''v-note'' (as_app_version state) PROTOCOL_VERSION)"

definition upgrade_request_of :: "('k, 'o) Surroundings \<Rightarrow> Incoming \<Rightarrow> string option \<Rightarrow> 'o upgrade_request" where
  "upgrade_request_of su req ticket =
     \<lparr>ur_authorization = header_str (hr_headers req) ''authorization'', ur_ticket = ticket, ur_now = su_now su,
      ur_empty_context = su_empty_context su\<rparr>"

definition api_request_of :: "('k, 'o) Surroundings \<Rightarrow> Incoming \<Rightarrow> api_request" where
  "api_request_of su req =
     \<lparr>rq_authorization = header_str (hr_headers req) ''authorization'', rq_cookie = su_cookies su (hr_headers req)\<rparr>"

text \<open>The handlers that no layer guards. The upgrade's own checks are its handler's.\<close>

definition open_handler ::
  "('k, 'o) Surroundings \<Rightarrow> AppState \<Rightarrow> Incoming \<Rightarrow> string list \<Rightarrow> Endpoint \<Rightarrow> (pg, 'o, 'k) app \<Rightarrow>
   (Body HttpResponse \<times> (pg, 'o, 'k) app) option" where
  "open_handler su state req params endpoint app =
     (let jar = request_jar (su_cookies su (hr_headers req)); auth = as_auth state in
      case endpoint of
        Health \<Rightarrow> Some (health, app)
      | Meta \<Rightarrow> Some (meta_route state, app)
      | Assetlinks \<Rightarrow>
          (let (status, body) = assetlinks (as_assetlinks_json state)
           in Some (respond status (if status = 200 then [(''content-type'', ''application/json'')] else []) (Text_Body body), app))
      | Login \<Rightarrow> Some (sign_in_response (login (su_flow su) auth jar), app)
      | Callback \<Rightarrow>
          Some (case su_callback_query su (in_query req) of
             None \<Rightarrow> (rejected, app)
           | Some params \<Rightarrow>
               (let (a, exchanged, cache) = callback (su_jwt su) (su_flow su) auth jar params (app_cache app)
                in (sign_in_response a, app\<lparr>app_cache := cache\<rparr>)))
      | Logout \<Rightarrow> Some (sign_in_response (logout auth jar), app)
      | Mobile_Callback \<Rightarrow> Some (respond 200 [] (Html_Body (mobile_callback (in_query req))), app)
      | Library_Socket \<Rightarrow>
          Some (case su_realtime_query su (in_query req) of
             None \<Rightarrow> (rejected, app)
           | Some ticket \<Rightarrow>
               apfst upgrade_response
                 (realtime_socket (su_jwt su) auth (as_realtime_compression state) (upgrade_request_of su req ticket)
                   (su_handshake su req) (su_library_connection su) app))
      | Page_Socket \<Rightarrow>
          Some (case (su_decode su (params ! 0), su_realtime_query su (in_query req)) of
             (Some page_id, Some ticket) \<Rightarrow>
               apfst upgrade_response
                 (page_socket (su_jwt su) auth (as_realtime_compression state) (su_store su) (upgrade_request_of su req ticket)
                   (su_handshake su req) page_id (su_page_connection su) app)
           | _ \<Rightarrow> (rejected, app))
      | _ \<Rightarrow> None)"

text \<open>The handlers that take the caller's claims, which only the layer puts there.\<close>

definition api_call_of :: "('k, 'o) Surroundings \<Rightarrow> Incoming \<Rightarrow> string list \<Rightarrow> Endpoint \<Rightarrow> (Body HttpResponse + api_call) option" where
  "api_call_of su req params endpoint =
     (let page_id = (if params = [] then None else su_decode su (params ! 0)) in
      case endpoint of
        List_Pages \<Rightarrow> Some (Inr Call_List)
      | Create_Page \<Rightarrow>
          Some (case su_json su req of Inl (status, message) \<Rightarrow> Inl (respond status [] (Text_Body message))
                                     | Inr payload \<Rightarrow> Inr (Call_Create payload))
      | Get_Page \<Rightarrow> Some (case page_id of None \<Rightarrow> Inl rejected | Some p \<Rightarrow> Inr (Call_Get p))
      | Delete_Page \<Rightarrow> Some (case page_id of None \<Rightarrow> Inl rejected | Some p \<Rightarrow> Inr (Call_Delete p))
      | Get_Thumbnail \<Rightarrow>
          Some (case (page_id, Option.bind (su_decode su (params ! 1)) parse_u64) of
             (Some p, Some source_seq) \<Rightarrow> Inr (Call_Thumbnail p source_seq)
           | _ \<Rightarrow> Inl rejected)
      | _ \<Rightarrow> None)"

definition signed_in_handler ::
  "('k, 'o) Surroundings \<Rightarrow> AppState \<Rightarrow> Incoming \<Rightarrow> string list \<Rightarrow> Claims \<Rightarrow> string \<Rightarrow> Endpoint \<Rightarrow> (pg, 'o, 'k) app \<Rightarrow>
   Body HttpResponse \<times> (pg, 'o, 'k) app" where
  "signed_in_handler su state req params claims token endpoint app =
     (case endpoint of
        Me \<Rightarrow> (respond 200 [] (Me_Body (to_me_response claims)), app)
      | Realtime_Ticket \<Rightarrow>
          (let (response, sv) = realtime_ticket (su_now su) (su_to_rfc3339 su) (su_random su) claims (ap_span (su_api su)) (app_server app)
           in (respond 200 [] (Ticket_Body response), app\<lparr>app_server := sv\<rparr>))
      | Telemetry_Config \<Rightarrow> (telemetry_response (telemetry_config (as_telemetry_endpoint state) claims token), app)
      | _ \<Rightarrow>
          (case api_call_of su req params endpoint of
             Some (Inr c) \<Rightarrow>
               (let (result, sv) = api_handle (su_api su) (cl_sub claims) c (app_server app)
                in (api_response result, app\<lparr>app_server := sv\<rparr>))
           | Some (Inl rejection) \<Rightarrow> (rejection, app)
           | None \<Rightarrow> (respond 500 [] (Text_Body ''Missing request extension''), app)))"

text \<open>An endpoint reached with the claims the layer left, or without any: a handler that takes them then answers 500. A
  method the route has no handler for is 405.\<close>

definition run_endpoint ::
  "('k, 'o) Surroundings \<Rightarrow> AppState \<Rightarrow> Incoming \<Rightarrow> string list \<Rightarrow> (Claims \<times> string) option \<Rightarrow> Endpoint option \<Rightarrow>
   (pg, 'o, 'k) app \<Rightarrow> Body HttpResponse \<times> (pg, 'o, 'k) app" where
  "run_endpoint su state req params admitted endpoint app =
     (case endpoint of
        None \<Rightarrow> (respond 405 [] No_Body, app)
      | Some e \<Rightarrow>
     (case open_handler su state req params e app of
        Some answered \<Rightarrow> answered
      | None \<Rightarrow>
     (case admitted of
        None \<Rightarrow> (respond 500 [] (Text_Body ''Missing request extension''), app)
      | Some (claims, token) \<Rightarrow> signed_in_handler su state req params claims token e app)))"

definition run_route ::
  "('k, 'o) Surroundings \<Rightarrow> AppState \<Rightarrow> Incoming \<Rightarrow> Route \<Rightarrow> string list \<Rightarrow> (pg, 'o, 'k) app \<Rightarrow>
   Body HttpResponse \<times> (pg, 'o, 'k) app" where
  "run_route su state req r params app =
     (let endpoint = method_endpoint (hr_method req) r in
      if ro_protected r
      then (let (decision, metrics, cache) = auth_middleware (su_jwt su) (as_auth state) (api_request_of su req) (app_cache app);
                app1 = \<lparr>app_server = fold record_metric metrics (app_server app), app_cache = cache\<rparr>
            in case decision of
                 Rejected status message \<Rightarrow> (respond status [] (Text_Body message), app1)
               | Admitted claims token \<Rightarrow> run_endpoint su state req params (Some (claims, token)) endpoint app1)
      else run_endpoint su state req params None endpoint app)"

text \<open>The static files, for \<open>GET\<close> and \<open>HEAD\<close> only, each answer with the policy built at startup.\<close>

definition spa_service :: "('k, 'o) Surroundings \<Rightarrow> AppState \<Rightarrow> Incoming \<Rightarrow> Body HttpResponse" where
  "spa_service su state req =
     (let policy = spa_content_security_policy (su_digest su) (su_origin su) (su_index su) (as_telemetry_endpoint state);
          served = (if hr_method req \<in> {''GET'', ''HEAD''} then su_serve_dir su (HttpRequest.truncate req)
                    else \<lparr>hp_status = 405, hp_headers = [], hp_body = ''''\<rparr>)
      in respond (hp_status served) (insert_header ''content-security-policy'' policy (hp_headers served))
           (Static_Body (hp_body served)))"

definition router ::
  "('k, 'o) Surroundings \<Rightarrow> AppState \<Rightarrow> string option \<Rightarrow> Incoming \<Rightarrow> (pg, 'o, 'k) app \<Rightarrow> Body HttpResponse \<times> (pg, 'o, 'k) app" where
  "router su state static_dir req app =
     (let (response, app1) =
            (case Option.bind (path_segments (hr_path req)) (find_route routes) of
               Some (r, params) \<Rightarrow> run_route su state req r params app
             | None \<Rightarrow>
                 (case static_dir of
                    Some dir \<Rightarrow> (spa_service su state req, app)
                  | None \<Rightarrow> (respond 404 [] No_Body, app)))
      in (if hr_method req = ''HEAD'' then response\<lparr>hp_body := No_Body\<rparr> else response, app1))"

text \<open>With the observability layer outside it all.\<close>

definition serve_http ::
  "'c Tracing \<Rightarrow> u8 list \<Rightarrow> fp \<Rightarrow> ('k, 'o) Surroundings \<Rightarrow> AppState \<Rightarrow> string option \<Rightarrow> Incoming \<Rightarrow>
   Metrics \<times> (pg, 'o, 'k) app \<Rightarrow> (Body HttpResponse \<times> (Metrics \<times> (pg, 'o, 'k) app) \<times> 'c Watched) option" where
  "serve_http tr random elapsed su state static_dir req =
     request_observability_middleware tr random elapsed (\<lambda>request_id _. router su state static_dir req) (HttpRequest.truncate req)"
section \<open>The table\<close>

text \<open>Two patterns that one path could match: as long, and nowhere two different literals.\<close>

fun overlap :: "Segment list \<Rightarrow> Segment list \<Rightarrow> bool" where
  "overlap [] [] = True"
| "overlap (Lit a # ps) (Lit b # qs) \<longleftrightarrow> a = b \<and> overlap ps qs"
| "overlap (Lit a # ps) (Param # qs) = overlap ps qs"
| "overlap (Param # ps) (Lit b # qs) = overlap ps qs"
| "overlap (Param # ps) (Param # qs) = overlap ps qs"
| "overlap _ _ = False"

lemma match_cons:
  "match_pattern (p # ps) ss = Some vs \<longleftrightarrow>
     (\<exists>s rest vs'. ss = s # rest \<and> match_pattern ps rest = Some vs' \<and>
        (case p of Lit l \<Rightarrow> s = l \<and> vs = vs' | Param \<Rightarrow> s \<noteq> [] \<and> vs = s # vs'))"
  by (cases p; cases ss) auto

lemma match_nil: "match_pattern [] ss = Some vs \<longleftrightarrow> ss = [] \<and> vs = []"
  by (cases ss) auto

lemma match_overlap: "match_pattern p ss = Some vs \<Longrightarrow> match_pattern q ss = Some ws \<Longrightarrow> overlap p q"
  by (induction p q arbitrary: ss vs ws rule: overlap.induct) (auto simp: match_cons match_nil)

lemmas route_tables = routes_def public_api_def protected_api_def route_layer_def nest_def route_def

lemma routes_apart: "sorted_wrt (\<lambda>r q. \<not> overlap (ro_pattern r) (ro_pattern q)) routes"
  by (simp add: route_tables)

text \<open>No request could go to two routes, so the order they are added in does not matter.\<close>

lemma one_route:
  assumes "i < j" "j < length routes" "match_pattern (ro_pattern (routes ! i)) ss = Some vs"
  shows "match_pattern (ro_pattern (routes ! j)) ss = None"
  using sorted_wrt_nth_less [OF routes_apart assms(1,2)] match_overlap [OF assms(3)]
  by (cases "match_pattern (ro_pattern (routes ! j)) ss") auto

lemma find_route_Some: "find_route rs ss = Some (r, vs) \<Longrightarrow> r \<in> set rs \<and> match_pattern (ro_pattern r) ss = Some vs"
  by (induction rs) (auto split: option.splits)

text \<open>What the table guards: exactly the handlers that take the caller's claims.\<close>

definition takes_claims :: "Endpoint \<Rightarrow> bool" where
  "takes_claims e \<longleftrightarrow> e \<in> {Me, List_Pages, Create_Page, Get_Page, Delete_Page, Get_Thumbnail, Realtime_Ticket, Telemetry_Config}"

lemma guarded_routes: "\<forall>r \<in> set routes. \<forall>(m, e) \<in> set (ro_methods r). ro_protected r = takes_claims e"
  by (simp add: route_tables takes_claims_def)

lemma method_endpoint_guarded:
  assumes "r \<in> set routes" "method_endpoint m r = Some e"
  shows "ro_protected r = takes_claims e"
proof -
  have "\<exists>m. (m, e) \<in> set (ro_methods r)"
    using assms(2) by (auto simp: method_endpoint_def split: option.splits if_splits dest: map_of_SomeD)
  then show ?thesis using guarded_routes assms(1) by blast
qed

lemma open_handler_open: "open_handler su state req params e app = None \<longleftrightarrow> takes_claims e"
  by (cases e) (simp_all add: open_handler_def takes_claims_def Let_def split: prod.split)

section \<open>Requests without credentials\<close>

text \<open>Nothing the server keeps has changed but its key cache and its counts, and tickets may be gone.\<close>

definition untouched :: "('s, 'o, 'k) app \<Rightarrow> ('s, 'o, 'k) app \<Rightarrow> bool" where
  "untouched app app' \<longleftrightarrow>
     (let sv = app_server app; sv' = app_server app' in
      sv_store sv' = sv_store sv \<and> sv_frames sv' = sv_frames sv \<and> sv_jobs sv' = sv_jobs sv \<and>
      library_channels (sv_hub sv') = library_channels (sv_hub sv) \<and> page_channels (sv_hub sv') = page_channels (sv_hub sv) \<and>
      leases (sv_hub sv') = leases (sv_hub sv) \<and>
      (\<forall>t. tickets (sv_hub sv') t = None \<or> tickets (sv_hub sv') t = tickets (sv_hub sv) t))"

definition anonymous :: "('k, 'o) Surroundings \<Rightarrow> AppState \<Rightarrow> Incoming \<Rightarrow> (pg, 'o, 'k) app \<Rightarrow> bool" where
  "anonymous su state req app \<longleftrightarrow>
     (case auth_middleware (su_jwt su) (as_auth state) (api_request_of su req) (app_cache app) of
        (Rejected _ _, _) \<Rightarrow> True | (Admitted _ _, _) \<Rightarrow> False) \<and>
     (case su_realtime_query su (in_query req) of
        None \<Rightarrow> True
      | Some ticket \<Rightarrow> isl (fst (authenticate_realtime (su_jwt su) (as_auth state) (upgrade_request_of su req ticket) app)))"
lemma untouched_refl [simp]: "untouched app app" "untouched app (app\<lparr>app_cache := cache\<rparr>)"
  by (simp_all add: untouched_def)

lemma record_metrics: "fold record_metric ms sv = sv\<lparr>sv_metrics := sv_metrics sv @ ms\<rparr>"
  by (induction ms arbitrary: sv) (simp_all add: record_metric_def)

lemma untouched_recorded [simp]:
  "untouched app \<lparr>app_server = fold record_metric ms (app_server app), app_cache = cache\<rparr>"
  "untouched app (app1\<lparr>app_server := record_metric x (app_server app1)\<rparr>) = untouched app app1"
  by (simp_all add: untouched_def record_metrics Let_def) (simp add: record_metric_def)

lemma refused_realtime:
  assumes "authenticate_realtime jw config req app = (Inl status, app1)"
  shows "untouched app app1 \<and> status \<in> {401, 403}"
  using assms
  by (auto simp: authenticate_realtime_def untouched_def consume_ticket_def map_retain_def Let_def
      split: option.splits prod.splits sum.splits TokenValidationError.splits if_splits)

lemma rejected_status:
  "auth_middleware jw config req cache = (Rejected status message, ms, cache1) \<Longrightarrow> status \<in> {401, 403}"
  by (auto simp: auth_middleware_def split: option.splits prod.splits sum.splits TokenValidationError.splits)

text \<open>What an open handler does for a request without credentials.\<close>

lemma open_handler_anonymous:
  assumes "anonymous su state req app" and "open_handler su state req params e app = Some (response, app')"
  shows "untouched app app' \<and> (e \<in> {Library_Socket, Page_Socket} \<longrightarrow> hp_status response \<in> {400, 401, 403})"
proof (cases "e \<in> {Library_Socket, Page_Socket}")
  case True
  show ?thesis
  proof (cases "su_realtime_query su (in_query req)")
    case None
    then show ?thesis
      using True assms(2) by (auto simp: open_handler_def rejected_def respond_def Let_def split: option.splits)
  next
    case (Some ticket)
    obtain res app1 where auth: "authenticate_realtime (su_jwt su) (as_auth state) (upgrade_request_of su req ticket) app = (res, app1)"
      by fastforce
    with assms(1) Some obtain status where res: "res = Inl status" by (cases res) (auto simp: anonymous_def)
    note refused = refused_realtime [OF auth [unfolded res]]
    show ?thesis
      using True assms(2) Some auth res refused
      by (auto simp: open_handler_def realtime_socket_def page_socket_def rejected_def respond_def Let_def apfst_def
          split: option.splits)
  qed
next
  case False
  then show ?thesis
    using assms(2) by (cases e) (auto simp: open_handler_def Let_def split: option.splits prod.splits)
qed

lemma anonymous_route:
  assumes "anonymous su state req app" "r \<in> set routes" "run_route su state req r params app = (response, app')"
  shows "untouched app app' \<and> (ro_protected r \<longrightarrow> hp_status response \<in> {401, 403}) \<and>
     (method_endpoint (hr_method req) r \<in> {Some Library_Socket, Some Page_Socket} \<longrightarrow> hp_status response \<in> {400, 401, 403})"
proof (cases "ro_protected r")
  case True
  obtain decision ms cache where auth:
    "auth_middleware (su_jwt su) (as_auth state) (api_request_of su req) (app_cache app) = (decision, ms, cache)"
    by (metis prod_cases3)
  with assms(1) obtain status message where decision: "decision = Rejected status message"
    by (cases decision) (auto simp: anonymous_def)
  show ?thesis
    using True assms(3) auth decision rejected_status [OF auth [unfolded decision]]
      method_endpoint_guarded [OF assms(2), of "hr_method req"]
    by (auto simp: run_route_def respond_def takes_claims_def)
next
  case False
  show ?thesis
  proof (cases "method_endpoint (hr_method req) r")
    case None
    then show ?thesis using False assms(3) by (auto simp: run_route_def run_endpoint_def)
  next
    case (Some e)
    then have "\<not> takes_claims e" using method_endpoint_guarded [OF assms(2) Some] False by simp
    then obtain answered where "open_handler su state req params e app = Some answered"
      using open_handler_open [of su state req params e app] by auto
    then show ?thesis
      using open_handler_anonymous [OF assms(1), of params e response app'] False Some assms(3)
      by (auto simp: run_route_def run_endpoint_def)
  qed
qed

text \<open>C6. Nobody gets anything without signing in: whatever a request asks for, by whatever method and path, if its token
  is not accepted and its ticket is not redeemed then the server runs no statement, starts no job, sends no frame, publishes
  on no channel, takes no lease and issues no ticket; and where it goes to a route of the pages, of the tickets, of the
  telemetry or of the account it is answered 401 or 403, and 400, 401 or 403 where it goes to a socket.\<close>

theorem nothing_without_credentials:
  assumes "anonymous su state req app"
  shows "let (response, app') = router su state static_dir req app in
    untouched app app' \<and>
    (\<forall>segments r params. path_segments (hr_path req) = Some segments \<and> find_route routes segments = Some (r, params) \<longrightarrow>
       (ro_protected r \<longrightarrow> hp_status response \<in> {401, 403}) \<and>
       (method_endpoint (hr_method req) r \<in> {Some Library_Socket, Some Page_Socket} \<longrightarrow> hp_status response \<in> {400, 401, 403}))"
proof -
  have head: "hp_status (if c then x\<lparr>hp_body := No_Body\<rparr> else x) = hp_status x" for c and x :: "Body HttpResponse" by simp
  show ?thesis
  proof (cases "Option.bind (path_segments (hr_path req)) (find_route routes)")
    case None
    then show ?thesis by (cases static_dir) (auto simp: router_def Let_def)
  next
    case (Some found)
    obtain r params where found: "found = (r, params)" by (cases found)
    have r: "r \<in> set routes" using Some found by (auto simp: Option.bind_eq_Some_conv dest: find_route_Some)
    obtain response app' where ran: "run_route su state req r params app = (response, app')" by fastforce
    note anonymous_route [OF assms r ran]
    moreover have "router su state static_dir req app =
        (if hr_method req = ''HEAD'' then response\<lparr>hp_body := No_Body\<rparr> else response, app')"
      using Some found ran by (simp add: router_def)
    moreover obtain segments where "path_segments (hr_path req) = Some segments" "find_route routes segments = Some (r, params)"
      using Some found by (auto simp: Option.bind_eq_Some_conv)
    ultimately show ?thesis by (simp only: Let_def prod.case head) (metis Pair_inject option.inject)
  qed
qed
section \<open>What an answer can depend on\<close>

definition with_db :: "nat \<Rightarrow> db \<Rightarrow> (pg, 'o, 'k) app \<Rightarrow> (pg, 'o, 'k) app" where
  "with_db k d app = app\<lparr>app_server := (app_server app)\<lparr>sv_store := \<lparr>pg_db = d, pg_clock = k\<rparr>\<rparr>\<rparr>"

lemma with_db_fields [simp]:
  "app_cache (with_db k d app) = app_cache app" "sv_hub (app_server (with_db k d app)) = sv_hub (app_server app)"
  "sv_store (app_server (with_db k d app)) = \<lparr>pg_db = d, pg_clock = k\<rparr>"
  "app_server (with_db k d app) = (app_server app)\<lparr>sv_store := \<lparr>pg_db = d, pg_clock = k\<rparr>\<rparr>"
  "with_db k d app\<lparr>app_cache := cache\<rparr> = with_db k d (app\<lparr>app_cache := cache\<rparr>)"
  by (simp_all add: with_db_def)

text \<open>On whose behalf a request is made, when it is made on anybody's.\<close>

definition acts_for :: "('k, 'o) Surroundings \<Rightarrow> AppState \<Rightarrow> Incoming \<Rightarrow> (pg, 'o, 'k) app \<Rightarrow> string \<Rightarrow> bool" where
  "acts_for su state req app u \<longleftrightarrow>
     (case auth_middleware (su_jwt su) (as_auth state) (api_request_of su req) (app_cache app) of
        (Rejected _ _, _) \<Rightarrow> True | (Admitted claims _, _) \<Rightarrow> cl_sub claims = u) \<and>
     (case su_realtime_query su (in_query req) of
        None \<Rightarrow> True
      | Some ticket \<Rightarrow>
          (case fst (authenticate_realtime (su_jwt su) (as_auth state) (upgrade_request_of su req ticket) app) of
             Inl _ \<Rightarrow> True | Inr caller \<Rightarrow> rc_owner_id caller = u))"

definition opens_socket :: "Incoming \<Rightarrow> bool" where
  "opens_socket req \<longleftrightarrow>
     (case Option.bind (path_segments (hr_path req)) (find_route routes) of
        None \<Rightarrow> False
      | Some (r, params) \<Rightarrow> method_endpoint (hr_method req) r \<in> {Some Library_Socket, Some Page_Socket})"

lemma authenticate_with_db:
  "authenticate_realtime jw config req (with_db k d app) = apsnd (with_db k d) (authenticate_realtime jw config req app)"
  by (auto simp: authenticate_realtime_def with_db_def Let_def split: option.split prod.split sum.split TokenValidationError.split)

lemma spawn_answer: "fst (spawn_upgraded hs options channel handler sv) = fst (spawn_upgraded hs options channel handler sv')"
  by (simp add: spawn_upgraded_def Let_def split: sum.split)

lemma ownership_same: "same_for u d d' \<Longrightarrow> page_belongs_to_owner env d p u = page_belongs_to_owner env d' p u"
  by (simp add: page_belongs_to_owner_def find_owned same_for_def)

lemma page_socket_same:
  assumes "ops = PgPageStore env alone" "same_for u d d'"
    and "\<And>caller. fst (authenticate_realtime jw config req app) = Inr caller \<Longrightarrow> rc_owner_id caller = u"
  shows "fst (page_socket jw config compression ops req hs p handler (with_db k d app)) =
    fst (page_socket jw config compression ops req hs p handler (with_db k d' app))"
proof -
  obtain res app1 where auth: "authenticate_realtime jw config req app = (res, app1)" by fastforce
  show ?thesis
  proof (cases res)
    case (Inr caller)
    then have "rc_owner_id caller = u" using assms(3) auth by simp
    then show ?thesis
      using ownership_same [OF assms(2), of "env k" p]
        spawn_answer [of hs "realtime_ws_options compression" "''page''" "handler p"
          "(app_server app1)\<lparr>sv_store := \<lparr>pg_db = d, pg_clock = Suc k\<rparr>\<rparr>"
          "(app_server app1)\<lparr>sv_store := \<lparr>pg_db = d', pg_clock = Suc k\<rparr>\<rparr>"]
      by (auto simp: page_socket_def authenticate_with_db auth Inr assms(1) pg_store_calls call_store_def pg_read_def Let_def
          case_prod_beta split: sum.split bool.split)
  qed (simp add: page_socket_def authenticate_with_db auth)
qed

lemma realtime_socket_same:
  "fst (realtime_socket jw config compression req hs handler (with_db k d app)) =
   fst (realtime_socket jw config compression req hs handler (with_db k d' app))"
proof -
  obtain res app1 where auth: "authenticate_realtime jw config req app = (res, app1)" by fastforce
  show ?thesis
    using spawn_answer
    by (cases res) (auto simp: realtime_socket_def authenticate_with_db auth case_prod_beta Let_def)
qed

text \<open>The handlers outside the layer do not look at the tables, but for the ownership of a page.\<close>

lemma open_handler_same:
  assumes "su_store su = PgPageStore env alone" "same_for u d d'" "acts_for su state req app u"
  shows "map_option fst (open_handler su state req params e (with_db k d app)) =
      map_option fst (open_handler su state req params e (with_db k d' app))"
    and "e \<notin> {Library_Socket, Page_Socket} \<Longrightarrow> open_handler su state req params e (with_db k x app) = Some (response, app') \<Longrightarrow>
      pg_db (sv_store (app_server app')) = x"
proof -
  have caller: "rc_owner_id caller = u"
    if "su_realtime_query su (in_query req) = Some ticket"
      "fst (authenticate_realtime (su_jwt su) (as_auth state) (upgrade_request_of su req ticket) app) = Inr caller" for ticket caller
    using assms(3) that by (simp add: acts_for_def)
  have page: "fst (page_socket (su_jwt su) (as_auth state) compression (su_store su) (upgrade_request_of su req ticket) hs p h (with_db k d app)) =
      fst (page_socket (su_jwt su) (as_auth state) compression (su_store su) (upgrade_request_of su req ticket) hs p h (with_db k d' app))"
    if "su_realtime_query su (in_query req) = Some ticket" for ticket compression hs p h
    by (rule page_socket_same [OF assms(1,2) caller [OF that]])
  show "map_option fst (open_handler su state req params e (with_db k d app)) =
      map_option fst (open_handler su state req params e (with_db k d' app))"
    by (cases e) (auto simp: open_handler_def Let_def page split: option.split prod.split intro!: arg_cong [where f = upgrade_response]
        realtime_socket_same simp del: with_db_fields(4))
  show "pg_db (sv_store (app_server app')) = x"
    if "e \<notin> {Library_Socket, Page_Socket}" "open_handler su state req params e (with_db k x app) = Some (response, app')"
    using that by (cases e) (auto simp: open_handler_def Let_def split: option.splits prod.splits)
qed
definition db_after :: "Body HttpResponse \<times> (pg, 'o, 'k) app \<Rightarrow> db" where
  "db_after result = pg_db (sv_store (app_server (snd result)))"

lemma signed_in_same:
  fixes app :: "(pg, 'o, 'k) app" and k :: nat and e :: Endpoint and token :: string and params :: "string list"
    and req :: Incoming and state :: AppState
  assumes alone: "ap_others (su_api su) = alone" and inv: "db_inv d" "db_inv d'" and same: "same_for u d d'"
    and fresh: "page_row d (''page_'' @ ap_uuid (su_api su)) = None" "page_row d' (''page_'' @ ap_uuid (su_api su)) = None"
    and claims: "cl_sub claims = u"
  defines "on \<equiv> \<lambda>x. signed_in_handler su state req params claims token e (with_db k x app)"
  shows "fst (on d) = fst (on d') \<and> same_for u (db_after (on d)) (db_after (on d'))"
proof (cases "e \<in> {Me, Realtime_Ticket, Telemetry_Config}")
  case True
  then show ?thesis
    using same by (auto simp: on_def signed_in_handler_def realtime_ticket_def Let_def case_prod_beta db_after_def)
next
  case False
  then have run: "signed_in_handler su state req params claims token e app1 =
      (case api_call_of su req params e of
         Some (Inr c) \<Rightarrow> (api_response (fst (api_handle (su_api su) u c (app_server app1))),
                         app1\<lparr>app_server := snd (api_handle (su_api su) u c (app_server app1))\<rparr>)
       | Some (Inl rejection) \<Rightarrow> (rejection, app1)
       | None \<Rightarrow> (respond 500 [] (Text_Body ''Missing request extension''), app1))" for app1
    using claims by (cases e) (auto simp: signed_in_handler_def case_prod_beta Let_def split: option.split sum.split)
  show ?thesis
    using api_reveals_nothing [OF alone inv same fresh, where sv = "app_server app" and k = k] same
    by (auto simp: on_def run db_after_def split: option.split sum.split)
qed

lemma protected_same:
  fixes app :: "(pg, 'o, 'k) app" and su :: "('k, 'o) Surroundings" and k :: nat and params :: "string list"
  assumes r: "r \<in> set routes" "ro_protected r"
    and alone: "ap_others (su_api su) = alone" "su_store su = PgPageStore env alone"
    and inv: "db_inv d" "db_inv d'" and same: "same_for u d d'"
    and fresh: "page_row d (''page_'' @ ap_uuid (su_api su)) = None" "page_row d' (''page_'' @ ap_uuid (su_api su)) = None"
    and acts: "acts_for su state req app u"
  defines "run \<equiv> \<lambda>x. run_route su state req r params (with_db k x app)"
  shows "fst (run d) = fst (run d') \<and> same_for u (db_after (run d)) (db_after (run d'))"
proof -
  obtain decision ms cache where auth:
    "auth_middleware (su_jwt su) (as_auth state) (api_request_of su req) (app_cache app) = (decision, ms, cache)"
    by (metis prod_cases3)
  define app1 where "app1 = app\<lparr>app_server := fold record_metric ms (app_server app), app_cache := cache\<rparr>"
  have "(with_db k x app1) = \<lparr>app_server = fold record_metric ms (app_server (with_db k x app)), app_cache = cache\<rparr>" for x
    by (simp add: app1_def with_db_def record_metrics)
  then have run: "run x = (case decision of
       Rejected status message \<Rightarrow> (respond status [] (Text_Body message), with_db k x app1)
     | Admitted claims token \<Rightarrow>
         run_endpoint su state req params (Some (claims, token)) (method_endpoint (hr_method req) r) (with_db k x app1))" for x
    using r(2) auth by (cases decision) (simp_all add: run_def run_route_def Let_def del: with_db_fields(4))
  show ?thesis
  proof (cases decision)
    case (Admitted claims token)
    then have claims: "cl_sub claims = u" using acts auth by (simp add: acts_for_def)
    show ?thesis
    proof (cases "method_endpoint (hr_method req) r")
      case None
      then show ?thesis using same by (simp add: run Admitted run_endpoint_def db_after_def)
    next
      case (Some e)
      then have "takes_claims e" using method_endpoint_guarded [OF r(1) Some] r(2) by simp
      then have "open_handler su state req params e (with_db k x app1) = None" for x by (simp add: open_handler_open)
      then show ?thesis
        using signed_in_same [OF alone(1) inv same fresh claims, of state req params token e k app1]
        by (simp add: run Admitted Some run_endpoint_def del: with_db_fields(4))
    qed
  qed (use same in \<open>simp add: run db_after_def\<close>)
qed

lemma open_same:
  fixes app :: "(pg, 'o, 'k) app" and su :: "('k, 'o) Surroundings" and k :: nat and params :: "string list"
  assumes r: "r \<in> set routes" "\<not> ro_protected r" and store: "su_store su = PgPageStore env alone"
    and same: "same_for u d d'" and acts: "acts_for su state req app u"
  defines "run \<equiv> \<lambda>x. run_route su state req r params (with_db k x app)"
  shows "fst (run d) = fst (run d') \<and>
    (method_endpoint (hr_method req) r \<in> {Some Library_Socket, Some Page_Socket} \<or> same_for u (db_after (run d)) (db_after (run d')))"
proof -
  have run: "run x = run_endpoint su state req params None (method_endpoint (hr_method req) r) (with_db k x app)" for x
    using r(2) by (simp add: run_def run_route_def)
  show ?thesis
  proof (cases "method_endpoint (hr_method req) r")
    case None
    then show ?thesis using same by (simp add: run run_endpoint_def db_after_def)
  next
    case (Some e)
    then have "\<not> takes_claims e" using method_endpoint_guarded [OF r(1) Some] r(2) by simp
    then obtain a a' where a: "open_handler su state req params e (with_db k d app) = Some a"
        "open_handler su state req params e (with_db k d' app) = Some a'"
      using open_handler_open [of su state req params e] by fastforce
    note handlers = open_handler_same [OF store same acts, where e = e and params = params and k = k]
    have "fst a = fst a'" using handlers(1) a by (simp del: with_db_fields(4))
    moreover have "e \<notin> {Library_Socket, Page_Socket} \<Longrightarrow> db_after a = d \<and> db_after a' = d'"
      using handlers(2) a by (metis db_after_def prod.collapse)
    ultimately show ?thesis
      using same by (auto simp: run Some run_endpoint_def a simp del: with_db_fields(4))
  qed
qed

text \<open>C5. Nobody learns anything of another owner's pages from the server: take any request, by any method to any path,
  made with no credentials or on behalf of one owner, and two databases that agree on that owner's pages; whatever else they
  hold, the server gives the same answer from both, status, headers and body, the upgrade of a socket included; and unless
  a socket opens they agree on the owner's pages again afterwards. The fresh random page id is assumed unused in both.\<close>

theorem http_reveals_nothing:
  fixes app :: "(pg, 'o, 'k) app" and su :: "('k, 'o) Surroundings" and k :: nat and static_dir :: "string option"
  assumes alone: "ap_others (su_api su) = alone" "su_store su = PgPageStore env alone"
    and inv: "db_inv d" "db_inv d'" and same: "same_for u d d'"
    and fresh: "page_row d (''page_'' @ ap_uuid (su_api su)) = None" "page_row d' (''page_'' @ ap_uuid (su_api su)) = None"
    and acts: "acts_for su state req app u"
  defines "on \<equiv> \<lambda>x. router su state static_dir req (with_db k x app)"
  shows "fst (on d) = fst (on d') \<and> (opens_socket req \<or> same_for u (db_after (on d)) (db_after (on d')))"
proof (cases "Option.bind (path_segments (hr_path req)) (find_route routes)")
  case None
  then show ?thesis
    using same by (cases static_dir) (simp_all add: on_def router_def db_after_def)
next
  case (Some found)
  obtain r params where found: "found = (r, params)" by (cases found)
  have r: "r \<in> set routes" using Some found by (auto simp: Option.bind_eq_Some_conv dest: find_route_Some)
  let ?run = "\<lambda>x. run_route su state req r params (with_db k x app)"
  have on: "on x = (if hr_method req = ''HEAD'' then fst (?run x)\<lparr>hp_body := No_Body\<rparr> else fst (?run x), snd (?run x))" for x
    using Some found by (simp add: on_def router_def case_prod_beta)
  have socket: "opens_socket req \<longleftrightarrow> method_endpoint (hr_method req) r \<in> {Some Library_Socket, Some Page_Socket}"
    using Some found by (simp add: opens_socket_def)
  have "fst (?run d) = fst (?run d') \<and> (opens_socket req \<or> same_for u (db_after (?run d)) (db_after (?run d')))"
    using protected_same [OF r _ alone inv same fresh acts, where params = params and k = k]
      open_same [OF r _ alone(2) same acts, where params = params and k = k] socket
    by (cases "ro_protected r") auto
  then show ?thesis by (simp add: on db_after_def)
qed
subsection \<open>Examples\<close>

definition example_surroundings :: "(unit, unit) Surroundings" where
  "example_surroundings = \<lparr>su_jwt = example_jwt\<lparr>jw_decode := (\<lambda>t k v. Some (example_claims\<lparr>cl_sub := ''v''\<rparr>))\<rparr>,
     su_flow = \<lparr>fe_parse_with_params = (\<lambda>url params. Some url), fe_nonce = ''n'', fe_verifier = ''w'',
       fe_code_challenge_s256 = (\<lambda>v. v), fe_post = (\<lambda>url fields. Fetch_Failed ''down'')\<rparr>,
     su_api = example_ap, su_store = PgPageStore (\<lambda>_. example_env) alone, su_now = 0, su_to_rfc3339 = (\<lambda>t. ''''),
     su_random = [], su_empty_context = (),
     su_cookies = (\<lambda>headers name. if name = ''auth'' then map_of headers ''cookie'' else None), su_decode = Some,
     su_callback_query = (\<lambda>query. None), su_realtime_query = (\<lambda>query. Some None),
     su_json = (\<lambda>req. Inl (400, '''')), su_handshake = (\<lambda>req. \<lparr>hs_upgrade = (\<lambda>options. Inr False), hs_upgraded = Inr ()\<rparr>),
     su_library_connection = (\<lambda>owner sv. sv), su_page_connection = (\<lambda>p sv. sv), su_index = None,
     su_serve_dir = (\<lambda>req. \<lparr>hp_status = 404, hp_headers = [], hp_body = ''''\<rparr>), su_digest = (\<lambda>s. s), su_origin = Some\<rparr>"

definition example_state :: AppState where
  "example_state = test_state ''1'' example_config"

definition example_app :: "(pg, unit, unit) app" where
  "example_app = \<lparr>app_server = example_server, app_cache = example_cache\<rparr>"

definition example_request :: "Headers \<Rightarrow> Incoming" where
  "example_request headers = \<lparr>hr_method = ''GET'', hr_path = ''/api/pages/p'', hr_headers = headers, in_query = None, in_body = ''''\<rparr>"

lemma example_routed:
  "Option.bind (path_segments (hr_path (example_request headers))) (find_route routes) =
     Some (route [Lit ''api'', Lit ''pages'', Param] [(''GET'', Get_Page), (''DELETE'', Delete_Page)]\<lparr>ro_protected := True\<rparr>, [''p''])"
  by (simp add: example_request_def path_segments_def route_tables)

theorem nothing_without_credentials_witness:
  "untouched example_app (snd (router example_surroundings example_state None (example_request []) example_app)) \<and>
   hp_status (fst (router example_surroundings example_state None (example_request []) example_app)) \<in> {401, 403}"
proof -
  have "anonymous example_surroundings example_state (example_request []) example_app"
    by (simp add: anonymous_def auth_middleware_def extract_bearer_def header_str_def api_request_of_def
        example_request_def example_surroundings_def authenticate_realtime_def upgrade_request_of_def AUTH_COOKIE_def)
  from nothing_without_credentials [OF this, of None] show ?thesis
    using example_routed [of "[]"] by (auto simp: Let_def case_prod_beta Option.bind_eq_Some_conv route_def)
qed

lemma emptied_db:
  "db_inv (example_db\<lparr>pages := []\<rparr>)" "same_for ''v'' example_db (example_db\<lparr>pages := []\<rparr>)"
  "page_row example_db (''page_'' @ ap_uuid example_ap) = None"
  "page_row (example_db\<lparr>pages := []\<rparr>) (''page_'' @ ap_uuid example_ap) = None"
     apply (simp add: db_inv_def view_ok.simps page_view_def page_row_def batches_of_def tombstones_of_def
      tombstone_batches_of_def thumbnails_of_def example_db_def)
    apply (simp add: same_for_def example_db_def example_row_def)
   apply (simp add: example_db_page example_ap_def)
  apply (simp add: page_row_def)
  done

theorem http_reveals_nothing_witness:
  "fst (router example_surroundings example_state None (example_request [(''cookie'', ''t'')]) (with_db 0 example_db example_app)) =
   fst (router example_surroundings example_state None (example_request [(''cookie'', ''t'')])
     (with_db 0 (example_db\<lparr>pages := []\<rparr>) example_app))"
proof -
  let ?su = example_surroundings and ?req = "example_request [(''cookie'', ''t'')]"
  have scope: "has_scope example_config (example_claims\<lparr>cl_sub := ''v''\<rparr>)"
    using example_scope by (simp add: has_scope_def)
  have "auth_middleware (su_jwt ?su) (as_auth example_state) (api_request_of ?su ?req) (app_cache example_app) =
      (Admitted (example_claims\<lparr>cl_sub := ''v''\<rparr>) ''t'', [], example_cache\<lparr>jc_keys := [''k'' \<mapsto> ()]\<rparr>)"
    using scope
    by (simp add: auth_middleware_def extract_bearer_def header_str_def api_request_of_def example_request_def
        example_surroundings_def AUTH_COOKIE_def example_state_def test_state_def example_app_def validate_jwt_def
        example_jwt_def jwks_get_def refresh_def allowed_algs_def example_cache_def)
  then have "acts_for ?su example_state ?req example_app ''v''"
    by (simp add: acts_for_def example_surroundings_def authenticate_realtime_def upgrade_request_of_def
        example_request_def extract_bearer_def header_str_def)
  from http_reveals_nothing [OF _ _ example_db_inv emptied_db(1,2) _ _ this, where env = "\<lambda>_. example_env" and k = 0 and static_dir = None] show ?thesis
    using emptied_db(3,4) by (simp add: example_surroundings_def example_ap_alone)
qed

end
