(* ===== verification/Canvas.thy ===== *)
theory Canvas
  imports Protocol
begin

text \<open>
  Painting a page in the browser (\<open>frontend/src/render.rs\<close>). The code's calls of the canvas are a list of
  commands; \<open>perform\<close> is what a 2D context does with each, after the HTML standard: a resize clears the
  bitmap and the context, a style that does not parse, a line width that is not positive and finite, and
  a path point that is not finite are ignored, and a path stays until the next \<open>beginPath\<close>.
\<close>

section \<open>The 2D context\<close>

datatype 'p Fill = Plain string | Pattern 'p

datatype 'p Command =
    Resize_Width nat
  | Resize_Height nat
  | Set_Ratio fp
  | Fill_Style "'p Fill"
  | Fill_Rect fp fp fp fp
  | Stroke_Style string
  | Line_Width fp
  | Line_Cap string
  | Line_Join string
  | Begin_Path
  | Move_To "fp \<times> fp"
  | Line_To "fp \<times> fp"
  | Stroke_Path

datatype 'p Painted =
    Filled fp "'p Fill" fp fp fp fp
  | Stroked fp string fp string string "(fp \<times> fp) list list"

record 'p Context =
  cx_width :: nat
  cx_height :: nat
  cx_ratio :: fp
  cx_fill :: "'p Fill"
  cx_stroke :: string
  cx_line_width :: fp
  cx_cap :: string
  cx_join :: string
  cx_path :: "(fp \<times> fp) list list"
  cx_painted :: "'p Painted list"

definition fresh_context :: "nat \<Rightarrow> nat \<Rightarrow> 'p Context" where
  "fresh_context width height =
     \<lparr>cx_width = width, cx_height = height, cx_ratio = Fin 1, cx_fill = Plain ''#000000'', cx_stroke = ''#000000'',
      cx_line_width = Fin 1, cx_cap = ''butt'', cx_join = ''miter'', cx_path = [], cx_painted = []\<rparr>"

definition finite_point :: "fp \<times> fp \<Rightarrow> bool" where
  "finite_point p \<longleftrightarrow> fp_finite (fst p) \<and> fp_finite (snd p)"

definition extend_path :: "fp \<times> fp \<Rightarrow> (fp \<times> fp) list list \<Rightarrow> (fp \<times> fp) list list" where
  "extend_path p path = (if path = [] then [[p]] else butlast path @ [last path @ [p]])"

fun perform :: "(string \<Rightarrow> bool) \<Rightarrow> 'p Command \<Rightarrow> 'p Context \<Rightarrow> 'p Context" where
  "perform parses (Resize_Width n) c = fresh_context n (cx_height c)"
| "perform parses (Resize_Height n) c = fresh_context (cx_width c) n"
| "perform parses (Set_Ratio r) c = c\<lparr>cx_ratio := r\<rparr>"
| "perform parses (Fill_Style (Plain color)) c = (if parses color then c\<lparr>cx_fill := Plain color\<rparr> else c)"
| "perform parses (Fill_Style (Pattern p)) c = c\<lparr>cx_fill := Pattern p\<rparr>"
| "perform parses (Fill_Rect x y w h) c = c\<lparr>cx_painted := cx_painted c @ [Filled (cx_ratio c) (cx_fill c) x y w h]\<rparr>"
| "perform parses (Stroke_Style color) c = (if parses color then c\<lparr>cx_stroke := color\<rparr> else c)"
| "perform parses (Line_Width w) c = (if fp_finite w \<and> fp_lt (Fin 0) w then c\<lparr>cx_line_width := w\<rparr> else c)"
| "perform parses (Line_Cap cap) c = c\<lparr>cx_cap := cap\<rparr>"
| "perform parses (Line_Join join_style) c = c\<lparr>cx_join := join_style\<rparr>"
| "perform parses Begin_Path c = c\<lparr>cx_path := []\<rparr>"
| "perform parses (Move_To p) c = (if finite_point p then c\<lparr>cx_path := cx_path c @ [[p]]\<rparr> else c)"
| "perform parses (Line_To p) c = (if finite_point p then c\<lparr>cx_path := extend_path p (cx_path c)\<rparr> else c)"
| "perform parses Stroke_Path c =
     c\<lparr>cx_painted := cx_painted c @
       [Stroked (cx_ratio c) (cx_stroke c) (cx_line_width c) (cx_cap c) (cx_join c) (cx_path c)]\<rparr>"

definition perform_all :: "(string \<Rightarrow> bool) \<Rightarrow> 'p Command list \<Rightarrow> 'p Context \<Rightarrow> 'p Context" where
  "perform_all parses commands c = fold (perform parses) commands c"

lemma perform_all_append [simp]:
  "perform_all parses (xs @ ys) c = perform_all parses ys (perform_all parses xs c)"
  by (simp add: perform_all_def)

lemma perform_all_simps [simp]:
  "perform_all parses [] c = c"
  "perform_all parses (x # xs) c = perform_all parses xs (perform parses x c)"
  by (simp_all add: perform_all_def)

section \<open>The viewport\<close>

definition world_viewport :: "fp \<Rightarrow> fp \<Rightarrow> fp \<Rightarrow> fp \<Rightarrow> fp \<Rightarrow> WorldViewport" where
  "world_viewport css_width css_height offset_x offset_y scale =
     viewport_new (fp_div f64 (fp_sub f64 (Fin 0) offset_x) scale)
       (fp_div f64 (fp_sub f64 (Fin 0) offset_y) scale)
       (fp_div f64 (fp_sub f64 css_width offset_x) scale)
       (fp_div f64 (fp_sub f64 css_height offset_y) scale) scale"

record Placement =
  pl_x :: fp
  pl_y :: fp
  pl_scale :: fp

definition css_x :: "Placement \<Rightarrow> fp \<Rightarrow> fp" where
  "css_x pl x = fp_add f64 (fp_mul f64 x (pl_scale pl)) (pl_x pl)"

definition css_y :: "Placement \<Rightarrow> fp \<Rightarrow> fp" where
  "css_y pl y = fp_add f64 (fp_mul f64 y (pl_scale pl)) (pl_y pl)"

section \<open>Paper\<close>

text \<open>The grain: the tile as an image, its pattern, which any step may fail to build, and the cache.\<close>

definition texture_rgba :: "u8 list" where
  "texture_rgba =
     (case PAPER_TEXTURE_COLOR_RGB of (red, green, blue) \<Rightarrow>
        concat (map (\<lambda>alpha. [red, green, blue, alpha]) paper_texture_tile))"

definition build_paper_texture_pattern :: "(nat \<Rightarrow> nat \<Rightarrow> u8 list \<Rightarrow> 'p option) \<Rightarrow> 'p option" where
  "build_paper_texture_pattern new_pattern = new_pattern PAPER_TEXTURE_TILE_SIZE PAPER_TEXTURE_TILE_SIZE texture_rgba"

definition draw_paper_texture ::
  "(nat \<Rightarrow> nat \<Rightarrow> u8 list \<Rightarrow> 'p option) \<Rightarrow> 'p option option \<Rightarrow> fp \<Rightarrow> fp \<Rightarrow> 'p Command list \<times> 'p option option" where
  "draw_paper_texture new_pattern cached css_width css_height =
     (let pattern = (case cached of None \<Rightarrow> build_paper_texture_pattern new_pattern | Some pattern \<Rightarrow> pattern)
      in ((case pattern of
             None \<Rightarrow> []
           | Some p \<Rightarrow> [Fill_Style (Pattern p), Fill_Rect (Fin 0) (Fin 0) css_width css_height]),
          Some pattern))"

definition same_style :: "(string \<times> fp) option \<Rightarrow> string \<times> fp \<Rightarrow> bool" where
  "same_style batch style = (case batch of None \<Rightarrow> False | Some (color, w) \<Rightarrow> color = fst style \<and> fp_eq w (snd style))"

definition mark_ends :: "Placement \<Rightarrow> WorldViewport \<Rightarrow> PaperMark \<Rightarrow> (fp \<times> fp) \<times> (fp \<times> fp)" where
  "mark_ends pl v mark =
     (if is_horizontal (mark_kind mark)
      then (let y = css_y pl (mark_position mark) in ((css_x pl (vp_min_x v), y), (css_x pl (vp_max_x v), y)))
      else (let x = css_x pl (mark_position mark) in ((x, css_y pl (vp_min_y v)), (x, css_y pl (vp_max_y v)))))"

definition end_batch :: "'b option \<Rightarrow> 'p Command list" where
  "end_batch batch = (case batch of None \<Rightarrow> [] | Some _ \<Rightarrow> [Stroke_Path])"

fun draw_marks :: "Placement \<Rightarrow> WorldViewport \<Rightarrow> (string \<times> fp) option \<Rightarrow> PaperMark list \<Rightarrow> 'p Command list" where
  "draw_marks pl v batch [] = end_batch batch"
| "draw_marks pl v batch (mark # marks) =
     (let style = (kind_color (mark_kind mark), mark_world_width mark);
          (begin_batch, batch) =
            (if \<not> same_style batch style
             then (end_batch batch @
                   [Begin_Path, Stroke_Style (fst style), Line_Width (paper_mark_device_width (snd style) (pl_scale pl))],
                   Some style)
             else ([], batch));
          (start_point, end_point) = mark_ends pl v mark
      in begin_batch @ [Move_To start_point, Line_To end_point] @ draw_marks pl v batch marks)"

definition draw_paper :: "Placement \<Rightarrow> WorldViewport \<Rightarrow> Paper \<Rightarrow> 'p Command list" where
  "draw_paper pl v paper =
     (if paper = Paper_None then [] else Line_Cap ''butt'' # draw_marks pl v None (visit_paper_marks paper v))"

section \<open>Strokes\<close>

definition MIN_RENDERED_STROKE_WIDTH :: fp where "MIN_RENDERED_STROKE_WIDTH = Fin (3 / 4)"
definition PRESSURE_WIDTH_STEP :: fp where "PRESSURE_WIDTH_STEP = Fin (1 / 8)"

record Pen =
  pen_color :: "string option"
  pen_last_width :: "fp option"

definition pen_default :: Pen where "pen_default = \<lparr>pen_color = None, pen_last_width = None\<rparr>"

definition set_color :: "string \<Rightarrow> Pen \<Rightarrow> 'p Command list \<times> Pen" where
  "set_color color pen =
     (if pen_color pen \<noteq> Some color then ([Stroke_Style color], pen\<lparr>pen_color := Some color\<rparr>) else ([], pen))"

definition same_width :: "fp option \<Rightarrow> fp \<Rightarrow> bool" where
  "same_width last_width w = (case last_width of None \<Rightarrow> False | Some v \<Rightarrow> fp_eq v w)"

definition set_width :: "fp \<Rightarrow> Pen \<Rightarrow> 'p Command list \<times> Pen" where
  "set_width w pen =
     (if \<not> same_width (pen_last_width pen) w then ([Line_Width w], pen\<lparr>pen_last_width := Some w\<rparr>) else ([], pen))"

fun bounds_from :: "fp \<times> fp \<times> fp \<times> fp \<Rightarrow> StrokePoint list \<Rightarrow> fp \<times> fp \<times> fp \<times> fp" where
  "bounds_from b [] = b"
| "bounds_from (min_x, min_y, max_x, max_y) (p # ps) =
     bounds_from (fp_min min_x (pt_x p), fp_min min_y (pt_y p), fp_max max_x (pt_x p), fp_max max_y (pt_y p)) ps"

definition stroke_pad :: "WorldViewport \<Rightarrow> Stroke \<Rightarrow> fp" where
  "stroke_pad v stroke =
     fp_add f64 (fp_div f64 (srp_width (sty_parameters (stroke_style stroke))) (Fin 2))
       (fp_div f64 MIN_RENDERED_STROKE_WIDTH (vp_scale v))"

definition stroke_may_be_visible :: "WorldViewport \<Rightarrow> Stroke \<Rightarrow> bool" where
  "stroke_may_be_visible v stroke =
     (case stroke_points stroke of
        [] \<Rightarrow> False
      | first # rest \<Rightarrow>
          (case bounds_from (pt_x first, pt_y first, pt_x first, pt_y first) rest of (min_x, min_y, max_x, max_y) \<Rightarrow>
             (let pad = stroke_pad v stroke
              in fp_le (vp_min_x v) (fp_add f64 max_x pad) \<and> fp_le (fp_sub f64 min_x pad) (vp_max_x v) \<and>
                 fp_le (vp_min_y v) (fp_add f64 max_y pad) \<and> fp_le (fp_sub f64 min_y pad) (vp_max_y v))))"

definition segment_width :: "fp \<Rightarrow> StrokeStyle \<Rightarrow> StrokePoint \<Rightarrow> StrokePoint \<Rightarrow> fp" where
  "segment_width scale style a b =
     (let w = fp_mul f64 (fp_div f64 (fp_add f64 (rendered_width style (pt_pressure a)) (rendered_width style (pt_pressure b)))
                (Fin 2)) scale;
          snapped = fp_mul f64 (fp_round (fp_div f64 w PRESSURE_WIDTH_STEP)) PRESSURE_WIDTH_STEP
      in fp_max snapped MIN_RENDERED_STROKE_WIDTH)"

definition pressure_segment_widths :: "Stroke \<Rightarrow> fp \<Rightarrow> fp list" where
  "pressure_segment_widths stroke scale =
     map (\<lambda>(a, b). segment_width scale (stroke_style stroke) a b) (zip (stroke_points stroke) (tl (stroke_points stroke)))"

definition css_point :: "Placement \<Rightarrow> StrokePoint \<Rightarrow> fp \<times> fp" where
  "css_point pl p = (css_x pl (pt_x p), css_y pl (pt_y p))"

fun draw_runs ::
  "Placement \<Rightarrow> fp option \<Rightarrow> ((StrokePoint \<times> StrokePoint) \<times> fp) list \<Rightarrow> Pen \<Rightarrow> 'p Command list \<times> Pen" where
  "draw_runs pl run_width [] pen = (end_batch run_width, pen)"
| "draw_runs pl run_width (((a, b), w) # segments) pen =
     (let (begin_run, run_width, pen) =
            (if \<not> same_width run_width w
             then (let (set_it, pen) = set_width w pen
                   in (end_batch run_width @ [Begin_Path] @ set_it @ [Move_To (css_point pl a)], Some w, pen))
             else ([], run_width, pen));
          (rest, pen) = draw_runs pl run_width segments pen
      in (begin_run @ [Line_To (css_point pl b)] @ rest, pen))"

definition draw_pressure_stroke :: "Placement \<Rightarrow> Stroke \<Rightarrow> Pen \<Rightarrow> 'p Command list \<times> Pen" where
  "draw_pressure_stroke pl stroke pen =
     draw_runs pl None
       (zip (zip (stroke_points stroke) (tl (stroke_points stroke))) (pressure_segment_widths stroke (pl_scale pl))) pen"

definition draw_stroke :: "Placement \<Rightarrow> Stroke \<Rightarrow> Pen \<Rightarrow> 'p Command list \<times> Pen" where
  "draw_stroke pl stroke pen =
     (let (set_it, pen) = set_color (srp_color (sty_parameters (stroke_style stroke))) pen;
          (runs, pen) = draw_pressure_stroke pl stroke pen
      in (set_it @ runs, pen))"

fun draw_strokes :: "Placement \<Rightarrow> Stroke list \<Rightarrow> Pen \<Rightarrow> 'p Command list" where
  "draw_strokes pl [] pen = []"
| "draw_strokes pl (stroke # strokes) pen =
     (let (commands, pen) = draw_stroke pl stroke pen in commands @ draw_strokes pl strokes pen)"

section \<open>A frame\<close>

record Surface =
  su_rect_width :: fp
  su_rect_height :: fp
  su_ratio :: "fp option"
  su_has_context :: bool

definition shown_strokes :: "WorldViewport \<Rightarrow> StrokeBatch list \<Rightarrow> Stroke list" where
  "shown_strokes v batches =
     filter (stroke_may_be_visible v)
       (filter (\<lambda>stroke. 2 \<le> length (stroke_points stroke)) (concat (map sb_strokes batches)))"

definition css_size :: "fp \<Rightarrow> fp" where "css_size length_css = fp_max length_css (Fin 1)"
definition device_ratio :: "Surface \<Rightarrow> fp" where
  "device_ratio su = fp_max (case su_ratio su of None \<Rightarrow> Fin 1 | Some r \<Rightarrow> r) (Fin 1)"

definition backing :: "Surface \<Rightarrow> fp \<Rightarrow> nat" where
  "backing su length_css = fp_as_nat (2 ^ 32 - 1) (fp_round (fp_mul f64 (css_size length_css) (device_ratio su)))"

definition draw_canvas ::
  "(nat \<Rightarrow> nat \<Rightarrow> u8 list \<Rightarrow> 'p option) \<Rightarrow> Surface \<Rightarrow> StrokeBatch list \<Rightarrow> Paper \<Rightarrow> Placement \<Rightarrow>
   'p option option \<Rightarrow> 'p Context \<Rightarrow> 'p Command list \<times> 'p option option" where
  "draw_canvas new_pattern su batches paper pl cached c =
     (let css_width = css_size (su_rect_width su);
          css_height = css_size (su_rect_height su);
          backing_width = backing su (su_rect_width su);
          backing_height = backing su (su_rect_height su);
          resize = (if cx_width c \<noteq> backing_width then [Resize_Width backing_width] else []) @
                   (if cx_height c \<noteq> backing_height then [Resize_Height backing_height] else [])
      in if \<not> su_has_context su then (resize, cached)
         else (let white = [Set_Ratio (device_ratio su), Fill_Style (Plain ''#ffffff''),
                            Fill_Rect (Fin 0) (Fin 0) css_width css_height];
                   (grain, cached) =
                     (if paper_has_texture paper then draw_paper_texture new_pattern cached css_width css_height else ([], cached));
                   viewport = world_viewport css_width css_height (pl_x pl) (pl_y pl) (pl_scale pl)
               in (resize @ white @ grain @ draw_paper pl viewport paper @ [Line_Cap ''round'', Line_Join ''round''] @
                   draw_strokes pl (shown_strokes viewport batches) pen_default, cached)))"
section \<open>What a context has painted\<close>

type_synonym Line = "fp \<times> string \<times> fp \<times> string \<times> (fp \<times> fp) \<times> (fp \<times> fp)"

definition segs :: "'a list \<Rightarrow> ('a \<times> 'a) list" where
  "segs pts = zip pts (tl pts)"

text \<open>The straight lines a painting is made of, each with transform, colour, width, cap and ends. A painting
  with round caps and joins covers what its lines stroked one by one cover; with other caps that holds where no
  two lines join.\<close>

fun lines_of :: "'p Painted \<Rightarrow> Line list" where
  "lines_of (Filled r f x y w h) = []"
| "lines_of (Stroked r color w cap join_style path) = map (\<lambda>(a, b). (r, color, w, cap, a, b)) (concat (map segs path))"

fun made_of_lines :: "'p Painted \<Rightarrow> bool" where
  "made_of_lines (Filled r f x y w h) = False"
| "made_of_lines (Stroked r color w cap join_style path) \<longleftrightarrow>
     cap = ''round'' \<and> join_style = ''round'' \<or> list_all (\<lambda>sub. length sub \<le> 2) path"

fun drawable :: "(string \<Rightarrow> bool) \<Rightarrow> Line \<Rightarrow> bool" where
  "drawable parses (r, color, w, cap, a, b) \<longleftrightarrow>
     parses color \<and> fp_finite w \<and> fp_lt (Fin 0) w \<and> finite_point a \<and> finite_point b"

definition painting :: "'p Context \<Rightarrow> 'p Painted" where
  "painting c = Stroked (cx_ratio c) (cx_stroke c) (cx_line_width c) (cx_cap c) (cx_join c) (cx_path c)"

definition paints :: "'p Context \<Rightarrow> 'p Context \<Rightarrow> Line list \<Rightarrow> bool" where
  "paints c c' ls \<longleftrightarrow> cx_ratio c' = cx_ratio c \<and> cx_cap c' = cx_cap c \<and> cx_join c' = cx_join c \<and>
     (\<exists>ps. cx_painted c' = cx_painted c @ ps \<and> concat (map lines_of ps) = ls \<and> list_all made_of_lines ps)"

lemma paints_trans: "paints c c1 ls \<Longrightarrow> paints c1 c2 ms \<Longrightarrow> paints c c2 (ls @ ms)"
  unfolding paints_def by (metis (no_types, opaque_lifting) append.assoc concat_append list_all_append map_append)

lemma paints_nothing:
  "cx_ratio c' = cx_ratio c \<Longrightarrow> cx_cap c' = cx_cap c \<Longrightarrow> cx_join c' = cx_join c \<Longrightarrow> cx_painted c' = cx_painted c \<Longrightarrow> paints c c' []"
  unfolding paints_def by (intro conjI exI [of _ "[]"]) simp_all

lemma paints_end_batch:
  assumes "batch \<noteq> None \<Longrightarrow> made_of_lines (painting c)"
  shows "paints c (perform_all parses (end_batch batch) c) (if batch = None then [] else lines_of (painting c))"
  using assms by (auto simp: end_batch_def painting_def paints_def split: option.split)

lemma perform_end_batch [simp]:
  "cx_stroke (perform_all parses (end_batch batch) c) = cx_stroke c"
  "cx_line_width (perform_all parses (end_batch batch) c) = cx_line_width c"
  by (simp_all add: end_batch_def split: option.split)

lemma fp_eq_iff: "fp_eq a b \<longleftrightarrow> a = b \<and> a \<noteq> NaN"
  by (cases a; cases b) auto

lemma segs_simps [simp]: "segs [] = []" "segs [p] = []" "segs (p # q # ps) = (p, q) # segs (q # ps)"
  by (simp_all add: segs_def)

lemma segs_snoc: "sub \<noteq> [] \<Longrightarrow> segs (sub @ [q]) = segs sub @ [(last sub, q)]"
  by (induction sub rule: induct_list012) auto

section \<open>Marks in batches\<close>

definition mark_line :: "fp \<Rightarrow> Placement \<Rightarrow> WorldViewport \<Rightarrow> PaperMark \<Rightarrow> Line" where
  "mark_line ratio pl v mark =
     (case mark_ends pl v mark of (a, b) \<Rightarrow>
        (ratio, kind_color (mark_kind mark), paper_mark_device_width (mark_world_width mark) (pl_scale pl), ''butt'', a, b))"

lemma mark_width_number: "mark_world_width mark \<noteq> NaN"
  by (cases "mark_kind mark") (simp_all add: mark_world_width_def MARGIN_LINE_WIDTH_def RULE_LINE_WIDTH_def)

lemma same_style_iff: "snd style \<noteq> NaN \<Longrightarrow> same_style batch style \<longleftrightarrow> batch = Some style"
  by (cases batch; cases style) (auto simp: same_style_def fp_eq_iff)

definition batch_open :: "Placement \<Rightarrow> (string \<times> fp) option \<Rightarrow> 'p Context \<Rightarrow> bool" where
  "batch_open pl batch c \<longleftrightarrow> (case batch of None \<Rightarrow> True | Some (color, w) \<Rightarrow>
     cx_stroke c = color \<and> cx_line_width c = paper_mark_device_width w (pl_scale pl) \<and>
     list_all (\<lambda>sub. length sub \<le> 2) (cx_path c))"

definition pending :: "'b option \<Rightarrow> 'p Context \<Rightarrow> Line list" where
  "pending batch c = (if batch = None then [] else lines_of (painting c))"

lemma draw_marks_paints:
  assumes "cx_cap c = ''butt''" "batch_open pl batch c" "\<forall>mark \<in> set marks. drawable parses (mark_line (cx_ratio c) pl v mark)"
  shows "paints c (perform_all parses (draw_marks pl v batch marks) c)
    (pending batch c @ map (mark_line (cx_ratio c) pl v) marks)"
  using assms
proof (induction marks arbitrary: batch c)
  case Nil
  then have "paints c (perform_all parses (end_batch batch) c) (if batch = None then [] else lines_of (painting c))"
    by (intro paints_end_batch) (auto simp: batch_open_def painting_def)
  then show ?case by (simp add: pending_def)
next
  case (Cons mark marks)
  let ?style = "(kind_color (mark_kind mark), mark_world_width mark)"
  obtain a b where ab: "mark_ends pl v mark = (a, b)" by (cases "mark_ends pl v mark")
  have drawn: "parses (fst ?style)" "finite_point a" "finite_point b"
    "fp_finite (paper_mark_device_width (snd ?style) (pl_scale pl))" "fp_lt (Fin 0) (paper_mark_device_width (snd ?style) (pl_scale pl))"
    using Cons.prems(3) by (simp_all add: mark_line_def ab)
  define begin_batch :: "'a Command list" where "begin_batch = (if same_style batch ?style then [] else end_batch batch @
    [Begin_Path, Stroke_Style (fst ?style), Line_Width (paper_mark_device_width (snd ?style) (pl_scale pl))])"
  let ?c1 = "perform_all parses begin_batch c"
  let ?c2 = "perform_all parses [Move_To a, Line_To b] ?c1"
  have step: "draw_marks pl v batch (mark # marks) =
    begin_batch @ [Move_To a, Line_To b] @ draw_marks pl v (Some ?style) marks"
    by (auto simp: begin_batch_def ab same_style_iff mark_width_number)
  have closed: "paints c ?c1 (if same_style batch ?style then [] else pending batch c)"
  proof (cases "same_style batch ?style")
    case False
    have "paints c (perform_all parses (end_batch batch) c) (pending batch c)"
      unfolding pending_def using Cons.prems(2) by (intro paints_end_batch) (auto simp: batch_open_def painting_def)
    from paints_trans [OF this paints_nothing] False drawn show ?thesis
      by (simp add: begin_batch_def)
  qed (simp add: begin_batch_def paints_nothing)
  have here: "cx_stroke ?c1 = fst ?style" "cx_line_width ?c1 = paper_mark_device_width (snd ?style) (pl_scale pl)"
    "list_all (\<lambda>sub. length sub \<le> 2) (cx_path ?c1)"
    "cx_ratio ?c1 = cx_ratio c" "cx_cap ?c1 = ''butt''"
    using Cons.prems drawn closed
    by (auto simp: begin_batch_def same_style_iff mark_width_number batch_open_def paints_def split: if_splits)
  have path: "cx_path ?c2 = cx_path ?c1 @ [[a, b]]"
    using drawn by (simp add: extend_path_def)
  have c2: "paints ?c1 ?c2 []" by (rule paints_nothing) (simp_all add: drawn)
  have pend: "pending (Some ?style) ?c2 = (if same_style batch ?style then pending batch c else []) @ [mark_line (cx_ratio c) pl v mark]"
    using here path drawn ab
    by (auto simp: pending_def painting_def mark_line_def begin_batch_def same_style_iff mark_width_number batch_open_def
        split: if_splits option.splits)
  have "paints ?c2 (perform_all parses (draw_marks pl v (Some ?style) marks) ?c2)
    (pending (Some ?style) ?c2 @ map (mark_line (cx_ratio ?c2) pl v) marks)"
    by (rule Cons.IH) (use Cons.prems(3) here path drawn in \<open>auto simp: batch_open_def\<close>)
  note all = paints_trans [OF closed paints_trans [OF c2 this]]
  have run: "perform_all parses (draw_marks pl v batch (mark # marks)) c = perform_all parses (draw_marks pl v (Some ?style) marks) ?c2"
    unfolding step by (simp only: perform_all_append)
  have ratio: "cx_ratio ?c2 = cx_ratio c" using here(4) drawn by simp
  show ?case
    using all unfolding run pend ratio by (simp split: if_splits)
qed
section \<open>Strokes in runs\<close>

definition segment_line :: "fp \<Rightarrow> Placement \<Rightarrow> Stroke \<Rightarrow> StrokePoint \<times> StrokePoint \<Rightarrow> Line" where
  "segment_line ratio pl stroke seg =
     (ratio, srp_color (sty_parameters (stroke_style stroke)),
      segment_width (pl_scale pl) (stroke_style stroke) (fst seg) (snd seg), ''round'',
      css_point pl (fst seg), css_point pl (snd seg))"

definition stroke_lines :: "fp \<Rightarrow> Placement \<Rightarrow> Stroke \<Rightarrow> Line list" where
  "stroke_lines ratio pl stroke = map (segment_line ratio pl stroke) (segs (stroke_points stroke))"

definition pen_agrees :: "Pen \<Rightarrow> 'p Context \<Rightarrow> bool" where
  "pen_agrees pen c \<longleftrightarrow> (\<forall>color. pen_color pen = Some color \<longrightarrow> cx_stroke c = color) \<and>
     (\<forall>w. pen_last_width pen = Some w \<longrightarrow> cx_line_width c = w)"

definition run_open :: "Placement \<Rightarrow> fp option \<Rightarrow> StrokePoint \<Rightarrow> 'p Context \<Rightarrow> bool" where
  "run_open pl run_width p c \<longleftrightarrow> (case run_width of None \<Rightarrow> True | Some w \<Rightarrow>
     cx_line_width c = w \<and> (\<exists>sub. cx_path c = [sub] \<and> sub \<noteq> [] \<and> last sub = css_point pl p))"

lemma same_width_iff: "w \<noteq> NaN \<Longrightarrow> same_width last_width w \<longleftrightarrow> last_width = Some w"
  by (cases last_width) (auto simp: same_width_def fp_eq_iff)

definition runs_painted ::
  "Placement \<Rightarrow> Stroke \<Rightarrow> fp option \<Rightarrow> (StrokePoint \<times> StrokePoint) list \<Rightarrow> 'p Context \<Rightarrow> Pen \<Rightarrow> 'p Context \<Rightarrow> bool" where
  "runs_painted pl stroke run_width segments c pen c' \<longleftrightarrow>
     paints c c' (pending run_width c @ map (segment_line (cx_ratio c) pl stroke) segments) \<and>
     pen_agrees pen c' \<and> cx_stroke c' = cx_stroke c"

lemma draw_runs_paint:
  fixes c :: "'p Context"
  assumes "cx_cap c = ''round''" "cx_join c = ''round''" "cx_stroke c = srp_color (sty_parameters (stroke_style stroke))"
    "pen_agrees pen c" "run_open pl run_width p c"
    "\<forall>seg \<in> set (segs (p # ps)). drawable parses (segment_line (cx_ratio c) pl stroke seg)"
    "draw_runs pl run_width
       (map (\<lambda>seg. (seg, segment_width (pl_scale pl) (stroke_style stroke) (fst seg) (snd seg))) (segs (p # ps))) pen = (commands, pen')"
  shows "runs_painted pl stroke run_width (segs (p # ps)) c pen' (perform_all parses commands c)"
  using assms
proof (induction ps arbitrary: p run_width pen c commands pen')
  case Nil
  have "paints c (perform_all parses (end_batch run_width) c) (pending run_width c)"
    unfolding pending_def using Nil.prems(1,2) by (intro paints_end_batch) (simp add: painting_def)
  then show ?case
    using Nil.prems by (auto simp: runs_painted_def pen_agrees_def)
next
  case (Cons q ps)
  let ?w = "segment_width (pl_scale pl) (stroke_style stroke) p q"
  have drawn: "fp_finite ?w" "fp_lt (Fin 0) ?w" "finite_point (css_point pl p)" "finite_point (css_point pl q)"
    using Cons.prems(6) by (simp_all add: segment_line_def)
  have number: "?w \<noteq> NaN" using drawn(1) by auto
  obtain set_it :: "'p Command list" and pen1 where set_it: "set_width ?w pen = (set_it, pen1)" by fastforce
  define begin_run where
    "begin_run = (if same_width run_width ?w then [] else end_batch run_width @ [Begin_Path] @ set_it @ [Move_To (css_point pl p)])"
  define pen2 where "pen2 = (if same_width run_width ?w then pen else pen1)"
  obtain rest where rest: "draw_runs pl (Some ?w)
       (map (\<lambda>seg. (seg, segment_width (pl_scale pl) (stroke_style stroke) (fst seg) (snd seg))) (segs (q # ps))) pen2 = (rest, pen')"
    and commands: "commands = begin_run @ [Line_To (css_point pl q)] @ rest"
    using Cons.prems(7) number
    by (auto simp: set_it begin_run_def pen2_def same_width_iff split: prod.splits if_splits)
  let ?c1 = "perform_all parses begin_run c"
  let ?c2 = "perform_all parses [Line_To (css_point pl q)] ?c1"
  have closed: "paints c ?c1 (if same_width run_width ?w then [] else pending run_width c)"
  proof (cases "same_width run_width ?w")
    case False
    have "paints c (perform_all parses (end_batch run_width) c) (pending run_width c)"
      unfolding pending_def using Cons.prems(1,2) by (intro paints_end_batch) (simp add: painting_def)
    from paints_trans [OF this paints_nothing] False set_it drawn show ?thesis
      by (auto simp: begin_run_def set_width_def split: if_splits)
  qed (simp add: begin_run_def paints_nothing)
  have here: "cx_line_width ?c1 = ?w" "cx_stroke ?c1 = cx_stroke c" "pen_agrees pen2 ?c1"
    "\<exists>sub. cx_path ?c1 = [sub] \<and> sub \<noteq> [] \<and> last sub = css_point pl p \<and>
       map (\<lambda>(a, b). (cx_ratio c, cx_stroke c, ?w, ''round'', a, b)) (segs sub) = (if same_width run_width ?w then pending run_width c else [])"
    using Cons.prems(1-5) drawn set_it number
    by (auto simp: begin_run_def pen2_def set_width_def same_width_iff run_open_def pen_agrees_def pending_def painting_def
        split: if_splits option.splits)
  have kept: "cx_ratio ?c1 = cx_ratio c" "cx_cap ?c1 = ''round''" "cx_join ?c1 = ''round''"
    using closed Cons.prems(1,2) by (simp_all add: paints_def)
  obtain sub where sub: "cx_path ?c1 = [sub]" "sub \<noteq> []" "last sub = css_point pl p"
    "map (\<lambda>(a, b). (cx_ratio c, cx_stroke c, ?w, ''round'', a, b)) (segs sub) = (if same_width run_width ?w then pending run_width c else [])"
    using here(4) by blast
  have c2: "paints ?c1 ?c2 []" by (rule paints_nothing) (simp_all add: drawn)
  have pend: "pending (Some ?w) ?c2 = (if same_width run_width ?w then pending run_width c else []) @
    [segment_line (cx_ratio c) pl stroke (p, q)]"
    using here(1,2) kept sub drawn Cons.prems(3)
    by (simp add: pending_def painting_def extend_path_def segs_snoc segment_line_def)
  have ratio: "cx_ratio ?c2 = cx_ratio c" using kept by (simp add: drawn)
  have "runs_painted pl stroke (Some ?w) (segs (q # ps)) ?c2 pen' (perform_all parses rest ?c2)"
    by (rule Cons.IH [OF _ _ _ _ _ _ rest])
      (use Cons.prems(3,6) here kept sub drawn in \<open>auto simp: pen_agrees_def run_open_def extend_path_def\<close>)
  then have tail: "paints ?c2 (perform_all parses rest ?c2) (pending (Some ?w) ?c2 @ map (segment_line (cx_ratio c) pl stroke) (segs (q # ps)))"
    "pen_agrees pen' (perform_all parses rest ?c2)" "cx_stroke (perform_all parses rest ?c2) = cx_stroke c"
    unfolding runs_painted_def ratio using here(2) by (simp_all add: drawn)
  have run: "perform_all parses commands c = perform_all parses rest ?c2"
    unfolding commands by (simp only: perform_all_append)
  show ?case
    using paints_trans [OF closed paints_trans [OF c2 tail(1)]] tail(2,3)
    unfolding runs_painted_def run pend by (simp split: if_splits)
qed
lemma zip_map_id: "zip xs (map f xs) = map (\<lambda>x. (x, f x)) xs"
  by (induction xs) auto

lemma draw_stroke_paints:
  fixes c :: "'p Context"
  assumes cap: "cx_cap c = ''round''" "cx_join c = ''round''" and pen: "pen_agrees pen c" and long: "2 \<le> length (stroke_points stroke)"
    and drawn: "\<forall>l \<in> set (stroke_lines (cx_ratio c) pl stroke). drawable parses l"
    and draw: "draw_stroke pl stroke pen = (commands, pen')"
  shows "paints c (perform_all parses commands c) (stroke_lines (cx_ratio c) pl stroke) \<and>
    pen_agrees pen' (perform_all parses commands c)"
proof -
  let ?color = "srp_color (sty_parameters (stroke_style stroke))"
  obtain p q ps where pts: "stroke_points stroke = p # q # ps"
    using long by (cases "stroke_points stroke"; cases "tl (stroke_points stroke)") auto
  obtain set_it :: "'p Command list" and pen1 where set_it: "set_color ?color pen = (set_it, pen1)" by fastforce
  obtain runs where runs: "draw_pressure_stroke pl stroke pen1 = (runs, pen')" and commands: "commands = set_it @ runs"
    using draw by (auto simp: draw_stroke_def set_it split: prod.splits)
  let ?c1 = "perform_all parses set_it c"
  have parses: "parses ?color"
    using drawn by (simp add: stroke_lines_def segment_line_def pts)
  have here: "paints c ?c1 []" "cx_stroke ?c1 = ?color" "pen_agrees pen1 ?c1" "cx_ratio ?c1 = cx_ratio c"
    "cx_cap ?c1 = ''round''" "cx_join ?c1 = ''round''"
    using set_it parses pen cap by (auto simp: set_color_def pen_agrees_def intro: paints_nothing split: if_splits)
  have "runs_painted pl stroke None (segs (p # q # ps)) ?c1 pen' (perform_all parses runs ?c1)"
  proof (rule draw_runs_paint [OF here(5,6,2,3)])
    show "run_open pl None p ?c1" by (simp add: run_open_def)
    show "\<forall>seg \<in> set (segs (p # q # ps)). drawable parses (segment_line (cx_ratio ?c1) pl stroke seg)"
      using drawn here(4) by (simp add: stroke_lines_def pts)
    show "draw_runs pl None (map (\<lambda>seg. (seg, segment_width (pl_scale pl) (stroke_style stroke) (fst seg) (snd seg)))
        (segs (p # q # ps))) pen1 = (runs, pen')"
      using runs unfolding draw_pressure_stroke_def pressure_segment_widths_def zip_map_id pts segs_def
      by (simp add: case_prod_unfold)
  qed
  then have "paints ?c1 (perform_all parses runs ?c1) (stroke_lines (cx_ratio c) pl stroke)" "pen_agrees pen' (perform_all parses runs ?c1)"
    unfolding runs_painted_def by (simp_all add: pending_def here(4) stroke_lines_def pts)
  with paints_trans [OF here(1)] show ?thesis
    unfolding commands perform_all_append by fastforce
qed

lemma draw_strokes_paint:
  fixes c :: "'p Context"
  assumes "cx_cap c = ''round''" "cx_join c = ''round''" "pen_agrees pen c"
    "\<forall>stroke \<in> set strokes. 2 \<le> length (stroke_points stroke)"
    "\<forall>stroke \<in> set strokes. \<forall>l \<in> set (stroke_lines (cx_ratio c) pl stroke). drawable parses l"
  shows "paints c (perform_all parses (draw_strokes pl strokes pen) c) (concat (map (stroke_lines (cx_ratio c) pl) strokes))"
  using assms
proof (induction strokes arbitrary: pen c)
  case (Cons stroke strokes)
  obtain commands :: "'p Command list" and pen' where draw: "draw_stroke pl stroke pen = (commands, pen')" by fastforce
  let ?c1 = "perform_all parses commands c"
  have first: "paints c ?c1 (stroke_lines (cx_ratio c) pl stroke)" "pen_agrees pen' ?c1"
    using draw_stroke_paints [OF Cons.prems(1-3) _ _ draw] Cons.prems(4,5) by simp_all
  then have kept: "cx_ratio ?c1 = cx_ratio c" "cx_cap ?c1 = ''round''" "cx_join ?c1 = ''round''"
    using Cons.prems(1,2) by (simp_all add: paints_def)
  have "paints ?c1 (perform_all parses (draw_strokes pl strokes pen') ?c1) (concat (map (stroke_lines (cx_ratio ?c1) pl) strokes))"
    by (rule Cons.IH [OF kept(2,3) first(2)]) (use Cons.prems(4,5) kept(1) in auto)
  from paints_trans [OF first(1) this] show ?case by (simp add: draw kept(1))
qed (simp add: paints_nothing)

section \<open>A whole frame\<close>

definition frame_lines :: "Surface \<Rightarrow> StrokeBatch list \<Rightarrow> Paper \<Rightarrow> Placement \<Rightarrow> Line list" where
  "frame_lines su batches paper pl =
     (let v = world_viewport (css_size (su_rect_width su)) (css_size (su_rect_height su)) (pl_x pl) (pl_y pl) (pl_scale pl)
      in map (mark_line (device_ratio su) pl v) (visit_paper_marks paper v) @
         concat (map (stroke_lines (device_ratio su) pl) (shown_strokes v batches)))"

definition frame_fills :: "(nat \<Rightarrow> nat \<Rightarrow> u8 list \<Rightarrow> 'p option) \<Rightarrow> Surface \<Rightarrow> Paper \<Rightarrow> 'p option option \<Rightarrow> 'p Painted list" where
  "frame_fills new_pattern su paper cached =
     (let fill = (\<lambda>f. Filled (device_ratio su) f (Fin 0) (Fin 0) (css_size (su_rect_width su)) (css_size (su_rect_height su)))
      in fill (Plain ''#ffffff'') #
         (case (if paper_has_texture paper then case_option (build_paper_texture_pattern new_pattern) id cached else None) of
            None \<Rightarrow> [] | Some p \<Rightarrow> [fill (Pattern p)]))"

lemma resize_performed:
  "cx_width (perform_all parses ((if cx_width c \<noteq> m then [Resize_Width m] else []) @ (if cx_height c \<noteq> n then [Resize_Height n] else [])) c) = m"
  "cx_height (perform_all parses ((if cx_width c \<noteq> m then [Resize_Width m] else []) @ (if cx_height c \<noteq> n then [Resize_Height n] else [])) c) = n"
  by (simp_all add: fresh_context_def)

fun resizes :: "'p Command \<Rightarrow> bool" where
  "resizes (Resize_Width n) = True"
| "resizes (Resize_Height n) = True"
| "resizes _ = False"

lemma perform_size:
  "\<not> resizes command \<Longrightarrow> cx_width (perform parses command c) = cx_width c \<and> cx_height (perform parses command c) = cx_height c"
  by (cases "(parses, command, c)" rule: perform.cases) auto

lemma perform_all_size:
  "list_all (\<lambda>command. \<not> resizes command) commands \<Longrightarrow>
     cx_width (perform_all parses commands c) = cx_width c \<and> cx_height (perform_all parses commands c) = cx_height c"
  by (induction commands arbitrary: c) (simp_all add: perform_size)

lemma end_batch_size: "list_all (\<lambda>command. \<not> resizes command) (end_batch batch)"
  by (simp add: end_batch_def split: option.split)

lemma draw_marks_size: "list_all (\<lambda>command. \<not> resizes command) (draw_marks pl v batch marks)"
  by (induction marks arbitrary: batch) (simp_all add: end_batch_size Let_def split: prod.split)

lemma draw_runs_size:
  "draw_runs pl run_width segments pen = (commands, pen') \<Longrightarrow> list_all (\<lambda>command. \<not> resizes command) commands"
  by (induction segments arbitrary: run_width pen commands pen')
    (auto simp: end_batch_size set_width_def split: prod.splits if_splits)

lemma draw_strokes_size: "list_all (\<lambda>command. \<not> resizes command) (draw_strokes pl strokes pen)"
  by (induction strokes arbitrary: pen)
    (auto simp: draw_stroke_def draw_pressure_stroke_def set_color_def dest: draw_runs_size split: prod.splits if_splits)

lemma draw_paper_paints:
  assumes "\<forall>mark \<in> set (visit_paper_marks paper v). drawable parses (mark_line (cx_ratio c) pl v mark)"
  shows "\<exists>ps. cx_painted (perform_all parses (draw_paper pl v paper) c) = cx_painted c @ ps \<and>
      concat (map lines_of ps) = map (mark_line (cx_ratio c) pl v) (visit_paper_marks paper v) \<and> list_all made_of_lines ps"
    and "cx_ratio (perform_all parses (draw_paper pl v paper) c) = cx_ratio c"
proof -
  let ?c1 = "c\<lparr>cx_cap := ''butt''\<rparr>"
  have "paints ?c1 (perform_all parses (draw_marks pl v None (visit_paper_marks paper v)) ?c1)
      (map (mark_line (cx_ratio c) pl v) (visit_paper_marks paper v))"
    using draw_marks_paints [of ?c1 pl None "visit_paper_marks paper v" parses v] assms
    by (simp add: batch_open_def pending_def)
  then show "\<exists>ps. cx_painted (perform_all parses (draw_paper pl v paper) c) = cx_painted c @ ps \<and>
      concat (map lines_of ps) = map (mark_line (cx_ratio c) pl v) (visit_paper_marks paper v) \<and> list_all made_of_lines ps"
    "cx_ratio (perform_all parses (draw_paper pl v paper) c) = cx_ratio c"
    by (auto simp: paints_def draw_paper_def visit_paper_marks_def)
qed

text \<open>A frame shows the page, whatever was drawn before. On a context in any state, and whatever the caches of the
  last frames hold, one frame leaves the canvas at its backing size and paints, last of all: the white page, the
  grain of its paper, then one line for every mark of the paper and for every segment of every stroke that may
  be visible - in order, each in its own colour and width and under the device's transform. Marks that share a
  style and segments that share a width are stroked together, and no style in force is set again, without a
  difference to what is covered. The lines must be drawable: colours that parse, finite ends and widths.
\<close>

lemma frame_paints_page:
  assumes "su_has_context su" "parses ''#ffffff''" "\<forall>l \<in> set (frame_lines su batches paper pl). drawable parses l"
  shows "let c' = perform_all parses (fst (draw_canvas new_pattern su batches paper pl cached c)) c in
    cx_width c' = backing su (su_rect_width su) \<and> cx_height c' = backing su (su_rect_height su) \<and>
    (\<exists>earlier lines. cx_painted c' = earlier @ frame_fills new_pattern su paper cached @ lines \<and>
       concat (map lines_of lines) = frame_lines su batches paper pl \<and> list_all made_of_lines lines)"
proof -
  let ?w = "css_size (su_rect_width su)" and ?h = "css_size (su_rect_height su)" and ?r = "device_ratio su"
  let ?v = "world_viewport ?w ?h (pl_x pl) (pl_y pl) (pl_scale pl)"
  define resize where "resize = (if cx_width c \<noteq> backing su (su_rect_width su) then [Resize_Width (backing su (su_rect_width su))] else []) @
    (if cx_height c \<noteq> backing su (su_rect_height su) then [Resize_Height (backing su (su_rect_height su)) :: 'a Command] else [])"
  define base where "base = [Set_Ratio ?r, Fill_Style (Plain ''#ffffff''), Fill_Rect (Fin 0) (Fin 0) ?w ?h] @
    (if paper_has_texture paper then fst (draw_paper_texture new_pattern cached ?w ?h) else [])"
  let ?caps = "[Line_Cap ''round'', Line_Join ''round'']"
  let ?strokes = "draw_strokes pl (shown_strokes ?v batches) pen_default"
  have frame: "fst (draw_canvas new_pattern su batches paper pl cached c) =
      resize @ base @ draw_paper pl ?v paper @ ?caps @ ?strokes"
    using assms(1) by (simp add: draw_canvas_def resize_def base_def Let_def split: prod.split)
  let ?c1 = "perform_all parses resize c"
  let ?c2 = "perform_all parses base ?c1"
  let ?c3 = "perform_all parses (draw_paper pl ?v paper) ?c2"
  let ?c4 = "perform_all parses ?caps ?c3"
  let ?c5 = "perform_all parses ?strokes ?c4"
  have run: "perform_all parses (fst (draw_canvas new_pattern su batches paper pl cached c)) c = ?c5"
    unfolding frame perform_all_append ..
  have c2: "cx_painted ?c2 = cx_painted ?c1 @ frame_fills new_pattern su paper cached" "cx_ratio ?c2 = ?r"
    using assms(2)
    by (auto simp: base_def frame_fills_def draw_paper_texture_def Let_def split: option.split)
  have lines: "\<forall>mark \<in> set (visit_paper_marks paper ?v). drawable parses (mark_line ?r pl ?v mark)"
    "\<forall>stroke \<in> set (shown_strokes ?v batches). \<forall>l \<in> set (stroke_lines ?r pl stroke). drawable parses l"
    using assms(3) by (auto simp: frame_lines_def Let_def)
  obtain ps where ps: "cx_painted ?c3 = cx_painted ?c2 @ ps" "list_all made_of_lines ps"
      "concat (map lines_of ps) = map (mark_line ?r pl ?v) (visit_paper_marks paper ?v)" and c3: "cx_ratio ?c3 = ?r"
    using draw_paper_paints [of paper ?v parses ?c2 pl] lines(1) c2(2) by auto
  have "paints ?c4 ?c5 (concat (map (stroke_lines (cx_ratio ?c4) pl) (shown_strokes ?v batches)))"
    by (rule draw_strokes_paint) (use lines(2) c3 in \<open>auto simp: pen_agrees_def pen_default_def shown_strokes_def\<close>)
  then obtain qs where qs: "cx_painted ?c5 = cx_painted ?c3 @ qs" "list_all made_of_lines qs"
      "concat (map lines_of qs) = concat (map (stroke_lines ?r pl) (shown_strokes ?v batches))"
    using c3 by (auto simp: paints_def)
  have "list_all (\<lambda>command. \<not> resizes command) (base @ draw_paper pl ?v paper @ ?caps @ ?strokes)"
    by (simp add: base_def draw_paper_texture_def draw_paper_def draw_marks_size draw_strokes_size Let_def split: option.split)
  from perform_all_size [OF this, of parses ?c1] resize_performed [of parses c "backing su (su_rect_width su)" "backing su (su_rect_height su)"]
  have size: "cx_width ?c5 = backing su (su_rect_width su)" "cx_height ?c5 = backing su (su_rect_height su)"
    unfolding perform_all_append [symmetric] resize_def by (simp_all only: append_assoc)
  have "cx_painted ?c5 = cx_painted ?c1 @ frame_fills new_pattern su paper cached @ (ps @ qs)"
    using qs(1) ps(1) c2(1) by simp
  moreover have "concat (map lines_of (ps @ qs)) = frame_lines su batches paper pl" "list_all made_of_lines (ps @ qs)"
    using ps qs by (simp_all add: frame_lines_def Let_def)
  ultimately show ?thesis unfolding run Let_def using size by blast
qed
section \<open>Culling\<close>

lemma bounds_from_bound:
  assumes "bounds_from (Fin a, Fin b, Fin c, Fin d) ps = (min_x, min_y, max_x, max_y)"
    "\<forall>p \<in> set ps. fp_finite (pt_x p) \<and> fp_finite (pt_y p)"
  shows "\<exists>a' b' c' d'. min_x = Fin a' \<and> min_y = Fin b' \<and> max_x = Fin c' \<and> max_y = Fin d' \<and>
    a' \<le> a \<and> b' \<le> b \<and> c \<le> c' \<and> d \<le> d' \<and>
    (\<forall>p \<in> set ps. \<exists>x y. pt_x p = Fin x \<and> pt_y p = Fin y \<and> a' \<le> x \<and> b' \<le> y \<and> x \<le> c' \<and> y \<le> d')"
  using assms
proof (induction ps arbitrary: a b c d)
  case (Cons p ps)
  obtain x y where xy: "pt_x p = Fin x" "pt_y p = Fin y"
    using Cons.prems(2) by (cases "pt_x p"; cases "pt_y p") auto
  have "bounds_from (Fin (min a x), Fin (min b y), Fin (max c x), Fin (max d y)) ps = (min_x, min_y, max_x, max_y)"
    using Cons.prems(1) by (simp add: xy)
  from Cons.IH [OF this] Cons.prems(2) xy show ?case by fastforce
qed auto

lemma not_le_less: "a \<noteq> NaN \<Longrightarrow> b \<noteq> NaN \<Longrightarrow> \<not> fp_le a b \<Longrightarrow> fp_lt b a"
  by (cases a; cases b) (auto simp: fp_le_def)

lemma add_below:
  assumes "fp_lt (fp_add f64 (Fin c) (Fin pad)) m" "x \<le> c"
  shows "fp_lt (fp_add f64 (Fin x) (Fin pad)) m"
  using fround_mono [of "x + pad" "c + pad" f64] assms
  by (cases m; cases "fround f64 (x + pad)"; cases "fround f64 (c + pad)") (auto simp: fp_le_def)

lemma sub_above:
  assumes "fp_lt m (fp_sub f64 (Fin a) (Fin pad))" "a \<le> x"
  shows "fp_lt m (fp_sub f64 (Fin x) (Fin pad))"
  using fround_mono [of "a - pad" "x - pad" f64] assms
  by (cases m; cases "fround f64 (x - pad)"; cases "fround f64 (a - pad)") (auto simp: fp_le_def)

text \<open>A stroke left out lies, with its widest nib, beyond one edge of the viewport with all its points.\<close>

lemma culled_off_screen:
  assumes "\<not> stroke_may_be_visible v stroke" "fp_finite (stroke_pad v stroke)"
    and finite: "\<forall>p \<in> set (stroke_points stroke). fp_finite (pt_x p) \<and> fp_finite (pt_y p)"
    and "vp_min_x v \<noteq> NaN" "vp_max_x v \<noteq> NaN" "vp_min_y v \<noteq> NaN" "vp_max_y v \<noteq> NaN"
  shows "let pad = stroke_pad v stroke; pts = stroke_points stroke in
    list_all (\<lambda>p. fp_lt (fp_add f64 (pt_x p) pad) (vp_min_x v)) pts \<or> list_all (\<lambda>p. fp_lt (vp_max_x v) (fp_sub f64 (pt_x p) pad)) pts \<or>
    list_all (\<lambda>p. fp_lt (fp_add f64 (pt_y p) pad) (vp_min_y v)) pts \<or> list_all (\<lambda>p. fp_lt (vp_max_y v) (fp_sub f64 (pt_y p) pad)) pts"
proof (cases "stroke_points stroke")
  case (Cons first rest)
  obtain pad where pad: "stroke_pad v stroke = Fin pad" using assms(2) by (cases "stroke_pad v stroke") auto
  obtain x0 y0 where first: "pt_x first = Fin x0" "pt_y first = Fin y0"
    using finite Cons by (cases "pt_x first"; cases "pt_y first") auto
  obtain min_x min_y max_x max_y where b: "bounds_from (Fin x0, Fin y0, Fin x0, Fin y0) rest = (min_x, min_y, max_x, max_y)"
    using prod_cases4 by blast
  from bounds_from_bound [OF b] finite Cons obtain a b' c d where box: "min_x = Fin a" "min_y = Fin b'" "max_x = Fin c" "max_y = Fin d"
    "a \<le> x0" "b' \<le> y0" "x0 \<le> c" "y0 \<le> d"
    "\<forall>p \<in> set rest. \<exists>x y. pt_x p = Fin x \<and> pt_y p = Fin y \<and> a \<le> x \<and> b' \<le> y \<and> x \<le> c \<and> y \<le> d"
    by auto
  have inside: "\<forall>p \<in> set (stroke_points stroke). \<exists>x y. pt_x p = Fin x \<and> pt_y p = Fin y \<and> a \<le> x \<and> b' \<le> y \<and> x \<le> c \<and> y \<le> d"
    using box first Cons by auto
  have "fp_lt (fp_add f64 (Fin c) (Fin pad)) (vp_min_x v) \<or> fp_lt (vp_max_x v) (fp_sub f64 (Fin a) (Fin pad)) \<or>
    fp_lt (fp_add f64 (Fin d) (Fin pad)) (vp_min_y v) \<or> fp_lt (vp_max_y v) (fp_sub f64 (Fin b') (Fin pad))"
    using assms(1,4-7) by (auto simp: stroke_may_be_visible_def Cons first b box pad Let_def intro!: not_le_less)
  with inside show ?thesis
    unfolding Let_def list_all_iff pad by (metis add_below sub_above)
qed simp
section \<open>A frame, computed\<close>

lemma f64_eighth:
  assumes "x * 8 = of_int m" "\<bar>m\<bar> < 2 ^ 50"
  shows "fround f64 x = Fin x"
proof -
  have "x = of_int m * pow2 (-3)" using assms(1) by (simp add: pow2_def field_simps)
  then show ?thesis using f64_dyadic [of m "-3"] assms(2) by simp
qed

lemma f64_example:
  "fround f64 0 = Fin 0" "fround f64 1 = Fin 1" "fround f64 2 = Fin 2" "fround f64 3 = Fin 3" "fround f64 4 = Fin 4" "fround f64 8 = Fin 8"
  "fround f64 32 = Fin 32" "fround f64 64 = Fin 64" "fround f64 (5 / 2) = Fin (5 / 2)" "fround f64 (3 / 4) = Fin (3 / 4)"
  "fround f64 (11 / 4) = Fin (11 / 4)" "fround f64 (23 / 4) = Fin (23 / 4)" "fround f64 (27 / 4) = Fin (27 / 4)"
  "fround f64 (- (7 / 4)) = Fin (- (7 / 4))" "fround f64 (- (3 / 4)) = Fin (- (3 / 4))"
  by (rule f64_eighth [where m = 0] f64_eighth [where m = 8] f64_eighth [where m = 16] f64_eighth [where m = 24]
      f64_eighth [where m = 32] f64_eighth [where m = 64] f64_eighth [where m = 256] f64_eighth [where m = 512]
      f64_eighth [where m = 20] f64_eighth [where m = 6] f64_eighth [where m = 22] f64_eighth [where m = 46]
      f64_eighth [where m = 54] f64_eighth [where m = "-14"] f64_eighth [where m = "-6"]; simp; fail)+

lemma floor_example: "\<lfloor>65 / 2 :: rat\<rfloor> = 32"
  by (rule floor_unique) simp_all

definition example_surface :: Surface where
  "example_surface = \<lparr>su_rect_width = Fin 64, su_rect_height = Fin 32, su_ratio = Some (Fin 2), su_has_context = True\<rparr>"

definition example_placement :: Placement where
  "example_placement = \<lparr>pl_x = Fin 0, pl_y = Fin 0, pl_scale = Fin 1\<rparr>"

definition example_strokes :: "StrokeBatch list" where
  "example_strokes = [\<lparr>sb_seq = 1, sb_client_batch_id = ''b'', sb_strokes =
     [\<lparr>stroke_id = ''s'', stroke_style = default_solid_round_pressure,
       stroke_points = [\<lparr>pt_x = Fin 1, pt_y = Fin 2, pt_t = 0, pt_pressure = None\<rparr>,
         \<lparr>pt_x = Fin 3, pt_y = Fin 4, pt_t = 0, pt_pressure = None\<rparr>]\<rparr>]\<rparr>]"

lemma example_frame:
  "frame_lines example_surface example_strokes Paper_None example_placement =
     [(Fin 2, ''#006400'', Fin 4, ''round'', (Fin 1, Fin 2), (Fin 3, Fin 4))]"
  by (simp add: frame_lines_def example_surface_def example_strokes_def example_placement_def visit_paper_marks_def Let_def
      shown_strokes_def stroke_may_be_visible_def stroke_pad_def world_viewport_def viewport_new_def css_size_def device_ratio_def
      default_solid_round_pressure_def DEFAULT_PEN_WIDTH_def DEFAULT_PEN_COLOR_def MIN_RENDERED_STROKE_WIDTH_def f64_example
      stroke_lines_def segment_line_def segment_width_def rendered_width_def fp_clamp_def MIN_PRESSURE_WIDTH_def
      PRESSURE_WIDTH_STEP_def css_point_def css_x_def css_y_def floor_example)

lemma frame_paints_page_witness:
  "\<exists>earlier lines. cx_painted (perform_all (\<lambda>color. length color = 7)
       (fst (draw_canvas (\<lambda>_ _ _. None :: unit option) example_surface example_strokes Paper_None example_placement None
          (fresh_context 7 9))) (fresh_context 7 9)) =
     earlier @ [Filled (Fin 2) (Plain ''#ffffff'') (Fin 0) (Fin 0) (Fin 64) (Fin 32)] @ lines \<and>
     concat (map lines_of lines) = [(Fin 2, ''#006400'', Fin 4, ''round'', (Fin 1, Fin 2), (Fin 3, Fin 4))]"
proof -
  have fills: "frame_fills (\<lambda>_ _ _. None :: unit option) example_surface Paper_None None =
      [Filled (Fin 2) (Plain ''#ffffff'') (Fin 0) (Fin 0) (Fin 64) (Fin 32)]"
    by (simp add: frame_fills_def example_surface_def paper_has_texture_def css_size_def device_ratio_def Let_def)
  have "su_has_context example_surface" by (simp add: example_surface_def)
  from frame_paints_page [OF this, of "\<lambda>color. length color = 7" example_strokes Paper_None example_placement
      "\<lambda>_ _ _. None :: unit option" None "fresh_context 7 9"]
  show ?thesis
    unfolding fills example_frame Let_def by (auto simp: finite_point_def)
qed

end
