(* ===== verification/Screen.thy ===== *)
theory Screen
  imports Shell Canvas Viewer
begin

text \<open>
  What the web client puts on the screen: the views of \<open>frontend/src/main.rs\<close> and \<open>frontend/src/viewer.rs\<close> as trees of
  elements, the library's menu, the rows of its grid, and the open page with the canvas it paints. Leptos is modelled as
  documented: a view is a function of the signals it reads, an effect is due once a signal it tracks is written and runs
  later, a keyed \<open>For\<close> keeps the row of a key it has; so is the browser's animation frame.
\<close>

section \<open>Elements\<close>

datatype Action = Close_Menu | Remember_Return | Open_Page PageSummary | Delete_After_Confirm string | Leave_Viewer
  | Canvas_Gesture string

datatype Node = El string "(string \<times> string) list" "(string \<times> Action) list" "Node list" | Tx string

definition el :: "string \<Rightarrow> (string \<times> string) list \<Rightarrow> Node list \<Rightarrow> Node" where
  "el tag attrs children = El tag attrs [] children"

definition menu_sign :: string where "menu_sign = [CHR 0xE2, CHR 0x98, CHR 0xB0]"
definition dots :: string where "dots = [CHR 0xE2, CHR 0x80, CHR 0xA6]"
definition left_arrow :: string where "left_arrow = [CHR 0xE2, CHR 0x86, CHR 0x90]"
definition middle_dot :: string where "middle_dot = [CHR 0xC2, CHR 0xB7]"
definition times_sign :: string where "times_sign = [CHR 0xC3, CHR 0x97]"

section \<open>The menu and the bar\<close>

definition release_version :: "string option \<Rightarrow> string \<Rightarrow> string" where
  "release_version v_note_release cargo_pkg_version =
     (case v_note_release of Some v \<Rightarrow> if v \<noteq> [] then v else cargo_pkg_version | None \<Rightarrow> cargo_pkg_version)"

definition apk_download_filename :: "string \<Rightarrow> string" where
  "apk_download_filename release = ''v-note-'' @ release @ ''-dev-debug.apk''"

definition apk_download_url :: "string \<Rightarrow> string" where
  "apk_download_url release = ''/dl/apk?release='' @ release"

definition download_link :: "string \<Rightarrow> Node" where
  "download_link release =
     El ''a'' [(''class'', ''menu-link''), (''href'', apk_download_url release), (''download'', apk_download_filename release)]
       [(''click'', Close_Menu)] [Tx ''Download Android app (.apk)'']"

definition menu_items :: "string \<Rightarrow> Session \<Rightarrow> Node list" where
  "menu_items release me =
     (case me of
        Some (Inr profile) \<Rightarrow>
          [el ''p'' [(''class'', ''menu-identity'')] [Tx (case me_email profile of Some email \<Rightarrow> email | None \<Rightarrow> me_sub profile)],
           download_link release,
           El ''a'' [(''class'', ''menu-link''), (''href'', ''/auth/logout'')] [(''click'', Close_Menu)] [Tx ''Sign out'']]
      | _ \<Rightarrow> [download_link release])"

definition main_menu :: "string \<Rightarrow> Session \<Rightarrow> Node" where
  "main_menu release me =
     el ''details'' [(''class'', ''app-menu'')]
       [el ''summary'' [(''aria-label'', ''Open main menu'')] [el ''span'' [(''aria-hidden'', ''true'')] [Tx menu_sign]],
        el ''div'' [(''class'', ''app-menu-panel'')] (menu_items release me)]"

text \<open>The disclosure: open or not, and whether its summary has the focus; both are nothing without the element.\<close>

record Menu =
  mn_mounted :: bool
  mn_open :: bool
  mn_focused :: bool

definition close_menu :: "Menu \<Rightarrow> Menu" where
  "close_menu m = (if mn_mounted m then m\<lparr>mn_open := False\<rparr> else m)"

definition window_click :: "bool \<Rightarrow> Menu \<Rightarrow> Menu" where
  "window_click inside m = (if \<not> mn_mounted m then m else if \<not> inside then close_menu m else m)"

definition window_keydown :: "string \<Rightarrow> Menu \<Rightarrow> Menu" where
  "window_keydown key m =
     (if key \<noteq> ''Escape'' then m
      else if \<not> mn_mounted m then m
      else if \<not> mn_open m then m
      else m\<lparr>mn_open := False, mn_focused := True\<rparr>)"

definition library_bar :: "string \<Rightarrow> Session \<Rightarrow> Node" where
  "library_bar release me =
     el ''header'' [(''class'', ''top-bar'')]
       [el ''div'' [(''class'', ''bar-left'')] [main_menu release me, el ''h1'' [(''class'', ''brand'')] [Tx ''v-note'']],
        el ''div'' [(''class'', ''bar-right'')]
          (case me of
             None \<Rightarrow> [el ''span'' [(''class'', ''muted'')] [Tx (''Checking session'' @ dots)]]
           | Some (Inr _) \<Rightarrow> []
           | Some (Inl status) \<Rightarrow>
               if signed_out status
               then [El ''a'' [(''class'', ''button primary''), (''href'', ''/auth/login'')] [(''click'', Remember_Return)] [Tx ''Sign in'']]
               else [el ''span'' [(''class'', ''muted'')] [Tx ''Session check failed'']])]"

section \<open>The grid\<close>

definition thumbnail_view :: "bool \<Rightarrow> ThumbnailMetadata \<Rightarrow> Node" where
  "thumbnail_view thumbnail_unavailable thumbnail =
     (if thumbnail_unavailable
      then el ''div'' [(''class'', ''page-preview thumbnail-failed''),
             (''aria-label'', ''Thumbnail unavailable while realtime is disconnected'')] []
      else (case thumbnail of
        Thumb_Available _ url \<Rightarrow> el ''img'' [(''class'', ''page-preview''), (''src'', url), (''alt'', '''')] []
      | Thumb_Generating _ \<Rightarrow>
          el ''div'' [(''class'', ''page-preview thumbnail-generating''), (''aria-label'', ''Thumbnail generating'')] []
      | Thumb_Failed _ \<Rightarrow>
          el ''div'' [(''class'', ''page-preview thumbnail-failed''), (''aria-label'', ''Thumbnail unavailable'')] []
      | Thumb_Empty \<Rightarrow> el ''div'' [(''class'', ''page-preview thumbnail-empty''), (''aria-label'', ''Empty page'')] []))"

text \<open>A tile is built once; \<open>library_error\<close> is read then, untracked, and so is the time.\<close>

definition page_tile :: "(string \<Rightarrow> fp) \<Rightarrow> fp \<Rightarrow> string option \<Rightarrow> PageSummary \<Rightarrow> Node" where
  "page_tile date_parse date_now library_error page =
     (let display_title = (if page_has_title page then Some (ps_title page) else None);
          page_age = approximate_relative_datetime date_parse date_now (ps_updated_at page);
          open_label = (case display_title of None \<Rightarrow> ''Open page'' | Some title \<Rightarrow> ''Open '' @ title);
          delete_label = (case display_title of None \<Rightarrow> ''Delete page'' | Some title \<Rightarrow> ''Delete '' @ title)
      in el ''li'' [(''class'', ''page-tile'')]
           [El ''button'' [(''class'', ''page-preview-button''), (''aria-label'', open_label)] [(''click'', Open_Page page)]
              (thumbnail_view (library_error \<noteq> None) (ps_thumbnail page) #
               (case display_title of None \<Rightarrow> [] | Some title \<Rightarrow> [el ''span'' [(''class'', ''page-thumbnail-title'')] [Tx title]])),
            el ''div'' [(''class'', ''page-tile-footer'')]
              [el ''span'' [(''class'', ''page-age'')] [Tx page_age],
               El ''button'' [(''class'', ''page-delete''), (''aria-label'', delete_label), (''title'', ''Delete page'')]
                 [(''click'', Delete_After_Confirm (ps_id page))] [Tx times_sign]]])"

type_synonym RowKey = "string \<times> string \<times> string"

definition row_key :: "PageSummary \<Rightarrow> RowKey" where
  "row_key page = (ps_id page, ps_updated_at page, thumbnail_key (ps_thumbnail page))"

text \<open>The rows for a new listing: one kept where its key was there, one built where it was not.\<close>

definition update_rows :: "(PageSummary \<Rightarrow> Node) \<Rightarrow> PageSummary list \<Rightarrow> (RowKey \<times> Node) list \<Rightarrow> (RowKey \<times> Node) list" where
  "update_rows build items rows =
     map (\<lambda>page. (row_key page, case map_of rows (row_key page) of Some row \<Rightarrow> row | None \<Rightarrow> build page)) items"

text \<open>The branch that shows the grid runs again when the session or the list of pages changes, and builds it anew; a change
  of \<open>library_error\<close> alone only runs \<open>each\<close> again. Both read the time, the error and the pages as they are then.\<close>

datatype GridRun = Grid_Built fp "string option" "PageSummary list" | Each_Ran fp "string option" "PageSummary list"

fun grid_run :: "(string \<Rightarrow> fp) \<Rightarrow> GridRun \<Rightarrow> (RowKey \<times> Node) list \<Rightarrow> (RowKey \<times> Node) list" where
  "grid_run date_parse (Grid_Built now_ms error items) rows = update_rows (page_tile date_parse now_ms error) items []"
| "grid_run date_parse (Each_Ran now_ms error items) rows = update_rows (page_tile date_parse now_ms error) items rows"

definition library_rows :: "(string \<Rightarrow> fp) \<Rightarrow> GridRun list \<Rightarrow> (RowKey \<times> Node) list" where
  "library_rows date_parse runs = fold (grid_run date_parse) runs []"

definition state_panel :: "(string \<times> string) list \<Rightarrow> string \<Rightarrow> string \<Rightarrow> string option \<Rightarrow> Node" where
  "state_panel attrs eyebrow section_title muted =
     el ''div'' ((''class'', ''state-panel'') # attrs)
       ([el ''p'' [(''class'', ''eyebrow'')] [Tx eyebrow], el ''h2'' [(''class'', ''section-title'')] [Tx section_title]] @
        (case muted of None \<Rightarrow> [] | Some words \<Rightarrow> [el ''p'' [(''class'', ''muted'')] [Tx words]]))"

definition alert :: "string \<Rightarrow> Node" where
  "alert message = el ''p'' [(''class'', ''alert''), (''role'', ''alert'')] [Tx message]"

type_synonym Meta = "(string + string \<times> u32) option"

definition library :: "App \<Rightarrow> Meta \<Rightarrow> (RowKey \<times> Node) list \<Rightarrow> Node" where
  "library a meta rows =
     el ''section'' [(''class'', ''library-shell''), (''aria-label'', ''Page library'')]
       ((case ap_route_notice a of None \<Rightarrow> [] | Some notice \<Rightarrow> [alert notice]) @
        (case ap_library_error a of None \<Rightarrow> [] | Some error \<Rightarrow> [alert error]) @
        [case ap_me a of
           None \<Rightarrow> state_panel [] ''Session'' ''Checking access'' (Some ''Loading your private v-note session.'')
         | Some (Inl status) \<Rightarrow>
             if signed_out status
             then state_panel [] ''Private notes'' ''Sign in to see your pages'' (Some ''Your pages are private to your account.'')
             else state_panel [(''role'', ''alert'')] ''Session'' ''Unable to determine authentication state'' None
         | Some (Inr _) \<Rightarrow>
             if ap_pages a = []
             then state_panel [] ''No pages'' ''Start with a blank ink page''
                    (Some ''Create a page on Android, then open it here to follow the ink live.'')
             else el ''ul'' [(''class'', ''page-grid'')] (map snd rows),
         case meta of
           None \<Rightarrow> el ''p'' [(''class'', ''muted build-line'')] [Tx (''Loading metadata'' @ dots)]
         | Some (Inr (version, protocol)) \<Rightarrow>
             el ''p'' [(''class'', ''muted build-line'')]
               [Tx (''Version '' @ version @ '' '' @ middle_dot @ '' Protocol '' @ decimal (unat protocol))]
         | Some (Inl error) \<Rightarrow> alert (''Failed to load metadata: '' @ error)])"

section \<open>The viewer's frame and the app\<close>

definition ink_viewer :: "(string \<Rightarrow> fp) \<Rightarrow> fp \<Rightarrow> PageSummary \<Rightarrow> PageFeed \<Rightarrow> Node" where
  "ink_viewer date_parse date_now page feed =
     el ''section'' [(''class'', ''canvas-shell''), (''aria-label'', ''Open page'')]
       ([el ''header'' [(''class'', ''top-bar'')]
           [el ''div'' [(''class'', ''bar-left'')]
              [El ''button'' [(''class'', ''icon-button''), (''aria-label'', ''Back to library'')] [(''click'', Leave_Viewer)]
                 [el ''span'' [(''aria-hidden'', ''true'')] [Tx left_arrow]],
               el ''h2'' [(''class'', ''page-name'')] [Tx (page_display_title date_parse date_now page)]],
            el ''div'' [(''class'', ''bar-right'')]
              [el ''span'' [(''class'', ''live-status''), (''aria-live'', ''polite'')]
                 [Tx (fd_status feed @ '' '' @ middle_dot @ '' seq '' @ decimal (unat (fd_last_seq feed)))]]]] @
        (case fd_error feed of None \<Rightarrow> [] | Some error \<Rightarrow> [alert error]) @
        [el ''div'' [(''class'', ''canvas-frame'')]
           [El ''canvas'' [(''aria-label'', ''Read-only ink canvas''), (''data-testid'', ''ink-canvas''), (''class'', ''ink-canvas'')]
              (map (\<lambda>e. (e, Canvas_Gesture e)) [''pointerdown'', ''pointermove'', ''pointerup'', ''pointercancel'', ''wheel'']) []]])"

definition app_view ::
  "(string \<Rightarrow> fp) \<Rightarrow> fp \<Rightarrow> string \<Rightarrow> App \<Rightarrow> Meta \<Rightarrow> (RowKey \<times> Node) list \<Rightarrow> PageFeed \<Rightarrow> Node list" where
  "app_view date_parse date_now release a meta rows feed =
     [el ''main'' [(''class'', if ap_selected a \<noteq> None then ''app-shell viewer-mode'' else ''app-shell'')]
        (case ap_selected a of
           Some page \<Rightarrow> [ink_viewer date_parse date_now page feed]
         | None \<Rightarrow> [library_bar release (ap_me a), library a meta rows]),
      el ''div'' [(''class'', ''version-watermark'')] [Tx (''v'' @ release)]]"

section \<open>The open page at work\<close>

text \<open>The marks left on the window for the end-to-end tests, numbers of JavaScript and a paper's name.\<close>

record Marks =
  mk_draws :: fp
  mk_last_draw_ms :: fp
  mk_stroke_count :: fp
  mk_paper :: string
  mk_applied_at :: fp
  mk_last_seq :: fp

definition mark_ink_drawn :: "fp \<Rightarrow> Marks \<Rightarrow> Marks" where
  "mark_ink_drawn duration_ms mk = mk\<lparr>mk_draws := fp_add f64 (mk_draws mk) (Fin 1), mk_last_draw_ms := duration_ms\<rparr>"

definition mark_ink_state :: "StrokeBatch list \<Rightarrow> Paper \<Rightarrow> Marks \<Rightarrow> Marks" where
  "mark_ink_state batches paper mk =
     mk\<lparr>mk_stroke_count := fround f64 (of_nat (sum_list (map (length \<circ> sb_strokes) batches))), mk_paper := wire_value paper\<rparr>"

definition mark_ink_applied :: "fp option \<Rightarrow> u64 \<Rightarrow> Marks \<Rightarrow> Marks" where
  "mark_ink_applied now_ms sequence mk =
     (let timed = (case now_ms of Some t \<Rightarrow> mk\<lparr>mk_applied_at := t\<rparr> | None \<Rightarrow> mk)
      in timed\<lparr>mk_last_seq := fround f64 (of_nat (unat sequence))\<rparr>)"

text \<open>The canvas is \<open>None\<close> until it is mounted; \<open>vw_texture\<close> is the cached grain, \<open>vw_due\<close> whether the effect that
  asks for a frame has still to run, \<open>vw_pending\<close> whether a frame was asked for and has not come.\<close>

record 'p Viewer =
  vw_feed :: PageFeed
  vw_pan_zoom :: PanZoom
  vw_tick :: u64
  vw_surface :: Surface
  vw_canvas :: "'p Context option"
  vw_texture :: "'p option option"
  vw_due :: bool
  vw_pending :: bool
  vw_marks :: Marks

definition placement :: "PanZoom \<Rightarrow> Placement" where
  "placement pz = \<lparr>pl_x = pz_offset_x pz, pl_y = pz_offset_y pz, pl_scale = pz_scale pz\<rparr>"

definition open_viewer :: "Paper \<Rightarrow> Surface \<Rightarrow> 'p option option \<Rightarrow> Marks \<Rightarrow> 'p Viewer" where
  "open_viewer paper surface texture marks =
     \<lparr>vw_feed = feed_new paper, vw_pan_zoom = pan_zoom_new, vw_tick = 0, vw_surface = surface, vw_canvas = None,
      vw_texture = texture, vw_due = True, vw_pending = False, vw_marks = marks\<rparr>"

definition paint ::
  "(string \<Rightarrow> bool) \<Rightarrow> (nat \<Rightarrow> nat \<Rightarrow> u8 list \<Rightarrow> 'p option) \<Rightarrow> fp option \<Rightarrow> 'p Viewer \<Rightarrow> 'p Viewer" where
  "paint parses new_pattern duration_ms vw =
     (case vw_canvas vw of
        None \<Rightarrow> vw
      | Some c \<Rightarrow>
          (let batches = fd_batches (vw_feed vw);
               paper = fd_paper (vw_feed vw);
               marked = mark_ink_state batches paper (vw_marks vw);
               (commands, texture) =
                 draw_canvas new_pattern (vw_surface vw) batches paper (placement (vw_pan_zoom vw)) (vw_texture vw) c
           in vw\<lparr>vw_canvas := Some (perform_all parses commands c), vw_texture := texture,
                 vw_marks := (case duration_ms of Some d \<Rightarrow> mark_ink_drawn d marked | None \<Rightarrow> marked)\<rparr>))"

text \<open>Which of the signals the effect tracks an event writes.\<close>

definition writes_ink :: "PageServerMessage \<Rightarrow> PageFeed \<Rightarrow> bool" where
  "writes_ink event feed \<longleftrightarrow>
     next_viewer_paper (fd_paper feed) event \<noteq> fd_paper feed \<or>
     (case event of Msg_StrokeBatch _ \<Rightarrow> True | Msg_PageReplay _ \<Rightarrow> True | Msg_TombstoneBatch _ \<Rightarrow> True | _ \<Rightarrow> False)"

definition writes_placement :: "gesture \<Rightarrow> PanZoom \<Rightarrow> bool" where
  "writes_placement g pz \<longleftrightarrow>
     (case g of
        G_Move e \<Rightarrow> (case pz_dragging pz of None \<Rightarrow> False | Some (pointer_id, _, _) \<Rightarrow> pointer_id = pe_pointer_id e)
      | G_Wheel e \<Rightarrow> wheel_scale (pz_scale pz) (we_delta_y e) \<noteq> None
      | _ \<Rightarrow> False)"

definition marks_applied :: "PageServerMessage \<Rightarrow> u64 option" where
  "marks_applied event =
     (case event of Msg_StrokeBatch batch \<Rightarrow> Some (sb_seq batch) | Msg_PageReplay replay \<Rightarrow> Some (pr_last_seq replay) | _ \<Rightarrow> None)"

datatype 'p ViewerEvent =
    Page_Event "fp option" PageServerMessage
  | Channel_Ended string
  | Gestured gesture
  | Resized Surface
  | Mounted "'p Context"
  | Effect_Runs bool
  | Frame_Comes "fp option"

text \<open>\<open>Effect_Runs\<close> says whether the browser granted the frame asked for, if one is; \<open>Frame_Comes\<close> how long the paint
  took, where the browser has a clock for it, as does \<open>Page_Event\<close> when it came.\<close>

fun viewer_step ::
  "(string \<Rightarrow> bool) \<Rightarrow> (nat \<Rightarrow> nat \<Rightarrow> u8 list \<Rightarrow> 'p option) \<Rightarrow> 'p ViewerEvent \<Rightarrow> 'p Viewer \<Rightarrow> 'p Viewer" where
  "viewer_step parses np (Page_Event now_ms event) vw =
     vw\<lparr>vw_feed := apply_page_event event (vw_feed vw),
        vw_due := (vw_due vw \<or> writes_ink event (vw_feed vw)),
        vw_marks := (case marks_applied event of None \<Rightarrow> vw_marks vw | Some s \<Rightarrow> mark_ink_applied now_ms s (vw_marks vw))\<rparr>"
| "viewer_step parses np (Channel_Ended error) vw =
     vw\<lparr>vw_feed := (vw_feed vw)\<lparr>fd_error := Some error, fd_status := ''Disconnected''\<rparr>\<rparr>"
| "viewer_step parses np (Gestured g) vw =
     vw\<lparr>vw_pan_zoom := gesture_step g (vw_pan_zoom vw), vw_due := (vw_due vw \<or> writes_placement g (vw_pan_zoom vw))\<rparr>"
| "viewer_step parses np (Resized surface) vw = vw\<lparr>vw_surface := surface, vw_tick := vw_tick vw + 1, vw_due := True\<rparr>"
| "viewer_step parses np (Mounted c) vw = vw\<lparr>vw_canvas := Some c, vw_due := True\<rparr>"
| "viewer_step parses np (Effect_Runs granted) vw =
     (if \<not> vw_due vw then vw
      else if vw_pending vw then vw\<lparr>vw_due := False\<rparr>
      else vw\<lparr>vw_due := False, vw_pending := granted\<rparr>)"
| "viewer_step parses np (Frame_Comes duration_ms) vw =
     (if vw_pending vw then paint parses np duration_ms (vw\<lparr>vw_pending := False\<rparr>) else vw)"

definition viewer_run ::
  "(string \<Rightarrow> bool) \<Rightarrow> (nat \<Rightarrow> nat \<Rightarrow> u8 list \<Rightarrow> 'p option) \<Rightarrow> 'p ViewerEvent list \<Rightarrow> 'p Viewer \<Rightarrow> 'p Viewer" where
  "viewer_run parses np events vw = fold (viewer_step parses np) events vw"

section \<open>The canvas keeps up\<close>

text \<open>What the canvas shows when it is up to date: the last thing painted on it is the frame of the page as it stands.\<close>

definition shows_page ::
  "(nat \<Rightarrow> nat \<Rightarrow> u8 list \<Rightarrow> 'p option) \<Rightarrow> 'p Viewer \<Rightarrow> 'p Context \<Rightarrow> bool" where
  "shows_page np vw c \<longleftrightarrow>
     (let su = vw_surface vw; feed = vw_feed vw in
      cx_width c = backing su (su_rect_width su) \<and> cx_height c = backing su (su_rect_height su) \<and>
      (\<exists>earlier lines. cx_painted c = earlier @ frame_fills np su (fd_paper feed) None @ lines \<and>
         concat (map lines_of lines) = frame_lines su (fd_batches feed) (fd_paper feed) (placement (vw_pan_zoom vw)) \<and>
         list_all made_of_lines lines))"

definition cache_ok :: "(nat \<Rightarrow> nat \<Rightarrow> u8 list \<Rightarrow> 'p option) \<Rightarrow> 'p option option \<Rightarrow> bool" where
  "cache_ok np texture \<longleftrightarrow> texture = None \<or> texture = Some (build_paper_texture_pattern np)"

lemma cached_fills: "cache_ok np texture \<Longrightarrow> frame_fills np su paper texture = frame_fills np su paper None"
  by (auto simp: cache_ok_def frame_fills_def)

text \<open>The canvas is the result of painting what there is now, on whatever it was before.\<close>

definition up_to_date ::
  "(string \<Rightarrow> bool) \<Rightarrow> (nat \<Rightarrow> nat \<Rightarrow> u8 list \<Rightarrow> 'p option) \<Rightarrow> 'p Viewer \<Rightarrow> bool" where
  "up_to_date parses np vw \<longleftrightarrow>
     (\<exists>c texture. cache_ok np texture \<and>
        vw_canvas vw = Some (perform_all parses (fst (draw_canvas np (vw_surface vw) (fd_batches (vw_feed vw)) (fd_paper (vw_feed vw))
          (placement (vw_pan_zoom vw)) texture c)) c)) \<and>
     mk_stroke_count (vw_marks vw) = fround f64 (of_nat (sum_list (map (length \<circ> sb_strokes) (fd_batches (vw_feed vw))))) \<and>
     mk_paper (vw_marks vw) = wire_value (fd_paper (vw_feed vw))"

definition viewer_ok :: "(string \<Rightarrow> bool) \<Rightarrow> (nat \<Rightarrow> nat \<Rightarrow> u8 list \<Rightarrow> 'p option) \<Rightarrow> 'p Viewer \<Rightarrow> bool" where
  "viewer_ok parses np vw \<longleftrightarrow> cache_ok np (vw_texture vw) \<and>
     (vw_due vw \<or> vw_pending vw \<or> vw_canvas vw = None \<or> up_to_date parses np vw)"

lemma quiet_event:
  assumes "\<not> writes_ink event feed"
  shows "fd_batches (apply_page_event event feed) = fd_batches feed \<and> fd_paper (apply_page_event event feed) = fd_paper feed"
  using assms by (cases event) (auto simp: writes_ink_def apply_page_event_def Let_def)

lemma quiet_gesture:
  assumes "\<not> writes_placement g pz"
  shows "placement (gesture_step g pz) = placement pz"
  using assms
  by (cases g) (auto simp: writes_placement_def placement_def pointer_down_def pointer_move_def pointer_up_def
      cancel_drag_def wheel_def Let_def split: option.splits)

lemma draw_canvas_cache: "cache_ok np texture \<Longrightarrow> cache_ok np (snd (draw_canvas np su batches paper pl texture c))"
  by (auto simp: draw_canvas_def draw_paper_texture_def cache_ok_def Let_def split: option.splits)

lemma paint_ok:
  assumes "cache_ok np (vw_texture vw)"
  shows "viewer_ok parses np (paint parses np ms vw)"
proof (cases "vw_canvas vw")
  case None
  then show ?thesis using assms by (simp add: viewer_ok_def paint_def)
next
  case (Some c)
  let ?drawn = "draw_canvas np (vw_surface vw) (fd_batches (vw_feed vw)) (fd_paper (vw_feed vw)) (placement (vw_pan_zoom vw)) (vw_texture vw) c"
  have painted: "paint parses np ms vw = vw\<lparr>vw_canvas := Some (perform_all parses (fst ?drawn) c), vw_texture := snd ?drawn,
      vw_marks := (case ms of Some d \<Rightarrow> mark_ink_drawn d | None \<Rightarrow> id)
        (mark_ink_state (fd_batches (vw_feed vw)) (fd_paper (vw_feed vw)) (vw_marks vw))\<rparr>"
    using Some by (simp add: paint_def case_prod_beta Let_def split: option.split)
  have "up_to_date parses np (paint parses np ms vw)"
    unfolding painted up_to_date_def
    using assms by (auto simp: mark_ink_drawn_def mark_ink_state_def split: option.split)
  moreover have "cache_ok np (vw_texture (paint parses np ms vw))"
    unfolding painted using draw_canvas_cache [OF assms] by simp
  ultimately show ?thesis by (simp add: viewer_ok_def)
qed

lemma viewer_step_ok:
  assumes "viewer_ok parses np vw" "e \<noteq> Effect_Runs False"
  shows "viewer_ok parses np (viewer_step parses np e vw)"
proof (cases e)
  case (Page_Event now_ms event)
  show ?thesis
  proof (cases "writes_ink event (vw_feed vw)")
    case False
    note same = quiet_event [OF False]
    have "mk_stroke_count (mark_ink_applied t s mk) = mk_stroke_count mk" "mk_paper (mark_ink_applied t s mk) = mk_paper mk" for t s mk
      by (simp_all add: mark_ink_applied_def Let_def split: option.split)
    then show ?thesis
      using assms(1) same by (auto simp: Page_Event viewer_ok_def up_to_date_def split: option.split)
  qed (use assms(1) in \<open>simp add: Page_Event viewer_ok_def\<close>)
next
  case (Gestured g)
  show ?thesis
  proof (cases "writes_placement g (vw_pan_zoom vw)")
    case False
    then show ?thesis
      using assms(1) by (auto simp: Gestured viewer_ok_def up_to_date_def quiet_gesture)
  qed (use assms(1) in \<open>simp add: Gestured viewer_ok_def\<close>)
next
  case (Frame_Comes ms)
  then show ?thesis
    using assms(1) paint_ok [of np "vw\<lparr>vw_pending := False\<rparr>" parses ms] by (auto simp: viewer_ok_def)
qed (use assms in \<open>auto simp: viewer_ok_def up_to_date_def\<close>)

lemma viewer_run_ok:
  "viewer_ok parses np vw \<Longrightarrow> Effect_Runs False \<notin> set events \<Longrightarrow> viewer_ok parses np (viewer_run parses np events vw)"
  unfolding viewer_run_def
proof (induction events arbitrary: vw)
  case (Cons e events)
  then show ?case using viewer_step_ok [of parses np vw e] by auto
qed simp

text \<open>A frame drawn from a sound cache shows the page.\<close>

lemma up_to_date_shows:
  assumes "up_to_date parses np vw" "su_has_context (vw_surface vw)" "parses ''#ffffff''"
    and "\<forall>l \<in> set (frame_lines (vw_surface vw) (fd_batches (vw_feed vw)) (fd_paper (vw_feed vw)) (placement (vw_pan_zoom vw))).
      drawable parses l"
  shows "\<exists>c. vw_canvas vw = Some c \<and> shows_page np vw c"
proof -
  obtain c texture where c: "cache_ok np texture"
      "vw_canvas vw = Some (perform_all parses (fst (draw_canvas np (vw_surface vw) (fd_batches (vw_feed vw)) (fd_paper (vw_feed vw))
          (placement (vw_pan_zoom vw)) texture c)) c)"
    using assms(1) by (auto simp: up_to_date_def)
  show ?thesis
    using frame_paints_page [OF assms(2-4), of np texture c] cached_fills [OF c(1)] c(2)
    by (simp add: shows_page_def Let_def)
qed


section \<open>What is on the screen\<close>

text \<open>How often an element with an attribute occurs.\<close>

fun count_attr :: "string \<Rightarrow> string \<Rightarrow> Node \<Rightarrow> nat" where
  "count_attr a v (Tx s) = 0"
| "count_attr a v (El tag attrs actions children) =
     (if (a, v) \<in> set attrs then 1 else 0) + sum_list (map (count_attr a v) children)"

definition count_all :: "string \<Rightarrow> string \<Rightarrow> Node list \<Rightarrow> nat" where
  "count_all a v nodes = sum_list (map (count_attr a v) nodes)"

lemma sum_list_0: "(\<And>x. x \<in> set xs \<Longrightarrow> f x = 0) \<Longrightarrow> sum_list (map f xs) = (0 :: nat)"
  by (induction xs) auto

lemma update_rows_built:
  assumes "(k, row) \<in> set (update_rows build items rows)"
  shows "(\<exists>page. row = build page) \<or> (k, row) \<in> set rows"
proof -
  obtain page where page: "k = row_key page" "row = (case map_of rows k of Some row \<Rightarrow> row | None \<Rightarrow> build page)"
    using assms by (auto simp: update_rows_def)
  show ?thesis
  proof (cases "map_of rows k")
    case None
    with page show ?thesis by (intro disjI1 exI [of _ page]) simp
  next
    case (Some row')
    with page show ?thesis by (intro disjI2) (simp add: map_of_SomeD)
  qed
qed

lemma rows_are_tiles:
  "(k, row) \<in> set (library_rows date_parse runs) \<Longrightarrow> \<exists>now_ms error page. row = page_tile date_parse now_ms error page"
  unfolding library_rows_def
proof (induction runs arbitrary: k row rule: rev_induct)
  case (snoc run runs)
  then have "(\<exists>now_ms error page. row = page_tile date_parse now_ms error page) \<or> (k, row) \<in> set (fold (grid_run date_parse) runs [])"
    by (cases run) (auto dest!: update_rows_built)
  then show ?case using snoc.IH by blast
qed simp

lemma thumbnail_counts:
  "a = ''href'' \<or> a = ''class'' \<and> (v = ''top-bar'' \<or> v = ''ink-canvas'') \<Longrightarrow> count_attr a v (thumbnail_view unavailable thumbnail) = 0"
  by (cases unavailable; cases thumbnail) (auto simp: thumbnail_view_def el_def)

lemma tile_counts:
  assumes "a = ''href'' \<or> a = ''class'' \<and> (v = ''top-bar'' \<or> v = ''ink-canvas'')"
  shows "count_attr a v (page_tile date_parse now_ms error page) = 0"
proof -
  have "count_attr a v (thumbnail_view u t) = 0" for u t by (rule thumbnail_counts [OF assms])
  then show ?thesis
    using assms by (elim disjE conjE; cases "page_has_title page") (simp_all add: page_tile_def el_def Let_def)
qed

lemma rows_count:
  assumes "a = ''href'' \<or> a = ''class'' \<and> (v = ''top-bar'' \<or> v = ''ink-canvas'')"
  shows "sum_list (map (count_attr a v) (map snd (library_rows date_parse runs))) = 0"
  by (rule sum_list_0) (use tile_counts [OF assms] rows_are_tiles in \<open>fastforce\<close>)

lemmas views = app_view_def ink_viewer_def library_bar_def library_def main_menu_def menu_items_def download_link_def
  state_panel_def alert_def el_def count_all_def

lemma library_blind:
  assumes "\<not> signed_in (ap_me a)"
  shows "library (a\<lparr>ap_pages := items\<rparr>) meta rows' = library a meta rows"
proof (cases "ap_me a")
  case (Some answer)
  with assms show ?thesis by (cases answer) (simp_all add: library_def signed_in_def)
qed (simp add: library_def)

lemma library_has_no_links: "count_attr ''href'' v (library a meta (library_rows date_parse runs)) = 0"
proof -
  have none: "sum_list (map (count_attr ''href'' v \<circ> snd) (library_rows date_parse runs)) = 0" for v
    using rows_count [of "''href''" v date_parse runs] by simp
  have errors: "sum_list (map (count_attr ''href'' v) (case e of None \<Rightarrow> [] | Some m \<Rightarrow> [alert m])) = 0"
    "count_attr ''href'' v (state_panel attrs x y z) = (if (''href'', v) \<in> set attrs then 1 else 0)" for v e attrs x y z
    by (auto simp: alert_def el_def state_panel_def split: option.split)
  have meta: "count_attr ''href'' v (case meta of
         None \<Rightarrow> el ''p'' [(''class'', ''muted build-line'')] [Tx (''Loading metadata'' @ dots)]
       | Some (Inr (version, protocol)) \<Rightarrow>
           el ''p'' [(''class'', ''muted build-line'')]
             [Tx (''Version '' @ version @ '' '' @ middle_dot @ '' Protocol '' @ decimal (unat protocol))]
       | Some (Inl error) \<Rightarrow> alert (''Failed to load metadata: '' @ error)) = 0" for v
    by (auto simp: alert_def el_def split: option.split sum.split)
  show ?thesis
    unfolding library_def el_def [of "''section''"] count_attr.simps map_append sum_list_append errors list.map sum_list.Cons meta
    by (auto simp: errors el_def none split: option.split sum.split)
qed

text \<open>C26. The screen is put together right, whatever the state of the app and the history of its grid: exactly one top bar
  is on it; the canvas is there exactly while a page is open; signing in is offered once in the library to a browser known
  to be signed out and to nobody else, and signing out once to one known to be signed in; and in the library, until the
  session is known to be good, the screen is the same whatever pages the app holds.\<close>

theorem screen_well_formed:
  fixes date_parse :: "string \<Rightarrow> fp" and date_now :: fp and release :: string and meta :: Meta and feed :: PageFeed
  defines "screen \<equiv> \<lambda>a runs. app_view date_parse date_now release a meta (library_rows date_parse runs) feed"
  shows "count_all ''class'' ''top-bar'' (screen a runs) = 1 \<and>
    count_all ''class'' ''ink-canvas'' (screen a runs) = (if ap_selected a \<noteq> None then 1 else 0) \<and>
    count_all ''href'' ''/auth/login'' (screen a runs) =
      (if ap_selected a = None \<and> (\<exists>status. ap_me a = Some (Inl status) \<and> signed_out status) then 1 else 0) \<and>
    count_all ''href'' ''/auth/logout'' (screen a runs) = (if ap_selected a = None \<and> signed_in (ap_me a) then 1 else 0) \<and>
    (ap_selected a \<noteq> None \<or> signed_in (ap_me a) \<or>
      (\<forall>items runs'. screen a runs = screen (a\<lparr>ap_pages := items\<rparr>) runs'))"
proof -
  have none: "sum_list (map (count_attr ''class'' ''top-bar'' \<circ> snd) (library_rows date_parse runs)) = 0"
    "sum_list (map (count_attr ''class'' ''ink-canvas'' \<circ> snd) (library_rows date_parse runs)) = 0"
    using rows_count [of _ _ date_parse runs] by simp_all
  have apk: "apk_download_url release \<noteq> ''/auth/login''" "''/auth/login'' \<noteq> apk_download_url release"
    "apk_download_url release \<noteq> ''/auth/logout''" "''/auth/logout'' \<noteq> apk_download_url release"
    by (simp_all add: apk_download_url_def)
  have "count_all ''class'' ''top-bar'' (screen a runs) = 1 \<and>
    count_all ''class'' ''ink-canvas'' (screen a runs) = (if ap_selected a \<noteq> None then 1 else 0)"
    by (auto simp: screen_def views none split: option.split sum.split)
  moreover have "count_all ''href'' ''/auth/login'' (screen a runs) =
      (if ap_selected a = None \<and> (\<exists>status. ap_me a = Some (Inl status) \<and> signed_out status) then 1 else 0) \<and>
    count_all ''href'' ''/auth/logout'' (screen a runs) = (if ap_selected a = None \<and> signed_in (ap_me a) then 1 else 0)"
  proof (cases "ap_selected a")
    case None
    then show ?thesis
      using apk library_has_no_links
      by (cases "ap_me a") (auto simp: screen_def app_view_def count_all_def library_bar_def main_menu_def menu_items_def
          download_link_def el_def signed_in_def split: sum.split)
  next
    case (Some page)
    then show ?thesis
      by (cases "fd_error feed") (simp_all add: screen_def app_view_def ink_viewer_def alert_def el_def count_all_def)
  qed
  moreover have "ap_selected a \<noteq> None \<or> signed_in (ap_me a) \<or>
      (\<forall>items runs'. screen a runs = screen (a\<lparr>ap_pages := items\<rparr>) runs')"
    using library_blind [of a, symmetric] by (cases "ap_selected a") (auto simp: screen_def app_view_def intro!: arg_cong [where f = "el _ _"])
  ultimately show ?thesis by blast
qed

text \<open>A tile does not hear of the library's error: as long as the pages stay the same it keeps its thumbnail while the
  channel is down, and one built while it was down stays without.\<close>

lemma kept_row_ignores_error:
  assumes "distinct (map row_key items)"
  shows "library_rows date_parse (earlier @ [Grid_Built now_ms error items, Each_Ran now' error' items]) =
    library_rows date_parse (earlier @ [Grid_Built now_ms error items])"
proof -
  have "map_of (map (\<lambda>page. (row_key page, page_tile date_parse now_ms error page)) items) (row_key page) =
      Some (page_tile date_parse now_ms error page)" if "page \<in> set items" for page
    by (rule map_of_is_SomeI) (use that assms in \<open>auto simp: comp_def\<close>)
  then show ?thesis by (simp add: library_rows_def update_rows_def)
qed

section \<open>The menu\<close>

text \<open>Closing by the keyboard gives the focus back, and only then.\<close>

lemma menu_dismissal:
  "mn_focused (window_click inside m) = mn_focused m"
  "mn_mounted m \<Longrightarrow> \<not> mn_open (window_click False m)"
  "window_click True m = m"
  "mn_open m \<Longrightarrow> mn_mounted m \<Longrightarrow> \<not> mn_open (window_keydown ''Escape'' m) \<and> mn_focused (window_keydown ''Escape'' m)"
  "\<not> mn_open m \<or> key \<noteq> ''Escape'' \<Longrightarrow> window_keydown key m = m"
  by (simp_all add: window_click_def window_keydown_def close_menu_def)

subsection \<open>Examples\<close>

definition example_marks :: Marks where
  "example_marks = \<lparr>mk_draws = Fin 0, mk_last_draw_ms = Fin 0, mk_stroke_count = Fin 0, mk_paper = '''', mk_applied_at = Fin 0,
     mk_last_seq = Fin 0\<rparr>"


definition example_visit :: App where
  "example_visit = (app_start (fresh_tab ''/''))\<lparr>ap_me := Some (Inl 401), ap_selected := None\<rparr>"

theorem screen_well_formed_witness:
  "app_view (\<lambda>_. NaN) (Fin 0) ''1'' example_visit None (library_rows (\<lambda>_. NaN) []) (feed_new Paper_None) =
   app_view (\<lambda>_. NaN) (Fin 0) ''1'' (example_visit\<lparr>ap_pages := [example_page ''p'' ''2026'']\<rparr>) None
     (library_rows (\<lambda>_. NaN) [Grid_Built (Fin 0) None [example_page ''p'' ''2026'']]) (feed_new Paper_None)"
proof -
  have "ap_selected example_visit = None" "\<not> signed_in (ap_me example_visit)"
    by (simp_all add: example_visit_def signed_in_def)
  then show ?thesis
    using screen_well_formed [where a = example_visit and date_parse = "\<lambda>_. NaN" and date_now = "Fin 0" and release = "''1''"
        and meta = None and feed = "feed_new Paper_None" and runs = "[]"] by blast
qed

end
