(* ===== verification/Spec2Isabelle.thy ===== *)
theory Spec2Isabelle
  imports Convergence Exporter Api Router Screen
begin

text \<open>
  A verification library for v-note, a note-taking server with handwritten ink and the browser
  client that shows it (\<open>crates/protocol\<close>, \<open>crates/server\<close>, \<open>frontend\<close>).

  The program. A page is an append-only sequence of stroke batches in Postgres, plus tombstones for
  deleted strokes and a paper it is drawn on. One session at a time holds the page's edit lease and
  commits batches, deletions and paper changes over a web socket; the server stores each change,
  then broadcasts it on the page's channel, and tells the owner's library about the new edit time
  and the thumbnail being drawn. A viewer keeps the batches it was sent in a feed, and after a
  reconnect asks for a replay of what follows the last sequence number it knows.

  The client lists its pages, opens one, follows both channels over sockets that it reopens when they are lost, paints
  each frame on a canvas, keeps its address bar in step with the screen, and sends its own telemetry to the endpoint the
  server hands it. Server and client are modelled apart and meet in \<open>Convergence\<close> (ink), \<open>LibrarySync\<close> (the library) and
  \<open>Router\<close> (HTTP).

  Theories of what both sides share.
  \<^item> \<open>Prelude\<close>: machine words, errors as sums (\<open>bindr\<close> is the question mark operator), casts
    between \<open>i64\<close> and \<open>u64\<close>, the collections \<open>results_simps\<close>, \<open>ink_simps\<close>, \<open>hub_simps\<close>,
    \<open>server_simps\<close>, \<open>store_simps\<close>.
  \<^item> \<open>Floats\<close>: IEEE 754 arithmetic as rationals rounded to nearest-even, with infinities and NaN.
  \<^item> \<open>Paper\<close>: \<open>crates/protocol/src/paper.rs\<close>.
  \<^item> \<open>Protocol\<close>: \<open>crates/protocol/src/lib.rs\<close>; messages, strokes and their validation.
  \<^item> \<open>Text\<close>: the methods of Rust's \<open>str\<close> that the handlers use, on UTF-8 bytes.

  Theories of the server.
  \<^item> \<open>Store\<close>: \<open>realtime/store.rs\<close>; the tables as lists of rows with their keys and checks, each
    statement a query that may fail, each transaction a function that returns the new tables or an
    error and no change; the \<open>PageStore\<close> port is a record of operations and the locale
    \<open>page_store\<close> is what the dispatcher relies on, interpreted on the Postgres store.
  \<^item> \<open>Hub\<close>: \<open>realtime/hub.rs\<close>; tickets, broadcast channels, edit leases; the locale \<open>edit_lease\<close>
    is the contract of the lease, interpreted on the hub.
  \<^item> \<open>Dispatch\<close>: \<open>realtime/dispatch.rs\<close>; every client message over any page store, with the frames
    sent, the broadcasts, the metrics and the thumbnail jobs as parts of the state.
  \<^item> \<open>Raster\<close>: the drawing half of \<open>crates/server/src/thumbnails.rs\<close>, over a parameter for the raster
    library: strokes, paper, grain, the box filter.
  \<^item> \<open>Thumbnails\<close>: the other half of that file; jobs, recovery, outcome and retention, each query of a
    job against a database other sessions write to meanwhile.
  \<^item> \<open>Pages\<close>: \<open>routes/pages.rs\<close>; the page routes over the same tables, and \<open>serve\<close>, which runs page
    messages, jobs, recoveries and page requests on one server.
  \<^item> \<open>Auth\<close>: \<open>auth.rs\<close>, \<open>routes/auth.rs\<close>, \<open>routes/telemetry_config.rs\<close>; discovery, keys, token
    validation, the middleware, the login flow, the mobile callback page.
  \<^item> \<open>Socket\<close>: \<open>realtime/socket.rs\<close>; the gates before an upgrade, the connection loops, the end of a
    connection.
  \<^item> \<open>Csp\<close>: \<open>csp.rs\<close> and its use in \<open>lib.rs\<close>; the content security policy and the scanner for the inline scripts
    it admits, with a reader of policies and documents to compare against.
  \<^item> \<open>Config\<close>: \<open>config.rs\<close>; sources, groups, validation, the order \<open>main.rs\<close> loads them in and where it listens.
  \<^item> \<open>Observe\<close>: \<open>observability.rs\<close>; metric families, request ids and labels, the filters and sinks of log events, the
    size of a query's result, exporters.
  \<^item> \<open>Router\<close>: \<open>lib.rs\<close>; startup, the table of routes, and a request's way from the socket to the handlers above.

  Theories of the client.
  \<^item> \<open>Viewer\<close>: \<open>frontend/src/viewer.rs\<close>; pan and zoom, the page feed.
  \<^item> \<open>Canvas\<close>: \<open>render.rs\<close>; a frame as canvas commands, and a drawing context after the HTML standard.
  \<^item> \<open>Outbox\<close>: \<open>telemetry/outbox.rs\<close>; the bounded queue (its contract is the locale \<open>lossy_queue\<close>), the export policy
    with its backoff, the credentials.
  \<^item> \<open>Otlp\<close>: \<open>telemetry/otlp.rs\<close>, \<open>telemetry/span.rs\<close>; identifiers, spans, log records, their JSON trees.
  \<^item> \<open>Exporter\<close>: \<open>telemetry.rs\<close>; recording, export, refresh, flush and switching off as a world of state, tasks in
    flight and requests sent.
  \<^item> \<open>Library\<close>: \<open>library.rs\<close>; labels and the recent-first list under its events (the locale \<open>preorder_sort\<close> is what a
    stable sort by a total preorder gives).
  \<^item> \<open>Shell\<close>: \<open>route.rs\<close>, the signals of \<open>main.rs\<close> and the effects of \<open>library.rs\<close>; addresses, history, deep links.
  \<^item> \<open>Api\<close>: \<open>api.rs\<close>, \<open>realtime.rs\<close>; every call with its span and errors, one attempt of each channel, both loops.
  \<^item> \<open>Screen\<close>: the views of \<open>main.rs\<close> and \<open>viewer.rs\<close> as trees of elements, and the open page with its canvas as a state
    that page messages, gestures, resizes, effects and frames change.

  Both together.
  \<^item> \<open>Convergence\<close>: server and viewer, as a step relation.
  \<^item> \<open>LibrarySync\<close>: the client's list and the rows of the server's listing.

  What the lemmas show. \<open>Store\<close>: each write keeps \<open>db_inv\<close> (\<open>persist_*_inv\<close>), has exactly the
  outcomes of \<open>persist_*_cases\<close>, and only grows the page (\<open>grows\<close>, \<open>extends\<close>). \<open>Dispatch\<close>: the
  effect of each handler on store, channels and jobs. \<open>Viewer\<close>: each event's effect at one sequence
  number (\<open>event_at\<close>). \<open>Convergence\<close>: what a write changes in the page's ink is what its broadcasts
  do to a viewer (\<open>tracks\<close>), and the session invariant \<open>session_ok\<close>. \<open>Thumbnails\<close>: what later writes
  leave of a revision (\<open>later\<close>, \<open>holds_revision\<close>). \<open>Pages\<close>: \<open>tables_ok\<close> through every request
  (\<open>serve_keeps\<close>), and two databases one caller cannot tell apart (\<open>same_for\<close>). \<open>Auth\<close>: what a valid
  token is (\<open>token_valid\<close>), what a callback must prove (\<open>flow_proof\<close>), and escapes that read back
  (\<open>js_literal_escape\<close>). \<open>Socket\<close>: what one loop iteration does to frames, channel and position
  (\<open>page_event_step\<close>). \<open>Csp\<close>: the scanner finds what a parser of the document finds (\<open>inline_texts\<close>), and the policy read
  back is the one meant (\<open>read_spa_policy\<close>). \<open>Config\<close>: what loads is \<open>sound\<close>. \<open>Observe\<close>: every family registers
  (\<open>register_families\<close>), every sample finds its family (\<open>with_label_values_arity\<close>), every id sent back is safe
  (\<open>generated_id_safe\<close>, \<open>request_id_safe\<close>), and what becomes of a run of log events (\<open>log_events_sinks\<close>). \<open>Router\<close>: no path
  goes to two routes (\<open>one_route\<close>), exactly the handlers that take claims are guarded (\<open>method_endpoint_guarded\<close>), and what
  a request without credentials leaves (\<open>untouched\<close>) and an answer can depend on (\<open>open_handler_same\<close>, \<open>signed_in_same\<close>).
  \<open>Canvas\<close>: what a command list has painted (\<open>paints\<close>), for a batch of marks, a run of segments, a frame; and culling
  (\<open>culled_off_screen\<close>). \<open>Outbox\<close> and \<open>Exporter\<close>: what each event does to the accounts of the queue and of the tasks in
  flight. \<open>Otlp\<close>: the wire form determines what was recorded. \<open>Library\<close>, \<open>LibrarySync\<close>: the list is the listing's order of
  the pages known. \<open>Shell\<close>: what each effect does to screen and history. \<open>Api\<close>: what one attempt leaves.
  \<open>Screen\<close>: a canvas that is behind has an effect or a frame on its way (\<open>viewer_ok\<close>), and every row of the grid is a tile
  (\<open>rows_are_tiles\<close>).

  Bounds. Revisions are \<open>i64\<close>; the invariant needs room for one more revision per write
  (\<open>db_room\<close>), since the code adds one without a check. Loops are structural except the binary
  search, whose range shrinks, and the scans of \<open>Text\<close> and \<open>Csp\<close>, whose input does. The ten attempts of
  discovery are the code's own bound. A connection loop is run over a finite list of what it finds;
  its result tells a loop that ended from one still running. A histogram's
  buckets are rounded to \<open>f64\<close>; they stand at least a 2048th apart, which is wide enough for the roundings to be too.

  Taken as documented: broadcast channels and \<open>select!\<close> of tokio, axum's routing, layers and rejections, the registry of
  prometheus, the filters and layers of tracing, the layers and value conversions of the config crate, the drawing context
  of the HTML standard, the history of a browsing context, the effects and keyed lists of Leptos, \<open>f64\<close> of IEEE 754. A broadcast channel is the list of messages
  sent and each receiver's position in it; its capacity is used where a receiver can lag. The browser's history calls are
  taken to succeed; a server's events reach a client's library socket in the order its changes commit; a clock that runs
  ahead is a value like any other.

  Not modelled. The text of JSON (a parameter where a size or a failure matters), the web socket and JWT libraries, SHA-256,
  random numbers and clocks (arguments), the database engine beyond the statements used, migrations, the raster library,
  the text a registry renders, the listener loops, log lines outside the request line, the subscription of the client's views to
  DOM events, and test code.
\<close>

end
